(* ===== verification/Prelude.thy ===== *)
theory Prelude imports Main "HOL-Library.Word" begin

text \<open>
  Shared vocabulary of the development: the machine integers of the kernel, the result
  type of operations that can stop the machine (\<open>OS_ERROR_HALT\<close> of lib/common.h) or
  run out of loop fuel, the alignment macros, and the generic word and list lemmas the
  components use.
\<close>

unbundle bit_operations_syntax

section \<open>Machine integers\<close>

type_synonym u8 = "8 word"
type_synonym u16 = "16 word"
type_synonym u32 = "32 word"
type_synonym u64 = "64 word"

text \<open>Pointers are 64-bit addresses; \<open>NULL\<close> is 0.\<close>

type_synonym addr = "64 word"

abbreviation NULL :: addr where "NULL \<equiv> 0"

named_theorems word_arith \<open>word arithmetic without wrap-around, as natural numbers\<close>

section \<open>Results\<close>

text \<open>
  \<open>Done x\<close>: the operation returned \<open>x\<close>. \<open>Halt msg\<close>: it reached \<open>OS_ERROR_HALT\<close> or
  \<open>HLT\<close>, which never returns. \<open>NoFuel\<close>: a loop that the source does not bound was
  given too little fuel.
\<close>

datatype 'a res = Done 'a | Halt string | NoFuel

primrec res_bind :: "'a res \<Rightarrow> ('a \<Rightarrow> 'b res) \<Rightarrow> 'b res" where
  "res_bind (Done x) f = f x"
| "res_bind (Halt e) f = Halt e"
| "res_bind NoFuel f = NoFuel"

lemma res_bind_cong [fundef_cong]:
  assumes "m = m'" and "\<And>x. m' = Done x \<Longrightarrow> f x = f' x"
  shows "res_bind m f = res_bind m' f'"
  using assms by (cases m') auto

lemma res_bind_Done_iff: "res_bind m f = Done y \<longleftrightarrow> (\<exists>x. m = Done x \<and> f x = Done y)"
  by (cases m) auto

lemma res_bind_DoneE [elim!]:
  assumes "res_bind m f = Done y"
  obtains x where "m = Done x" and "f x = Done y"
  using assms by (auto simp: res_bind_Done_iff)

lemma res_bind_assoc: "res_bind (res_bind m f) g = res_bind m (\<lambda>x. res_bind (f x) g)"
  by (cases m) auto

lemma res_bind_return [simp]: "res_bind m Done = m"
  by (cases m) auto

text \<open>The machine stopped.\<close>

definition halts :: "'a res \<Rightarrow> bool" where
  "halts r \<longleftrightarrow> (\<exists>msg. r = Halt msg)"

lemma halts_simps [simp]:
  "halts (Halt e)" "\<not> halts (Done x)" "\<not> halts NoFuel" "halts m \<Longrightarrow> halts (res_bind m f)"
  by (auto simp: halts_def)

lemma halts_not_Done [dest]: "r = Done x \<Longrightarrow> halts r \<Longrightarrow> False"
  by simp

text \<open>
  Console messages (\<open>OS_INFO\<close>, \<open>OS_WARN\<close>, \<open>OS_ERROR\<close> of lib/common.h): the format string
  and the integer arguments, as an event. What the console then shows is the matter of
  \<open>printk\<close> and the VGA and serial drivers.
\<close>

datatype kmsg = OS_INFO string "u64 list" | OS_WARN string "u64 list" | OS_ERROR string "u64 list"
  | PRINTK string "u64 list"

section \<open>Words as natural numbers\<close>

lemma unat_add_nowrap [word_arith]:
  fixes a b :: "'a::len word"
  assumes "unat a + unat b < 2 ^ LENGTH('a)"
  shows "unat (a + b) = unat a + unat b"
  using assms by (simp add: unat_word_ariths)

lemma unat_sub_nowrap [word_arith]:
  fixes a b :: "'a::len word"
  assumes "unat b \<le> unat a"
  shows "unat (a - b) = unat a - unat b"
  using assms by (simp add: unat_sub word_le_nat_alt)

lemma unat_u64_less [simp]: "unat (x :: u64) < 18446744073709551616"
  using unsigned_less [of x, where ?'a = nat] by simp

lemma unat_u32_less [simp]: "unat (x :: u32) < 4294967296"
  using unsigned_less [of x, where ?'a = nat] by simp

lemma unat_u16_less [simp]: "unat (x :: u16) < 65536"
  using unsigned_less [of x, where ?'a = nat] by simp

lemma unat_u8_less [simp]: "unat (x :: u8) < 256"
  using unsigned_less [of x, where ?'a = nat] by simp

lemma unat_ucast_up [word_arith]:
  "unat (ucast (x :: u32) :: u64) = unat x"
proof -
  have "take_bit 64 (unat x) = unat x"
    by (rule take_bit_nat_eq_self) (rule less_trans [OF unat_u32_less], simp)
  then show ?thesis by (simp add: unsigned_ucast_eq)
qed

lemma unat_of_nat_u64 [word_arith]:
  "n < 18446744073709551616 \<Longrightarrow> unat (of_nat n :: u64) = n"
  by (simp add: unat_of_nat take_bit_nat_eq_self)

lemma unat_uminus:
  fixes x :: u64
  assumes "x \<noteq> 0"
  shows "unat (- x) = 18446744073709551616 - unat x"
proof -
  have le: "unat x \<le> 18446744073709551616" using unat_u64_less [of x] by linarith
  have pos: "0 < unat x" using assms unat_eq_zero by blast
  have "(of_nat (18446744073709551616 - unat x) :: u64) = of_nat 18446744073709551616 - of_nat (unat x)"
    by (rule of_nat_diff [OF le])
  also have "\<dots> = - x" by simp
  finally have "unat (- x) = unat (of_nat (18446744073709551616 - unat x) :: u64)" by simp
  also have "\<dots> = 18446744073709551616 - unat x" by (rule unat_of_nat_u64) (use pos le in linarith)
  finally show ?thesis .
qed

lemma of_nat_u64_inj:
  assumes "i < 18446744073709551616" and "j < 18446744073709551616"
  shows "(of_nat i :: u64) = of_nat j \<longleftrightarrow> i = j"
  using assms by (metis unat_of_nat_u64)

lemma addr_offset_inj:
  fixes p :: addr
  assumes "i < 18446744073709551616" and "j < 18446744073709551616"
  shows "p + of_nat i = p + of_nat j \<longleftrightarrow> i = j"
  using of_nat_u64_inj [OF assms] by simp

lemma addr_neq_unat: "unat a \<noteq> unat b \<Longrightarrow> a \<noteq> b"
  by auto

section \<open>Alignment\<close>

text \<open>\<open>ALIGN\<close> of lib/common.h, which is also \<open>ROUND_UP\<close> of lib/kmalloc.h.\<close>

definition ALIGN :: "u64 \<Rightarrow> u64 \<Rightarrow> u64" where
  "ALIGN x n = ((x - 1) OR (n - 1)) + 1"

lemma or_mask_word:
  fixes y :: "'a::len word"
  shows "y OR mask k = push_bit k (drop_bit k y) + mask k"
proof -
  have "y OR mask k = push_bit k (drop_bit k y) OR mask k"
    by (rule bit_eqI) (auto simp: bit_or_iff bit_mask_iff bit_push_bit_iff bit_drop_bit_eq)
  also have "\<dots> = push_bit k (drop_bit k y) + mask k"
    by (rule disjunctive_add [symmetric]) (auto simp: bit_mask_iff bit_push_bit_iff)
  finally show ?thesis .
qed

lemma unat_push_drop_u64:
  fixes y :: u64
  shows "unat (push_bit k (drop_bit k y)) = unat y div 2 ^ k * 2 ^ k"
proof -
  have "unat (push_bit k (drop_bit k y)) = take_bit 64 (push_bit k (drop_bit k (unat y)))"
    using unat_u64_less [of y]
    by (simp add: unsigned_push_bit_eq unsigned_drop_bit_eq take_bit_nat_eq_self [where n = 64])
  also have "\<dots> = take_bit 64 (unat y div 2 ^ k * 2 ^ k)"
    by (simp add: push_bit_eq_mult drop_bit_eq_div)
  also have "\<dots> = unat y div 2 ^ k * 2 ^ k"
  proof -
    have "unat y div 2 ^ k * 2 ^ k \<le> unat y" by simp
    also have "\<dots> < 2 ^ 64" using unat_u64_less [of y] by simp
    finally show ?thesis by (simp add: take_bit_nat_eq_self)
  qed
  finally show ?thesis .
qed

lemma unat_ALIGN:
  fixes x :: u64
  assumes x: "1 \<le> unat x" and k: "k < 64"
    and nowrap: "((unat x - 1) div 2 ^ k + 1) * 2 ^ k < 2 ^ 64"
  shows "unat (ALIGN x (2 ^ k)) = ((unat x - 1) div 2 ^ k + 1) * 2 ^ k"
proof -
  let ?m = "push_bit k (drop_bit k (x - 1))"
  have m1: "unat (x - 1) = unat x - 1"
    using x by (simp add: unat_sub_nowrap)
  have eq: "ALIGN x (2 ^ k) = ?m + 2 ^ k"
    by (simp add: ALIGN_def mask_eq_decr_exp [symmetric] or_mask_word) (simp add: mask_eq_decr_exp)
  have p: "unat (2 ^ k :: u64) = 2 ^ k"
  proof -
    have "(2::nat) ^ k < 2 ^ 64" using k by (intro power_strict_increasing) auto
    then have "unat (of_nat (2 ^ k) :: u64) = 2 ^ k" by (intro unat_of_nat_u64) simp
    then show ?thesis by simp
  qed
  have um: "unat ?m = (unat x - 1) div 2 ^ k * 2 ^ k"
    by (simp add: unat_push_drop_u64 m1)
  have dist: "((unat x - 1) div 2 ^ k + 1) * 2 ^ k = (unat x - 1) div 2 ^ k * 2 ^ k + (2::nat) ^ k"
    by simp
  have "unat ?m + unat (2 ^ k :: u64) < 2 ^ LENGTH(64)"
    unfolding um p using nowrap unfolding dist by simp
  then have "unat (?m + 2 ^ k) = unat ?m + unat (2 ^ k :: u64)"
    by (rule unat_add_nowrap)
  then show ?thesis unfolding eq um p dist .
qed

end
