(* ===== verification/Memory.thy ===== *)
theory Memory imports Prelude begin

text \<open>
  Byte-addressed memory as the C code sees it: a map from 64-bit addresses to bytes, with
  the little-endian reads and writes of 4- and 8-byte fields that x86-64 performs, and the
  lemmas that say which bytes an access touches.
\<close>

type_synonym mem = "addr \<Rightarrow> u8"

section \<open>Little-endian accesses\<close>

fun rd_le :: "nat \<Rightarrow> mem \<Rightarrow> addr \<Rightarrow> u64" where
  "rd_le 0 m a = 0"
| "rd_le (Suc n) m a = ucast (m a) OR push_bit 8 (rd_le n m (a + 1))"

fun wr_le :: "nat \<Rightarrow> mem \<Rightarrow> addr \<Rightarrow> u64 \<Rightarrow> mem" where
  "wr_le 0 m a v = m"
| "wr_le (Suc n) m a v = wr_le n (m(a := ucast v)) (a + 1) (drop_bit 8 v)"

definition rd64 :: "mem \<Rightarrow> addr \<Rightarrow> u64" where "rd64 m a = rd_le 8 m a"
definition rd32 :: "mem \<Rightarrow> addr \<Rightarrow> u32" where "rd32 m a = ucast (rd_le 4 m a)"
definition wr64 :: "mem \<Rightarrow> addr \<Rightarrow> u64 \<Rightarrow> mem" where "wr64 m a v = wr_le 8 m a v"
definition wr32 :: "mem \<Rightarrow> addr \<Rightarrow> u32 \<Rightarrow> mem" where "wr32 m a v = wr_le 4 m a (ucast v)"

section \<open>Regions\<close>

text \<open>\<open>in_region b a n\<close>: \<open>b\<close> is one of the \<open>n\<close> bytes from \<open>a\<close>, by offset (so that the
  region may not be described by a comparison that wraps).\<close>

definition in_region :: "addr \<Rightarrow> addr \<Rightarrow> nat \<Rightarrow> bool" where
  "in_region b a n \<longleftrightarrow> unat (b - a) < n"

lemma in_region_self [simp]: "in_region a a n \<longleftrightarrow> 0 < n"
  by (simp add: in_region_def)

lemma in_region_0 [simp]: "\<not> in_region b a 0"
  by (simp add: in_region_def)

lemma in_region_offset:
  "i < 18446744073709551616 \<Longrightarrow> in_region (a + of_nat i) a n \<longleftrightarrow> i < n"
  by (simp add: in_region_def unat_of_nat_u64)

lemma in_region_Suc:
  assumes "n < 18446744073709551616"
  shows "in_region b a (Suc n) \<longleftrightarrow> b = a \<or> in_region b (a + 1) n"
proof (cases "b = a")
  case False
  then have ne: "b - a \<noteq> 0" by simp
  then have "unat (b - a) \<noteq> 0" using unat_eq_zero by metis
  moreover have "unat (b - (a + 1)) = unat (b - a) - 1"
  proof -
    have eq: "b - (a + 1) = (b - a) - 1" by simp
    have "unat ((b - a) - 1) = unat (b - a) - unat (1 :: u64)"
      by (rule unat_sub_nowrap) (use calculation in simp)
    then show ?thesis unfolding eq by simp
  qed
  ultimately show ?thesis using False by (auto simp: in_region_def)
qed simp

lemma in_region_first_not_next:
  assumes "n < 18446744073709551616"
  shows "\<not> in_region a (a + 1) n"
proof -
  have "a - (a + 1) = 18446744073709551615" by simp
  then have "unat (a - (a + 1)) = unat (18446744073709551615 :: u64)" by (rule arg_cong)
  then have "unat (a - (a + 1)) = 18446744073709551615" by simp
  then show ?thesis using assms by (simp add: in_region_def)
qed

text \<open>Without wrap-around a region is an interval.\<close>

lemma in_region_unat:
  assumes "unat a + n \<le> 18446744073709551616"
  shows "in_region b a n \<longleftrightarrow> unat a \<le> unat b \<and> unat b < unat a + n"
proof (cases "unat a \<le> unat b")
  case True
  then show ?thesis by (auto simp: in_region_def unat_sub_nowrap)
next
  case False
  then have lt: "unat b < unat a" by simp
  have ab: "unat (a - b) = unat a - unat b" using lt by (simp add: unat_sub_nowrap)
  have eq: "- (a - b) = b - a" by (rule minus_diff_eq)
  have "a - b \<noteq> 0" using lt by auto
  then have "unat (- (a - b)) = 18446744073709551616 - unat (a - b)" by (rule unat_uminus)
  then have "unat (b - a) = 18446744073709551616 - (unat a - unat b)" unfolding eq ab .
  then show ?thesis unfolding in_region_def using assms lt by linarith
qed

section \<open>What a write touches\<close>

lemma wr_le_outside:
  "n < 18446744073709551616 \<Longrightarrow> \<not> in_region b a n \<Longrightarrow> wr_le n m a v b = m b"
proof (induction n m a v rule: wr_le.induct)
  case (2 n m a v)
  then have "b \<noteq> a" and "\<not> in_region b (a + 1) n" by (auto simp: in_region_Suc)
  moreover have "n < 18446744073709551616" using 2(2) by simp
  ultimately have "wr_le n (m(a := ucast v)) (a + 1) (drop_bit 8 v) b = (m(a := ucast v)) b"
    using 2(1) by blast
  then show ?case using \<open>b \<noteq> a\<close> by simp
qed simp

lemma rd_le_cong:
  assumes "n < 18446744073709551616" and "\<And>b. in_region b a n \<Longrightarrow> m b = m' b"
  shows "rd_le n m a = rd_le n m' a"
  using assms
proof (induction n m a rule: rd_le.induct)
  case (2 n m a)
  then have "rd_le n m (a + 1) = rd_le n m' (a + 1)" by (auto simp: in_region_Suc)
  moreover have "m a = m' a" using 2(3) [of a] by simp
  ultimately show ?case by simp
qed simp

lemma byte_join:
  fixes v :: u64
  shows "ucast (ucast v :: u8) OR push_bit 8 (take_bit k (drop_bit 8 v)) = take_bit (k + 8) v"
  by (rule bit_eqI)
     (auto simp: bit_or_iff bit_push_bit_iff bit_take_bit_iff bit_drop_bit_eq bit_ucast_iff)

lemma rd_wr_le_same:
  "n < 18446744073709551616 \<Longrightarrow> rd_le n (wr_le n m a v) a = take_bit (8 * n) v"
proof (induction n m a v rule: wr_le.induct)
  case (2 n m a v)
  have "\<not> in_region a (a + 1) n" using 2(2) by (intro in_region_first_not_next) simp
  then have "wr_le n (m(a := ucast v)) (a + 1) (drop_bit 8 v) a = ucast v"
    using 2(2) by (simp add: wr_le_outside del: fun_upd_apply) simp
  moreover have "rd_le n (wr_le n (m(a := ucast v)) (a + 1) (drop_bit 8 v)) (a + 1)
      = take_bit (8 * n) (drop_bit 8 v)"
    using 2 by (simp del: fun_upd_apply)
  ultimately show ?case
    by (simp only: rd_le.simps wr_le.simps byte_join) (simp add: add.commute)
qed simp

text \<open>\<open>apart a n b k\<close>: the \<open>n\<close> bytes from \<open>a\<close> and the \<open>k\<close> bytes from \<open>b\<close> share none.\<close>

definition apart :: "addr \<Rightarrow> nat \<Rightarrow> addr \<Rightarrow> nat \<Rightarrow> bool" where
  "apart a n b k \<longleftrightarrow> (\<forall>x. \<not> (in_region x a n \<and> in_region x b k))"

lemma apart_intervals:
  assumes "unat a + n \<le> 18446744073709551616" and "unat b + k \<le> 18446744073709551616"
    and "unat a + n \<le> unat b \<or> unat b + k \<le> unat a"
  shows "apart a n b k"
  using assms by (auto simp: apart_def in_region_unat)

lemma apart_sym: "apart a n b k \<longleftrightarrow> apart b k a n"
  by (auto simp: apart_def)

lemma rd_wr_le_apart:
  assumes "apart a n b k" and "n < 18446744073709551616" and "k < 18446744073709551616"
  shows "rd_le k (wr_le n m a v) b = rd_le k m b"
proof (rule rd_le_cong)
  fix x assume "in_region x b k"
  then have "\<not> in_region x a n" using assms(1) by (auto simp: apart_def)
  then show "wr_le n m a v x = m x" using assms(2) by (simp add: wr_le_outside)
qed (rule assms)

lemma rd64_wr64_same [simp]: "rd64 (wr64 m a v) a = v"
proof -
  have "take_bit 64 v = v" by (rule bit_eqI) (auto simp: bit_take_bit_iff dest: bit_imp_le_length)
  then show ?thesis by (simp add: rd64_def wr64_def rd_wr_le_same)
qed

lemma rd32_wr32_same [simp]: "rd32 (wr32 m a v) a = v"
proof -
  have "ucast (take_bit 32 (ucast v :: u64)) = v"
    by (rule bit_eqI) (auto simp: bit_take_bit_iff bit_ucast_iff)
  then show ?thesis by (simp add: rd32_def wr32_def rd_wr_le_same)
qed

lemma rd64_wr64_apart: "apart a 8 b 8 \<Longrightarrow> rd64 (wr64 m a v) b = rd64 m b"
  by (simp add: rd64_def wr64_def rd_wr_le_apart)

lemma rd32_wr64_apart: "apart a 8 b 4 \<Longrightarrow> rd32 (wr64 m a v) b = rd32 m b"
  by (simp add: rd32_def wr64_def rd_wr_le_apart)

lemma rd64_wr32_apart: "apart a 4 b 8 \<Longrightarrow> rd64 (wr32 m a v) b = rd64 m b"
  by (simp add: rd64_def wr32_def rd_wr_le_apart)

lemma wr64_outside: "\<not> in_region b a 8 \<Longrightarrow> wr64 m a v b = m b"
  by (simp add: wr64_def wr_le_outside)

lemma wr32_outside: "\<not> in_region b a 4 \<Longrightarrow> wr32 m a v b = m b"
  by (simp add: wr32_def wr_le_outside)

lemma rd64_cong: "(\<And>b. in_region b a 8 \<Longrightarrow> m b = m' b) \<Longrightarrow> rd64 m a = rd64 m' a"
  unfolding rd64_def by (rule rd_le_cong) auto

lemma rd32_cong: "(\<And>b. in_region b a 4 \<Longrightarrow> m b = m' b) \<Longrightarrow> rd32 m a = rd32 m' a"
  unfolding rd32_def by (rule arg_cong [where f = ucast], rule rd_le_cong) auto

text \<open>The reads spelt out, for evaluation at concrete memories.\<close>

lemma rd32_bytes:
  "rd32 m a = ucast (ucast (m a) OR push_bit 8 (ucast (m (a + 1)) OR push_bit 8
     (ucast (m (a + 2)) OR push_bit 8 (ucast (m (a + 3)) :: u64))))"
proof -
  have "rd_le 4 m a = rd_le (Suc (Suc (Suc (Suc 0)))) m a" by (simp only: numeral_eq_Suc One_nat_def pred_numeral_simps BitM.simps)
  then show ?thesis by (simp add: rd32_def add.assoc)
qed

lemma rd64_bytes:
  "rd64 m a = ucast (m a) OR push_bit 8 (ucast (m (a + 1)) OR push_bit 8 (ucast (m (a + 2)) OR push_bit 8
     (ucast (m (a + 3)) OR push_bit 8 (ucast (m (a + 4)) OR push_bit 8 (ucast (m (a + 5)) OR push_bit 8
     (ucast (m (a + 6)) OR push_bit 8 (ucast (m (a + 7)))))))))"
proof -
  have "rd_le 8 m a = rd_le (Suc (Suc (Suc (Suc (Suc (Suc (Suc (Suc 0)))))))) m a"
    by (simp only: numeral_eq_Suc One_nat_def pred_numeral_simps BitM.simps)
  then show ?thesis by (simp add: rd64_def add.assoc)
qed

end
