(* ===== verification/CString.thy ===== *)
theory CString imports Memory "HOL-Library.List_Lexorder" begin

text \<open>
  lib/string.c: the memory and string functions of the kernel, on byte-addressed memory. The
  loops are recursions on the number of iterations that are left; \<open>strchr\<close>, the only loop
  without a bound, takes fuel. Reference specifications: \<open>cstring m s xs\<close> says that the bytes
  \<open>xs\<close>, none of them null, and a terminator are at \<open>s\<close>.
\<close>

section \<open>Memory functions\<close>

primrec memset_loop :: "nat \<Rightarrow> addr \<Rightarrow> u8 \<Rightarrow> mem \<Rightarrow> mem" where
  "memset_loop 0 d c m = m"
| "memset_loop (Suc n) d c m = memset_loop n (d + 1) c (m(d := c))"

definition memset :: "addr \<Rightarrow> u32 \<Rightarrow> u64 \<Rightarrow> mem \<Rightarrow> mem" where
  "memset dst c n m = (if n \<noteq> 0 then memset_loop (unat n) dst (ucast c) m else m)"

primrec memcpy_loop :: "nat \<Rightarrow> addr \<Rightarrow> addr \<Rightarrow> mem \<Rightarrow> mem" where
  "memcpy_loop 0 d s m = m"
| "memcpy_loop (Suc n) d s m = memcpy_loop n (d + 1) (s + 1) (m(d := m s))"

definition memcpy :: "addr \<Rightarrow> addr \<Rightarrow> u64 \<Rightarrow> mem \<Rightarrow> mem" where
  "memcpy dest src n m = (if n \<noteq> 0 then memcpy_loop (unat n) dest src m else m)"

section \<open>String functions\<close>

definition MAX_STR_LEN :: u64 where "MAX_STR_LEN = 65536"

text \<open>\<open>while ( *s++ != '\0' \&\& ++len < maxlen )\<close>: \<open>len\<close> grows by one per iteration, so that
  \<open>maxlen\<close> iterations are enough.\<close>

primrec strnlen_loop :: "nat \<Rightarrow> mem \<Rightarrow> addr \<Rightarrow> u64 \<Rightarrow> u64 \<Rightarrow> u64" where
  "strnlen_loop 0 m s len maxlen = len"
| "strnlen_loop (Suc k) m s len maxlen =
     (if m s \<noteq> 0 then (if len + 1 < maxlen then strnlen_loop k m (s + 1) (len + 1) maxlen else len + 1)
      else len)"

definition strnlen :: "mem \<Rightarrow> addr \<Rightarrow> u64 \<Rightarrow> u64" where
  "strnlen m s maxlen = (if s = NULL \<or> maxlen = 0 \<or> m s = 0 then 0 else strnlen_loop (unat maxlen) m s 0 maxlen)"

definition strlen :: "mem \<Rightarrow> addr \<Rightarrow> u64" where
  "strlen m s = strnlen m s MAX_STR_LEN"

text \<open>\<open>do dest[i] = *src++; while ( *src != '\0' \&\& ++i < n )\<close>: at most \<open>n\<close> iterations.\<close>

primrec strncpy_loop :: "nat \<Rightarrow> addr \<Rightarrow> addr \<Rightarrow> u64 \<Rightarrow> u64 \<Rightarrow> mem \<Rightarrow> mem" where
  "strncpy_loop 0 dest src i n m = m"
| "strncpy_loop (Suc k) dest src i n m =
     (let m = m(dest + i := m src); src = src + 1 in
      if m src \<noteq> 0 \<and> i + 1 < n then strncpy_loop k dest src (i + 1) n m else m)"

definition strncpy :: "addr \<Rightarrow> addr \<Rightarrow> u64 \<Rightarrow> mem \<Rightarrow> addr \<times> mem" where
  "strncpy dest src n m =
     (if dest = NULL \<or> src = NULL then (NULL, m)
      else if m src = 0 \<or> n = 0 then (dest, m)
      else (dest, strncpy_loop (unat n) dest src 0 n m))"

definition strcpy :: "addr \<Rightarrow> addr \<Rightarrow> mem \<Rightarrow> addr \<times> mem" where
  "strcpy dest src m =
     (if dest = NULL \<or> src = NULL then (NULL, m)
      else if m src = 0 then (dest, m)
      else (dest, snd (strncpy dest src (strlen m src) m)))"

definition strncat :: "addr \<Rightarrow> addr \<Rightarrow> u64 \<Rightarrow> mem \<Rightarrow> addr \<times> mem" where
  "strncat dest src n m =
     (if dest = NULL \<or> src = NULL then (NULL, m)
      else if m src = 0 \<or> n = 0 then (dest, m)
      else let dest_end = dest + strlen m dest in (dest, snd (strncpy dest_end src n m)))"

definition strcat :: "addr \<Rightarrow> addr \<Rightarrow> mem \<Rightarrow> addr \<times> mem" where
  "strcat dest src m =
     (if dest = NULL \<or> src = NULL then (NULL, m)
      else if m src = 0 then (dest, m)
      else let len = strlen m dest in (dest, snd (strncpy (dest + len) src (strlen m src) m)))"

text \<open>The two bytes are promoted to \<open>int\<close> before the subtraction.\<close>

primrec strncmp_loop :: "nat \<Rightarrow> mem \<Rightarrow> addr \<Rightarrow> addr \<Rightarrow> int" where
  "strncmp_loop 0 m s1 s2 = 0"
| "strncmp_loop (Suc k) m s1 s2 =
     (let c1 = m s1; c2 = m s2; r = int (unat c1) - int (unat c2) in
      if c1 = 0 then r else if c1 = c2 \<and> k \<noteq> 0 then strncmp_loop k m (s1 + 1) (s2 + 1) else r)"

definition strncmp :: "mem \<Rightarrow> addr \<Rightarrow> addr \<Rightarrow> u64 \<Rightarrow> int" where
  "strncmp m s1 s2 n =
     (if s1 = NULL \<or> s2 = NULL then -1 else if n = 0 then 0 else strncmp_loop (unat n) m s1 s2)"

definition strcmp :: "mem \<Rightarrow> addr \<Rightarrow> addr \<Rightarrow> int" where
  "strcmp m s1 s2 =
     (if s1 = NULL \<or> s2 = NULL then -1
      else let len1 = strlen m s1; len2 = strlen m s2 in
        if len1 > len2 then strncmp m s1 s2 len1 else strncmp m s1 s2 len2)"

text \<open>\<open>*s\<close> is a signed \<open>char\<close>, compared with an \<open>int\<close>.\<close>

primrec strchr :: "nat \<Rightarrow> mem \<Rightarrow> addr \<Rightarrow> int \<Rightarrow> addr res" where
  "strchr 0 m s c = NoFuel"
| "strchr (Suc k) m s c = (if sint (m s) = c then Done s else if m s \<noteq> 0 then strchr k m (s + 1) c else Done NULL)"

section \<open>Memory functions: what they compute\<close>

lemma memset_loop_apply:
  "n < 18446744073709551616 \<Longrightarrow> memset_loop n d c m a = (if in_region a d n then c else m a)"
proof (induction n arbitrary: d m)
  case (Suc n)
  then have n: "n < 18446744073709551616" by simp
  show ?case unfolding memset_loop.simps Suc.IH [OF n] in_region_Suc [OF n] by simp
qed simp

lemma memset_apply: "memset dst c n m a = (if in_region a dst (unat n) then ucast c else m a)"
  by (simp add: memset_def memset_loop_apply)

text \<open>Copying upwards is right also when the regions overlap, as long as the target is below the
  source.\<close>

lemma memcpy_loop_apply:
  assumes "unat d + n \<le> 18446744073709551616" "unat s + n \<le> 18446744073709551616"
    and "unat d \<le> unat s \<or> unat s + n \<le> unat d"
  shows "memcpy_loop n d s m a = (if in_region a d n then m (s + (a - d)) else m a)"
  using assms
proof (induction n arbitrary: d s m)
  case (Suc n)
  let ?m = "m(d := m s)"
  show ?case
  proof (cases "n = 0")
    case False
    have u: "unat (d + 1) = unat d + 1" "unat (s + 1) = unat s + 1"
      using Suc.prems(1,2) False by (simp_all add: unat_add_nowrap)
    have IH: "memcpy_loop n (d + 1) (s + 1) ?m a = (if in_region a (d + 1) n then ?m (s + 1 + (a - (d + 1))) else ?m a)"
      by (rule Suc.IH) (use Suc.prems in \<open>auto simp: u\<close>)
    have eq: "s + 1 + (a - (d + 1)) = s + (a - d)" by simp
    have n: "n < 18446744073709551616" using Suc.prems(1) by linarith
    have "?m (s + (a - d)) = m (s + (a - d))" if r: "in_region a (d + 1) n"
    proof -
      have r': "unat d + 1 \<le> unat a" "unat a < unat d + 1 + n"
        using r in_region_unat [of "d + 1" n a] Suc.prems(1) by (auto simp: u)
      have ad: "unat (a - d) = unat a - unat d" using r' by (simp add: unat_sub_nowrap)
      have "unat (s + (a - d)) = unat s + (unat a - unat d)"
        using r' Suc.prems(2) by (subst unat_add_nowrap) (simp_all add: ad)
      then have "s + (a - d) \<noteq> d" using r' Suc.prems(3) by (intro addr_neq_unat) auto
      then show ?thesis by simp
    qed
    then show ?thesis using IH n unfolding eq memcpy_loop.simps
      by (cases "a = d") (auto simp: in_region_Suc in_region_first_not_next)
  qed (auto simp: in_region_Suc)
qed simp

lemma memcpy_apply:
  assumes "unat dest + unat n \<le> 18446744073709551616" "unat src + unat n \<le> 18446744073709551616"
    and "unat dest \<le> unat src \<or> unat src + unat n \<le> unat dest"
  shows "memcpy dest src n m a = (if in_region a dest (unat n) then m (src + (a - dest)) else m a)"
  using memcpy_loop_apply [OF assms] by (simp add: memcpy_def)

section \<open>Strings in memory\<close>

fun cstring :: "mem \<Rightarrow> addr \<Rightarrow> u8 list \<Rightarrow> bool" where
  "cstring m s [] \<longleftrightarrow> m s = 0"
| "cstring m s (x # xs) \<longleftrightarrow> m s = x \<and> x \<noteq> 0 \<and> cstring m (s + 1) xs"

lemma strnlen_loop_cstring:
  "cstring m s xs \<Longrightarrow> unat len < unat maxlen \<Longrightarrow> unat maxlen - unat len \<le> k
   \<Longrightarrow> unat (strnlen_loop k m s len maxlen) = min (unat len + length xs) (unat maxlen)"
proof (induction xs arbitrary: s len k)
  case Nil
  then show ?case by (cases k) auto
next
  case (Cons x xs)
  obtain j where k: "k = Suc j" using Cons.prems(2,3) by (cases k) auto
  have u: "unat (len + 1) = unat len + 1"
    by (subst unat_add_nowrap) (use Cons.prems(2) unat_u64_less [of maxlen] in \<open>simp, linarith\<close>, simp)
  have lt: "len + 1 < maxlen \<longleftrightarrow> unat len + 1 < unat maxlen" by (simp add: word_less_nat_alt u)
  show ?case
  proof (cases "unat len + 1 < unat maxlen")
    case True
    have "unat (strnlen_loop j m (s + 1) (len + 1) maxlen) = min (unat (len + 1) + length xs) (unat maxlen)"
      by (rule Cons.IH) (use Cons.prems True k in \<open>auto simp: u\<close>)
    then show ?thesis using Cons.prems(1) True by (simp add: k lt u)
  next
    case False
    then show ?thesis using Cons.prems by (simp add: k lt u)
  qed
qed

lemma strnlen_cstring:
  assumes "cstring m s xs" "s \<noteq> NULL"
  shows "unat (strnlen m s maxlen) = min (length xs) (unat maxlen)"
proof (cases "maxlen = 0 \<or> m s = 0")
  case True
  then show ?thesis using assms by (cases xs) (auto simp: strnlen_def)
next
  case False
  then have "unat (0 :: u64) < unat maxlen" by (simp add: unat_gt_0)
  then show ?thesis using strnlen_loop_cstring [OF assms(1), of 0 maxlen] False assms(2) by (simp add: strnlen_def)
qed

lemma strlen_cstring:
  assumes "cstring m s xs" "s \<noteq> NULL" "length xs < 65536"
  shows "unat (strlen m s) = length xs"
  using strnlen_cstring [OF assms(1,2), of MAX_STR_LEN] assms(3) by (simp add: strlen_def MAX_STR_LEN_def)

section \<open>Comparison\<close>

definition order_of :: "u8 list \<Rightarrow> u8 list \<Rightarrow> int \<Rightarrow> bool" where
  "order_of xs ys r \<longleftrightarrow> (r < 0 \<longleftrightarrow> xs < ys) \<and> (r = 0 \<longleftrightarrow> xs = ys) \<and> (r > 0 \<longleftrightarrow> ys < xs)"

lemma strncmp_loop_cstring:
  "cstring m s1 xs \<Longrightarrow> cstring m s2 ys \<Longrightarrow> 0 < k \<Longrightarrow> max (length xs) (length ys) \<le> k
   \<Longrightarrow> order_of xs ys (strncmp_loop k m s1 s2)"
proof (induction k arbitrary: s1 s2 xs ys)
  case (Suc k)
  have pos: "0 < uint y \<and> uint y \<noteq> 0" if "y \<noteq> 0" for y :: u8
    using that unat_gt_0 [of y] by (metis less_irrefl of_nat_0_less_iff uint_nat)
  show ?case
  proof (cases xs)
    case Nil
    then show ?thesis using Suc.prems pos by (cases ys) (auto simp: order_of_def Let_def)
  next
    case xs: (Cons x xs')
    show ?thesis
    proof (cases ys)
      case Nil
      then show ?thesis using Suc.prems xs pos by (auto simp: order_of_def Let_def)
    next
      case ys: (Cons y ys')
      have m: "m s1 = x" "x \<noteq> 0" "m s2 = y" "y \<noteq> 0" using Suc.prems xs ys by auto
      show ?thesis
      proof (cases "x = y")
        case True
        have "order_of xs' ys' (strncmp_loop k m (s1 + 1) (s2 + 1))" if "k \<noteq> 0"
          by (rule Suc.IH) (use Suc.prems xs ys that in auto)
        moreover have "xs' = []" "ys' = []" if "k = 0" using that Suc.prems xs ys by auto
        ultimately show ?thesis using m True xs ys by (cases "k = 0") (auto simp: order_of_def Let_def)
      next
        case False
        then have u: "uint x \<noteq> uint y" by (simp add: word_uint_eq_iff)
        have "strncmp_loop (Suc k) m s1 s2 = uint x - uint y" using m False by (simp add: Let_def)
        moreover have "xs < ys \<longleftrightarrow> uint x < uint y" "ys < xs \<longleftrightarrow> uint y < uint x" "xs \<noteq> ys"
          using False xs ys by (simp_all add: word_less_alt)
        ultimately show ?thesis using u by (simp add: order_of_def)
      qed
    qed
  qed
qed simp

lemma strcmp_cstring:
  assumes xs: "cstring m s1 xs" "s1 \<noteq> NULL" "length xs < 65536" and ys: "cstring m s2 ys" "s2 \<noteq> NULL" "length ys < 65536"
  shows "order_of xs ys (strcmp m s1 s2)"
proof -
  note l = strlen_cstring [OF xs] strlen_cstring [OF ys]
  have cmp: "order_of xs ys (strncmp m s1 s2 n)" if n: "unat n = max (length xs) (length ys)" for n
  proof (cases "n = 0")
    case True
    then have "xs = []" "ys = []" using n by auto
    then show ?thesis using True xs(2) ys(2) by (simp add: strncmp_def order_of_def)
  next
    case False
    then have "0 < unat n" using unat_gt_0 by blast
    then show ?thesis
      using strncmp_loop_cstring [OF xs(1) ys(1), of "unat n"] n False xs(2) ys(2) by (simp add: strncmp_def)
  qed
  have gt: "strlen m s1 > strlen m s2 \<longleftrightarrow> length xs > length ys" by (simp add: word_less_nat_alt l)
  show ?thesis using cmp [of "strlen m s1"] cmp [of "strlen m s2"] gt l xs(2) ys(2)
    by (cases "length xs > length ys") (simp_all add: strcmp_def Let_def max_def)
qed

section \<open>Copying\<close>

lemma cstring_cong:
  "(\<And>i. i \<le> length xs \<Longrightarrow> m' (s + of_nat i) = m (s + of_nat i)) \<Longrightarrow> cstring m' s xs = cstring m s xs"
proof (induction xs arbitrary: s)
  case Nil
  then show ?case using Nil [of 0] by simp
next
  case (Cons x xs)
  have "cstring m' (s + 1) xs = cstring m (s + 1) xs"
  proof (rule Cons.IH)
    fix i assume "i \<le> length xs"
    then show "m' (s + 1 + of_nat i) = m (s + 1 + of_nat i)" using Cons.prems [of "Suc i"] by (simp add: add.assoc)
  qed
  then show ?case using Cons.prems [of 0] by simp
qed

lemma cstring_nth:
  "cstring m s xs \<longleftrightarrow> (\<forall>i < length xs. m (s + of_nat i) = xs ! i \<and> xs ! i \<noteq> 0) \<and> m (s + of_nat (length xs)) = 0"
proof (induction xs arbitrary: s)
  case (Cons x xs)
  have a: "(\<forall>i < length (x # xs). P i) \<longleftrightarrow> P 0 \<and> (\<forall>i < length xs. P (Suc i))" for P
    by (auto simp: less_Suc_eq_0_disj)
  show ?case unfolding a using Cons.IH [of "s + 1"] by (auto simp: add.assoc)
qed simp

lemma strncpy_loop_cstring:
  assumes "cstring m src xs" "xs \<noteq> []" "unat i < unat n" "unat n - unat i \<le> k" "c = min (length xs) (unat n - unat i)"
    and "unat src + length xs < 18446744073709551616" "unat (dest + i) + c \<le> 18446744073709551616"
    and "unat (dest + i) + c \<le> unat src \<or> unat src + length xs < unat (dest + i)"
  shows "strncpy_loop k dest src i n m a =
           (if in_region a (dest + i) c then m (src + (a - (dest + i))) else m a)"
  using assms
proof (induction xs arbitrary: k src i m c)
  case (Cons x xs)
  let ?d = "dest + i" and ?m = "m(dest + i := m src)"
  obtain j where k: "k = Suc j" using Cons.prems(3,4) by (cases k) auto
  have i1: "unat (i + 1) = unat i + 1"
    by (subst unat_add_nowrap) (use Cons.prems(3) unat_u64_less [of n] in \<open>simp, linarith\<close>, simp)
  have s1: "unat (src + 1) = unat src + 1" using Cons.prems(6) by (subst unat_add_nowrap) simp_all
  have c1: "1 \<le> c" using Cons.prems(3,5) by simp
  have noteq: "src + 1 + of_nat q \<noteq> ?d" if "q \<le> length xs" for q
  proof (rule addr_neq_unat)
    have u: "unat (src + 1 + of_nat q) = unat src + 1 + q"
    proof (subst unat_add_nowrap)
      have q: "unat (of_nat q :: u64) = q" using that Cons.prems(6) by (intro unat_of_nat_u64) simp
      show "unat (src + 1) + unat (of_nat q :: u64) < 2 ^ LENGTH(64)" unfolding q s1 using that Cons.prems(6) by simp
      show "unat (src + 1) + unat (of_nat q :: u64) = unat src + 1 + q" unfolding q s1 by simp
    qed
    then show "unat (src + 1 + of_nat q) \<noteq> unat ?d" unfolding u using Cons.prems(8) that c1 by auto
  qed
  have str: "cstring ?m (src + 1) xs" using Cons.prems(1) noteq by (subst cstring_cong [of xs _ _ m]) auto
  have m1: "?m (src + 1) = m (src + 1)" using noteq [of 0] by simp
  have lt: "i + 1 < n \<longleftrightarrow> unat i + 1 < unat n" by (simp add: word_less_nat_alt i1)
  show ?case
  proof (cases "xs \<noteq> [] \<and> i + 1 < n")
    case True
    have nz: "m (src + 1) \<noteq> 0" using Cons.prems(1) True by (cases xs) auto
    have c2: "2 \<le> c" "c - 1 = min (length xs) (unat n - unat (i + 1))"
      using True Cons.prems(5) lt i1 by (cases xs; auto)+
    have d1: "unat (dest + (i + 1)) = unat ?d + 1"
    proof -
      have "unat (?d + 1) = unat ?d + 1" using Cons.prems(7) c2(1) by (subst unat_add_nowrap) simp_all
      then show ?thesis by (simp add: add.assoc)
    qed
    have IH: "strncpy_loop j dest (src + 1) (i + 1) n ?m a =
        (if in_region a (dest + (i + 1)) (c - 1) then ?m (src + 1 + (a - (dest + (i + 1)))) else ?m a)"
      by (rule Cons.IH [OF str]) (use True Cons.prems(4,6,7,8) k lt i1 s1 d1 c2 in auto)
    have r: "in_region a ?d c \<longleftrightarrow> a = ?d \<or> in_region a (dest + (i + 1)) (c - 1)"
      using in_region_Suc [of "c - 1" a ?d] Cons.prems(7) c2(1) by (simp add: add.assoc)
    have nr: "\<not> in_region ?d (dest + (i + 1)) (c - 1)"
      using in_region_first_not_next [of "c - 1" ?d] Cons.prems(7) c2(1) by (simp add: add.assoc)
    have eq: "src + 1 + (a - (dest + (i + 1))) = src + (a - ?d)" by simp
    have keep: "?m (src + (a - ?d)) = m (src + (a - ?d))" if "in_region a (dest + (i + 1)) (c - 1)"
    proof -
      have q: "unat (a - (dest + (i + 1))) \<le> length xs" using that c2 by (simp add: in_region_def)
      have "src + 1 + of_nat (unat (a - (dest + (i + 1)))) \<noteq> ?d" by (rule noteq [OF q])
      then have "src + (a - ?d) \<noteq> ?d" unfolding eq [symmetric] by simp
      then show ?thesis by simp
    qed
    have "strncpy_loop k dest src i n m a = strncpy_loop j dest (src + 1) (i + 1) n ?m a"
      using True nz m1 by (simp add: k Let_def)
    then show ?thesis unfolding IH eq using keep r nr by (cases "a = ?d") auto
  next
    case False
    have "c = 1" using False Cons.prems(5) lt c1 by (cases xs) auto
    moreover have "m (src + 1) = 0 \<or> \<not> i + 1 < n" using False Cons.prems(1) by (cases xs) auto
    ultimately have "strncpy_loop k dest src i n m = ?m" using m1 by (auto simp: k Let_def)
    moreover have "in_region a ?d c \<longleftrightarrow> a = ?d"
      using in_region_Suc [of 0 a ?d] \<open>c = 1\<close> by simp
    ultimately show ?thesis by simp
  qed
qed simp

text \<open>\<open>strncpy\<close> copies at most \<open>n\<close> characters and never a terminator.\<close>

lemma strncpy_cstring:
  assumes s: "cstring m src xs" "src \<noteq> NULL" "dest \<noteq> NULL" and c: "c = min (length xs) (unat n)"
    and wrap: "unat src + length xs < 18446744073709551616" "unat dest + c \<le> 18446744073709551616"
    and apart: "unat dest + c \<le> unat src \<or> unat src + length xs < unat dest"
  shows "strncpy dest src n m = (dest, \<lambda>a. if in_region a dest c then m (src + (a - dest)) else m a)"
proof (cases "xs = [] \<or> n = 0")
  case True
  then have "m src = 0 \<or> n = 0" "c = 0" using s(1) c by auto
  then show ?thesis using s by (auto simp: strncpy_def)
next
  case False
  then have "unat (0 :: u64) < unat n" by (simp add: unat_gt_0)
  then have "strncpy_loop (unat n) dest src 0 n m a = (if in_region a dest c then m (src + (a - dest)) else m a)" for a
    using strncpy_loop_cstring [of m src xs 0 n "unat n" c dest a] False s c wrap apart by simp
  moreover have "m src \<noteq> 0" using s(1) False by (cases xs) auto
  ultimately show ?thesis using False s by (auto simp: strncpy_def)
qed

lemma strcpy_cstring:
  assumes s: "cstring m src xs" "src \<noteq> NULL" "dest \<noteq> NULL" "length xs < 65536"
    and wrap: "unat src + length xs < 18446744073709551616" "unat dest + length xs \<le> 18446744073709551616"
    and apart: "unat dest + length xs \<le> unat src \<or> unat src + length xs < unat dest"
  shows "strcpy dest src m = (dest, \<lambda>a. if in_region a dest (length xs) then m (src + (a - dest)) else m a)"
proof -
  have "strncpy dest src (strlen m src) m = (dest, \<lambda>a. if in_region a dest (length xs) then m (src + (a - dest)) else m a)"
    by (rule strncpy_cstring [OF s(1-3)]) (use wrap apart strlen_cstring [OF s(1,2,4)] in auto)
  moreover have "m src = 0 \<longleftrightarrow> xs = []" using s(1) by (cases xs) auto
  ultimately show ?thesis using s by (auto simp: strcpy_def)
qed

text \<open>\<open>strncat\<close> of one character, as \<open>format_char\<close> of lib/printk.c uses it, onto a buffer that is
  cleared behind its string.\<close>

lemma strncat_char:
  assumes d: "cstring m d xs" "d \<noteq> NULL" "length xs < 65536" "m (d + of_nat (length xs) + 1) = 0"
    and wrap: "unat d + length xs < 18446744073709551616" and c: "m p = c" "p \<noteq> NULL"
  shows "\<exists>m'. strncat d p 1 m = (d, m') \<and> cstring m' d (if c = 0 then xs else xs @ [c])"
proof (cases "c = 0")
  case True
  then show ?thesis using d c by (simp add: strncat_def)
next
  case False
  let ?e = "d + of_nat (length xs)" and ?m = "m(d + of_nat (length xs) := c)"
  have u: "unat (of_nat (length xs) :: u64) = length xs" using d(3) by (intro unat_of_nat_u64) simp
  have "unat (strlen m d) = unat (of_nat (length xs) :: u64)" unfolding u by (rule strlen_cstring [OF d(1-3)])
  then have l: "strlen m d = of_nat (length xs)" by (simp only: word_unat_eq_iff)
  have "unat ?e = unat d + length xs" using wrap by (subst unat_add_nowrap) (simp_all add: u)
  moreover have "unat d \<noteq> 0" using d(2) unat_eq_zero by blast
  ultimately have e: "?e \<noteq> NULL" by (intro addr_neq_unat) simp
  have "unat (1 :: u64) = Suc 0" by simp
  then have "strncpy ?e p 1 m = (?e, ?m)" using False c e by (simp add: strncpy_def Let_def)
  then have "strncat d p 1 m = (d, ?m)" using False d c by (simp add: strncat_def Let_def l)
  moreover have "cstring ?m d (xs @ [c])"
  proof -
    have "d + of_nat i \<noteq> ?e" if "i < length xs" for i
      using that d(3) by (subst addr_offset_inj) simp_all
    then show ?thesis using d(1,4) False unfolding cstring_nth
      by (auto simp: less_Suc_eq nth_append add.assoc [symmetric] add.commute)
  qed
  ultimately show ?thesis using False by simp
qed

section \<open>Properties\<close>

text \<open>C40: \<open>strcmp\<close> decides the lexicographic order of two strings of fewer than 65536 bytes (as far as \<open>strlen\<close> counts), bytes
  compared as unsigned characters: its result is negative, zero or positive accordingly.\<close>

theorem strcmp_orders:
  assumes "cstring m s1 xs" "s1 \<noteq> NULL" "length xs < 65536" and "cstring m s2 ys" "s2 \<noteq> NULL" "length ys < 65536"
  shows "(strcmp m s1 s2 < 0 \<longleftrightarrow> xs < ys) \<and> (strcmp m s1 s2 = 0 \<longleftrightarrow> xs = ys) \<and> (0 < strcmp m s1 s2 \<longleftrightarrow> ys < xs)"
  using strcmp_cstring [OF assms] by (simp add: order_of_def)

text \<open>\<open>strcpy\<close> copies the characters of its source but no terminator: over a longer string it
  leaves the tail of that string in place.\<close>

theorem strcpy_leaves_tail:
  assumes src: "cstring m src xs" "src \<noteq> NULL" and dest: "cstring m dest ys" "dest \<noteq> NULL"
    and len: "length xs \<le> length ys" "length ys < 65536"
    and wrap: "unat src + length xs < 18446744073709551616" "unat dest + length ys < 18446744073709551616"
    and apart: "unat dest + length ys < unat src \<or> unat src + length xs < unat dest"
  shows "fst (strcpy dest src m) = dest \<and> cstring (snd (strcpy dest src m)) dest (xs @ drop (length xs) ys)"
proof -
  let ?m = "\<lambda>a. if in_region a dest (length xs) then m (src + (a - dest)) else m a"
  have copy: "strcpy dest src m = (dest, ?m)"
    by (rule strcpy_cstring [OF src dest(2)]) (use len wrap apart in auto)
  have byte: "?m (dest + of_nat i) = (if i < length xs then xs ! i else m (dest + of_nat i))" if "i \<le> length ys" for i
    using in_region_offset [of i dest "length xs"] that len src(1) by (simp add: cstring_nth)
  have "cstring ?m dest (xs @ drop (length xs) ys)"
    unfolding cstring_nth
  proof (intro conjI allI impI)
    fix i assume i: "i < length (xs @ drop (length xs) ys)"
    then have "i \<le> length ys" using len by auto
    then show "?m (dest + of_nat i) = (xs @ drop (length xs) ys) ! i" "(xs @ drop (length xs) ys) ! i \<noteq> 0"
      using byte [of i] i src(1) dest(1) by (auto simp: cstring_nth nth_append)
  next
    show "?m (dest + of_nat (length (xs @ drop (length xs) ys))) = 0"
      using in_region_offset [of "length ys" dest "length xs"] len dest(1) by (simp add: cstring_nth)
  qed
  then show ?thesis by (simp add: copy)
qed

definition sample_strings :: mem where
  "sample_strings = (\<lambda>_. 0)(16 := 97, 17 := 98, 32 := 98, 48 := 99, 49 := 99, 50 := 99)"

lemma sample_cstrings:
  "cstring sample_strings 16 [97, 98]" "cstring sample_strings 32 [98]" "cstring sample_strings 48 [99, 99, 99]"
  by (simp_all add: sample_strings_def)

theorem strcmp_orders_witness: "strcmp sample_strings 16 32 < 0"
  using strcmp_orders [OF sample_cstrings(1) _ _ sample_cstrings(2)] by simp

theorem strcpy_leaves_tail_witness:
  "cstring (snd (strcpy 48 16 sample_strings)) 48 [97, 98, 99]"
  using strcpy_leaves_tail [OF sample_cstrings(1) _ sample_cstrings(3)] by simp

end
