(* ===== verification/Kmalloc.thy ===== *)
theory Kmalloc imports CString begin

text \<open>
  lib/kmalloc.c: the kernel heap, a doubly linked list of blocks. A block is a header of 32
  bytes (ptr 0, size 8, free 12, next 16, prev 24) followed by its payload; headers and
  payloads are bytes of the same memory. \<open>kbrk\<close> is an argument of the operations that call
  it; its state is the field \<open>brk_state\<close>. Traversals of the list take fuel.
\<close>

section \<open>Headers\<close>

definition HEADER_SIZE :: u64 where "HEADER_SIZE = 32"
definition ALIGN_SIZE :: u64 where "ALIGN_SIZE = 16"
definition BIN_SIZE :: u64 where "BIN_SIZE = 65536"
definition MIN_BLK_SIZE :: u64 where "MIN_BLK_SIZE = HEADER_SIZE + ALIGN_SIZE"
definition ROUND_UP :: "u64 \<Rightarrow> u64 \<Rightarrow> u64" where "ROUND_UP n d = ((n - 1) OR (d - 1)) + 1"
definition GET_HEADER :: "addr \<Rightarrow> addr" where "GET_HEADER p = p - HEADER_SIZE"

lemmas heap_sizes = HEADER_SIZE_def ALIGN_SIZE_def BIN_SIZE_def MIN_BLK_SIZE_def

definition h_ptr :: "mem \<Rightarrow> addr \<Rightarrow> addr" where "h_ptr m b = rd64 m b"
definition h_size :: "mem \<Rightarrow> addr \<Rightarrow> u32" where "h_size m b = rd32 m (b + 8)"
definition h_free :: "mem \<Rightarrow> addr \<Rightarrow> bool" where "h_free m b \<longleftrightarrow> m (b + 12) = 1"
definition h_next :: "mem \<Rightarrow> addr \<Rightarrow> addr" where "h_next m b = rd64 m (b + 16)"
definition h_prev :: "mem \<Rightarrow> addr \<Rightarrow> addr" where "h_prev m b = rd64 m (b + 24)"

definition set_ptr :: "addr \<Rightarrow> addr \<Rightarrow> mem \<Rightarrow> mem" where "set_ptr b v m = wr64 m b v"
definition set_size :: "addr \<Rightarrow> u64 \<Rightarrow> mem \<Rightarrow> mem" where "set_size b v m = wr32 m (b + 8) (ucast v)"
definition set_free :: "addr \<Rightarrow> bool \<Rightarrow> mem \<Rightarrow> mem" where "set_free b v m = m(b + 12 := of_bool v)"
definition set_next :: "addr \<Rightarrow> addr \<Rightarrow> mem \<Rightarrow> mem" where "set_next b v m = wr64 m (b + 16) v"
definition set_prev :: "addr \<Rightarrow> addr \<Rightarrow> mem \<Rightarrow> mem" where "set_prev b v m = wr64 m (b + 24) v"

text \<open>A 32-bit size in the 64-bit arithmetic of \<open>size_t\<close>.\<close>

abbreviation size64 :: "mem \<Rightarrow> addr \<Rightarrow> u64" where "size64 m b \<equiv> ucast (h_size m b)"

section \<open>Merging and splitting\<close>

definition merge_blocks :: "addr \<Rightarrow> addr \<Rightarrow> mem \<Rightarrow> mem" where
  "merge_blocks b1 b2 m =
     (if \<not> (b1 \<noteq> NULL \<and> b2 \<noteq> NULL \<and> h_free m b1 \<and> h_free m b2) then m
      else if \<not> (h_ptr m b1 + size64 m b1 = b2) then m
      else let m = set_size b1 (size64 m b1 + (size64 m b2 + HEADER_SIZE)) m;
               m = set_next b1 (h_next m b2) m
           in if h_next m b2 \<noteq> NULL then set_prev (h_next m b2) b1 m else m)"

definition split_block :: "addr \<Rightarrow> u64 \<Rightarrow> mem \<Rightarrow> mem" where
  "split_block block sz m =
     (if size64 m block < sz + MIN_BLK_SIZE then m
      else let new_b = h_ptr m block + sz;
               m = set_ptr new_b (new_b + HEADER_SIZE) m;
               m = set_size new_b (size64 m block - sz - HEADER_SIZE) m;
               m = set_free new_b True m;
               m = set_prev new_b block m;
               m = (if h_next m block \<noteq> NULL
                    then let m = set_next new_b (h_next m block) m;
                             m = set_prev (h_next m new_b) new_b m
                         in merge_blocks new_b (h_next m new_b) m
                    else set_next new_b NULL m);
               m = set_size block sz m
           in set_next block new_b m)"

section \<open>Allocation\<close>

record 'b kheap =
  kmem :: mem
  kernel_heap_head :: addr
  brk_state :: 'b
  kerrno :: int
  heap_log :: "kmsg list"

type_synonym 'b brk_fn = "u64 \<Rightarrow> 'b \<Rightarrow> (addr \<times> 'b) res"

definition ENOMEM :: int where "ENOMEM = 12"
definition EFAULT :: int where "EFAULT = 14"

definition do_brk :: "'b brk_fn \<Rightarrow> u64 \<Rightarrow> 'b kheap \<Rightarrow> (addr \<times> 'b kheap) res" where
  "do_brk brk inc s = res_bind (brk inc (brk_state s)) (\<lambda>(p, bs). Done (p, s\<lparr>brk_state := bs\<rparr>))"

definition on_mem :: "(mem \<Rightarrow> mem) \<Rightarrow> 'b kheap \<Rightarrow> 'b kheap" where
  "on_mem f s = s\<lparr>kmem := f (kmem s)\<rparr>"

definition extend_mem :: "'b brk_fn \<Rightarrow> u64 \<Rightarrow> addr \<Rightarrow> addr \<Rightarrow> 'b kheap \<Rightarrow> (addr \<times> 'b kheap) res" where
  "extend_mem brk min_blk_size prev next s =
     res_bind (do_brk brk 0 s) (\<lambda>(top, s).
     res_bind (if top mod ALIGN_SIZE \<noteq> 0
               then res_bind (do_brk brk 0 s) (\<lambda>(top, s). do_brk brk (ALIGN_SIZE - top mod ALIGN_SIZE) s)
               else Done (top, s)) (\<lambda>(_, s).
     let total_size = ROUND_UP min_blk_size BIN_SIZE in
     res_bind (do_brk brk (total_size + HEADER_SIZE) s) (\<lambda>(b, s).
     if b = - 1 then Done (NULL, s)
     else let s = on_mem (set_ptr b (b + HEADER_SIZE)) s;
              s = on_mem (set_size b total_size) s;
              s = on_mem (set_free b True) s;
              s = on_mem (set_next b next) s;
              s = on_mem (set_prev b prev) s
          in Done (b, on_mem (split_block b min_blk_size) s))))"

text \<open>The traversal of \<open>get_empty_mem\<close> from block \<open>b\<close> on; the last block of the list is followed
  by the block \<open>extend_mem\<close> makes. It returns the block it broke out with, or \<open>NULL\<close>, and the
  backup \<open>b_alt\<close>.\<close>

primrec find_empty ::
    "nat \<Rightarrow> 'b brk_fn \<Rightarrow> u64 \<Rightarrow> addr \<Rightarrow> addr \<Rightarrow> 'b kheap \<Rightarrow> ((addr \<times> addr) \<times> 'b kheap) res" where
  "find_empty 0 brk sz b b_alt s = NoFuel"
| "find_empty (Suc fuel) brk sz b b_alt s =
     (if b = NULL then Done ((NULL, b_alt), s)
      else if h_free (kmem s) b \<and> size64 (kmem s) b = sz then Done ((b, b_alt), s)
      else let larger = h_free (kmem s) b \<and> size64 (kmem s) b > sz;
               b_alt = (if larger then b else b_alt)
           in if larger \<and> h_next (kmem s) b = NULL then Done ((b, b_alt), s)
              else if h_next (kmem s) b = NULL
              then res_bind (extend_mem brk sz b NULL s) (\<lambda>(nb, s).
                     let s = on_mem (set_next b nb) s
                     in find_empty fuel brk sz (h_next (kmem s) b) b_alt s)
              else find_empty fuel brk sz (h_next (kmem s) b) b_alt s)"

definition get_empty_mem :: "nat \<Rightarrow> 'b brk_fn \<Rightarrow> u64 \<Rightarrow> 'b kheap \<Rightarrow> (addr \<times> 'b kheap) res" where
  "get_empty_mem fuel brk sz s =
     res_bind (if kernel_heap_head s = NULL
               then res_bind (extend_mem brk BIN_SIZE NULL NULL s) (\<lambda>(b, s). Done (s\<lparr>kernel_heap_head := b\<rparr>))
               else Done s) (\<lambda>s.
     res_bind (find_empty fuel brk sz (kernel_heap_head s) NULL s) (\<lambda>((b, b_alt), s).
     let b = (if b = NULL then b_alt else b) in
     if b = NULL then Done (NULL, s)
     else Done (b, on_mem (set_free b False) (on_mem (split_block b sz) s))))"

definition kmalloc :: "nat \<Rightarrow> 'b brk_fn \<Rightarrow> u64 \<Rightarrow> 'b kheap \<Rightarrow> (addr \<times> 'b kheap) res" where
  "kmalloc fuel brk sz s =
     (let sz = (if sz < 1 then sz + 1 else sz);
          total_size = ROUND_UP sz ALIGN_SIZE in
      if sz > 0xFFFFFFFF \<or> total_size > 0xFFFFFFFF then Done (NULL, s\<lparr>kerrno := ENOMEM\<rparr>)
      else res_bind (get_empty_mem fuel brk total_size s) (\<lambda>(b, s).
        if b = NULL then Done (NULL, s\<lparr>kerrno := ENOMEM\<rparr>)
        else Done (h_ptr (kmem s) b, s)))"

definition kcalloc :: "nat \<Rightarrow> 'b brk_fn \<Rightarrow> u64 \<Rightarrow> u64 \<Rightarrow> 'b kheap \<Rightarrow> (addr \<times> 'b kheap) res" where
  "kcalloc fuel brk nmemb sz s =
     (let total_size = ROUND_UP (nmemb * sz) ALIGN_SIZE in
      if nmemb > 0xFFFFFFFF \<or> sz > 0xFFFFFFFF \<or> total_size > 0xFFFFFFFF
      then Done (NULL, s\<lparr>kerrno := ENOMEM\<rparr>)
      else res_bind (kmalloc fuel brk total_size s) (\<lambda>(ptr, s).
        if ptr = NULL then Done (NULL, s)
        else Done (ptr, on_mem (\<lambda>m. memset ptr 0 (size64 m (GET_HEADER ptr)) m) s)))"

section \<open>Freeing\<close>

primrec find_block :: "nat \<Rightarrow> mem \<Rightarrow> addr \<Rightarrow> addr \<Rightarrow> addr res" where
  "find_block 0 m p b = NoFuel"
| "find_block (Suc fuel) m p b =
     (if b = NULL then Done NULL
      else if b \<le> p \<and> p < h_ptr m b + size64 m b then Done b
      else find_block fuel m p (h_next m b))"

definition heap_say :: "kmsg \<Rightarrow> 'b kheap \<Rightarrow> 'b kheap" where
  "heap_say k s = s\<lparr>heap_log := k # heap_log s\<rparr>"

definition kfree :: "nat \<Rightarrow> 'b brk_fn \<Rightarrow> addr \<Rightarrow> 'b kheap \<Rightarrow> 'b kheap res" where
  "kfree fuel brk ptr s =
     (if ptr = NULL then Done s
      else res_bind (if ptr < kernel_heap_head s then Done (True, s)
                     else res_bind (do_brk brk 0 s) (\<lambda>(top, s). Done (top - MIN_BLK_SIZE < ptr, s)))
        (\<lambda>(bad, s).
        if bad then Done (heap_say (OS_WARN ''kfree(%p): Invalid pointer!'' [ptr]) s\<lparr>kerrno := EFAULT\<rparr>)
        else res_bind (find_block fuel (kmem s) ptr (kernel_heap_head s)) (\<lambda>b.
        if b = NULL then Done (heap_say (OS_ERROR ''kfree(%p): Invalid pointer!'' [ptr]) s\<lparr>kerrno := EFAULT\<rparr>)
        else let s = on_mem (set_free b True) s;
                 s = on_mem (\<lambda>m. merge_blocks b (h_next m b) m) s
             in Done (on_mem (\<lambda>m. merge_blocks (h_prev m b) b m) s))))"

section \<open>Reallocation\<close>

definition krealloc :: "nat \<Rightarrow> 'b brk_fn \<Rightarrow> addr \<Rightarrow> u64 \<Rightarrow> 'b kheap \<Rightarrow> (addr \<times> 'b kheap) res" where
  "krealloc fuel brk ptr sz s =
     (if ptr = NULL then kmalloc fuel brk sz s
      else if sz = 0 then res_bind (kfree fuel brk ptr s) (\<lambda>s. Done (NULL, s))
      else
      let total_size = ROUND_UP sz ALIGN_SIZE in
      if sz > 0xFFFFFFFF \<or> total_size > 0xFFFFFFFF then Done (NULL, s\<lparr>kerrno := ENOMEM\<rparr>)
      else
      let b = GET_HEADER ptr in
      if total_size < size64 (kmem s) b then Done (ptr, on_mem (split_block b total_size) s)
      else
      let s = on_mem (set_free b True) s;
          s = on_mem (\<lambda>m. merge_blocks b (h_next m b) m) s;
          (new_ptr, s) = (if size64 (kmem s) b < total_size
             then (NULL, on_mem (\<lambda>m. merge_blocks (h_prev m b) b m) s)
             else (h_ptr (kmem s) b, s));
          s = on_mem (set_free b False) s
      in res_bind (if size64 (kmem s) b < total_size
           then res_bind (kmalloc fuel brk total_size s) (\<lambda>(new_ptr, s).
                let s = on_mem (memcpy new_ptr ptr (size64 (kmem s) b)) s
                in res_bind (kfree fuel brk ptr s) (\<lambda>s. Done (new_ptr, s)))
           else Done (new_ptr, s)) (\<lambda>(new_ptr, s).
         Done (new_ptr, on_mem (split_block (GET_HEADER new_ptr) sz) s)))"

section \<open>Clean-up\<close>

primrec cleanup_loop :: "nat \<Rightarrow> 'b brk_fn \<Rightarrow> addr \<Rightarrow> nat \<Rightarrow> 'b kheap \<Rightarrow> (nat \<times> 'b kheap) res" where
  "cleanup_loop 0 brk b n s = NoFuel"
| "cleanup_loop (Suc fuel) brk b n s =
     (if b \<noteq> NULL \<and> h_next (kmem s) b \<noteq> NULL
      then if \<not> h_free (kmem s) b
           then res_bind (kfree fuel brk (h_ptr (kmem s) b) s) (\<lambda>s.
                  cleanup_loop fuel brk (h_next (kmem s) (kernel_heap_head s)) (Suc n) s)
           else cleanup_loop fuel brk (h_next (kmem s) b) n s
      else Done (n, s))"

definition kmalloc_cleanup :: "nat \<Rightarrow> 'b brk_fn \<Rightarrow> 'b kheap \<Rightarrow> 'b kheap res" where
  "kmalloc_cleanup fuel brk s =
     (if kernel_heap_head s = NULL then Done s
      else res_bind (cleanup_loop fuel brk (kernel_heap_head s) 0 s) (\<lambda>(n, s).
        let s = (if n > 0 then heap_say (OS_WARN ''There are %d unfreed blocks!'' [of_nat n]) s else s);
            h = kernel_heap_head s in
        res_bind (do_brk brk 0 s) (\<lambda>(top, s).
        if h_ptr (kmem s) h + size64 (kmem s) h = top
        then res_bind (do_brk brk (- size64 (kmem s) h) s) (\<lambda>(ret, s).
               if ret \<noteq> - 1 then Done (heap_say (OS_INFO ''All memory was successfully returned!'' []) s)
               else Done (heap_say (OS_ERROR ''An error occurred while cleaning up! :('' []) s))
        else Done (heap_say (OS_ERROR ''An error occurred while cleaning up! :('' []) s))))"

end
