(* ===== verification/HeapList.thy ===== *)
theory HeapList imports Kmalloc begin

text \<open>
  The heap of lib/kmalloc.c as a list of blocks: how \<open>merge_blocks\<close> and \<open>split_block\<close>, which
  work on header bytes, change that list. A block is its header's address, the size of its
  payload and its free flag.
\<close>

type_synonym blk = "addr \<times> nat \<times> bool"

section \<open>Fields of one header\<close>

lemma unat_offset:
  fixes b :: addr
  assumes "unat b + k \<le> 18446744073709551616" "i < k"
  shows "unat (b + of_nat i) = unat b + i"
proof -
  have "i < 18446744073709551616" using assms by linarith
  then have i: "unat (of_nat i :: addr) = i" by (rule unat_of_nat_u64)
  have "unat (b + of_nat i) = unat b + unat (of_nat i :: addr)"
  proof (rule unat_add_nowrap)
    have "unat b + i < 18446744073709551616" using assms by linarith
    then show "unat b + unat (of_nat i :: addr) < 2 ^ LENGTH(64)" unfolding i by simp
  qed
  then show ?thesis unfolding i .
qed

lemma apart_offsets:
  assumes "unat b + 32 \<le> 18446744073709551616" "i + n \<le> j \<or> j + k \<le> i" "i + n \<le> 32" "j + k \<le> 32"
    "0 < n" "0 < k"
  shows "apart (b + of_nat i) n (b + of_nat j) k"
  using assms unat_offset [OF assms(1), of i] unat_offset [OF assms(1), of j]
  by (intro apart_intervals) auto

text \<open>A header that does not wrap around the address space.\<close>

definition hdr_ok :: "addr \<Rightarrow> bool" where
  "hdr_ok b \<longleftrightarrow> unat b + 32 \<le> 18446744073709551616"

lemma field_apart:
  assumes "hdr_ok b"
  shows "apart b 8 (b + 8) 4" "apart b 8 (b + 16) 8" "apart b 8 (b + 24) 8"
    "apart (b + 8) 4 b 8" "apart (b + 8) 4 (b + 16) 8" "apart (b + 8) 4 (b + 24) 8"
    "apart (b + 16) 8 b 8" "apart (b + 16) 8 (b + 8) 4" "apart (b + 16) 8 (b + 24) 8"
    "apart (b + 24) 8 b 8" "apart (b + 24) 8 (b + 8) 4" "apart (b + 24) 8 (b + 16) 8"
    "apart (b + 12) 1 b 8" "apart (b + 12) 1 (b + 8) 4" "apart (b + 12) 1 (b + 16) 8" "apart (b + 12) 1 (b + 24) 8"
  using apart_offsets [of b 0 8 8 4] apart_offsets [of b 0 8 16 8] apart_offsets [of b 0 8 24 8]
    apart_offsets [of b 8 4 16 8] apart_offsets [of b 8 4 24 8] apart_offsets [of b 16 8 24 8]
    apart_offsets [of b 12 1 0 8] apart_offsets [of b 12 1 8 4] apart_offsets [of b 12 1 16 8]
    apart_offsets [of b 12 1 24 8] assms apart_sym
  by (auto simp: hdr_ok_def)

lemma free_byte_outside:
  assumes "hdr_ok b"
  shows "\<not> in_region (b + 12) b 8" "\<not> in_region (b + 12) (b + 8) 4"
    "\<not> in_region (b + 12) (b + 16) 8" "\<not> in_region (b + 12) (b + 24) 8"
  using field_apart(13-16) [OF assms] by (auto simp: apart_def)

lemma rd_upd_apart:
  assumes "apart a 1 b 8" shows "rd64 (m(a := v)) b = rd64 m b"
  by (rule rd64_cong) (use assms in \<open>auto simp: apart_def\<close>)

lemma rd32_upd_apart:
  assumes "apart a 1 b 4" shows "rd32 (m(a := v)) b = rd32 m b"
  by (rule rd32_cong) (use assms in \<open>auto simp: apart_def\<close>)

lemmas setters = set_ptr_def set_size_def set_free_def set_next_def set_prev_def
lemmas getters = h_ptr_def h_size_def h_free_def h_next_def h_prev_def

lemma field_same:
  assumes "hdr_ok b"
  shows "h_ptr (set_ptr b v m) b = v" "h_ptr (set_size b v m) b = h_ptr m b"
    "h_ptr (set_free b f m) b = h_ptr m b" "h_ptr (set_next b v m) b = h_ptr m b" "h_ptr (set_prev b v m) b = h_ptr m b"
    "h_size (set_ptr b v m) b = h_size m b" "h_size (set_size b v m) b = ucast v"
    "h_size (set_free b f m) b = h_size m b" "h_size (set_next b v m) b = h_size m b" "h_size (set_prev b v m) b = h_size m b"
    "h_free (set_ptr b v m) b = h_free m b" "h_free (set_size b v m) b = h_free m b"
    "h_free (set_free b f m) b = f" "h_free (set_next b v m) b = h_free m b" "h_free (set_prev b v m) b = h_free m b"
    "h_next (set_ptr b v m) b = h_next m b" "h_next (set_size b v m) b = h_next m b"
    "h_next (set_free b f m) b = h_next m b" "h_next (set_next b v m) b = v" "h_next (set_prev b v m) b = h_next m b"
    "h_prev (set_ptr b v m) b = h_prev m b" "h_prev (set_size b v m) b = h_prev m b"
    "h_prev (set_free b f m) b = h_prev m b" "h_prev (set_next b v m) b = h_prev m b" "h_prev (set_prev b v m) b = v"
  using field_apart [OF assms] free_byte_outside [OF assms]
  by (simp_all add: setters getters rd64_wr64_apart rd32_wr64_apart rd64_wr32_apart rd_upd_apart
      rd32_upd_apart wr64_outside wr32_outside)

section \<open>Fields of other headers\<close>

lemma in_region_sub:
  assumes "unat b + 32 \<le> 18446744073709551616" "i + n \<le> 32" "in_region x (b + of_nat i) n"
  shows "in_region x b 32"
proof (cases "n = 0")
  case False
  then have u: "unat (b + of_nat i) = unat b + i" using unat_offset [OF assms(1), of i] assms(2) by simp
  then show ?thesis
    using assms in_region_unat [of b 32 x] in_region_unat [of "b + of_nat i" n x] by auto
qed (use assms in simp)

lemma set_outside:
  assumes "hdr_ok b" "\<not> in_region x b 32"
  shows "set_ptr b v m x = m x" "set_size b v m x = m x" "set_free b f m x = m x"
    "set_next b v m x = m x" "set_prev b v m x = m x"
proof -
  have o: "\<not> in_region x (b + of_nat i) n" if "i + n \<le> 32" for i n
    using in_region_sub assms that by (auto simp: hdr_ok_def)
  have f: "x \<noteq> b + 12" using o [of 12 1] by auto
  show "set_ptr b v m x = m x" "set_size b v m x = m x" "set_free b f m x = m x"
    "set_next b v m x = m x" "set_prev b v m x = m x"
    using o [of 0 8] o [of 8 4] o [of 16 8] o [of 24 8] f
    by (simp_all add: setters wr64_outside wr32_outside)
qed

lemma get_cong:
  assumes "hdr_ok a" "\<And>x. in_region x a 32 \<Longrightarrow> m' x = m x"
  shows "h_ptr m' a = h_ptr m a" "h_size m' a = h_size m a" "h_free m' a = h_free m a"
    "h_next m' a = h_next m a" "h_prev m' a = h_prev m a"
proof -
  have o: "in_region x (a + of_nat i) n \<Longrightarrow> m' x = m x" if "i + n \<le> 32" for i n x
    using in_region_sub assms that by (auto simp: hdr_ok_def)
  have f: "m' (a + 12) = m (a + 12)" using o [of 12 1 "a + 12"] by simp
  show "h_ptr m' a = h_ptr m a" "h_size m' a = h_size m a" "h_free m' a = h_free m a"
    "h_next m' a = h_next m a" "h_prev m' a = h_prev m a"
    using o [of 0 8] o [of 8 4] o [of 16 8] o [of 24 8] f
    by (auto simp: getters intro!: rd64_cong rd32_cong)
qed

text \<open>Two headers that do not overlap.\<close>

definition hdr_apart :: "addr \<Rightarrow> addr \<Rightarrow> bool" where
  "hdr_apart a b \<longleftrightarrow> hdr_ok a \<and> hdr_ok b \<and> apart a 32 b 32"

lemma hdr_apart_sym: "hdr_apart a b \<longleftrightarrow> hdr_apart b a"
  using apart_sym [of a 32 b 32] by (auto simp: hdr_apart_def)

lemma hdr_apartI:
  "hdr_ok a \<Longrightarrow> hdr_ok b \<Longrightarrow> unat a + 32 \<le> unat b \<or> unat b + 32 \<le> unat a \<Longrightarrow> hdr_apart a b"
  by (simp add: hdr_apart_def hdr_ok_def apart_intervals)

lemma field_other:
  assumes "hdr_apart a b"
  shows "h_ptr (set_ptr b v m) a = h_ptr m a" "h_ptr (set_size b v m) a = h_ptr m a"
    "h_ptr (set_free b f m) a = h_ptr m a" "h_ptr (set_next b v m) a = h_ptr m a" "h_ptr (set_prev b v m) a = h_ptr m a"
    "h_size (set_ptr b v m) a = h_size m a" "h_size (set_size b v m) a = h_size m a"
    "h_size (set_free b f m) a = h_size m a" "h_size (set_next b v m) a = h_size m a" "h_size (set_prev b v m) a = h_size m a"
    "h_free (set_ptr b v m) a = h_free m a" "h_free (set_size b v m) a = h_free m a"
    "h_free (set_free b f m) a = h_free m a" "h_free (set_next b v m) a = h_free m a" "h_free (set_prev b v m) a = h_free m a"
    "h_next (set_ptr b v m) a = h_next m a" "h_next (set_size b v m) a = h_next m a"
    "h_next (set_free b f m) a = h_next m a" "h_next (set_next b v m) a = h_next m a" "h_next (set_prev b v m) a = h_next m a"
    "h_prev (set_ptr b v m) a = h_prev m a" "h_prev (set_size b v m) a = h_prev m a"
    "h_prev (set_free b f m) a = h_prev m a" "h_prev (set_next b v m) a = h_prev m a" "h_prev (set_prev b v m) a = h_prev m a"
proof -
  have a: "hdr_ok a" and b: "hdr_ok b" and d: "\<And>x. in_region x a 32 \<Longrightarrow> \<not> in_region x b 32"
    using assms by (auto simp: hdr_apart_def apart_def)
  note o = set_outside [OF b d]
  show "h_ptr (set_ptr b v m) a = h_ptr m a" "h_ptr (set_size b v m) a = h_ptr m a"
    "h_ptr (set_free b f m) a = h_ptr m a" "h_ptr (set_next b v m) a = h_ptr m a" "h_ptr (set_prev b v m) a = h_ptr m a"
    "h_size (set_ptr b v m) a = h_size m a" "h_size (set_size b v m) a = h_size m a"
    "h_size (set_free b f m) a = h_size m a" "h_size (set_next b v m) a = h_size m a" "h_size (set_prev b v m) a = h_size m a"
    "h_free (set_ptr b v m) a = h_free m a" "h_free (set_size b v m) a = h_free m a"
    "h_free (set_free b f m) a = h_free m a" "h_free (set_next b v m) a = h_free m a" "h_free (set_prev b v m) a = h_free m a"
    "h_next (set_ptr b v m) a = h_next m a" "h_next (set_size b v m) a = h_next m a"
    "h_next (set_free b f m) a = h_next m a" "h_next (set_next b v m) a = h_next m a" "h_next (set_prev b v m) a = h_next m a"
    "h_prev (set_ptr b v m) a = h_prev m a" "h_prev (set_size b v m) a = h_prev m a"
    "h_prev (set_free b f m) a = h_prev m a" "h_prev (set_next b v m) a = h_prev m a" "h_prev (set_prev b v m) a = h_prev m a"
    by (rule get_cong [OF a]; simp add: o)+
qed

section \<open>The list of blocks\<close>

definition hdr :: "mem \<Rightarrow> addr \<Rightarrow> addr \<Rightarrow> nat \<Rightarrow> bool \<Rightarrow> bool" where
  "hdr m a p n f \<longleftrightarrow> a \<noteq> NULL \<and> h_ptr m a = a + 32 \<and> unat (h_size m a) = n \<and> h_free m a = f \<and> h_prev m a = p"

text \<open>\<open>seg m p b xs q c\<close>: from \<open>b\<close>, whose predecessor is \<open>p\<close>, the blocks \<open>xs\<close> lead to \<open>c\<close>, whose
  predecessor is \<open>q\<close>. \<open>chain\<close>: up to the end of the list.\<close>

fun seg :: "mem \<Rightarrow> addr \<Rightarrow> addr \<Rightarrow> blk list \<Rightarrow> addr \<Rightarrow> addr \<Rightarrow> bool" where
  "seg m p b [] q c \<longleftrightarrow> p = q \<and> b = c"
| "seg m p b ((a, n, f) # xs) q c \<longleftrightarrow> b = a \<and> hdr m a p n f \<and> seg m a (h_next m a) xs q c"

fun chain :: "mem \<Rightarrow> addr \<Rightarrow> addr \<Rightarrow> blk list \<Rightarrow> bool" where
  "chain m p b [] \<longleftrightarrow> b = NULL"
| "chain m p b ((a, n, f) # xs) \<longleftrightarrow> b = a \<and> hdr m a p n f \<and> chain m a (h_next m a) xs"

text \<open>Blocks in address order that do not overlap, between \<open>lo\<close> and \<open>hi\<close>.\<close>

fun spaced :: "nat \<Rightarrow> nat \<Rightarrow> blk list \<Rightarrow> bool" where
  "spaced lo hi [] \<longleftrightarrow> lo \<le> hi"
| "spaced lo hi ((a, n, f) # xs) \<longleftrightarrow> lo \<le> unat a \<and> spaced (unat a + 32 + n) hi xs"

definition addrs :: "blk list \<Rightarrow> addr set" where "addrs xs = fst ` set xs"

lemma addrs_simps [simp]: "addrs [] = {}" "addrs (x # xs) = insert (fst x) (addrs xs)"
  "addrs (xs @ ys) = addrs xs \<union> addrs ys"
  by (auto simp: addrs_def)

lemma chain_append: "chain m p b (xs @ ys) \<longleftrightarrow> (\<exists>q c. seg m p b xs q c \<and> chain m q c ys)"
proof (induction xs arbitrary: p b)
  case (Cons y xs)
  show ?case by (cases y) (simp add: Cons.IH)
qed simp

lemma seg_append: "seg m p b (xs @ ys) q c \<longleftrightarrow> (\<exists>r d. seg m p b xs r d \<and> seg m r d ys q c)"
proof (induction xs arbitrary: p b)
  case (Cons y xs)
  show ?case by (cases y) (simp add: Cons.IH)
qed simp

lemma spaced_le: "spaced lo hi xs \<Longrightarrow> lo \<le> hi"
  by (induction lo hi xs rule: spaced.induct) auto

lemma spaced_append:
  "spaced lo hi (xs @ ys) \<longleftrightarrow> (\<exists>mid. spaced lo mid xs \<and> spaced mid hi ys)"
proof (induction xs arbitrary: lo)
  case Nil
  then show ?case
    by (cases ys) (auto intro: order_trans dest: spaced_le)
qed auto

lemma spaced_weaken: "spaced lo hi xs \<Longrightarrow> lo' \<le> lo \<Longrightarrow> hi \<le> hi' \<Longrightarrow> spaced lo' hi' xs"
  by (induction lo hi xs arbitrary: lo' rule: spaced.induct) auto

lemma spaced_addr:
  "spaced lo hi xs \<Longrightarrow> (a, n, f) \<in> set xs \<Longrightarrow> lo \<le> unat a \<and> unat a + 32 + n \<le> hi"
proof (induction lo hi xs rule: spaced.induct)
  case (2 lo hi b k g xs)
  then show ?case by (auto dest: spaced_le)
qed simp

lemma hdr_cong:
  assumes "hdr_ok a" "\<And>x. in_region x a 32 \<Longrightarrow> m' x = m x"
  shows "hdr m' a p n f = hdr m a p n f" and "h_next m' a = h_next m a"
  using get_cong [OF assms] by (auto simp: hdr_def)

lemma seg_cong:
  assumes "\<And>a. a \<in> addrs xs \<Longrightarrow> hdr_ok a"
    and "\<And>a x. a \<in> addrs xs \<Longrightarrow> in_region x a 32 \<Longrightarrow> m' x = m x"
  shows "seg m' p b xs q c = seg m p b xs q c"
  using assms
proof (induction xs arbitrary: p b)
  case (Cons y xs)
  obtain a n f where y: "y = (a, n, f)" by (cases y)
  have "hdr m' a p n f = hdr m a p n f" "h_next m' a = h_next m a"
    by (rule hdr_cong; use Cons.prems y in auto)+
  moreover have "seg m' p b xs q c = seg m p b xs q c" for p b
    by (rule Cons.IH) (use Cons.prems in auto)
  ultimately show ?case using y by simp
qed simp

lemma chain_cong:
  assumes "\<And>a. a \<in> addrs xs \<Longrightarrow> hdr_ok a"
    and "\<And>a x. a \<in> addrs xs \<Longrightarrow> in_region x a 32 \<Longrightarrow> m' x = m x"
  shows "chain m' p b xs = chain m p b xs"
  using assms
proof (induction xs arbitrary: p b)
  case (Cons y xs)
  obtain a n f where y: "y = (a, n, f)" by (cases y)
  have "hdr m' a p n f = hdr m a p n f" "h_next m' a = h_next m a"
    by (rule hdr_cong; use Cons.prems y in auto)+
  moreover have "chain m' p b xs = chain m p b xs" for p b
    by (rule Cons.IH) (use Cons.prems in auto)
  ultimately show ?case using y by simp
qed simp

lemma addrs_hdr_ok:
  assumes "spaced lo hi xs" "hi < 18446744073709551616" "a \<in> addrs xs"
  shows "hdr_ok a" "lo \<le> unat a" "unat a + 32 \<le> hi"
proof -
  obtain n f where "(a, n, f) \<in> set xs" using assms(3) by (auto simp: addrs_def)
  from spaced_addr [OF assms(1) this] show "hdr_ok a" "lo \<le> unat a" "unat a + 32 \<le> hi"
    using assms(2) by (auto simp: hdr_ok_def)
qed

text \<open>The header regions of a list, and what an update that spares them keeps.\<close>

definition in_headers :: "addr \<Rightarrow> blk list \<Rightarrow> bool" where
  "in_headers x xs \<longleftrightarrow> (\<exists>a \<in> addrs xs. in_region x a 32)"

lemma not_in_headers_below:
  assumes "spaced lo hi xs" "hi < 18446744073709551616" "unat x < lo"
  shows "\<not> in_headers x xs"
  using addrs_hdr_ok [OF assms(1,2)] assms(3)
  by (fastforce simp: in_headers_def in_region_unat hdr_ok_def)

lemma not_in_headers_above:
  assumes "spaced lo hi xs" "hi < 18446744073709551616" "hi \<le> unat x"
  shows "\<not> in_headers x xs"
  using addrs_hdr_ok [OF assms(1,2)] assms(3)
  by (fastforce simp: in_headers_def in_region_unat hdr_ok_def)

lemma in_headers_bounds:
  assumes "spaced lo hi xs" "hi < 18446744073709551616" "in_headers x xs"
  shows "lo \<le> unat x" "unat x < hi"
  using assms not_in_headers_below not_in_headers_above by (meson not_le)+

text \<open>The predecessor of the first block of a chain.\<close>

lemma chain_set_prev:
  assumes "chain m p c ((c, n, f) # ys)" "spaced lo hi ((c, n, f) # ys)" "hi < 18446744073709551616"
  shows "chain (set_prev c q m) q c ((c, n, f) # ys)"
proof -
  have c: "hdr_ok c" using addrs_hdr_ok [OF assms(2,3), of c] by simp
  have ys: "chain (set_prev c q m) c (h_next m c) ys = chain m c (h_next m c) ys"
  proof (rule chain_cong)
    fix a assume a: "a \<in> addrs ys"
    have sp: "spaced (unat c + 32 + n) hi ys" using assms(2) by simp
    show "hdr_ok a" using addrs_hdr_ok [OF sp assms(3) a] by simp
    fix x assume "in_region x a 32"
    then have "\<not> in_region x c 32"
      using addrs_hdr_ok [OF sp assms(3) a] c by (auto simp: in_region_unat hdr_ok_def)
    then show "set_prev c q m x = m x" by (rule set_outside [OF c])
  qed
  show ?thesis using assms(1) ys by (simp add: hdr_def field_same [OF c])
qed

section \<open>Merging\<close>

lemma hdr_end:
  assumes "hdr m a p n f" "unat a + 32 + n < 18446744073709551616"
  shows "unat (h_ptr m a + size64 m a) = unat a + 32 + n"
proof -
  have s: "unat (size64 m a :: u64) = n" using assms(1) by (simp add: hdr_def unat_ucast_up)
  have a: "unat (a + 32) = unat a + 32" using assms(2) by (subst unat_add_nowrap) simp_all
  have "unat (a + 32 + size64 m a) = unat (a + 32) + unat (size64 m a :: u64)"
    by (rule unat_add_nowrap) (use a s assms(2) in simp)
  then show ?thesis using assms(1) a s by (simp add: hdr_def)
qed

lemma merge_blocks_skip:
  assumes "hdr m a p n f" "a' \<noteq> NULL \<longrightarrow> hdr m a' q n' f'" "unat a + 32 + n < 18446744073709551616"
    and "\<not> (a' \<noteq> NULL \<and> f \<and> f' \<and> unat a + 32 + n = unat a')"
  shows "merge_blocks a a' m = m"
  using assms hdr_end [OF assms(1,3)] by (auto simp: merge_blocks_def hdr_def word_unat_eq_iff)

lemma unat_ucast_down:
  "unat x < 4294967296 \<Longrightarrow> unat (ucast (x :: u64) :: u32) = unat x"
  by (simp add: unsigned_ucast_eq take_bit_nat_eq_self)

lemma merged_size:
  fixes x y :: u32
  assumes "unat x + 32 + unat y < 4294967296"
  shows "unat (ucast (ucast x + (ucast y + 32 :: u64)) :: u32) = unat x + 32 + unat y"
proof -
  have "unat (ucast x + (ucast y + 32) :: u64) = unat x + 32 + unat y"
    using assms by (simp add: unat_word_ariths unat_ucast_up)
  then show ?thesis using assms by (simp add: unat_ucast_down)
qed

lemma merge_chain:
  assumes ch: "chain m p a ((a, n, True) # (a', n', True) # ys)"
    and sp: "spaced lo hi ((a, n, True) # (a', n', True) # ys)" and hi: "hi < 18446744073709551616"
    and sz: "n + 32 + n' < 4294967296" and adj: "unat a + 32 + n = unat a'"
  shows "chain (merge_blocks a a' m) p a ((a, n + 32 + n', True) # ys)"
    and "\<not> in_headers x ((a, n, True) # (a', n', True) # ys) \<Longrightarrow> merge_blocks a a' m x = m x"
proof -
  let ?c = "h_next m a'"
  have ha: "hdr m a p n True" and ha': "hdr m a' a n' True" and cys: "chain m a' ?c ys"
    using ch by auto
  have spy: "spaced (unat a' + 32 + n') hi ys" using sp by simp
  have le: "unat a' + 32 + n' \<le> hi" using spaced_le [OF spy] .
  have ok: "hdr_ok a" "hdr_ok a'" using addrs_hdr_ok [OF sp hi] by auto
  have ap: "hdr_apart a' a" using ok adj by (intro hdr_apartI) auto
  have oky: "hdr_apart b a" if "b \<in> addrs ys" for b
    using addrs_hdr_ok [OF spy hi that] ok adj by (intro hdr_apartI) auto
  define m1 where "m1 = set_size a (size64 m a + (size64 m a' + HEADER_SIZE)) m"
  define m2 where "m2 = set_next a ?c m1"
  have n1: "h_next m1 a' = ?c" unfolding m1_def by (simp add: field_other [OF ap])
  have n2: "h_next m2 a' = ?c" unfolding m2_def by (simp add: field_other [OF ap] n1)
  have cond: "h_ptr m a + size64 m a = a'"
    using hdr_end [OF ha] adj le hi by (simp add: word_unat_eq_iff)
  have eq: "merge_blocks a a' m = (if ?c \<noteq> NULL then set_prev ?c a m2 else m2)"
    using ha ha' cond n1 n2 by (simp add: merge_blocks_def hdr_def m1_def [symmetric] m2_def Let_def)
  have sizes: "unat (h_size m a) = n" "unat (h_size m a') = n'" using ha ha' by (auto simp: hdr_def)
  have "unat (ucast (size64 m a + (size64 m a' + HEADER_SIZE)) :: u32) = n + 32 + n'"
    using merged_size [of "h_size m a" "h_size m a'"] sz sizes by (simp add: HEADER_SIZE_def)
  then have h2: "hdr m2 a p (n + 32 + n') True" "h_next m2 a = ?c"
    using ha unfolding hdr_def m2_def m1_def by (simp_all add: field_same [OF ok(1)])
  have out: "m2 x = m x" if "\<not> in_region x a 32" for x
    unfolding m2_def m1_def using that by (simp add: set_outside [OF ok(1)])
  have cy2: "chain m2 a' ?c ys"
    using cys
  proof (subst chain_cong)
    fix b x assume b: "b \<in> addrs ys"
    show "hdr_ok b" using oky [OF b] by (simp add: hdr_apart_def)
    assume "in_region x b 32"
    then have "\<not> in_region x a 32" using oky [OF b] by (auto simp: hdr_apart_def apart_def)
    then show "m2 x = m x" by (rule out)
  qed
  show "chain (merge_blocks a a' m) p a ((a, n + 32 + n', True) # ys)"
  proof (cases ys)
    case Nil
    then show ?thesis using eq h2 cys by simp
  next
    case (Cons y zs)
    obtain c k g where y: "y = (c, k, g)" by (cases y)
    have c: "?c = c" "c \<noteq> NULL" using cys Cons y by (auto simp: hdr_def)
    have "c \<in> addrs ys" using Cons y by simp
    then have apc: "hdr_apart a c" using oky hdr_apart_sym by blast
    have "chain (set_prev c a m2) a c ys"
      using chain_set_prev cy2 spy hi unfolding Cons y c(1) by blast
    moreover have "hdr (set_prev c a m2) a p (n + 32 + n') True" "h_next (set_prev c a m2) a = c"
      using h2 c(1) unfolding hdr_def by (simp_all add: field_other [OF apc])
    ultimately show ?thesis using eq c by simp
  qed
  show "merge_blocks a a' m x = m x" if x: "\<not> in_headers x ((a, n, True) # (a', n', True) # ys)"
  proof (cases ys)
    case Nil
    then show ?thesis using x cys eq out by (simp add: in_headers_def)
  next
    case (Cons y zs)
    obtain c k g where y: "y = (c, k, g)" by (cases y)
    have c: "?c = c" using cys Cons y by auto
    have "hdr_ok c" using addrs_hdr_ok [OF spy hi, of c] Cons y by simp
    then show ?thesis using x eq out c Cons y by (simp add: in_headers_def set_outside)
  qed
qed

text \<open>A free block joined with its successor, where that is free and contiguous.\<close>

fun join_next :: "blk \<Rightarrow> blk list \<Rightarrow> blk list" where
  "join_next (b, r, f) ((c, k, g) # zs) =
     (if f \<and> g \<and> unat b + 32 + r = unat c then (b, r + 32 + k, True) # zs else (b, r, f) # (c, k, g) # zs)"
| "join_next x [] = [x]"

lemma addrs_join_next: "b \<in> addrs (join_next x ys) \<Longrightarrow> b = fst x \<or> b \<in> addrs ys"
  by (cases "(x, ys)" rule: join_next.cases) (auto split: if_splits)

lemma spaced_join_next: "spaced lo hi (x # ys) \<Longrightarrow> spaced lo hi (join_next x ys)"
proof (cases "(x, ys)" rule: join_next.cases)
  case (1 b r f c k g zs)
  assume sp: "spaced lo hi (x # ys)"
  have e: "unat b + 32 + (r + 32 + k) = unat c + 32 + k" if "unat b + 32 + r = unat c"
    using that by simp
  show ?thesis
  proof (cases "f \<and> g \<and> unat b + 32 + r = unat c")
    case True
    then show ?thesis using sp 1 by (simp add: e)
  qed (use sp 1 in auto)
qed simp

lemma chain_addr: "chain m p b ys \<Longrightarrow> b = (case ys of [] \<Rightarrow> NULL | (c, _, _) # _ \<Rightarrow> c)"
  by (cases ys) auto

lemma join_next_chain:
  assumes ch: "chain m p a ((a, n, f) # ys)" and sp: "spaced lo hi ((a, n, f) # ys)"
    and hi: "hi < 18446744073709551616" "hi \<le> unat a + 4294967296"
  shows "chain (merge_blocks a (h_next m a) m) p a (join_next (a, n, f) ys)"
    and "\<not> in_headers x ((a, n, f) # ys) \<Longrightarrow> merge_blocks a (h_next m a) m x = m x"
proof -
  have ha: "hdr m a p n f" using ch by simp
  have "unat a + 32 + n \<le> hi" using sp by (auto dest: spaced_le)
  then have lt: "unat a + 32 + n < 18446744073709551616" using hi(1) by simp
  have "chain (merge_blocks a (h_next m a) m) p a (join_next (a, n, f) ys)
     \<and> (\<not> in_headers x ((a, n, f) # ys) \<longrightarrow> merge_blocks a (h_next m a) m x = m x)"
  proof (cases ys)
    case Nil
    then have "h_next m a = NULL" using ch by simp
    then show ?thesis using Nil ch by (simp add: merge_blocks_def)
  next
    case (Cons y zs)
    obtain c k g where y: "y = (c, k, g)" by (cases y)
    have c: "h_next m a = c" "hdr m c a k g" using ch Cons y by auto
    show ?thesis
    proof (cases "f \<and> g \<and> unat a + 32 + n = unat c")
      case True
      have "unat c + 32 + k \<le> hi" using sp Cons y by (auto dest: spaced_le)
      then have "n + 32 + k < 4294967296" using hi(2) True by simp
      then show ?thesis
        using merge_chain [of m p a n c k zs lo hi] ch sp hi(1) True Cons y c(1) by auto
    next
      case False
      then have "merge_blocks a c m = m" using merge_blocks_skip [OF ha _ lt, of c a k g] c(2) by auto
      then show ?thesis using False ch Cons y c(1) by auto
    qed
  qed
  then show "chain (merge_blocks a (h_next m a) m) p a (join_next (a, n, f) ys)"
    and "\<not> in_headers x ((a, n, f) # ys) \<Longrightarrow> merge_blocks a (h_next m a) m x = m x" by auto
qed

section \<open>Splitting\<close>

lemma split_block_skip:
  assumes "hdr m a p n f" "n < sz + 48" "sz < 4294967296"
  shows "split_block a (of_nat sz) m = m"
proof -
  have "unat (size64 m a :: u64) = n" using assms(1) by (simp add: hdr_def unat_ucast_up)
  moreover have "unat (of_nat sz + MIN_BLK_SIZE :: u64) = sz + 48"
    using assms(3) by (simp add: MIN_BLK_SIZE_def HEADER_SIZE_def ALIGN_SIZE_def unat_word_ariths unat_of_nat_u64)
  ultimately show ?thesis using assms(2) by (simp add: split_block_def word_less_nat_alt)
qed

lemma split_chain:
  assumes ch: "chain m p a ((a, n, f) # ys)" and sp: "spaced lo hi ((a, n, f) # ys)"
    and hi: "hi < 18446744073709551616" "hi \<le> unat a + 4294967296" and sz: "sz + 48 \<le> n"
  shows "chain (split_block a (of_nat sz) m) p a
           ((a, sz, f) # join_next (a + 32 + of_nat sz, n - sz - 32, True) ys)"
    and "\<not> in_headers x ((a, n, f) # ys) \<Longrightarrow> \<not> in_region x (a + 32 + of_nat sz) 32
         \<Longrightarrow> split_block a (of_nat sz) m x = m x"
proof -
  let ?nb = "a + 32 + of_nat sz :: addr" and ?r = "n - sz - 32"
  have ha: "hdr m a p n f" and cys: "chain m a (h_next m a) ys" using ch by auto
  have n: "unat (h_size m a) = n" using ha by (simp add: hdr_def)
  then have n32: "n < 4294967296" using unat_u32_less [of "h_size m a"] by simp
  have spy: "spaced (unat a + 32 + n) hi ys" using sp by simp
  have le: "unat a + 32 + n \<le> hi" using spaced_le [OF spy] .
  have "unat (a + of_nat (32 + sz)) = unat a + (32 + sz)"
    by (rule unat_offset) (use le hi(1) sz in auto)
  then have unb: "unat ?nb = unat a + 32 + sz" by (simp add: algebra_simps)
  have ok: "hdr_ok a" "hdr_ok ?nb" using le hi(1) sz unb by (auto simp: hdr_ok_def)
  have ap: "hdr_apart a ?nb" using ok unb by (intro hdr_apartI) auto
  have nbnz: "?nb \<noteq> NULL" using unb by (metis add_eq_0_iff_both_eq_0 unat_0 numeral_neq_zero)
  have apy: "hdr_apart b ?nb" "hdr_apart b a" if "b \<in> addrs ys" for b
    using addrs_hdr_ok [OF spy hi(1) that] ok unb sz by (auto intro!: hdr_apartI)
  define m4 where "m4 = set_prev ?nb a (set_free ?nb True (set_size ?nb (size64 (set_ptr ?nb (?nb + HEADER_SIZE) m) a
      - of_nat sz - HEADER_SIZE) (set_ptr ?nb (?nb + HEADER_SIZE) m)))"
  have out4: "m4 x = m x" if "\<not> in_region x ?nb 32" for x
    unfolding m4_def using that by (simp add: set_outside [OF ok(2)])
  have "unat (ucast (size64 m a - of_nat sz - HEADER_SIZE :: u64) :: u32) = ?r"
  proof -
    have s: "unat (size64 m a :: u64) = n" using n by (simp add: unat_ucast_up)
    have o: "unat (of_nat sz :: u64) = sz" using sz n32 by (intro unat_of_nat_u64) simp
    have "unat (size64 m a - of_nat sz :: u64) = n - sz" using s o sz by (subst unat_sub_nowrap) simp_all
    then have "unat (size64 m a - of_nat sz - HEADER_SIZE :: u64) = ?r"
      using sz by (subst unat_sub_nowrap) (simp_all add: HEADER_SIZE_def)
    then show ?thesis using n32 by (subst unat_ucast_down) simp_all
  qed
  then have h4: "hdr m4 ?nb a ?r True"
    unfolding hdr_def m4_def using nbnz
    by (simp add: field_same [OF ok(2)] field_other [OF ap] HEADER_SIZE_def)
  have a4: "hdr m4 a p n f" "h_next m4 a = h_next m a"
  proof -
    have o: "m4 x = m x" if "in_region x a 32" for x
      by (rule out4) (use that ap in \<open>auto simp: hdr_apart_def apart_def\<close>)
    show "hdr m4 a p n f" "h_next m4 a = h_next m a" using hdr_cong [OF ok(1) o] ha by simp_all
  qed
  have y4: "chain m4 a (h_next m a) ys"
    using cys
  proof (subst chain_cong)
    fix b x assume b: "b \<in> addrs ys"
    show "hdr_ok b" using apy(1) [OF b] by (simp add: hdr_apart_def)
    assume "in_region x b 32"
    then show "m4 x = m x" using apy(1) [OF b] by (intro out4) (auto simp: hdr_apart_def apart_def)
  qed
  define m7 where "m7 = (if h_next m4 a \<noteq> NULL
       then let m = set_next ?nb (h_next m4 a) m4; m = set_prev (h_next m ?nb) ?nb m
            in merge_blocks ?nb (h_next m ?nb) m
       else set_next ?nb NULL m4)"
  have m7: "chain m7 a ?nb (join_next (?nb, ?r, True) ys)
     \<and> (\<forall>x. \<not> in_headers x ((?nb, ?r, True) # ys) \<longrightarrow> m7 x = m x)"
  proof (cases ys)
    case Nil
    then have "h_next m4 a = NULL" using cys a4 by simp
    then show ?thesis
      using h4 Nil out4
      by (auto simp: m7_def hdr_def field_same [OF ok(2)] set_outside [OF ok(2)] in_headers_def)
  next
    case (Cons y zs)
    obtain c k g where y: "y = (c, k, g)" by (cases y)
    have c: "h_next m a = c" "c \<noteq> NULL" using cys Cons y by (auto simp: hdr_def)
    have cin: "c \<in> addrs ys" using Cons y by simp
    have apc: "hdr_apart ?nb c" using apy(1) [OF cin] hdr_apart_sym by blast
    have okc: "hdr_ok c" using apc by (simp add: hdr_apart_def)
    define m5 where "m5 = set_next ?nb c m4"
    have h5: "hdr m5 ?nb a ?r True" "h_next m5 ?nb = c"
      using h4 unfolding m5_def hdr_def by (simp_all add: field_same [OF ok(2)])
    have out5: "m5 x = m4 x" if "\<not> in_region x ?nb 32" for x
      unfolding m5_def using that by (rule set_outside(4) [OF ok(2)])
    have "chain m5 a c ys"
      using y4 unfolding c(1)
    proof (subst chain_cong)
      fix b x assume b: "b \<in> addrs ys"
      show "hdr_ok b" using apy(1) [OF b] by (simp add: hdr_apart_def)
      assume "in_region x b 32"
      then show "m5 x = m4 x" using apy(1) [OF b] by (intro out5) (auto simp: hdr_apart_def apart_def)
    qed
    then have y6: "chain (set_prev c ?nb m5) ?nb c ys"
      using chain_set_prev spy hi(1) unfolding Cons y by blast
    define m6 where "m6 = set_prev c ?nb m5"
    have h6: "hdr m6 ?nb a ?r True" "h_next m6 ?nb = c"
      using h5 unfolding m6_def hdr_def by (simp_all add: field_other [OF apc])
    have ch6: "chain m6 a ?nb ((?nb, ?r, True) # ys)" using h6 y6 by (simp add: m6_def)
    have sp6: "spaced (unat ?nb) hi ((?nb, ?r, True) # ys)"
      using spy unb sz by (simp add: add.assoc)
    have hi6: "hi \<le> unat ?nb + 4294967296" using hi(2) unb by simp
    have m7: "m7 = merge_blocks ?nb (h_next m6 ?nb) m6"
      using a4(2) c h5(2) by (simp add: m7_def Let_def m5_def m6_def)
    have "m7 x = m x" if x: "\<not> in_headers x ((?nb, ?r, True) # ys)" for x
    proof -
      have "\<not> in_region x ?nb 32" "\<not> in_region x c 32" using x cin by (auto simp: in_headers_def)
      then have "m6 x = m x" using out4 out5 set_outside(5) [OF okc] by (simp add: m6_def)
      then show ?thesis using join_next_chain(2) [OF ch6 sp6 hi(1) hi6 x] m7 by simp
    qed
    then show ?thesis using join_next_chain(1) [OF ch6 sp6 hi(1) hi6] m7 by blast
  qed
  have big: "\<not> size64 m a < of_nat sz + MIN_BLK_SIZE"
  proof -
    have "unat (of_nat sz + MIN_BLK_SIZE :: u64) = sz + 48"
      using sz n32 by (simp add: MIN_BLK_SIZE_def HEADER_SIZE_def ALIGN_SIZE_def unat_word_ariths unat_of_nat_u64)
    then show ?thesis using sz n by (simp add: word_less_nat_alt unat_ucast_up)
  qed
  have ptr: "h_ptr m a + of_nat sz = ?nb" using ha by (simp add: hdr_def)
  have eq: "split_block a (of_nat sz) m = set_next a ?nb (set_size a (of_nat sz) m7)"
    unfolding split_block_def ptr using big
    by (simp add: Let_def m4_def [symmetric] m7_def)
  have out7: "m7 x = m x" if "in_region x a 32" for x
  proof -
    have "\<not> in_headers x ((?nb, ?r, True) # ys)"
      using that ap apy(2) by (auto simp: in_headers_def hdr_apart_def apart_def)
    then show ?thesis using m7 by blast
  qed
  have a7: "hdr m7 a p n f" using hdr_cong(1) [OF ok(1) out7] ha by simp
  have szc: "unat (ucast (of_nat sz :: u64) :: u32) = sz"
    using sz n32 by (subst unat_ucast_down) (simp_all add: unat_of_nat_u64)
  have a9: "hdr (set_next a ?nb (set_size a (of_nat sz) m7)) a p sz f"
    "h_next (set_next a ?nb (set_size a (of_nat sz) m7)) a = ?nb"
    using a7 szc unfolding hdr_def by (simp_all add: field_same [OF ok(1)])
  have "chain (set_next a ?nb (set_size a (of_nat sz) m7)) a ?nb (join_next (?nb, ?r, True) ys)"
  proof (subst chain_cong)
    fix b x assume "b \<in> addrs (join_next (?nb, ?r, True) ys)"
    then have b: "hdr_apart b a"
      using addrs_join_next apy(2) ap hdr_apart_sym by fastforce
    then show "hdr_ok b" by (simp add: hdr_apart_def)
    assume "in_region x b 32"
    then have "\<not> in_region x a 32" using b by (auto simp: hdr_apart_def apart_def)
    then show "set_next a ?nb (set_size a (of_nat sz) m7) x = m7 x" by (simp add: set_outside [OF ok(1)])
  qed (use m7 in blast)
  then show "chain (split_block a (of_nat sz) m) p a ((a, sz, f) # join_next (?nb, ?r, True) ys)"
    using a9 eq by simp
  show "split_block a (of_nat sz) m x = m x"
    if "\<not> in_headers x ((a, n, f) # ys)" "\<not> in_region x ?nb 32"
    using that eq m7 by (simp add: in_headers_def set_outside [OF ok(1)])
qed

end
