(* ===== verification/HeapOps.thy ===== *)
theory HeapOps imports HeapList begin

text \<open>
  \<open>kmalloc\<close> and \<open>kfree\<close> of lib/kmalloc.c on the list of blocks: which block is taken, what
  becomes of the list, and that the list stays well formed, its blocks apart and coalesced.
\<close>

section \<open>A well-formed heap\<close>

text \<open>The list from the head, in address order, below \<open>hi\<close>; it spans at most 4 GiB.\<close>

definition heap_at :: "'b kheap \<Rightarrow> blk list \<Rightarrow> nat \<Rightarrow> bool" where
  "heap_at s bs hi \<longleftrightarrow> bs \<noteq> [] \<and> chain (kmem s) NULL (kernel_heap_head s) bs
     \<and> spaced (unat (kernel_heap_head s)) hi bs
     \<and> hi < 18446744073709551616 \<and> hi \<le> unat (kernel_heap_head s) + 4294967296"

text \<open>No two neighbours are both free and contiguous.\<close>

fun coalesced :: "blk list \<Rightarrow> bool" where
  "coalesced ((a, n, f) # (c, k, g) # zs) \<longleftrightarrow>
     \<not> (f \<and> g \<and> unat a + 32 + n = unat c) \<and> coalesced ((c, k, g) # zs)"
| "coalesced _ \<longleftrightarrow> True"

definition in_use :: "blk list \<Rightarrow> blk set" where
  "in_use bs = {b \<in> set bs. \<not> snd (snd b)}"

lemma in_use_simps [simp]:
  "in_use [] = {}" "in_use ((a, n, f) # bs) = (if f then in_use bs else insert (a, n, f) (in_use bs))"
  "in_use (xs @ ys) = in_use xs \<union> in_use ys"
  by (auto simp: in_use_def)

text \<open>A change behind the prefix \<open>xs\<close> that spares its headers.\<close>

lemma chain_replace:
  assumes ch: "chain m p b (xs @ ys)" and sp: "spaced lo hi (xs @ ys)" and hi: "hi < 18446744073709551616"
    and new: "\<And>q c. seg m p b xs q c \<Longrightarrow> chain m q c ys \<Longrightarrow> chain m' q c zs"
    and out: "\<And>x. in_headers x xs \<Longrightarrow> m' x = m x"
  shows "chain m' p b (xs @ zs)"
proof -
  obtain q c where q: "seg m p b xs q c" "chain m q c ys" using ch by (auto simp: chain_append)
  obtain mid where mid: "spaced lo mid xs" "mid \<le> hi"
    using sp by (auto simp: spaced_append dest: spaced_le)
  have "seg m' p b xs q c"
    using q(1)
  proof (subst seg_cong)
    fix a x assume a: "a \<in> addrs xs"
    show "hdr_ok a" using addrs_hdr_ok [OF mid(1) _ a] mid(2) hi by simp
    assume "in_region x a 32"
    then show "m' x = m x" using a by (intro out) (auto simp: in_headers_def)
  qed
  then show ?thesis using new [OF q] by (auto simp: chain_append)
qed

text \<open>Headers of a prefix lie below the rest.\<close>

lemma prefix_headers_apart:
  assumes sp: "spaced lo hi (xs @ (a, n, f) # ys)" and hi: "hi < 18446744073709551616" and x: "in_headers x xs"
  shows "unat x < unat a" and "\<not> in_headers x ((a, n, f) # ys)"
proof -
  obtain mid where mid: "spaced lo mid xs" "spaced mid hi ((a, n, f) # ys)"
    using sp by (auto simp: spaced_append)
  have "mid \<le> hi" using spaced_le [OF mid(2)] .
  then have "unat x < mid" using in_headers_bounds [OF mid(1) _ x] hi by simp
  then show "unat x < unat a" "\<not> in_headers x ((a, n, f) # ys)"
    using mid(2) not_in_headers_below [OF mid(2) hi] by auto
qed

lemma chain_set_free:
  assumes "chain m p a ((a, n, f) # ys)" "spaced lo hi ((a, n, f) # ys)" "hi < 18446744073709551616"
  shows "chain (set_free a g m) p a ((a, n, g) # ys)"
proof -
  have a: "hdr_ok a" using addrs_hdr_ok [OF assms(2,3), of a] by simp
  have sp: "spaced (unat a + 32 + n) hi ys" using assms(2) by simp
  have "chain (set_free a g m) a (h_next m a) ys"
  proof (subst chain_cong)
    fix b x assume b: "b \<in> addrs ys"
    show "hdr_ok b" using addrs_hdr_ok [OF sp assms(3) b] by simp
    assume "in_region x b 32"
    then have "\<not> in_region x a 32"
      using addrs_hdr_ok [OF sp assms(3) b] a by (auto simp: in_region_unat hdr_ok_def)
    then show "set_free a g m x = m x" by (rule set_outside [OF a])
  qed (use assms(1) in simp)
  then show ?thesis using assms(1) by (simp add: hdr_def field_same [OF a])
qed

section \<open>The search\<close>

text \<open>The block the traversal takes without extending the heap: the first free block of exactly
  the size, or the last block of the list if it is free and larger.\<close>

fun pick :: "nat \<Rightarrow> blk list \<Rightarrow> addr option" where
  "pick sz [] = None"
| "pick sz ((a, n, f) # bs) =
     (if f \<and> n = sz then Some a
      else if bs = [] then (if f \<and> n > sz then Some a else None)
      else pick sz bs)"

lemma pick_split:
  "pick sz bs = Some a \<Longrightarrow> \<exists>xs n ys. bs = xs @ (a, n, True) # ys \<and> (n = sz \<or> n > sz \<and> ys = [])"
proof (induction sz bs rule: pick.induct)
  case (2 sz b n f bs)
  show ?case
  proof (cases "f \<and> n = sz \<or> bs = []")
    case True
    then show ?thesis using 2(2) by (intro exI [of _ "[]"]) (auto split: if_splits)
  next
    case False
    then have "pick sz bs = Some a" using 2(2) by (auto split: if_splits)
    then obtain xs k ys where "bs = xs @ (a, k, True) # ys" "k = sz \<or> k > sz \<and> ys = []"
      using 2(1) False by blast
    then show ?thesis by (intro exI [of _ "(b, n, f) # xs"] exI [of _ k] exI [of _ ys]) simp
  qed
qed simp

lemma find_empty_pick:
  "chain (kmem s) p b bs \<Longrightarrow> pick sz bs = Some a \<Longrightarrow> length bs \<le> fuel \<Longrightarrow> sz < 4294967296 \<Longrightarrow>
   \<exists>alt'. find_empty fuel brk (of_nat sz) b alt s = Done ((a, alt'), s) \<and> a \<noteq> NULL"
proof (induction bs arbitrary: p b fuel alt)
  case (Cons y bs)
  obtain c n f where y: "y = (c, n, f)" by (cases y)
  obtain fl where fl: "fuel = Suc fl" using Cons.prems(3) by (cases fuel) auto
  have h: "hdr (kmem s) c p n f" "b = c" "chain (kmem s) c (h_next (kmem s) c) bs"
    using Cons.prems(1) y by auto
  have u: "unat (size64 (kmem s) c :: u64) = n" using h(1) by (simp add: hdr_def unat_ucast_up)
  have o: "unat (of_nat sz :: u64) = sz" using Cons.prems(4) by (intro unat_of_nat_u64) simp
  have eq: "size64 (kmem s) c = (of_nat sz :: u64) \<longleftrightarrow> n = sz" "(of_nat sz :: u64) < size64 (kmem s) c \<longleftrightarrow> sz < n"
    using u o by (auto simp: word_unat_eq_iff word_less_nat_alt)
  have nz: "c \<noteq> NULL" "h_free (kmem s) c = f" using h(1) by (auto simp: hdr_def)
  show ?case
  proof (cases "f \<and> n = sz")
    case True
    then show ?thesis using Cons.prems(2) y fl h nz eq by simp
  next
    case False
    show ?thesis
    proof (cases bs)
      case Nil
      then show ?thesis using Cons.prems(2) y fl h nz eq False by (auto split: if_splits)
    next
      case (Cons z zs)
      then have "h_next (kmem s) c \<noteq> NULL" using h(3) by (cases z) (auto simp: hdr_def)
      moreover have "pick sz bs = Some a" using Cons.prems(2) y False Cons by auto
      ultimately show ?thesis
        using Cons.IH [OF h(3), of fl] Cons.prems(3,4) y fl h nz eq False by (auto simp: Let_def)
    qed
  qed
qed simp

section \<open>Taking a block\<close>

definition taken :: "addr \<Rightarrow> nat \<Rightarrow> nat \<Rightarrow> blk list \<Rightarrow> blk list" where
  "taken a n sz ys = (if sz + 48 \<le> n then (a, sz, False) # join_next (a + 32 + of_nat sz, n - sz - 32, True) ys
                      else (a, n, False) # ys)"

lemma spaced_split:
  assumes "spaced lo hi ((a, n, f) # ys)" "hi < 18446744073709551616" "sz + 48 \<le> n"
  shows "spaced lo hi ((a, sz, g) # join_next (a + 32 + of_nat sz, n - sz - 32, True) ys)"
    and "unat (a + 32 + of_nat sz) = unat a + 32 + sz"
proof -
  have "unat a + 32 + n \<le> hi" using assms(1) by (auto dest: spaced_le)
  then have "unat (a + of_nat (32 + sz)) = unat a + (32 + sz)"
    by (intro unat_offset [of a "32 + n"]) (use assms(2,3) in auto)
  then show u: "unat (a + 32 + of_nat sz) = unat a + 32 + sz" by (simp add: algebra_simps)
  have "spaced (unat a + 32 + sz) hi ((a + 32 + of_nat sz, n - sz - 32, True) # ys)"
    using assms(1,3) u by (simp add: add.assoc)
  from spaced_join_next [OF this]
  show "spaced lo hi ((a, sz, g) # join_next (a + 32 + of_nat sz, n - sz - 32, True) ys)"
    using assms(1) by simp
qed

lemma in_region_payload:
  assumes "unat a + 32 + n < 18446744073709551616" "i + k \<le> n" "in_region x (a + 32 + of_nat i) k"
  shows "unat a + 32 + i \<le> unat x" "unat x < unat a + 32 + i + k"
proof -
  have "unat (a + of_nat (32 + i)) = unat a + (32 + i)" if "0 < k"
    by (rule unat_offset [of a "32 + n"]) (use assms(1,2) that in auto)
  moreover have "a + 32 + of_nat i = a + of_nat (32 + i)" by (simp add: add.assoc)
  moreover have "0 < k" using assms(3) by (cases k) auto
  ultimately have u: "unat (a + 32 + of_nat i) = unat a + 32 + i" by (simp only: add.assoc)
  then show "unat a + 32 + i \<le> unat x" "unat x < unat a + 32 + i + k"
    using assms in_region_unat [of "a + 32 + of_nat i" k x] by auto
qed

text \<open>Splitting the block at \<open>a\<close> in the middle of the list, and setting its flag.\<close>

definition cut_at :: "addr \<Rightarrow> nat \<Rightarrow> bool \<Rightarrow> nat \<Rightarrow> blk list \<Rightarrow> blk list" where
  "cut_at a n f sz ys = (if sz + 48 \<le> n then (a, sz, f) # join_next (a + 32 + of_nat sz, n - sz - 32, True) ys
                      else (a, n, f) # ys)"

lemma taken_cut_at: "taken a n sz ys = cut_at a n False sz ys"
  by (simp add: taken_def cut_at_def)

lemma split_in_list:
  assumes ch: "chain m NULL h (xs @ (a, n, f) # ys)" and sp: "spaced lo hi (xs @ (a, n, f) # ys)"
    and hi: "hi < 18446744073709551616" "hi \<le> lo + 4294967296" and sz: "sz < 4294967296"
  shows "chain (split_block a (of_nat sz) m) NULL h (xs @ cut_at a n f sz ys)"
    and "spaced lo hi (xs @ cut_at a n g sz ys)"
    and "\<not> in_headers x ((a, n, f) # ys) \<Longrightarrow> \<not> (unat a + 32 + sz \<le> unat x \<and> unat x < unat a + 32 + n)
         \<Longrightarrow> split_block a (of_nat sz) m x = m x"
proof -
  let ?m = "split_block a (of_nat sz) m"
  obtain mid where mid: "spaced lo mid xs" "spaced mid hi ((a, n, f) # ys)"
    using sp by (auto simp: spaced_append)
  have mid_a: "lo \<le> mid" "mid \<le> unat a" "unat a + 32 + n \<le> hi"
    using mid by (auto dest: spaced_le)
  have hia: "hi \<le> unat a + 4294967296" using hi(2) mid_a by simp
  have loc: "chain ?m q a (cut_at a n f sz ys)
      \<and> (\<forall>x. \<not> in_headers x ((a, n, f) # ys) \<longrightarrow> \<not> (unat a + 32 + sz \<le> unat x \<and> unat x < unat a + 32 + n)
             \<longrightarrow> ?m x = m x)" if c: "chain m q a ((a, n, f) # ys)" for q
  proof (cases "sz + 48 \<le> n")
    case True
    have "?m x = m x" if "\<not> in_headers x ((a, n, f) # ys)"
        "\<not> (unat a + 32 + sz \<le> unat x \<and> unat x < unat a + 32 + n)" for x
      by (rule split_chain(2) [OF c mid(2) hi(1) hia True that(1)])
         (use in_region_payload [of a n sz 32 x] that(2) True mid_a hi(1) in auto)
    then show ?thesis using split_chain(1) [OF c mid(2) hi(1) hia True] True by (auto simp: cut_at_def)
  next
    case False
    then have "?m = m" using split_block_skip [of m a q n f sz] c sz by auto
    then show ?thesis using False c by (simp add: cut_at_def)
  qed
  have "spaced mid hi (cut_at a n g sz ys)"
    using spaced_split(1) [OF mid(2) hi(1)] mid(2) by (simp add: cut_at_def split: if_splits)
  then show "spaced lo hi (xs @ cut_at a n g sz ys)" using mid(1) unfolding spaced_append by blast
  obtain q where q: "chain m q a ((a, n, f) # ys)" using ch by (auto simp: chain_append)
  then show "?m x = m x" if "\<not> in_headers x ((a, n, f) # ys)"
      "\<not> (unat a + 32 + sz \<le> unat x \<and> unat x < unat a + 32 + n)"
    using loc that by blast
  show "chain ?m NULL h (xs @ cut_at a n f sz ys)"
  proof (rule chain_replace [OF ch sp hi(1)])
    fix q c assume c: "chain m q c ((a, n, f) # ys)"
    then have "c = a" by simp
    then show "chain ?m q c (cut_at a n f sz ys)" using loc c by blast
  next
    fix x assume x: "in_headers x xs"
    have "unat x < unat a" "\<not> in_headers x ((a, n, f) # ys)"
      using prefix_headers_apart [OF sp hi(1) x] by auto
    then show "?m x = m x" using loc [OF q] by simp
  qed
qed

lemma set_free_in_list:
  assumes ch: "chain m NULL h (xs @ (a, n, f) # ys)" and sp: "spaced lo hi (xs @ (a, n, f) # ys)"
    and hi: "hi < 18446744073709551616"
  shows "chain (set_free a g m) NULL h (xs @ (a, n, g) # ys)"
    and "spaced lo hi (xs @ (a, n, g) # ys)"
    and "\<not> in_headers x ((a, n, f) # ys) \<Longrightarrow> set_free a g m x = m x"
proof -
  obtain mid where mid: "spaced lo mid xs" "spaced mid hi ((a, n, f) # ys)"
    using sp by (auto simp: spaced_append)
  then show "spaced lo hi (xs @ (a, n, g) # ys)" by (auto simp: spaced_append)
  have a: "hdr_ok a" using addrs_hdr_ok [OF sp hi, of a] by simp
  show out: "set_free a g m x = m x" if "\<not> in_headers x ((a, n, f) # ys)" for x
    using that by (intro set_outside(3) [OF a]) (auto simp: in_headers_def)
  show "chain (set_free a g m) NULL h (xs @ (a, n, g) # ys)"
  proof (rule chain_replace [OF ch sp hi])
    fix q c assume c: "chain m q c ((a, n, f) # ys)"
    then have "c = a" by simp
    then show "chain (set_free a g m) q c ((a, n, g) # ys)"
      using chain_set_free [OF _ mid(2) hi] c by blast
  qed (use out prefix_headers_apart(2) [OF sp hi] in blast)
qed

lemma take_chain:
  assumes ch: "chain m NULL h (xs @ (a, n, f) # ys)" and sp: "spaced lo hi (xs @ (a, n, f) # ys)"
    and hi: "hi < 18446744073709551616" "hi \<le> lo + 4294967296" and sz: "sz < 4294967296"
  shows "chain (set_free a False (split_block a (of_nat sz) m)) NULL h (xs @ taken a n sz ys)"
    and "spaced lo hi (xs @ taken a n sz ys)"
    and "\<not> in_headers x (xs @ (a, n, f) # ys) \<Longrightarrow> \<not> (unat a + 32 + sz \<le> unat x \<and> unat x < unat a + 32 + n)
         \<Longrightarrow> set_free a False (split_block a (of_nat sz) m) x = m x"
proof -
  let ?m = "split_block a (of_nat sz) m"
  note split = split_in_list [OF ch sp hi sz]
  define k zs where "k = (if sz + 48 \<le> n then sz else n)"
    and "zs = (if sz + 48 \<le> n then join_next (a + 32 + of_nat sz, n - sz - 32, True) ys else ys)"
  have c: "cut_at a n g sz ys = (a, k, g) # zs" for g by (simp add: cut_at_def k_def zs_def)
  show "chain (set_free a False ?m) NULL h (xs @ taken a n sz ys)"
    unfolding taken_cut_at c
    by (rule set_free_in_list(1) [OF split(1) [unfolded c] split(2) [of f, unfolded c] hi(1)])
  show "spaced lo hi (xs @ taken a n sz ys)" unfolding taken_cut_at by (rule split(2))
  have a: "hdr_ok a" using addrs_hdr_ok [OF sp hi(1), of a] by simp
  show "set_free a False ?m x = m x" if "\<not> in_headers x (xs @ (a, n, f) # ys)"
      "\<not> (unat a + 32 + sz \<le> unat x \<and> unat x < unat a + 32 + n)"
    using split(3) [OF _ that(2)] that(1) set_outside(3) [OF a, of x] by (auto simp: in_headers_def)
qed

section \<open>Coalescing\<close>

definition kept_apart :: "blk \<Rightarrow> blk \<Rightarrow> bool" where
  "kept_apart x y \<longleftrightarrow> \<not> (snd (snd x) \<and> snd (snd y) \<and> unat (fst x) + 32 + fst (snd x) = unat (fst y))"

lemma coalesced_Cons: "coalesced (x # ys) \<longleftrightarrow> (ys \<noteq> [] \<longrightarrow> kept_apart x (hd ys)) \<and> coalesced ys"
  by (cases x; cases ys) (auto simp: kept_apart_def)

lemma coalesced_append:
  "coalesced (xs @ ys) \<longleftrightarrow> coalesced xs \<and> coalesced ys
     \<and> (xs \<noteq> [] \<and> ys \<noteq> [] \<longrightarrow> kept_apart (last xs) (hd ys))"
proof (induction xs)
  case (Cons x xs)
  then show ?case by (cases "xs = []") (auto simp: coalesced_Cons)
qed simp

lemma hd_join_next:
  "join_next x ys \<noteq> []" "fst (hd (join_next x ys)) = fst x" "snd (snd (hd (join_next x ys))) = snd (snd x)"
  by (cases "(x, ys)" rule: join_next.cases; auto)+

lemma coalesced_join_next: "coalesced ys \<Longrightarrow> coalesced (join_next x ys)"
proof (cases "(x, ys)" rule: join_next.cases)
  case (1 b r f c k g zs)
  assume "coalesced ys"
  then show ?thesis using 1 by (cases zs) (auto simp: add.assoc add.commute)
qed simp

lemma in_use_join_next: "in_use (join_next (a, n, True) ys) = in_use ys"
  by (cases "((a, n, True), ys)" rule: join_next.cases) (auto split: if_splits)

lemma in_use_join_next': "in_use (join_next x ys) = in_use (x # ys)"
  by (cases "(x, ys)" rule: join_next.cases) (auto split: if_splits)

lemma coalesced_taken:
  assumes "coalesced (xs @ (a, n, f) # ys)"
  shows "coalesced (xs @ taken a n sz ys)"
proof -
  have "coalesced ys" using assms by (simp add: coalesced_append coalesced_Cons)
  then have "coalesced (taken a n sz ys)"
    using coalesced_join_next [of ys] by (auto simp: taken_def coalesced_Cons kept_apart_def)
  then show ?thesis
    using assms by (auto simp: coalesced_append taken_def kept_apart_def)
qed

text \<open>Freeing the block \<open>(a, n)\<close> between \<open>xs\<close> and \<open>ys\<close>.\<close>

definition freed :: "blk list \<Rightarrow> addr \<Rightarrow> nat \<Rightarrow> blk list \<Rightarrow> blk list" where
  "freed xs a n ys =
     (let zs = join_next (a, n, True) ys in if xs = [] then zs else butlast xs @ join_next (last xs) zs)"

lemma coalesced_freed:
  assumes "coalesced (xs @ (a, n, f) # ys)"
  shows "coalesced (freed xs a n ys)"
proof -
  let ?zs = "join_next (a, n, True) ys"
  have z: "coalesced ?zs"
    using assms by (intro coalesced_join_next) (simp add: coalesced_append coalesced_Cons)
  show ?thesis
  proof (cases xs rule: rev_cases)
    case (snoc us x)
    have "coalesced ((us @ [x]) @ (a, n, f) # ys)" using assms snoc by simp
    then have "coalesced (us @ [x])" by (simp only: coalesced_append [of "us @ [x]"])
    moreover have "coalesced (join_next x ?zs)" using z by (rule coalesced_join_next)
    ultimately show ?thesis
      using hd_join_next [of x ?zs]
      by (auto simp: freed_def Let_def snoc coalesced_append kept_apart_def)
  qed (use z in \<open>simp add: freed_def\<close>)
qed

lemma in_use_Cons: "in_use (x # xs) = in_use [x] \<union> in_use xs"
  by (auto simp: in_use_def)

lemma in_use_freed: "in_use (freed xs a n ys) = in_use (xs @ ys)"
proof (cases xs rule: rev_cases)
  case (snoc zs x)
  have "in_use (join_next x (join_next (a, n, True) ys)) = in_use (x # ys)"
  proof -
    have "in_use (join_next x (join_next (a, n, True) ys)) = in_use (x # join_next (a, n, True) ys)"
      by (rule in_use_join_next')
    also have "\<dots> = in_use [x] \<union> in_use (join_next (a, n, True) ys)" by (rule in_use_Cons)
    also have "\<dots> = in_use [x] \<union> in_use ys" by (simp only: in_use_join_next)
    finally show ?thesis by (simp only: in_use_Cons [of x ys])
  qed
  then show ?thesis using snoc by (simp add: freed_def Let_def)
qed (simp add: freed_def in_use_join_next)

section \<open>The allocator's steps\<close>

text \<open>Sizes: a request is rounded up to 16 bytes.\<close>

definition round16 :: "nat \<Rightarrow> nat" where
  "round16 n = (n + 15) div 16 * 16"

lemma round16_bounds: "n \<le> round16 n" "round16 n < n + 16" "16 dvd round16 n"
proof -
  have "round16 n + (n + 15) mod 16 = n + 15" by (simp add: round16_def)
  moreover have "(n + 15) mod 16 < 16" by simp
  ultimately show "n \<le> round16 n" "round16 n < n + 16" by linarith+
qed (simp add: round16_def)

lemma ROUND_UP_16:
  assumes "1 \<le> unat sz" "unat sz \<le> 4294967295"
  shows "unat (ROUND_UP sz ALIGN_SIZE) = round16 (unat sz)"
proof -
  have "unat (ALIGN sz (2 ^ 4)) = ((unat sz - 1) div 2 ^ 4 + 1) * 2 ^ 4"
    using assms by (intro unat_ALIGN) auto
  moreover have "ROUND_UP sz ALIGN_SIZE = ALIGN sz (2 ^ 4)"
    by (simp add: ROUND_UP_def ALIGN_def ALIGN_SIZE_def)
  moreover have "(unat sz + 15) div 16 = (unat sz - 1) div 16 + 1"
    using assms(1) by (cases "unat sz") (simp_all add: div_add_self2 [symmetric])
  ultimately show ?thesis by (simp add: round16_def)
qed

lemma get_empty_mem_pick:
  assumes "heap_at s bs hi" "pick sz bs = Some a" "sz < 4294967296" "length bs \<le> fuel"
  shows "get_empty_mem fuel brk (of_nat sz) s =
           Done (a, on_mem (set_free a False) (on_mem (split_block a (of_nat sz)) s))"
    and "a \<noteq> NULL"
proof -
  have ch: "chain (kmem s) NULL (kernel_heap_head s) bs" and ne: "bs \<noteq> []"
    using assms(1) by (auto simp: heap_at_def)
  have hd: "kernel_heap_head s \<noteq> NULL" using ch ne by (cases bs) (auto simp: hdr_def)
  obtain alt where f: "find_empty fuel brk (of_nat sz) (kernel_heap_head s) NULL s = Done ((a, alt), s)"
      and a: "a \<noteq> NULL"
    using find_empty_pick [OF ch assms(2,4,3)] by blast
  show "a \<noteq> NULL" by (rule a)
  show "get_empty_mem fuel brk (of_nat sz) s =
           Done (a, on_mem (set_free a False) (on_mem (split_block a (of_nat sz)) s))"
    using f a hd by (simp add: get_empty_mem_def Let_def)
qed

lemma on_mem_simps [simp]:
  "kmem (on_mem f s) = f (kmem s)" "kernel_heap_head (on_mem f s) = kernel_heap_head s"
  "brk_state (on_mem f s) = brk_state s" "kerrno (on_mem f s) = kerrno s"
  by (simp_all add: on_mem_def)

text \<open>A request the list can serve: which block is returned and what the heap is afterwards.\<close>

lemma kmalloc_pick:
  assumes heap: "heap_at s bs hi" and pk: "pick (round16 (max 1 (unat sz))) bs = Some a"
    and fuel: "length bs \<le> fuel"
  shows "\<exists>s' xs n ys. kmalloc fuel brk sz s = Done (a + 32, s') \<and> bs = xs @ (a, n, True) # ys
     \<and> round16 (max 1 (unat sz)) \<le> n \<and> heap_at s' (xs @ taken a n (round16 (max 1 (unat sz))) ys) hi
     \<and> brk_state s' = brk_state s \<and> kernel_heap_head s' = kernel_heap_head s
     \<and> (n = round16 (max 1 (unat sz)) \<or> ys = [])
     \<and> (\<forall>x. \<not> in_headers x bs \<longrightarrow> \<not> (unat a + 32 + round16 (max 1 (unat sz)) \<le> unat x \<and> unat x < unat a + 32 + n)
            \<longrightarrow> kmem s' x = kmem s x)"
proof -
  let ?n = "round16 (max 1 (unat sz))"
  obtain xs n ys where bs: "bs = xs @ (a, n, True) # ys" and n: "n = ?n \<or> n > ?n \<and> ys = []"
    using pick_split [OF pk] by blast
  have ch: "chain (kmem s) NULL (kernel_heap_head s) (xs @ (a, n, True) # ys)"
    and sp: "spaced (unat (kernel_heap_head s)) hi (xs @ (a, n, True) # ys)"
    and hi: "hi < 18446744073709551616" "hi \<le> unat (kernel_heap_head s) + 4294967296"
    using heap by (auto simp: heap_at_def bs)
  have "chain (kmem s) q a ((a, n, True) # ys) \<Longrightarrow> n < 4294967296" for q
    using unat_u32_less [of "h_size (kmem s) a"] by (auto simp: hdr_def)
  then have n32: "n < 4294967296" using ch by (auto simp: chain_append)
  define sz1 where "sz1 = (if sz < 1 then sz + 1 else sz)"
  have sz1: "unat sz1 = max 1 (unat sz)"
  proof (cases "sz = 0")
    case False
    then have "1 \<le> unat sz" by (simp add: Suc_le_eq unat_gt_0)
    then show ?thesis using False by (simp add: sz1_def word_less_nat_alt)
  qed (simp add: sz1_def)
  have le: "?n \<le> n" using n by auto
  have small: "unat sz1 \<le> 4294967295" using round16_bounds(1) [of "unat sz1"] le n32 sz1 by simp
  have r: "unat (ROUND_UP sz1 ALIGN_SIZE) = ?n" using ROUND_UP_16 [OF _ small] sz1 by simp
  then have rw: "ROUND_UP sz1 ALIGN_SIZE = of_nat ?n" 
    using le n32 by (simp add: word_unat_eq_iff unat_of_nat_u64)
  have big: "\<not> sz1 > 0xFFFFFFFF" "\<not> ROUND_UP sz1 ALIGN_SIZE > 0xFFFFFFFF"
    using small r le n32 by (simp_all add: word_less_nat_alt)
  define s' where "s' = on_mem (set_free a False) (on_mem (split_block a (of_nat ?n)) s)"
  have g: "get_empty_mem fuel brk (of_nat ?n) s = Done (a, s')" "a \<noteq> NULL"
    using get_empty_mem_pick [OF heap pk _ fuel] le n32 by (auto simp: s'_def)
  have n32': "?n < 4294967296" using le n32 by simp
  note take = take_chain [OF ch sp hi n32']
  have heap': "heap_at s' (xs @ taken a n ?n ys) hi"
    using take(1,2) hi by (simp add: heap_at_def s'_def taken_def)
  have "h_ptr (kmem s') a = a + 32"
    using take(1) by (auto simp: chain_append s'_def taken_def hdr_def split: if_splits)
  then have "kmalloc fuel brk sz s = Done (a + 32, s')"
    unfolding kmalloc_def sz1_def [symmetric] Let_def rw using g big [unfolded rw] by simp
  then show ?thesis
    using bs le heap' n take(3)
    by (intro exI [of _ s'] exI [of _ xs] exI [of _ n] exI [of _ ys]) (auto simp: s'_def)
qed

section \<open>Freeing\<close>

text \<open>The search finds the block of every address in a block, its header included.\<close>

definition in_block :: "addr \<Rightarrow> addr \<Rightarrow> nat \<Rightarrow> bool" where
  "in_block p a n \<longleftrightarrow> unat a \<le> unat p \<and> unat p < unat a + 32 + n"

lemma find_block_ok:
  "chain m p b (xs @ (a, n, f) # ys) \<Longrightarrow> spaced lo hi (xs @ (a, n, f) # ys) \<Longrightarrow> hi < 18446744073709551616
   \<Longrightarrow> in_block q a n \<Longrightarrow> length xs < fuel \<Longrightarrow> find_block fuel m q b = Done a"
proof (induction xs arbitrary: p b lo fuel)
  case Nil
  have le: "unat a + 32 + n \<le> hi" using Nil.prems(2) by (auto dest: spaced_le)
  have h: "hdr m a p n f" "b = a" "a \<noteq> NULL" using Nil.prems(1) by (auto simp: hdr_def)
  have "a \<le> q" "q < h_ptr m a + size64 m a"
    using hdr_end [OF h(1)] le Nil.prems(3,4) by (simp_all add: in_block_def word_le_nat_alt word_less_nat_alt)
  then show ?case using h Nil.prems(5) by (cases fuel) auto
next
  case (Cons y xs)
  obtain c k g where y: "y = (c, k, g)" by (cases y)
  obtain fl where fl: "fuel = Suc fl" using Cons.prems(5) by (cases fuel) auto
  have h: "hdr m c p k g" "b = c" "chain m c (h_next m c) (xs @ (a, n, f) # ys)"
    using Cons.prems(1) y by auto
  have sp: "spaced (unat c + 32 + k) hi (xs @ (a, n, f) # ys)" using Cons.prems(2) y by simp
  have a: "unat c + 32 + k \<le> unat a" "unat a + 32 \<le> hi"
    using addrs_hdr_ok [OF sp Cons.prems(3), of a] by simp_all
  have "\<not> q < h_ptr m c + size64 m c"
    using hdr_end [OF h(1)] a Cons.prems(3,4) by (simp add: in_block_def word_less_nat_alt)
  then show ?case
    using Cons.IH [OF h(3) sp Cons.prems(3,4), of fl] h Cons.prems(5) fl by (auto simp: hdr_def)
qed

text \<open>One \<open>merge_blocks\<close> with the successor, in the middle of the list.\<close>

lemma merge_in_list:
  assumes ch: "chain m NULL h (xs @ (a, n, f) # ys)" and sp: "spaced lo hi (xs @ (a, n, f) # ys)"
    and hi: "hi < 18446744073709551616" "hi \<le> lo + 4294967296"
  shows "chain (merge_blocks a (h_next m a) m) NULL h (xs @ join_next (a, n, f) ys)"
    and "spaced lo hi (xs @ join_next (a, n, f) ys)"
    and "\<not> in_headers x ((a, n, f) # ys) \<Longrightarrow> merge_blocks a (h_next m a) m x = m x"
proof -
  obtain mid where mid: "spaced lo mid xs" "spaced mid hi ((a, n, f) # ys)"
    using sp by (auto simp: spaced_append)
  have "lo \<le> mid" "mid \<le> unat a" using mid by (auto dest: spaced_le)
  then have hia: "hi \<le> unat a + 4294967296" using hi(2) by simp
  show "spaced lo hi (xs @ join_next (a, n, f) ys)"
    using mid(1) spaced_join_next [OF mid(2)] by (auto simp: spaced_append)
  obtain q where q: "chain m q a ((a, n, f) # ys)" using ch by (auto simp: chain_append)
  show out: "merge_blocks a (h_next m a) m x = m x" if "\<not> in_headers x ((a, n, f) # ys)" for x
    using join_next_chain(2) [OF q mid(2) hi(1) hia that] .
  show "chain (merge_blocks a (h_next m a) m) NULL h (xs @ join_next (a, n, f) ys)"
  proof (rule chain_replace [OF ch sp hi(1)])
    fix q c assume c: "chain m q c ((a, n, f) # ys)"
    then have "c = a" by simp
    then show "chain (merge_blocks a (h_next m a) m) q c (join_next (a, n, f) ys)"
      using join_next_chain(1) [OF _ mid(2) hi(1) hia] c by blast
  qed (use out prefix_headers_apart(2) [OF sp hi(1)] in blast)
qed

lemma kfree_any:
  assumes heap: "heap_at s (xs @ (a, n, f) # ys) hi" and p: "in_block p a n" and fuel: "length xs < fuel"
    and brk: "brk 0 (brk_state s) = Done (tp, b')" "\<not> tp - 48 < p"
  shows "\<exists>s'. kfree fuel brk p s = Done s' \<and> heap_at s' (freed xs a n ys) hi
     \<and> brk_state s' = b' \<and> kernel_heap_head s' = kernel_heap_head s
     \<and> (\<forall>x. \<not> in_headers x (xs @ (a, n, f) # ys) \<longrightarrow> kmem s' x = kmem s x)"
proof -
  let ?h = "kernel_heap_head s" and ?lo = "unat (kernel_heap_head s)" and ?m = "kmem s"
  have ch: "chain ?m NULL ?h (xs @ (a, n, f) # ys)" and sp: "spaced ?lo hi (xs @ (a, n, f) # ys)"
    and hi: "hi < 18446744073709551616" "hi \<le> ?lo + 4294967296"
    using heap by (auto simp: heap_at_def)
  have a: "hdr_ok a" "?lo \<le> unat a" "unat a + 32 \<le> hi"
    using addrs_hdr_ok [OF sp hi(1), of a] by simp_all
  have ge: "\<not> p < ?h" using p a by (simp add: in_block_def word_less_nat_alt)
  have anz: "a \<noteq> NULL" using ch by (auto simp: chain_append hdr_def)
  have nz: "p \<noteq> NULL" using p anz unat_gt_0 [of a] by (auto simp: in_block_def)
  have fb: "find_block fuel ?m p ?h = Done a" by (rule find_block_ok [OF ch sp hi(1) p fuel])
  define m1 where "m1 = set_free a True ?m"
  define m2 where "m2 = merge_blocks a (h_next m1 a) m1"
  define m3 where "m3 = merge_blocks (h_prev m2 a) a m2"
  let ?zs = "join_next (a, n, True) ys"
  obtain mid where mid: "spaced ?lo mid xs" "spaced mid hi ((a, n, f) # ys)"
    using sp by (auto simp: spaced_append)
  have sp1: "spaced ?lo hi (xs @ (a, n, True) # ys)" using mid by (auto simp: spaced_append)
  have ch1: "chain m1 NULL ?h (xs @ (a, n, True) # ys)"
    unfolding m1_def
  proof (rule chain_replace [OF ch sp hi(1)])
    fix q c assume c: "chain ?m q c ((a, n, f) # ys)"
    then have "c = a" by simp
    then show "chain (set_free a True ?m) q c ((a, n, True) # ys)"
      using chain_set_free [OF _ mid(2) hi(1)] c by blast
  next
    fix x assume "in_headers x xs"
    then show "set_free a True ?m x = ?m x"
      using prefix_headers_apart(2) [OF sp hi(1)] by (intro set_outside(3) [OF a(1)]) (auto simp: in_headers_def)
  qed
  have ch2: "chain m2 NULL ?h (xs @ ?zs)" and sp2: "spaced ?lo hi (xs @ ?zs)"
    using merge_in_list(1,2) [OF ch1 sp1 hi] by (simp_all add: m2_def)
  have out2: "m2 x = ?m x" if "\<not> in_headers x (xs @ (a, n, f) # ys)" for x
    using merge_in_list(3) [OF ch1 sp1 hi, of x] that set_outside(3) [OF a(1), of x]
    by (auto simp: m2_def m1_def in_headers_def)
  have "\<exists>k t. ?zs = (a, k, True) # t"
    by (cases "((a, n, True), ys)" rule: join_next.cases) auto
  then obtain k t where zs: "?zs = (a, k, True) # t" by blast
  have fin: "chain m3 NULL ?h (freed xs a n ys) \<and> spaced ?lo hi (freed xs a n ys)
    \<and> (\<forall>x. \<not> in_headers x (xs @ (a, n, f) # ys) \<longrightarrow> m3 x = ?m x)"
  proof (cases xs rule: rev_cases)
    case Nil
    then have "h_prev m2 a = NULL" using ch2 zs by (simp add: hdr_def)
    then have "m3 = m2" by (simp add: m3_def merge_blocks_def)
    then show ?thesis using ch2 sp2 out2 Nil by (simp add: freed_def)
  next
    case (snoc us w)
    obtain q j g where w: "w = (q, j, g)" by (cases w)
    have ch2': "chain m2 NULL ?h (us @ (q, j, g) # ?zs)" and sp2': "spaced ?lo hi (us @ (q, j, g) # ?zs)"
      using ch2 sp2 snoc w by simp_all
    then have pn: "h_prev m2 a = q" "h_next m2 q = a" using zs by (auto simp: chain_append hdr_def)
    have out3: "m3 x = m2 x" if "\<not> in_headers x (xs @ (a, n, f) # ys)" for x
    proof -
      have "\<not> in_headers x ((q, j, g) # ?zs)"
        using that addrs_join_next [of _ "(a, n, True)" ys] snoc w by (fastforce simp: in_headers_def)
      then show ?thesis using merge_in_list(3) [OF ch2' sp2' hi, of x] pn by (simp add: m3_def)
    qed
    then show ?thesis
      using merge_in_list(1,2) [OF ch2' sp2' hi] pn out2 snoc w by (simp add: m3_def freed_def Let_def)
  qed
  define s' where "s' = on_mem (\<lambda>m. merge_blocks (h_prev m a) a m) (on_mem (\<lambda>m. merge_blocks a (h_next m a) m)
      (on_mem (set_free a True) (s\<lparr>brk_state := b'\<rparr>)))"
  have run: "kfree fuel brk p s = Done s'"
    using nz ge brk fb anz
    by (simp add: kfree_def do_brk_def s'_def MIN_BLK_SIZE_def HEADER_SIZE_def ALIGN_SIZE_def Let_def)
  have km: "kmem s' = m3" by (simp add: s'_def m3_def m2_def m1_def)
  have "freed xs a n ys \<noteq> []" using hd_join_next(1) by (simp add: freed_def Let_def)
  then show ?thesis
    using run fin km hi by (intro exI [of _ s']) (auto simp: heap_at_def s'_def)
qed

text \<open>In particular of the pointer \<open>kmalloc\<close> gave out.\<close>

lemma payload_in_block: "unat a + 32 + n < 18446744073709551616 \<Longrightarrow> 0 < n \<Longrightarrow> in_block (a + 32) a n"
proof -
  assume "unat a + 32 + n < 18446744073709551616" "0 < n"
  moreover from this have "unat (a + 32) = unat a + 32" by (subst unat_add_nowrap) simp_all
  ultimately show "in_block (a + 32) a n" by (simp add: in_block_def)
qed

lemma kfree_step:
  assumes heap: "heap_at s (xs @ (a, n, f) # ys) hi" and n: "0 < n" and fuel: "length xs < fuel"
    and brk: "brk 0 (brk_state s) = Done (tp, b')" "\<not> tp - 48 < a + 32"
  shows "\<exists>s'. kfree fuel brk (a + 32) s = Done s' \<and> heap_at s' (freed xs a n ys) hi
     \<and> brk_state s' = b' \<and> kernel_heap_head s' = kernel_heap_head s
     \<and> (\<forall>x. \<not> in_headers x (xs @ (a, n, f) # ys) \<longrightarrow> kmem s' x = kmem s x)"
proof -
  have "unat a + 32 + n \<le> hi" "hi < 18446744073709551616"
    using heap spaced_addr [of "unat (kernel_heap_head s)" hi "xs @ (a, n, f) # ys" a n f] by (auto simp: heap_at_def)
  then have "in_block (a + 32) a n" using n by (intro payload_in_block) simp_all
  then show ?thesis by (rule kfree_any [where s = s and brk = brk, OF heap _ fuel brk])
qed

end
