(* ===== verification/PageFrames.thy ===== *)
theory PageFrames imports Prelude begin

text \<open>
  The physical page-frame allocator of src/drivers/mmu_driver.c: the ranges of free
  physical memory, the bump allocator over them (\<open>alloc_new_pf\<close>), and the free list that
  \<open>MMU_pf_free\<close> threads through the freed frames themselves (\<open>MMU_pf_alloc\<close>,
  \<open>MMU_pf_free\<close>). Physical memory is modelled by its aligned 64-bit words, which is how
  this driver accesses it.
\<close>

section \<open>State of the driver\<close>

datatype virt_addr_t =
    MMU_VADDR_PHYS | MMU_VADDR_KHEAP | MMU_VADDR_RES | MMU_VADDR_IST1 | MMU_VADDR_IST2
  | MMU_VADDR_IST3 | MMU_VADDR_IST4 | MMU_VADDR_KSTACK | MMU_VADDR_USTACK | MMU_VADDR_UHEAP

definition PAGE_SIZE :: u64 where "PAGE_SIZE = 4096"
definition PHYS_END :: addr where "PHYS_END = 0x00FFFFFFFFFF"

text \<open>An entry of the linked list of physical ranges. The list's nodes are kept in list
  order, so \<open>next_entry\<close> is the next position.\<close>

record pf_range_entry_t =
  start :: addr
  curr_frame :: addr
  end_addr :: addr

record mmu =
  pmem :: "addr \<Rightarrow> u64"
  addr_ranges :: "pf_range_entry_t list"
  addr_range_curr :: nat
  pf_free_list_head :: addr
  local_heap_ptr :: addr
  pml4 :: addr
  virt_addr_bank :: "virt_addr_t \<Rightarrow> addr"
  mmu_log :: "kmsg list"

definition mmu_say :: "kmsg \<Rightarrow> mmu \<Rightarrow> mmu" where
  "mmu_say k s = s\<lparr>mmu_log := k # mmu_log s\<rparr>"

lemma mmu_say_simps [simp]:
  "pmem (mmu_say k s) = pmem s" "addr_ranges (mmu_say k s) = addr_ranges s"
  "addr_range_curr (mmu_say k s) = addr_range_curr s"
  "pf_free_list_head (mmu_say k s) = pf_free_list_head s"
  "local_heap_ptr (mmu_say k s) = local_heap_ptr s"
  "pml4 (mmu_say k s) = pml4 s" "virt_addr_bank (mmu_say k s) = virt_addr_bank s"
  by (simp_all add: mmu_say_def)

section \<open>The allocator\<close>

definition CHECK_PAGE_ALIGNED :: "addr \<Rightarrow> unit res" where
  "CHECK_PAGE_ALIGNED x =
     (if x mod PAGE_SIZE = 0 then Done () else Halt ''Address %p is not page aligned!'')"

definition alloc_new_pf :: "mmu \<Rightarrow> (addr \<times> mmu) res" where
  "alloc_new_pf s =
     (if addr_range_curr s \<ge> length (addr_ranges s)
         \<or> curr_frame (addr_ranges s ! addr_range_curr s) = NULL
      then Halt ''addr_range_curr is NULL!''
      else
        let c = addr_range_curr s;
            r = addr_ranges s ! c;
            phys_page = curr_frame r;
            r' = r\<lparr>curr_frame := phys_page + PAGE_SIZE\<rparr>;
            s1 = s\<lparr>addr_ranges := (addr_ranges s)[c := r']\<rparr>
        in if curr_frame r' \<ge> end_addr r'
           then if Suc c \<ge> length (addr_ranges s)
                then Halt ''All memory has been allocated!''
                else Done (phys_page, mmu_say (OS_INFO ''Allocated NEW physical page %p'' [phys_page])
                                        (s1\<lparr>addr_range_curr := Suc c\<rparr>))
           else Done (phys_page, mmu_say (OS_INFO ''Allocated NEW physical page %p'' [phys_page]) s1))"

definition MMU_pf_alloc :: "mmu \<Rightarrow> (addr \<times> mmu) res" where
  "MMU_pf_alloc s =
     (if pf_free_list_head s = NULL then alloc_new_pf s
      else let pf = pf_free_list_head s
           in Done (pf, s\<lparr>pf_free_list_head := pmem s pf\<rparr>))"

definition MMU_pf_free :: "addr \<Rightarrow> mmu \<Rightarrow> mmu res" where
  "MMU_pf_free pf s =
     res_bind (CHECK_PAGE_ALIGNED pf) (\<lambda>_.
       if pf = NULL then Halt ''Page frame is NULL!''
       else if pf > PHYS_END then Halt ''Page frame is out of bounds!''
       else Done (s\<lparr>pmem := (pmem s)(pf := pf_free_list_head s), pf_free_list_head := pf\<rparr>))"

section \<open>The frames the allocator still holds\<close>

definition page_aligned :: "addr \<Rightarrow> bool" where
  "page_aligned a \<longleftrightarrow> a mod 4096 = 0"

definition good_frame :: "addr \<Rightarrow> bool" where
  "good_frame a \<longleftrightarrow> a \<noteq> NULL \<and> page_aligned a \<and> a \<le> PHYS_END"

text \<open>The free list: a chain of next pointers stored in the first word of each frame.\<close>

fun free_chain :: "(addr \<Rightarrow> u64) \<Rightarrow> addr \<Rightarrow> addr list \<Rightarrow> bool" where
  "free_chain m p [] \<longleftrightarrow> p = NULL"
| "free_chain m p (x # xs) \<longleftrightarrow> p = x \<and> x \<noteq> NULL \<and> free_chain m (m x) xs"

text \<open>The frames the bump allocator will hand out of one range, and of all that are left.\<close>

definition range_frames :: "pf_range_entry_t \<Rightarrow> addr list" where
  "range_frames r =
     map (\<lambda>i. curr_frame r + of_nat (4096 * i))
         [0..<(unat (end_addr r) - unat (curr_frame r) + 4095) div 4096]"

definition new_frames :: "mmu \<Rightarrow> addr list" where
  "new_frames s = concat (map range_frames (drop (addr_range_curr s) (addr_ranges s)))"

definition range_ok :: "pf_range_entry_t \<Rightarrow> bool" where
  "range_ok r \<longleftrightarrow> curr_frame r \<noteq> NULL \<and> page_aligned (curr_frame r)
     \<and> curr_frame r < end_addr r \<and> unat (end_addr r) \<le> unat PHYS_END + 1"

text \<open>\<open>frames_held s xs\<close>: the allocator is well formed and will hand out exactly the frames
  \<open>xs\<close>, in this order.\<close>

definition frames_held :: "mmu \<Rightarrow> addr list \<Rightarrow> bool" where
  "frames_held s xs \<longleftrightarrow>
     (\<exists>fl. free_chain (pmem s) (pf_free_list_head s) fl \<and> xs = fl @ new_frames s)
     \<and> distinct xs \<and> list_all good_frame xs
     \<and> list_all range_ok (drop (addr_range_curr s) (addr_ranges s))"

lemma page_aligned_dvd: "page_aligned a \<longleftrightarrow> 4096 dvd unat a"
proof -
  have "a mod 4096 = 0 \<longleftrightarrow> unat (a mod 4096) = 0" by (metis unat_eq_zero)
  also have "unat (a mod 4096) = unat a mod 4096" by (simp add: unat_mod_distrib)
  finally show ?thesis by (simp add: page_aligned_def dvd_eq_mod_eq_0)
qed

lemma CHECK_PAGE_ALIGNED_ok [simp]: "page_aligned a \<Longrightarrow> CHECK_PAGE_ALIGNED a = Done ()"
  by (simp add: CHECK_PAGE_ALIGNED_def page_aligned_def PAGE_SIZE_def)

lemma unat_PHYS_END: "unat PHYS_END = 1099511627775"
  by (simp add: PHYS_END_def)

lemma free_chain_cong:
  "(\<And>x. x \<in> set xs \<Longrightarrow> m x = m' x) \<Longrightarrow> free_chain m p xs = free_chain m' p xs"
  by (induction xs arbitrary: p) auto

lemma range_frames_Cons:
  assumes "curr_frame r < end_addr r" and "unat (end_addr r) \<le> unat PHYS_END + 1"
  shows "range_frames r = curr_frame r #
           (if curr_frame r + 4096 < end_addr r
            then range_frames (r\<lparr>curr_frame := curr_frame r + 4096\<rparr>) else [])"
proof -
  let ?c = "unat (curr_frame r)" and ?e = "unat (end_addr r)"
  have ce: "?c < ?e" using assms(1) by (simp add: word_less_nat_alt)
  have b: "?e \<le> 1099511627776" using assms(2) by (simp add: unat_PHYS_END)
  have c': "unat (curr_frame r + 4096) = ?c + 4096"
    using ce b by (subst unat_add_nowrap) auto
  have lt: "curr_frame r + 4096 < end_addr r \<longleftrightarrow> ?c + 4096 < ?e"
    by (simp add: word_less_nat_alt c')
  define n where "n = (?e - (?c + 4096) + 4095) div 4096"
  have "(?e - ?c + 4095) div 4096 = Suc (if ?c + 4096 < ?e then n else 0)"
  proof (cases "?c + 4096 < ?e")
    case True
    then have "?e - ?c + 4095 = 4096 + (?e - (?c + 4096) + 4095)" by simp
    with True show ?thesis by (simp add: n_def)
  next
    case False
    then show ?thesis using ce by (simp add: div_nat_eqI)
  qed
  then have "range_frames r = curr_frame r #
      map (\<lambda>i. curr_frame r + of_nat (4096 * Suc i)) [0..<if ?c + 4096 < ?e then n else 0]"
    by (simp only: range_frames_def map_upt_Suc) simp
  then show ?thesis
    by (cases "?c + 4096 < ?e") (simp_all add: lt range_frames_def c' n_def algebra_simps)
qed

lemma range_frames_not_Nil: "range_ok r \<Longrightarrow> range_frames r \<noteq> []"
  by (simp add: range_ok_def range_frames_Cons)

section \<open>Correctness of the two allocation paths\<close>

text \<open>The bump allocator hands out the next frame, and stops the machine when that would be
  the last one.\<close>

lemma alloc_new_pf_step:
  assumes ok: "list_all range_ok (drop (addr_range_curr s) (addr_ranges s))"
    and frames: "new_frames s = x # y # ys"
  shows "\<exists>s'. alloc_new_pf s = Done (x, s') \<and> new_frames s' = y # ys
           \<and> list_all range_ok (drop (addr_range_curr s') (addr_ranges s'))
           \<and> pmem s' = pmem s \<and> pf_free_list_head s' = pf_free_list_head s
           \<and> pml4 s' = pml4 s \<and> virt_addr_bank s' = virt_addr_bank s"
proof -
  let ?c = "addr_range_curr s" and ?rs = "addr_ranges s"
  have c: "?c < length ?rs" using frames by (cases "?c < length ?rs") (simp_all add: new_frames_def)
  define r where "r = ?rs ! ?c"
  have drop: "drop ?c ?rs = r # drop (Suc ?c) ?rs" using c by (simp add: r_def Cons_nth_drop_Suc)
  have rok: "range_ok r" using ok by (simp add: drop)
  then have ce: "curr_frame r < end_addr r" and ee: "unat (end_addr r) \<le> unat PHYS_END + 1"
    and nz: "curr_frame r \<noteq> NULL" and al: "page_aligned (curr_frame r)"
    by (auto simp: range_ok_def)
  define r' where "r' = r\<lparr>curr_frame := curr_frame r + 4096\<rparr>"
  have all: "new_frames s = range_frames r @ concat (map range_frames (drop (Suc ?c) ?rs))"
    by (simp add: new_frames_def drop)
  have c': "unat (curr_frame r + 4096) = unat (curr_frame r) + 4096"
    using ce ee by (subst unat_add_nowrap) (auto simp: word_less_nat_alt unat_PHYS_END)
  show ?thesis
  proof (cases "curr_frame r + 4096 < end_addr r")
    case True
    have "curr_frame r + 4096 \<noteq> NULL" using c' by (metis add_is_0 unat_0 zero_neq_numeral)
    then have rok': "range_ok r'"
      using True ee al by (simp add: range_ok_def r'_def page_aligned_dvd c')
    have "range_frames r = curr_frame r # range_frames r'"
      using range_frames_Cons [OF ce ee] True by (simp add: r'_def)
    then have x: "x = curr_frame r"
      and rest: "range_frames r' @ concat (map range_frames (drop (Suc ?c) ?rs)) = y # ys"
      using frames all by auto
    have dropu: "drop ?c (?rs[?c := r']) = r' # drop (Suc ?c) ?rs"
      using c by (simp add: drop_update_swap drop)
    show ?thesis
      using c nz True x rest rok' ok
      by (simp add: alloc_new_pf_def Let_def r_def [symmetric] PAGE_SIZE_def r'_def [symmetric]
          new_frames_def dropu drop not_le)
  next
    case False
    then have "range_frames r = [curr_frame r]" using range_frames_Cons [OF ce ee] by simp
    then have x: "x = curr_frame r"
      and rest: "concat (map range_frames (drop (Suc ?c) ?rs)) = y # ys"
      using frames all by auto
    have more: "Suc ?c < length ?rs"
      using rest by (cases "Suc ?c < length ?rs") auto
    have dropu: "drop (Suc ?c) (?rs[?c := r']) = drop (Suc ?c) ?rs" by simp
    show ?thesis
      using c nz False x rest more ok
      by (simp add: alloc_new_pf_def Let_def r_def [symmetric] PAGE_SIZE_def r'_def [symmetric]
          new_frames_def dropu drop not_le)
  qed
qed

text \<open>Running out: with one frame left the allocator stops the machine instead of returning it.\<close>

lemma alloc_new_pf_last:
  assumes ok: "list_all range_ok (drop (addr_range_curr s) (addr_ranges s))"
    and frames: "new_frames s = [x]"
  shows "alloc_new_pf s = Halt ''All memory has been allocated!''"
proof -
  let ?c = "addr_range_curr s" and ?rs = "addr_ranges s"
  have c: "?c < length ?rs" using frames by (cases "?c < length ?rs") (simp_all add: new_frames_def)
  define r where "r = ?rs ! ?c"
  have drop: "drop ?c ?rs = r # drop (Suc ?c) ?rs" using c by (simp add: r_def Cons_nth_drop_Suc)
  have rok: "range_ok r" and rest: "list_all range_ok (drop (Suc ?c) ?rs)"
    using ok by (simp_all add: drop)
  have one: "range_frames r @ concat (map range_frames (drop (Suc ?c) ?rs)) = [x]"
    using frames by (simp add: new_frames_def drop)
  have "drop (Suc ?c) ?rs = []"
  proof (rule ccontr)
    assume "drop (Suc ?c) ?rs \<noteq> []"
    then obtain q qs where q: "drop (Suc ?c) ?rs = q # qs" by (cases "drop (Suc ?c) ?rs") auto
    then have "range_frames q \<noteq> []" using rest by (simp add: range_frames_not_Nil)
    with one q range_frames_not_Nil [OF rok] show False by (cases "range_frames r") auto
  qed
  then have last: "length ?rs \<le> Suc ?c" by simp
  have "\<not> curr_frame r + 4096 < end_addr r"
  proof
    assume lt: "curr_frame r + 4096 < end_addr r"
    have "range_frames (r\<lparr>curr_frame := curr_frame r + 4096\<rparr>) \<noteq> []"
      using rok lt range_frames_Cons [of "r\<lparr>curr_frame := curr_frame r + 4096\<rparr>"]
      by (simp add: range_ok_def)
    then show False
      using one rok lt range_frames_Cons [of r] by (auto simp: range_ok_def)
  qed
  then show ?thesis
    using c rok last by (simp add: alloc_new_pf_def Let_def r_def [symmetric] PAGE_SIZE_def range_ok_def not_less)
qed

lemma MMU_pf_alloc_step:
  assumes held: "frames_held s (x # y # ys)"
  shows "\<exists>s'. MMU_pf_alloc s = Done (x, s') \<and> frames_held s' (y # ys)
           \<and> pmem s' = pmem s \<and> pml4 s' = pml4 s \<and> virt_addr_bank s' = virt_addr_bank s"
proof -
  obtain fl where fl: "free_chain (pmem s) (pf_free_list_head s) fl"
    and xs: "x # y # ys = fl @ new_frames s"
    using held by (auto simp: frames_held_def)
  show ?thesis
  proof (cases fl)
    case Nil
    then have hd: "pf_free_list_head s = NULL" using fl by simp
    obtain s' where "alloc_new_pf s = Done (x, s')" and "new_frames s' = y # ys"
      and "list_all range_ok (drop (addr_range_curr s') (addr_ranges s'))"
      and "pmem s' = pmem s" and "pf_free_list_head s' = pf_free_list_head s"
      and "pml4 s' = pml4 s" and "virt_addr_bank s' = virt_addr_bank s"
      using alloc_new_pf_step [of s x y ys] held xs Nil by (auto simp: frames_held_def)
    then show ?thesis
      using held hd by (auto simp: MMU_pf_alloc_def frames_held_def intro!: exI [of _ "[]"])
  next
    case (Cons a fl')
    then have a: "pf_free_list_head s = x" and nz: "x \<noteq> NULL"
      and rest: "free_chain (pmem s) (pmem s x) fl'" and tl: "y # ys = fl' @ new_frames s"
      using fl xs by auto
    show ?thesis
      using held nz rest tl
      by (auto simp: MMU_pf_alloc_def Let_def a frames_held_def new_frames_def intro!: exI [of _ fl'])
  qed
qed

text \<open>In general: the allocator returns the first of its frames, or halts with at most one left.\<close>

lemma MMU_pf_alloc_cases:
  assumes held: "frames_held s xs"
  shows "length xs \<le> 1 \<and> halts (MMU_pf_alloc s)
    \<or> (\<exists>x ys s'. xs = x # ys \<and> MMU_pf_alloc s = Done (x, s') \<and> frames_held s' ys
           \<and> pmem s' = pmem s \<and> pml4 s' = pml4 s \<and> virt_addr_bank s' = virt_addr_bank s)"
proof -
  obtain fl where fl: "free_chain (pmem s) (pf_free_list_head s) fl" and xs: "xs = fl @ new_frames s"
    using held by (auto simp: frames_held_def)
  show ?thesis
  proof (cases fl)
    case (Cons x fl')
    then show ?thesis
      using held fl xs
      by (auto simp: MMU_pf_alloc_def Let_def frames_held_def new_frames_def intro!: exI [of _ fl'])
  next
    case Nil
    then have hd: "pf_free_list_head s = NULL" and new: "new_frames s = xs" using fl xs by simp_all
    have ok: "list_all range_ok (drop (addr_range_curr s) (addr_ranges s))" using held by (simp add: frames_held_def)
    show ?thesis
    proof (cases xs)
      case Nil
      have "length (addr_ranges s) \<le> addr_range_curr s"
      proof (rule ccontr)
        assume "\<not> ?thesis"
        then obtain r rs where "drop (addr_range_curr s) (addr_ranges s) = r # rs"
          by (cases "drop (addr_range_curr s) (addr_ranges s)") auto
        then show False using ok new Nil range_frames_not_Nil by (simp add: new_frames_def)
      qed
      then show ?thesis using hd Nil by (simp add: MMU_pf_alloc_def alloc_new_pf_def)
    next
      case (Cons x ys)
      show ?thesis
      proof (cases ys)
        case Nil
        then show ?thesis using alloc_new_pf_last [OF ok] new Cons hd by (simp add: MMU_pf_alloc_def)
      next
        case (Cons y zs)
        then show ?thesis using MMU_pf_alloc_step [of s x y zs] held \<open>xs = x # ys\<close> by blast
      qed
    qed
  qed
qed

lemma MMU_pf_free_step:
  assumes held: "frames_held s xs" and x: "good_frame x" and new: "x \<notin> set xs"
  shows "\<exists>s'. MMU_pf_free x s = Done s' \<and> frames_held s' (x # xs)
           \<and> pmem s' = (pmem s)(x := pf_free_list_head s)
           \<and> pml4 s' = pml4 s \<and> virt_addr_bank s' = virt_addr_bank s"
proof -
  obtain fl where fl: "free_chain (pmem s) (pf_free_list_head s) fl" and xs: "xs = fl @ new_frames s"
    using held by (auto simp: frames_held_def)
  have "free_chain ((pmem s)(x := pf_free_list_head s)) (pf_free_list_head s) fl"
    using fl new xs by (subst free_chain_cong [of _ _ "pmem s"]) auto
  then show ?thesis
    using held x new xs
    by (auto simp: MMU_pf_free_def good_frame_def frames_held_def new_frames_def not_less [symmetric]
        intro!: exI [of _ "x # fl"])
qed

text \<open>What a write to memory must spare for the allocator to stay as it is: the frames it holds.\<close>

lemma frames_held_write:
  assumes "frames_held s xs" and "\<And>x. x \<in> set xs \<Longrightarrow> m x = pmem s x"
  shows "frames_held (s\<lparr>pmem := m\<rparr>) xs"
proof -
  obtain fl where fl: "free_chain (pmem s) (pf_free_list_head s) fl" and xs: "xs = fl @ new_frames s"
    using assms(1) by (auto simp: frames_held_def)
  have "free_chain m (pf_free_list_head s) fl"
    using fl assms(2) xs by (subst free_chain_cong [of _ _ "pmem s"]) auto
  then show ?thesis using assms(1) xs by (auto simp: frames_held_def new_frames_def)
qed

lemma frames_held_cong:
  assumes "pmem s' = pmem s" and "addr_ranges s' = addr_ranges s"
    and "addr_range_curr s' = addr_range_curr s" and "pf_free_list_head s' = pf_free_list_head s"
  shows "frames_held s' xs = frames_held s xs"
  using assms by (simp add: frames_held_def new_frames_def)

section \<open>The interface of a frame allocator\<close>

text \<open>
  What the page-table code relies on: \<open>holds s xs\<close> says that the allocator of state \<open>s\<close> can
  still hand out the frames \<open>xs\<close>. As long as two are left, an allocation returns the first;
  a freed frame is the next one to be handed out. \<open>alloc_times\<close> is a run of \<open>n\<close> allocations.
\<close>

primrec alloc_times :: "('s \<Rightarrow> (addr \<times> 's) res) \<Rightarrow> nat \<Rightarrow> 's \<Rightarrow> (addr list \<times> 's) res" where
  "alloc_times alloc 0 s = Done ([], s)"
| "alloc_times alloc (Suc n) s = res_bind (alloc s) (\<lambda>(x, s1).
     res_bind (alloc_times alloc n s1) (\<lambda>(xs, s2). Done (x # xs, s2)))"

locale frame_allocator =
  fixes holds :: "'s \<Rightarrow> addr list \<Rightarrow> bool"
    and alloc :: "'s \<Rightarrow> (addr \<times> 's) res"
    and free :: "addr \<Rightarrow> 's \<Rightarrow> 's res"
  assumes holds_distinct: "holds s xs \<Longrightarrow> distinct xs"
    and holds_good: "holds s xs \<Longrightarrow> x \<in> set xs \<Longrightarrow> good_frame x"
    and alloc_head: "holds s (x # y # xs) \<Longrightarrow> \<exists>s'. alloc s = Done (x, s') \<and> holds s' (y # xs)"
    and free_cons: "holds s xs \<Longrightarrow> good_frame x \<Longrightarrow> x \<notin> set xs
                    \<Longrightarrow> \<exists>s'. free x s = Done s' \<and> holds s' (x # xs)"
begin

lemma alloc_times_take:
  "holds s xs \<Longrightarrow> n < length xs \<Longrightarrow>
     \<exists>s'. alloc_times alloc n s = Done (take n xs, s') \<and> holds s' (drop n xs)"
proof (induction n arbitrary: s xs)
  case (Suc n)
  obtain x y zs where xs: "xs = x # y # zs"
    using Suc.prems(2) by (cases xs; cases "tl xs") auto
  obtain s1 where a: "alloc s = Done (x, s1)" and h: "holds s1 (y # zs)"
    using alloc_head Suc.prems(1) xs by blast
  have n: "n < length (y # zs)" using Suc.prems(2) xs by simp
  obtain s2 where "alloc_times alloc n s1 = Done (take n (y # zs), s2)" and "holds s2 (drop n (y # zs))"
    using Suc.IH [OF h n] by blast
  then show ?case by (simp add: a xs)
qed simp

lemma alloc_times_distinct:
  assumes "holds s xs" and "n < length xs" and "alloc_times alloc n s = Done (ps, s')"
  shows "distinct ps \<and> length ps = n \<and> list_all good_frame ps \<and> holds s' (drop n xs)
         \<and> set ps \<inter> set (drop n xs) = {}"
proof -
  have "ps = take n xs" and "holds s' (drop n xs)"
    using alloc_times_take [OF assms(1,2)] assms(3) by auto
  then show ?thesis
    using holds_distinct [OF assms(1)] holds_good [OF assms(1)] assms(2)
    by (auto simp: list_all_iff set_take_disj_set_drop_if_distinct dest: in_set_takeD)
qed

text \<open>An allocated frame can be given back, and is the next one handed out.\<close>

lemma alloc_free_alloc:
  assumes "holds s (x # y # xs)"
  shows "\<exists>s1 s2 s3. alloc s = Done (x, s1) \<and> free x s1 = Done s2 \<and> holds s2 (x # y # xs)
            \<and> alloc s2 = Done (x, s3)"
proof -
  obtain s1 where s1: "alloc s = Done (x, s1)" "holds s1 (y # xs)"
    using alloc_head [OF assms] by blast
  have "x \<notin> set (y # xs)" "good_frame x"
    using holds_distinct [OF assms] holds_good [OF assms, of x] by auto
  then obtain s2 where s2: "free x s1 = Done s2" "holds s2 (x # y # xs)"
    using free_cons s1(2) by blast
  then show ?thesis using s1 alloc_head by blast
qed

end

interpretation pf: frame_allocator frames_held MMU_pf_alloc MMU_pf_free
proof unfold_locales
  fix s xs assume "frames_held s xs" then show "distinct xs" by (simp add: frames_held_def)
next
  fix s xs x assume "frames_held s xs" "x \<in> set xs"
  then show "good_frame x" by (auto simp: frames_held_def list_all_iff)
next
  fix s x y xs assume "frames_held s (x # y # xs)"
  then show "\<exists>s'. MMU_pf_alloc s = Done (x, s') \<and> frames_held s' (y # xs)"
    using MMU_pf_alloc_step by blast
next
  fix s xs x assume "frames_held s xs" "good_frame x" "x \<notin> set xs"
  then show "\<exists>s'. MMU_pf_free x s = Done s' \<and> frames_held s' (x # xs)"
    using MMU_pf_free_step by blast
qed

end
