(* ===== verification/PageTables.thy ===== *)
theory PageTables imports PageFrames begin

text \<open>
  The four-level page tables of src/drivers/mmu_driver.c: the bit fields of an entry
  (\<open>pg_dir_entry_t\<close>), the walk that allocates missing tables (\<open>get_pt_entry\<close>),
  \<open>map_page\<close> and \<open>virt_to_phys\<close>. The abstract view is \<open>leaf\<close>: the page-table entry the
  hardware finds for a virtual address, 0 where a table is missing.
\<close>

section \<open>Entries\<close>

text \<open>Bit fields of \<open>pg_dir_entry_t\<close>: present 0, writable 1, alloc 10, frame\_addr 12 to 51.\<close>

definition pte_present :: "u64 \<Rightarrow> bool" where "pte_present e = bit e 0"
definition pte_writable :: "u64 \<Rightarrow> bool" where "pte_writable e = bit e 1"
definition pte_alloc :: "u64 \<Rightarrow> bool" where "pte_alloc e = bit e 10"

definition set_present :: "bool \<Rightarrow> u64 \<Rightarrow> u64" where
  "set_present b e = (if b then set_bit 0 e else unset_bit 0 e)"
definition set_writable :: "bool \<Rightarrow> u64 \<Rightarrow> u64" where
  "set_writable b e = (if b then set_bit 1 e else unset_bit 1 e)"
definition set_alloc :: "bool \<Rightarrow> u64 \<Rightarrow> u64" where
  "set_alloc b e = (if b then set_bit 10 e else unset_bit 10 e)"

definition READ_FRAME_ADDR :: "u64 \<Rightarrow> addr" where
  "READ_FRAME_ADDR e = push_bit 12 (drop_bit 12 e AND mask 40)"

definition WRITE_FRAME_ADDR :: "u64 \<Rightarrow> addr \<Rightarrow> u64" where
  "WRITE_FRAME_ADDR e a =
     (e AND NOT (push_bit 12 (mask 40))) OR push_bit 12 (drop_bit 12 a AND mask 40)"

lemmas pte_defs = pte_present_def pte_writable_def pte_alloc_def
  set_present_def set_writable_def set_alloc_def

lemma pte_present_simps [simp]:
  "pte_present (set_present b e) = b" "pte_present (set_writable b e) = pte_present e"
  "pte_present (set_alloc b e) = pte_present e"
  "pte_present (WRITE_FRAME_ADDR e a) = pte_present e" "\<not> pte_present 0"
  by (simp_all add: pte_defs WRITE_FRAME_ADDR_def bit_set_bit_iff bit_unset_bit_iff bit_or_iff
      bit_and_iff bit_not_iff bit_push_bit_iff)

lemma pte_writable_simps [simp]:
  "pte_writable (set_present b e) = pte_writable e" "pte_writable (set_writable b e) = b"
  "pte_writable (set_alloc b e) = pte_writable e"
  "pte_writable (WRITE_FRAME_ADDR e a) = pte_writable e" "\<not> pte_writable 0"
  by (simp_all add: pte_defs WRITE_FRAME_ADDR_def bit_set_bit_iff bit_unset_bit_iff bit_or_iff
      bit_and_iff bit_not_iff bit_push_bit_iff)

lemma pte_alloc_simps [simp]:
  "pte_alloc (set_present b e) = pte_alloc e" "pte_alloc (set_writable b e) = pte_alloc e"
  "pte_alloc (set_alloc b e) = b"
  "pte_alloc (WRITE_FRAME_ADDR e a) = pte_alloc e" "\<not> pte_alloc 0"
  by (simp_all add: pte_defs WRITE_FRAME_ADDR_def bit_set_bit_iff bit_unset_bit_iff bit_or_iff
      bit_and_iff bit_not_iff bit_push_bit_iff)

lemma bit_READ_FRAME_ADDR:
  "bit (READ_FRAME_ADDR e) n \<longleftrightarrow> 12 \<le> n \<and> n < 52 \<and> bit e n"
  by (auto simp: READ_FRAME_ADDR_def bit_push_bit_iff bit_and_iff bit_mask_iff bit_drop_bit_eq)

lemma READ_FRAME_ADDR_flags [simp]:
  "READ_FRAME_ADDR (set_present b e) = READ_FRAME_ADDR e"
  "READ_FRAME_ADDR (set_writable b e) = READ_FRAME_ADDR e"
  "READ_FRAME_ADDR (set_alloc b e) = READ_FRAME_ADDR e"
  by (rule bit_eqI, auto simp: bit_READ_FRAME_ADDR set_present_def set_writable_def set_alloc_def
      bit_set_bit_iff bit_unset_bit_iff)+

lemma READ_WRITE_FRAME_ADDR: "READ_FRAME_ADDR (WRITE_FRAME_ADDR e a) = READ_FRAME_ADDR a"
  by (rule bit_eqI)
     (auto simp: bit_READ_FRAME_ADDR WRITE_FRAME_ADDR_def bit_or_iff bit_and_iff bit_not_iff
       bit_push_bit_iff bit_mask_iff bit_drop_bit_eq)

lemma bit_imp_le_unat:
  fixes a :: u64
  assumes "bit a n"
  shows "2 ^ n \<le> unat a"
proof -
  have "bit (unat a) n" using assms by (simp add: bit_unsigned_iff bit_imp_possible_bit)
  then have "odd (unat a div 2 ^ n)" by (simp add: bit_iff_odd)
  then show ?thesis by (metis div_less even_zero not_le)
qed

lemma unat_READ_FRAME_ADDR_small:
  assumes "a \<le> PHYS_END"
  shows "unat (READ_FRAME_ADDR a) = unat a div 4096 * 4096"
proof -
  have lt: "unat a < 2 ^ 40" using assms by (simp add: word_le_nat_alt unat_PHYS_END)
  have "READ_FRAME_ADDR a = push_bit 12 (drop_bit 12 a)"
  proof (rule bit_eqI)
    fix n assume "possible_bit TYPE(64 word) n"
    have "n < 40" if "bit a n"
    proof (rule ccontr)
      assume "\<not> n < 40"
      then have "(2::nat) ^ 40 \<le> 2 ^ n" by (intro power_increasing) auto
      moreover have "2 ^ n \<le> unat a" using that by (rule bit_imp_le_unat)
      ultimately show False using lt by linarith
    qed
    then show "bit (READ_FRAME_ADDR a) n = bit (push_bit 12 (drop_bit 12 a)) n"
      by (auto simp: bit_READ_FRAME_ADDR bit_push_bit_iff bit_drop_bit_eq)
  qed
  then show ?thesis by (simp add: unat_push_drop_u64)
qed

lemma READ_FRAME_ADDR_good [simp]:
  assumes "page_aligned a" and "a \<le> PHYS_END"
  shows "READ_FRAME_ADDR a = a"
proof -
  have "unat (READ_FRAME_ADDR a) = unat a"
    using assms by (simp add: unat_READ_FRAME_ADDR_small page_aligned_dvd)
  then show ?thesis by (simp add: word_unat_eq_iff)
qed

section \<open>Indices of a virtual address\<close>

definition GET_PAGE_MAP_INDEX :: "addr \<Rightarrow> u64" where "GET_PAGE_MAP_INDEX x = drop_bit 39 x AND 0x1FF"
definition GET_PAGE_DIR_PTR_INDEX :: "addr \<Rightarrow> u64" where "GET_PAGE_DIR_PTR_INDEX x = drop_bit 30 x AND 0x1FF"
definition GET_PAGE_DIR_INDEX :: "addr \<Rightarrow> u64" where "GET_PAGE_DIR_INDEX x = drop_bit 21 x AND 0x1FF"
definition GET_PAGE_TBL_INDEX :: "addr \<Rightarrow> u64" where "GET_PAGE_TBL_INDEX x = drop_bit 12 x AND 0x1FF"
definition GET_PHYS_PAGE_INDEX :: "addr \<Rightarrow> u64" where "GET_PHYS_PAGE_INDEX x = x AND 0xFFF"

lemmas index_defs = GET_PAGE_MAP_INDEX_def GET_PAGE_DIR_PTR_INDEX_def GET_PAGE_DIR_INDEX_def
  GET_PAGE_TBL_INDEX_def

lemma and_1FF_less: "(x :: u64) AND 0x1FF < 512"
proof -
  have "x AND 0x1FF \<le> 0x1FF" by (rule word_and_le1)
  then show ?thesis by (rule order.strict_trans1) simp
qed

lemma index_less [simp]:
  "GET_PAGE_MAP_INDEX x < 512" "GET_PAGE_DIR_PTR_INDEX x < 512"
  "GET_PAGE_DIR_INDEX x < 512" "GET_PAGE_TBL_INDEX x < 512"
  by (simp_all add: index_defs and_1FF_less)

section \<open>Operations\<close>

definition memset_page :: "(addr \<Rightarrow> u64) \<Rightarrow> addr \<Rightarrow> (addr \<Rightarrow> u64)" where
  "memset_page m p = (\<lambda>a. if a - p < PAGE_SIZE then 0 else m a)"

definition alloc_table_entry :: "addr \<Rightarrow> mmu \<Rightarrow> mmu res" where
  "alloc_table_entry parent_entry s =
     res_bind (MMU_pf_alloc s) (\<lambda>(new_pd, s1).
       let m = memset_page (pmem s1) new_pd;
           e = set_present True (WRITE_FRAME_ADDR (m parent_entry) new_pd)
       in Done (s1\<lparr>pmem := m(parent_entry := e)\<rparr>))"

text \<open>The step \<open>get_pt_entry\<close> repeats at three levels: allocate the child table of an entry
  that has none, and make the entry writable.\<close>

definition ensure_table :: "addr \<Rightarrow> mmu \<Rightarrow> mmu res" where
  "ensure_table entry s =
     (if \<not> pte_present (pmem s entry)
      then res_bind (alloc_table_entry entry s) (\<lambda>s1.
             Done (s1\<lparr>pmem := (pmem s1)(entry := set_writable True (pmem s1 entry))\<rparr>))
      else Done s)"

definition get_pt_entry :: "addr \<Rightarrow> mmu \<Rightarrow> (addr \<times> mmu) res" where
  "get_pt_entry virt_addr s =
     res_bind (CHECK_PAGE_ALIGNED virt_addr) (\<lambda>_.
     let entry4 = pml4 s + 8 * GET_PAGE_MAP_INDEX virt_addr in
     res_bind (ensure_table entry4 s) (\<lambda>s1.
     let entry3 = READ_FRAME_ADDR (pmem s1 entry4) + 8 * GET_PAGE_DIR_PTR_INDEX virt_addr in
     res_bind (ensure_table entry3 s1) (\<lambda>s2.
     let entry2 = READ_FRAME_ADDR (pmem s2 entry3) + 8 * GET_PAGE_DIR_INDEX virt_addr in
     res_bind (ensure_table entry2 s2) (\<lambda>s3.
     Done (READ_FRAME_ADDR (pmem s3 entry2) + 8 * GET_PAGE_TBL_INDEX virt_addr, s3)))))"

definition map_page :: "addr \<Rightarrow> addr \<Rightarrow> mmu \<Rightarrow> mmu res" where
  "map_page phys_addr virt_addr s =
     res_bind (CHECK_PAGE_ALIGNED phys_addr) (\<lambda>_.
     res_bind (get_pt_entry virt_addr s) (\<lambda>(pt_entry, s1).
       if pte_present (pmem s1 pt_entry) then Halt ''Page at %p is already present!''
       else Done (s1\<lparr>pmem := (pmem s1)(pt_entry :=
              set_alloc False (set_writable True (set_present True (WRITE_FRAME_ADDR 0 phys_addr))))\<rparr>)))"

definition virt_to_phys :: "addr \<Rightarrow> mmu \<Rightarrow> (addr \<times> mmu) res" where
  "virt_to_phys virt_addr s =
     res_bind (get_pt_entry virt_addr s) (\<lambda>(pt_entry, s1).
       if \<not> pte_present (pmem s1 pt_entry)
       then Done (NULL, mmu_say (OS_ERROR ''Page at %p is not present!'' [virt_addr]) s1)
       else Done (READ_FRAME_ADDR (pmem s1 pt_entry) + GET_PHYS_PAGE_INDEX virt_addr, s1))"

section \<open>The abstract view\<close>

text \<open>\<open>tbl m root p\<close>: the table reached from the root table by the indices of \<open>p\<close>, the last
  index first; \<open>leaf m root va\<close>: the page-table entry of \<open>va\<close>.\<close>

primrec tbl :: "(addr \<Rightarrow> u64) \<Rightarrow> addr \<Rightarrow> u64 list \<Rightarrow> addr option" where
  "tbl m root [] = Some root"
| "tbl m root (i # p) =
     (case tbl m root p of
        None \<Rightarrow> None
      | Some t \<Rightarrow> if pte_present (m (t + 8 * i)) then Some (READ_FRAME_ADDR (m (t + 8 * i))) else None)"

definition pt_path :: "addr \<Rightarrow> u64 list" where
  "pt_path va = [GET_PAGE_DIR_INDEX va, GET_PAGE_DIR_PTR_INDEX va, GET_PAGE_MAP_INDEX va]"

definition leaf :: "mmu \<Rightarrow> addr \<Rightarrow> u64" where
  "leaf s va = (case tbl (pmem s) (pml4 s) (pt_path va) of
                  None \<Rightarrow> 0
                | Some t \<Rightarrow> pmem s (t + 8 * GET_PAGE_TBL_INDEX va))"

text \<open>The pages that share a page-table entry.\<close>

definition same_page :: "addr \<Rightarrow> addr \<Rightarrow> bool" where
  "same_page a b \<longleftrightarrow> pt_path a = pt_path b \<and> GET_PAGE_TBL_INDEX a = GET_PAGE_TBL_INDEX b"

definition tpath :: "u64 list \<Rightarrow> bool" where
  "tpath p \<longleftrightarrow> length p \<le> 3 \<and> (\<forall>i \<in> set p. i < 512)"

text \<open>The tables form a tree of page frames the allocator does not hold.\<close>

definition tables_ok :: "(addr \<Rightarrow> u64) \<Rightarrow> addr \<Rightarrow> addr list \<Rightarrow> bool" where
  "tables_ok m root xs \<longleftrightarrow>
     (\<forall>p t. tpath p \<longrightarrow> tbl m root p = Some t \<longrightarrow> good_frame t \<and> t \<notin> set xs) \<and>
     (\<forall>p q t. tpath p \<longrightarrow> tpath q \<longrightarrow> tbl m root p = Some t \<longrightarrow> tbl m root q = Some t \<longrightarrow> p = q)"

definition mmu_inv :: "mmu \<Rightarrow> addr list \<Rightarrow> bool" where
  "mmu_inv s xs \<longleftrightarrow> frames_held s xs \<and> tables_ok (pmem s) (pml4 s) xs"

lemma tpath_pt_path [simp]: "tpath (pt_path va)" "length (pt_path va) = 3"
  by (simp_all add: tpath_def pt_path_def)

lemma tpath_Cons: "tpath (i # p) \<longleftrightarrow> i < 512 \<and> length p \<le> 2 \<and> tpath p"
  by (auto simp: tpath_def)

lemma same_page_refl [simp]: "same_page a a"
  by (simp add: same_page_def)

section \<open>Addresses within pages\<close>

lemma unat_entry:
  assumes "good_frame t" and "i < (512 :: u64)"
  shows "unat (t + 8 * i) = unat t + 8 * unat i" and "unat i < 512"
proof -
  show i: "unat i < 512" using assms(2) by (simp add: word_less_nat_alt)
  have t: "unat t \<le> 1099511627775"
    using assms(1) by (simp add: good_frame_def word_le_nat_alt unat_PHYS_END)
  have "unat (8 * i) = 8 * unat i"
    using i by (simp add: unat_word_ariths)
  then show "unat (t + 8 * i) = unat t + 8 * unat i"
    using i t by (subst unat_add_nowrap) auto
qed

lemma page_base_unique:
  assumes "good_frame t" "good_frame u" and eq: "unat t + a = unat u + b" and "a < 4096" "b < 4096"
  shows "unat t = unat u"
proof -
  obtain k l where k: "unat t = 4096 * k" and l: "unat u = 4096 * l"
    using assms(1,2) by (auto simp: good_frame_def page_aligned_dvd dvd_def)
  have "(4096 * k + a) div 4096 = k" and "(4096 * l + b) div 4096 = l" using assms(4,5) by simp_all
  then show ?thesis using eq k l by simp
qed

lemma entry_eq_iff:
  assumes "good_frame t" "good_frame u" "i < (512 :: u64)" "j < (512 :: u64)"
  shows "t + 8 * i = u + 8 * j \<longleftrightarrow> t = u \<and> i = j"
proof
  assume "t + 8 * i = u + 8 * j"
  then have e: "unat t + 8 * unat i = unat u + 8 * unat j"
    using unat_entry assms by metis
  have ij: "unat i < 512" "unat j < 512" using unat_entry assms by metis+
  have "unat t = unat u"
    by (rule page_base_unique [OF assms(1,2) e]) (use ij in simp_all)
  then show "t = u \<and> i = j" using e by (simp add: word_unat_eq_iff)
qed simp

lemma entry_in_page:
  assumes "good_frame t" "good_frame u" "i < (512 :: u64)"
  shows "t + 8 * i - u < 4096 \<longleftrightarrow> t = u"
proof
  assume "t = u"
  moreover have "unat (8 * i) < 4096" using unat_entry [OF assms(1,3)] by (simp add: unat_word_ariths)
  ultimately show "t + 8 * i - u < 4096" by (simp add: word_less_nat_alt)
next
  assume lt: "t + 8 * i - u < 4096"
  define d where "d = t + 8 * i - u"
  have "unat d < 4096" using lt by (simp add: d_def word_less_nat_alt)
  moreover have "t + 8 * i = u + d" by (simp add: d_def)
  moreover have "unat (u + d) = unat u + unat d"
    using calculation(1) assms(2)
    by (intro unat_add_nowrap) (auto simp: good_frame_def word_le_nat_alt unat_PHYS_END)
  ultimately have e: "unat t + 8 * unat i = unat u + unat d" "unat i < 512" "unat d < 4096"
    using unat_entry [OF assms(1,3)] by auto
  have "unat t = unat u"
    by (rule page_base_unique [OF assms(1,2) e(1)]) (use e in simp_all)
  then show "t = u" by (simp add: word_unat_eq_iff)
qed

lemma frame_entry_neq:
  assumes "good_frame t" "good_frame x" "i < (512 :: u64)" "x \<noteq> t"
  shows "t + 8 * i \<noteq> x"
  using entry_eq_iff [OF assms(1,2,3), of 0] assms(4) by simp

lemma memset_page_entry:
  assumes "good_frame t" "good_frame x" "i < (512 :: u64)"
  shows "memset_page m x (t + 8 * i) = (if t = x then 0 else m (t + 8 * i))"
  by (simp add: memset_page_def PAGE_SIZE_def entry_in_page assms)

text \<open>A word belongs to one frame only.\<close>

lemma frame_words_apart:
  assumes "good_frame f" "good_frame g" "a < PAGE_SIZE" "b < PAGE_SIZE" "f + a = g + b"
  shows "f = g"
proof -
  have w: "unat (h + c) = unat h + unat c" "unat c < 4096" if "good_frame h" "c < PAGE_SIZE" for h c
  proof -
    show "unat c < 4096" using that(2) by (simp add: PAGE_SIZE_def word_less_nat_alt)
    then show "unat (h + c) = unat h + unat c"
      using that(1) by (intro unat_add_nowrap) (auto simp: good_frame_def word_le_nat_alt unat_PHYS_END)
  qed
  have "unat f + unat a = unat g + unat b" using w assms by metis
  then show ?thesis using page_base_unique [OF assms(1,2)] w(2) assms word_unat_eq_iff by blast
qed

lemma memset_page_other:
  assumes "good_frame f" "good_frame x" "f \<noteq> x" "off < PAGE_SIZE"
  shows "memset_page m x (f + off) = m (f + off)"
proof -
  have "\<not> f + off - x < PAGE_SIZE" using frame_words_apart [OF assms(1,2,4), of "f + off - x"] assms(3) by auto
  then show ?thesis by (simp add: memset_page_def)
qed

lemma entry_word_apart:
  assumes "good_frame t" "good_frame f" "t \<noteq> f" "i < (512 :: u64)" "off < PAGE_SIZE"
  shows "f + off \<noteq> t + 8 * i"
proof
  assume "f + off = t + 8 * i"
  then have "t + 8 * i - f = off" by (metis add_diff_cancel_left')
  then show False using entry_in_page [OF assms(1,2,4)] assms(3,5) by (simp add: PAGE_SIZE_def)
qed

section \<open>Adding a table, writing a leaf entry\<close>

lemma tables_okD:
  assumes "tables_ok m root xs" "tpath p" "tbl m root p = Some t"
  shows "good_frame t" "t \<notin> set xs"
  using assms unfolding tables_ok_def by blast+

lemma tables_ok_inj:
  assumes "tables_ok m root xs" "tpath p" "tpath q" "tbl m root p = Some t" "tbl m root q = Some t"
  shows "p = q"
  using assms unfolding tables_ok_def by blast

text \<open>Entry \<open>i\<close> of the table at path \<open>p\<close> gets a fresh, cleared table \<open>x\<close>.\<close>

lemma tbl_new_table:
  assumes ok: "tables_ok m root xs" and x: "x \<in> set xs" "good_frame x"
    and p: "tpath (i # p)" "tbl m root p = Some t" and np: "\<not> pte_present (m (t + 8 * i))"
    and v: "pte_present v" "READ_FRAME_ADDR v = x"
    and m': "m' = (memset_page m x)(t + 8 * i := v)"
    and q: "tpath q"
  shows "tbl m' root q = (if q = i # p then Some x else tbl m root q)"
  using q
proof (induction q)
  case (Cons j q)
  have tp: "tpath p" "i < 512" and tq: "tpath q" "j < 512" using p(1) Cons.prems by (auto simp: tpath_Cons)
  have t: "good_frame t" "t \<noteq> x" using tables_okD [OF ok tp(1) p(2)] x(1) by auto
  have IH: "tbl m' root q = (if q = i # p then Some x else tbl m root q)" using Cons.IH tq(1) .
  have mx: "m' (x + 8 * j) = 0"
    using t x(2) tp tq by (simp add: m' entry_eq_iff memset_page_entry)
  show ?case
  proof (cases "q = i # p")
    case True
    then have "tbl m root q = None" using np p(2) by simp
    then show ?thesis using True IH mx by auto
  next
    case False
    show ?thesis
    proof (cases "tbl m root q")
      case None
      then have "q \<noteq> p" using p(2) by auto
      then show ?thesis using None IH False by simp
    next
      case (Some u)
      have u: "good_frame u" "u \<noteq> x" using tables_okD [OF ok tq(1) Some] x(1) by auto
      have mu: "m' (u + 8 * j) = (if u = t \<and> j = i then v else m (u + 8 * j))"
        using t u x(2) tp tq by (simp add: m' entry_eq_iff memset_page_entry)
      have "u = t \<longleftrightarrow> q = p" using tables_ok_inj [OF ok tq(1) tp(1)] Some p(2) by auto
      then show ?thesis using IH False Some mu v p(2) np by auto
    qed
  qed
qed simp

lemma tables_ok_new_table:
  assumes ok: "tables_ok m root (x # xs)" and x: "good_frame x" "x \<notin> set xs"
    and p: "tpath (i # p)" "tbl m root p = Some t" and np: "\<not> pte_present (m (t + 8 * i))"
    and v: "pte_present v" "READ_FRAME_ADDR v = x"
  shows "tables_ok ((memset_page m x)(t + 8 * i := v)) root xs"
proof -
  let ?m = "(memset_page m x)(t + 8 * i := v)"
  have T: "tbl ?m root q = (if q = i # p then Some x else tbl m root q)" if "tpath q" for q
    using tbl_new_table [OF ok _ x(1) p np v refl that] by simp
  have old: "u \<noteq> x" "good_frame u" "u \<notin> set xs" if "tpath q" "tbl m root q = Some u" for q u
    using tables_okD [OF ok that] by auto
  show ?thesis
    unfolding tables_ok_def
  proof (intro conjI allI impI)
    fix q u assume "tpath q" "tbl ?m root q = Some u"
    then show "good_frame u" "u \<notin> set xs" using T old x by (auto split: if_splits)
  next
    fix q r u assume "tpath q" "tpath r" "tbl ?m root q = Some u" "tbl ?m root r = Some u"
    then show "q = r" using T old tables_ok_inj [OF ok, of q r u] by (auto split: if_splits)
  qed
qed

lemma tbl_leaf_write:
  assumes ok: "tables_ok m root xs" and p: "tpath p" "length p = 3" "tbl m root p = Some t"
    and i: "i < 512" and q: "tpath q"
  shows "tbl (m(t + 8 * i := v)) root q = tbl m root q"
  using q
proof (induction q)
  case (Cons j q)
  have tq: "tpath q" "j < 512" "length q \<le> 2" using Cons.prems by (auto simp: tpath_Cons)
  have "t + 8 * i \<noteq> u + 8 * j" if "tbl m root q = Some u" for u
  proof -
    have "u \<noteq> t" using tables_ok_inj [OF ok p(1) tq(1) p(3)] that p(2) tq(3) by auto
    then show ?thesis
      using entry_eq_iff tables_okD(1) [OF ok p(1,3)] tables_okD(1) [OF ok tq(1) that] i tq(2) by blast
  qed
  then show ?case using Cons.IH [OF tq(1)] by (auto split: option.splits)
qed simp

lemma tables_ok_leaf_write:
  assumes "tables_ok m root xs" "tpath p" "length p = 3" "tbl m root p = Some t" "i < 512"
  shows "tables_ok (m(t + 8 * i := v)) root xs"
  using assms(1) tbl_leaf_write [OF assms] unfolding tables_ok_def by (metis (no_types, lifting))

section \<open>The walk\<close>

text \<open>What a step of the walk keeps: the abstract page table, the tables already there, and
  everything but memory and the frames taken.\<close>

definition walk_keeps :: "mmu \<Rightarrow> mmu \<Rightarrow> bool" where
  "walk_keeps s s' \<longleftrightarrow> leaf s' = leaf s \<and> pml4 s' = pml4 s \<and> virt_addr_bank s' = virt_addr_bank s
     \<and> (\<forall>q u. tpath q \<longrightarrow> tbl (pmem s) (pml4 s) q = Some u \<longrightarrow> tbl (pmem s') (pml4 s) q = Some u)"

lemma walk_keeps_refl [simp]: "walk_keeps s s"
  by (simp add: walk_keeps_def)

lemma walk_keeps_trans: "walk_keeps s t \<Longrightarrow> walk_keeps t u \<Longrightarrow> walk_keeps s u"
  unfolding walk_keeps_def by metis

text \<open>A frame that backs a page or belongs to a client: it is neither a table nor held by the allocator.\<close>

definition data_frame :: "mmu \<Rightarrow> addr list \<Rightarrow> addr \<Rightarrow> bool" where
  "data_frame s xs pf \<longleftrightarrow> good_frame pf \<and> pf \<notin> set xs
     \<and> (\<forall>p. tpath p \<longrightarrow> tbl (pmem s) (pml4 s) p \<noteq> Some pf)"

text \<open>Data frames stay data frames; the driver's own steps leave what they hold, too.\<close>

definition frames_stay :: "mmu \<Rightarrow> addr list \<Rightarrow> mmu \<Rightarrow> addr list \<Rightarrow> bool" where
  "frames_stay s xs s' xs' \<longleftrightarrow> (\<forall>f. data_frame s xs f \<longrightarrow> data_frame s' xs' f)"

definition frame_unchanged :: "mmu \<Rightarrow> mmu \<Rightarrow> addr \<Rightarrow> bool" where
  "frame_unchanged s s' f \<longleftrightarrow> (\<forall>off < PAGE_SIZE. pmem s' (f + off) = pmem s (f + off))"

definition frames_kept :: "mmu \<Rightarrow> addr list \<Rightarrow> mmu \<Rightarrow> addr list \<Rightarrow> bool" where
  "frames_kept s xs s' xs' \<longleftrightarrow> frames_stay s xs s' xs' \<and> (\<forall>f. data_frame s xs f \<longrightarrow> frame_unchanged s s' f)"

lemma frames_stay_refl [simp]: "frames_stay s xs s xs"
  by (simp add: frames_stay_def)

lemma frames_stay_trans: "frames_stay s xs t ys \<Longrightarrow> frames_stay t ys u zs \<Longrightarrow> frames_stay s xs u zs"
  by (simp add: frames_stay_def)

lemma frame_unchanged_refl [simp]: "pmem s' = pmem s \<Longrightarrow> frame_unchanged s s' f"
  by (simp add: frame_unchanged_def)

lemma frame_unchanged_trans: "frame_unchanged s t f \<Longrightarrow> frame_unchanged t u f \<Longrightarrow> frame_unchanged s u f"
  by (simp add: frame_unchanged_def)

lemma frames_kept_stay: "frames_kept s xs t ys \<Longrightarrow> frames_stay s xs t ys"
  by (simp add: frames_kept_def)

lemma frames_kept_refl [simp]: "frames_kept s xs s xs"
  by (simp add: frames_kept_def)

lemma frames_kept_trans: "frames_kept s xs t ys \<Longrightarrow> frames_kept t ys u zs \<Longrightarrow> frames_kept s xs u zs"
  unfolding frames_kept_def frames_stay_def using frame_unchanged_trans by blast

lemma ensure_table_cases:
  assumes inv: "mmu_inv s xs" and p: "tpath (i # p)" "tbl (pmem s) (pml4 s) p = Some t"
  shows "length xs \<le> 1 \<and> halts (ensure_table (t + 8 * i) s)
    \<or> (\<exists>s' n. ensure_table (t + 8 * i) s = Done s' \<and> n \<le> 1 \<and> mmu_inv s' (drop n xs) \<and> walk_keeps s s'
           \<and> tbl (pmem s') (pml4 s) (i # p) = Some (READ_FRAME_ADDR (pmem s' (t + 8 * i)))
           \<and> frames_kept s xs s' (drop n xs))"
proof (cases "pte_present (pmem s (t + 8 * i))")
  case True
  then show ?thesis
    using inv p by (intro disjI2 exI [of _ s] exI [of _ 0]) (simp add: ensure_table_def)
next
  case False
  have held: "frames_held s xs" and tok: "tables_ok (pmem s) (pml4 s) xs" using inv by (auto simp: mmu_inv_def)
  from MMU_pf_alloc_cases [OF held] show ?thesis
  proof (elim disjE exE conjE)
    assume "length xs \<le> 1" "halts (MMU_pf_alloc s)"
    then show ?thesis using False by (simp add: ensure_table_def alloc_table_entry_def)
  next
    fix x zs s1
    assume xs: "xs = x # zs" and s1: "MMU_pf_alloc s = Done (x, s1)" "frames_held s1 zs" "pmem s1 = pmem s"
      "pml4 s1 = pml4 s" "virt_addr_bank s1 = virt_addr_bank s"
    have gx: "good_frame x" "x \<notin> set zs"
      using pf.holds_good [OF held, of x] pf.holds_distinct [OF held] xs by auto
    have tp: "tpath p" "i < 512" "length p \<le> 2" using p(1) by (auto simp: tpath_Cons)
    have gt: "good_frame t" "t \<notin> set (x # zs)" using tables_okD [OF tok tp(1) p(2)] xs by auto
    define v where "v = set_writable True (set_present True (WRITE_FRAME_ADDR (pmem s (t + 8 * i)) x))"
    define m' where "m' = (memset_page (pmem s) x)(t + 8 * i := v)"
    have v: "pte_present v" "READ_FRAME_ADDR v = x"
      using gx(1) by (simp_all add: v_def READ_WRITE_FRAME_ADDR good_frame_def)
    have T: "tbl m' (pml4 s) q = (if q = i # p then Some x else tbl (pmem s) (pml4 s) q)" if "tpath q" for q
      using tbl_new_table [OF tok _ gx(1) p False v m'_def that] xs by simp
    define s' where "s' = s1\<lparr>pmem := m'\<rparr>"
    have run: "ensure_table (t + 8 * i) s = Done s'"
      using False s1 gt gx tp
      by (simp add: ensure_table_def alloc_table_entry_def memset_page_entry s'_def m'_def v_def)
    have same: "m' z = pmem s z" if "z \<in> set zs" for z
    proof -
      have gz: "good_frame z" using pf.holds_good [OF held, of z] that xs by simp
      have "z \<noteq> x" using that gx(2) by auto
      moreover have "z \<noteq> t" using that gt(2) by auto
      ultimately show ?thesis
        using frame_entry_neq [OF gt(1) gz tp(2)] memset_page_entry [OF gz gx(1), of 0]
        by (auto simp: m'_def)
    qed
    have "frames_held s' zs"
      unfolding s'_def by (rule frames_held_write [OF s1(2)]) (simp add: same s1(3))
    moreover have "tables_ok m' (pml4 s) zs"
      unfolding m'_def by (rule tables_ok_new_table [OF tok [unfolded xs] gx p False v])
    ultimately have inv': "mmu_inv s' (drop 1 xs)" by (simp add: mmu_inv_def s'_def s1 xs)
    have leaf: "leaf s' va = leaf s va" for va
    proof (cases "pt_path va = i # p")
      case True
      have none: "tbl (pmem s) (pml4 s) (i # p) = None" using p(2) False by simp
      have "m' (x + 8 * GET_PAGE_TBL_INDEX va) = 0"
        using gt gx tp by (simp add: m'_def entry_eq_iff memset_page_entry) auto
      moreover have "tbl m' (pml4 s) (pt_path va) = Some x"
        using T [OF p(1)] True by (simp del: tbl.simps)
      moreover have "tbl (pmem s) (pml4 s) (pt_path va) = None" using none True by metis
      ultimately show ?thesis by (simp add: leaf_def s'_def s1)
    next
      case nl: False
      have "m' (u + 8 * GET_PAGE_TBL_INDEX va) = pmem s (u + 8 * GET_PAGE_TBL_INDEX va)"
        if u: "tbl (pmem s) (pml4 s) (pt_path va) = Some u" for u
      proof -
        have gu: "good_frame u" "u \<noteq> x" using tables_okD [OF tok tpath_pt_path(1) u] xs by auto
        have "u \<noteq> t" using tables_ok_inj [OF tok tpath_pt_path(1) tp(1) u] p(2) tp(3) tpath_pt_path(2) [of va] by auto
        then show ?thesis using gu gt gx tp by (simp add: m'_def entry_eq_iff memset_page_entry)
      qed
      then show ?thesis
        using T [of "pt_path va"] nl by (auto simp: leaf_def s'_def s1 split: option.splits)
    qed
    have np: "tbl (pmem s) (pml4 s) (i # p) = None" using p(2) False by simp
    have keeps: "walk_keeps s s'"
      unfolding walk_keeps_def using T leaf np by (auto simp: s'_def s1)
    have "frame_unchanged s s' f" if f: "data_frame s xs f" for f
    proof -
      have "f \<noteq> x" "f \<noteq> t" "good_frame f" using f tp(1) p(2) by (auto simp: data_frame_def xs)
      then show ?thesis
        using gx(1) gt(1) tp(2) by (auto simp: frame_unchanged_def s'_def m'_def memset_page_other entry_word_apart)
    qed
    then have frames: "frames_kept s xs s' (drop 1 xs)"
      unfolding frames_kept_def frames_stay_def data_frame_def using T by (auto simp: s'_def s1 xs)
    have "tbl (pmem s') (pml4 s) (i # p) = Some (READ_FRAME_ADDR (pmem s' (t + 8 * i)))"
      using T [OF p(1)] v(2) by (simp add: s'_def m'_def del: tbl.simps)
    then show ?thesis using run inv' keeps frames by (intro disjI2 exI [of _ s'] exI [of _ 1]) simp
  qed
qed

text \<open>The walk halts only where the allocator runs out of frames.\<close>

lemma get_pt_entry_cases:
  assumes inv: "mmu_inv s xs" and al: "page_aligned va"
  shows "length xs \<le> 3 \<and> halts (get_pt_entry va s)
    \<or> (\<exists>s' n t. get_pt_entry va s = Done (t + 8 * GET_PAGE_TBL_INDEX va, s') \<and> n \<le> 3
           \<and> mmu_inv s' (drop n xs) \<and> walk_keeps s s'
           \<and> tbl (pmem s') (pml4 s') (pt_path va) = Some t
           \<and> frames_kept s xs s' (drop n xs))" (is "_ \<or> ?walked")
proof (rule disjCI)
  assume nw: "\<not> ?walked"
  let ?i4 = "GET_PAGE_MAP_INDEX va" and ?i3 = "GET_PAGE_DIR_PTR_INDEX va" and ?i2 = "GET_PAGE_DIR_INDEX va"
  have tp: "tpath [?i4]" "tpath [?i3, ?i4]" "tpath [?i2, ?i3, ?i4]"
    by (simp_all add: tpath_def)
  note run = get_pt_entry_def Let_def CHECK_PAGE_ALIGNED_ok [OF al]
  have "tbl (pmem s) (pml4 s) [] = Some (pml4 s)" by simp
  from ensure_table_cases [OF inv tp(1) this]
  show "length xs \<le> 3 \<and> halts (get_pt_entry va s)"
  proof (elim disjE exE conjE)
    fix s1 n1
    assume e1: "ensure_table (pml4 s + 8 * ?i4) s = Done s1" and n1: "n1 \<le> 1"
      and i1: "mmu_inv s1 (drop n1 xs)" and k1: "walk_keeps s s1" and f1: "frames_kept s xs s1 (drop n1 xs)"
      and t1: "tbl (pmem s1) (pml4 s) [?i4] = Some (READ_FRAME_ADDR (pmem s1 (pml4 s + 8 * ?i4)))"
    define a3 where "a3 = READ_FRAME_ADDR (pmem s1 (pml4 s + 8 * ?i4))"
    have p1: "pml4 s1 = pml4 s" using k1 by (simp add: walk_keeps_def)
    have t1': "tbl (pmem s1) (pml4 s1) [?i4] = Some a3" using t1 by (simp only: a3_def p1)
    note run = run e1 a3_def [symmetric]
    from ensure_table_cases [OF i1 tp(2) t1'] show ?thesis
    proof (elim disjE exE conjE)
      fix s2 n2
      assume e2: "ensure_table (a3 + 8 * ?i3) s1 = Done s2" and n2: "n2 \<le> 1"
        and i2: "mmu_inv s2 (drop n2 (drop n1 xs))" and k2: "walk_keeps s1 s2"
        and f2: "frames_kept s1 (drop n1 xs) s2 (drop n2 (drop n1 xs))"
        and t2: "tbl (pmem s2) (pml4 s1) [?i3, ?i4] = Some (READ_FRAME_ADDR (pmem s2 (a3 + 8 * ?i3)))"
      define a2 where "a2 = READ_FRAME_ADDR (pmem s2 (a3 + 8 * ?i3))"
      have p2: "pml4 s2 = pml4 s1" using k2 by (simp add: walk_keeps_def)
      have t2': "tbl (pmem s2) (pml4 s2) [?i3, ?i4] = Some a2" using t2 by (simp only: a2_def p2)
      note run = run e2 a2_def [symmetric]
      from ensure_table_cases [OF i2 tp(3) t2'] show ?thesis
      proof (elim disjE exE conjE)
        fix s3 n3
        assume e3: "ensure_table (a2 + 8 * ?i2) s2 = Done s3" and n3: "n3 \<le> 1"
          and i3: "mmu_inv s3 (drop n3 (drop n2 (drop n1 xs)))" and k3: "walk_keeps s2 s3"
          and f3: "frames_kept s2 (drop n2 (drop n1 xs)) s3 (drop n3 (drop n2 (drop n1 xs)))"
          and t3: "tbl (pmem s3) (pml4 s2) [?i2, ?i3, ?i4] = Some (READ_FRAME_ADDR (pmem s3 (a2 + 8 * ?i2)))"
        have p3: "pml4 s3 = pml4 s2" using k3 by (simp add: walk_keeps_def)
        have "get_pt_entry va s = Done (READ_FRAME_ADDR (pmem s3 (a2 + 8 * ?i2)) + 8 * GET_PAGE_TBL_INDEX va, s3)"
          by (simp add: run e3)
        moreover have "mmu_inv s3 (drop (n1 + n2 + n3) xs)" using i3 by (simp add: ac_simps)
        moreover have "walk_keeps s s3" using k1 k2 k3 walk_keeps_trans by blast
        moreover have "frames_kept s xs s3 (drop (n1 + n2 + n3) xs)"
          using frames_kept_trans [OF frames_kept_trans [OF f1 f2] f3] by (simp add: ac_simps)
        moreover have "tbl (pmem s3) (pml4 s3) (pt_path va) = Some (READ_FRAME_ADDR (pmem s3 (a2 + 8 * ?i2)))"
          using t3 by (simp only: pt_path_def p3)
        moreover have "n1 + n2 + n3 \<le> 3" using n1 n2 n3 by simp
        ultimately show ?thesis using nw by blast
      qed (use n1 n2 in \<open>simp add: run\<close>)
    qed (use n1 in \<open>simp add: run\<close>)
  qed (simp add: run)
qed

lemma get_pt_entry_ok:
  assumes "mmu_inv s xs" and "4 \<le> length xs" and "page_aligned va"
  shows "\<exists>s' n t. get_pt_entry va s = Done (t + 8 * GET_PAGE_TBL_INDEX va, s') \<and> n \<le> 3
           \<and> mmu_inv s' (drop n xs) \<and> walk_keeps s s'
           \<and> tbl (pmem s') (pml4 s') (pt_path va) = Some t
           \<and> frames_kept s xs s' (drop n xs)"
  using get_pt_entry_cases [OF assms(1,3)] assms(2) by simp

text \<open>Where the tables are there already, the walk changes nothing.\<close>

lemma get_pt_entry_present:
  assumes "tbl (pmem s) (pml4 s) (pt_path va) = Some t" and "page_aligned va"
  shows "get_pt_entry va s = Done (t + 8 * GET_PAGE_TBL_INDEX va, s)"
  using assms
  by (auto simp: get_pt_entry_def ensure_table_def Let_def pt_path_def split: option.splits if_splits)

lemma leaf_cong:
  assumes "pmem s' = pmem s" and "pml4 s' = pml4 s"
  shows "leaf s' = leaf s"
  by (rule ext) (simp only: leaf_def assms)

text \<open>Writing the leaf entry changes the abstract page table at this page only.\<close>

lemma leaf_write:
  assumes inv: "mmu_inv s xs" and t: "tbl (pmem s) (pml4 s) (pt_path va) = Some t"
  defines "a \<equiv> t + 8 * GET_PAGE_TBL_INDEX va"
  shows "leaf (s\<lparr>pmem := (pmem s)(a := v)\<rparr>) w = (if same_page w va then v else leaf s w)"
    and "mmu_inv (s\<lparr>pmem := (pmem s)(a := v)\<rparr>) xs"
    and "pmem s a = leaf s va"
proof -
  have tok: "tables_ok (pmem s) (pml4 s) xs" and held: "frames_held s xs"
    using inv by (auto simp: mmu_inv_def)
  have gt: "good_frame t" "t \<notin> set xs" using tables_okD [OF tok tpath_pt_path(1) t] by auto
  show "pmem s a = leaf s va" by (simp add: leaf_def t a_def)
  have T: "tbl ((pmem s)(a := v)) (pml4 s) q = tbl (pmem s) (pml4 s) q" if "tpath q" for q
    unfolding a_def by (rule tbl_leaf_write [OF tok tpath_pt_path t index_less(4) that])
  show "leaf (s\<lparr>pmem := (pmem s)(a := v)\<rparr>) w = (if same_page w va then v else leaf s w)"
  proof (cases "tbl (pmem s) (pml4 s) (pt_path w)")
    case None
    then have "pt_path w \<noteq> pt_path va" using t by auto
    then show ?thesis using None T [OF tpath_pt_path(1), of w] by (simp add: leaf_def same_page_def)
  next
    case (Some u)
    have gu: "good_frame u" using tables_okD [OF tok tpath_pt_path(1) Some] by simp
    have ut: "u = t \<longleftrightarrow> pt_path w = pt_path va"
    proof
      assume "u = t"
      then show "pt_path w = pt_path va"
        using tables_ok_inj [OF tok tpath_pt_path(1) tpath_pt_path(1) Some, of va] t by metis
    next
      assume "pt_path w = pt_path va"
      then show "u = t" using Some t by (metis option.inject)
    qed
    have a: "u + 8 * GET_PAGE_TBL_INDEX w = a \<longleftrightarrow> same_page w va"
      using entry_eq_iff [OF gu gt(1) index_less(4) index_less(4), of w va]
      by (simp add: a_def same_page_def ut)
    have "leaf (s\<lparr>pmem := (pmem s)(a := v)\<rparr>) w = ((pmem s)(a := v)) (u + 8 * GET_PAGE_TBL_INDEX w)"
      using Some T [OF tpath_pt_path(1), of w] by (simp add: leaf_def)
    moreover have "leaf s w = pmem s (u + 8 * GET_PAGE_TBL_INDEX w)" using Some by (simp add: leaf_def)
    ultimately show ?thesis by (simp add: a)
  qed
  have "frames_held (s\<lparr>pmem := (pmem s)(a := v)\<rparr>) xs"
  proof (rule frames_held_write [OF held])
    fix x assume x: "x \<in> set xs"
    then have "x \<noteq> t" and "good_frame x" using gt(2) pf.holds_good [OF held] by auto
    then have "a \<noteq> x" unfolding a_def by (intro frame_entry_neq [OF gt(1)]) auto
    then show "((pmem s)(a := v)) x = pmem s x" by simp
  qed
  moreover have "tables_ok ((pmem s)(a := v)) (pml4 s) xs"
    unfolding a_def by (rule tables_ok_leaf_write [OF tok tpath_pt_path t index_less(4)])
  ultimately show "mmu_inv (s\<lparr>pmem := (pmem s)(a := v)\<rparr>) xs" by (simp add: mmu_inv_def)
qed

section \<open>Mapping and translating\<close>

text \<open>The entry \<open>map_page\<close> writes.\<close>

definition mapped_entry :: "addr \<Rightarrow> u64" where
  "mapped_entry pa = set_alloc False (set_writable True (set_present True (WRITE_FRAME_ADDR 0 pa)))"

lemma mapped_entry_simps [simp]:
  "pte_present (mapped_entry pa)" "pte_writable (mapped_entry pa)" "\<not> pte_alloc (mapped_entry pa)"
  "READ_FRAME_ADDR (mapped_entry pa) = READ_FRAME_ADDR pa"
  by (simp_all add: mapped_entry_def READ_WRITE_FRAME_ADDR)

lemma map_page_ok:
  assumes inv: "mmu_inv s xs" and len: "4 \<le> length xs"
    and al: "page_aligned va" "page_aligned pa" and free: "\<not> pte_present (leaf s va)"
  shows "\<exists>s' n. map_page pa va s = Done s' \<and> n \<le> 3 \<and> mmu_inv s' (drop n xs)
           \<and> (\<forall>w. leaf s' w = (if same_page w va then mapped_entry pa else leaf s w))
           \<and> virt_addr_bank s' = virt_addr_bank s \<and> pml4 s' = pml4 s"
proof -
  obtain s1 n t where g: "get_pt_entry va s = Done (t + 8 * GET_PAGE_TBL_INDEX va, s1)" and n: "n \<le> 3"
    and i1: "mmu_inv s1 (drop n xs)" and k: "walk_keeps s s1"
    and t: "tbl (pmem s1) (pml4 s1) (pt_path va) = Some t"
    using get_pt_entry_ok [OF inv len al(1)] by blast
  have l: "leaf s1 = leaf s" and same: "pml4 s1 = pml4 s" "virt_addr_bank s1 = virt_addr_bank s"
    using k by (auto simp: walk_keeps_def)
  show ?thesis
    using al(2) g n same free leaf_write(3) [OF i1 t] leaf_write(1,2) [OF i1 t, of "mapped_entry pa"]
    by (simp add: map_page_def l mapped_entry_def [symmetric]) (intro exI [of _ n], simp)
qed

lemma virt_to_phys_cases:
  assumes inv: "mmu_inv s xs" and al: "page_aligned va"
  shows "length xs \<le> 3 \<and> halts (virt_to_phys va s)
    \<or> (\<exists>s' n. virt_to_phys va s =
             Done (if pte_present (leaf s va) then READ_FRAME_ADDR (leaf s va) + GET_PHYS_PAGE_INDEX va
                   else NULL, s')
           \<and> n \<le> 3 \<and> mmu_inv s' (drop n xs) \<and> leaf s' = leaf s
           \<and> virt_addr_bank s' = virt_addr_bank s \<and> pml4 s' = pml4 s \<and> frames_kept s xs s' (drop n xs))"
  using get_pt_entry_cases [OF inv al]
proof (elim disjE exE conjE)
  fix s1 n t
  assume g: "get_pt_entry va s = Done (t + 8 * GET_PAGE_TBL_INDEX va, s1)" and n: "n \<le> 3"
    and i1: "mmu_inv s1 (drop n xs)" and k: "walk_keeps s s1" and fk: "frames_kept s xs s1 (drop n xs)"
    and t: "tbl (pmem s1) (pml4 s1) (pt_path va) = Some t"
  have l: "leaf s1 = leaf s" and same: "pml4 s1 = pml4 s" "virt_addr_bank s1 = virt_addr_bank s"
    using k by (auto simp: walk_keeps_def)
  have log: "mmu_inv (mmu_say k s1) ys = mmu_inv s1 ys" "leaf (mmu_say k s1) = leaf s1"
    "frames_kept s xs (mmu_say k s1) ys = frames_kept s xs s1 ys" for k ys
    by (simp_all add: mmu_inv_def frames_held_def new_frames_def frames_kept_def frames_stay_def frame_unchanged_def
        data_frame_def leaf_def fun_eq_iff split: option.split)
  show ?thesis
    using g n i1 same fk leaf_write(3) [OF i1 t]
    by (auto simp: virt_to_phys_def l log intro!: exI [of _ n])
qed (simp add: virt_to_phys_def)

lemma virt_to_phys_ok:
  assumes "mmu_inv s xs" and "4 \<le> length xs" and "page_aligned va"
  shows "\<exists>s' n. virt_to_phys va s =
             Done (if pte_present (leaf s va) then READ_FRAME_ADDR (leaf s va) + GET_PHYS_PAGE_INDEX va
                   else NULL, s')
           \<and> n \<le> 3 \<and> mmu_inv s' (drop n xs) \<and> leaf s' = leaf s
           \<and> virt_addr_bank s' = virt_addr_bank s \<and> pml4 s' = pml4 s \<and> frames_kept s xs s' (drop n xs)"
  using virt_to_phys_cases [OF assms(1,3)] assms(2) by simp

end
