(* ===== verification/VirtMem.thy ===== *)
theory VirtMem imports PageTables begin

text \<open>
  Virtual memory of src/drivers/mmu_driver.c on top of the page tables: the bank of next
  free virtual addresses, on-demand pages (\<open>MMU_alloc_page\<close>, the page-fault handler),
  \<open>MMU_free_page\<close> and the heap breaks \<open>kbrk\<close> and \<open>sbrk\<close>.
\<close>

section \<open>Operations\<close>

definition virt_addr_bank_init :: "virt_addr_t \<Rightarrow> addr" where
  "virt_addr_bank_init r = (case r of
     MMU_VADDR_PHYS \<Rightarrow> 0x000000000000 + PAGE_SIZE
   | MMU_VADDR_KHEAP \<Rightarrow> 0x010000000000
   | MMU_VADDR_RES \<Rightarrow> 0x020000000000
   | MMU_VADDR_IST1 \<Rightarrow> 0x0D7FFFFFFFFF
   | MMU_VADDR_IST2 \<Rightarrow> 0x0DFFFFFFFFFF
   | MMU_VADDR_IST3 \<Rightarrow> 0x0E7FFFFFFFFF
   | MMU_VADDR_IST4 \<Rightarrow> 0x0EFFFFFFFFFF
   | MMU_VADDR_KSTACK \<Rightarrow> 0x0FFFFFFFFFFF
   | MMU_VADDR_USTACK \<Rightarrow> 0x1FFFFFFFFFFF
   | MMU_VADDR_UHEAP \<Rightarrow> 0x200000000000)"

definition MMU_alloc_page :: "virt_addr_t \<Rightarrow> mmu \<Rightarrow> (addr \<times> mmu) res" where
  "MMU_alloc_page region s =
     (let virt_page = virt_addr_bank s region in
      res_bind (get_pt_entry virt_page s) (\<lambda>(pt_entry, s1).
        let e = set_present False (set_alloc True (pmem s1 pt_entry));
            s2 = s1\<lparr>pmem := (pmem s1)(pt_entry := e)\<rparr>
        in Done (virt_page, s2\<lparr>virt_addr_bank :=
                   (virt_addr_bank s2)(region := virt_addr_bank s2 region + PAGE_SIZE)\<rparr>)))"

primrec alloc_pages_loop :: "nat \<Rightarrow> virt_addr_t \<Rightarrow> mmu \<Rightarrow> mmu res" where
  "alloc_pages_loop 0 region s = Done s"
| "alloc_pages_loop (Suc n) region s =
     res_bind (MMU_alloc_page region s) (\<lambda>(_, s1). alloc_pages_loop n region s1)"

definition MMU_alloc_pages :: "u64 \<Rightarrow> virt_addr_t \<Rightarrow> mmu \<Rightarrow> (addr \<times> mmu) res" where
  "MMU_alloc_pages num_pages region s =
     (let starting_page = virt_addr_bank s region in
      res_bind (alloc_pages_loop (unat num_pages) region s) (\<lambda>s1. Done (starting_page, s1)))"

definition MMU_free_page :: "addr \<Rightarrow> mmu \<Rightarrow> mmu res" where
  "MMU_free_page page s =
     res_bind (CHECK_PAGE_ALIGNED page) (\<lambda>_.
     res_bind (get_pt_entry page s) (\<lambda>(pt_entry, s1).
     res_bind (MMU_pf_free (READ_FRAME_ADDR (pmem s1 pt_entry)) s1) (\<lambda>s2.
     Done (s2\<lparr>pmem := (pmem s2)(pt_entry := 0)\<rparr>))))"

primrec MMU_free_pages :: "nat \<Rightarrow> addr \<Rightarrow> mmu \<Rightarrow> mmu res" where
  "MMU_free_pages 0 page s = Done s"
| "MMU_free_pages (Suc n) page s =
     res_bind (MMU_free_page page s) (\<lambda>s1. MMU_free_pages n (page + PAGE_SIZE) s1)"

definition kbrk :: "u64 \<Rightarrow> mmu \<Rightarrow> (addr \<times> mmu) res" where
  "kbrk increment s =
     (let old_brk = virt_addr_bank s MMU_VADDR_KHEAP in
      if increment = 0 then Done (old_brk, s)
      else res_bind (MMU_alloc_pages (increment div PAGE_SIZE) MMU_VADDR_KHEAP s)
             (\<lambda>(_, s1). Done (old_brk, s1)))"

definition sbrk :: "u64 \<Rightarrow> mmu \<Rightarrow> (addr \<times> mmu) res" where
  "sbrk increment s =
     (let old_brk = virt_addr_bank s MMU_VADDR_UHEAP in
      if increment = 0 then Done (old_brk, s)
      else res_bind (MMU_alloc_pages (increment div PAGE_SIZE) MMU_VADDR_UHEAP s)
             (\<lambda>(_, s1). Done (old_brk, s1)))"

definition flush_pg_tbl :: "addr \<Rightarrow> mmu \<Rightarrow> mmu" where
  "flush_pg_tbl a s =
     (if a = NULL then mmu_say (OS_INFO ''Reloading CR3 Register...'' []) s
      else mmu_say (OS_INFO ''Flushing Page Table Entry...'' []) s)"

text \<open>The diagnostics of the page-fault handler: what each level of the walk holds, and the
  meaning of the error code. Only the console log changes.\<close>

definition print_entry :: "string \<Rightarrow> addr \<Rightarrow> mmu \<Rightarrow> mmu" where
  "print_entry level entry s =
     (let e = pmem s entry in
      mmu_say (PRINTK (level @ '' Entry: Address, Present, Writable, User, Accessed, Dirty, Alloc, Frame'')
        [entry, of_bool (bit e 0), of_bool (bit e 1), of_bool (bit e 2), of_bool (bit e 5),
         of_bool (bit e 9), of_bool (bit e 10), READ_FRAME_ADDR e]) s)"

definition walk_virt_addr :: "addr \<Rightarrow> mmu \<Rightarrow> mmu" where
  "walk_virt_addr virt_addr s =
     (let s = mmu_say (OS_INFO ''Walking virtual address: %p'' [virt_addr]) s;
          entry = pml4 s + 8 * GET_PAGE_MAP_INDEX virt_addr;
          s = print_entry ''PML4'' entry s
      in if \<not> pte_present (pmem s entry) then mmu_say (PRINTK ''PDPT entry in PML4 is not present!'' []) s
      else
      let dir_table = READ_FRAME_ADDR (pmem s entry);
          entry = dir_table + 8 * GET_PAGE_DIR_PTR_INDEX virt_addr;
          s = print_entry ''PDPT'' entry s
      in if \<not> pte_present (pmem s entry) then mmu_say (PRINTK ''PD entry is not present!'' []) s
      else
      let dir_table = READ_FRAME_ADDR (pmem s entry);
          entry = dir_table + 8 * GET_PAGE_DIR_INDEX virt_addr;
          s = print_entry ''PD'' entry s
      in if \<not> pte_present (pmem s entry) then mmu_say (PRINTK ''PT entry is not present!'' []) s
      else
      let dir_table = READ_FRAME_ADDR (pmem s entry);
          entry = dir_table + 8 * GET_PAGE_TBL_INDEX virt_addr;
          s = print_entry ''PT'' entry s
      in if \<not> pte_present (pmem s entry) then mmu_say (PRINTK ''PT entry is not present!'' []) s
      else mmu_say (PRINTK ''Physical Address: %p''
             [READ_FRAME_ADDR (pmem s entry) + GET_PHYS_PAGE_INDEX virt_addr]) s)"

definition decode_error_flags :: "u16 \<Rightarrow> mmu \<Rightarrow> mmu" where
  "decode_error_flags err s =
     (let flag = \<lambda>n. drop_bit n (ucast err :: u64) AND 1;
          s = mmu_say (PRINTK ''Error Flags: Present, R/W, User, RSVD, I/D, PK, SS, SGX''
                [flag 0, flag 1, flag 2, flag 3, flag 4, flag 5, flag 6, flag 15]) s;
          s = mmu_say (PRINTK (if bit err 2 then ''User process '' else ''Supervisory process '') []) s;
          s = mmu_say (PRINTK ''tried to '' []) s;
          s = mmu_say (PRINTK (if bit err 1 then ''write '' else ''read '') []) s
      in mmu_say (PRINTK (if bit err 0 then ''a page and caused a protection fault''
                          else ''to a non-present page entry'') []) s)"

text \<open>\<open>cr2\<close> is the faulting address the processor left in the CR2 register.\<close>

definition page_fault_irq :: "u16 \<Rightarrow> addr \<Rightarrow> mmu \<Rightarrow> mmu res" where
  "page_fault_irq err cr2 s =
     (let cr2 = (if cr2 mod PAGE_SIZE \<noteq> 0 then cr2 AND NOT (PAGE_SIZE - 1) else cr2) in
      res_bind (get_pt_entry cr2 s) (\<lambda>(pt_entry, s1).
        if \<not> pte_present (pmem s1 pt_entry) \<and> pte_alloc (pmem s1 pt_entry)
        then res_bind (MMU_pf_alloc s1) (\<lambda>(phys_page, s2).
             res_bind (map_page phys_page cr2 s2) (\<lambda>s3.
             let s4 = s3\<lparr>pmem := (pmem s3)(pt_entry := set_alloc False (pmem s3 pt_entry))\<rparr>;
                 s5 = s4\<lparr>pmem := (pmem s4)(pt_entry := set_writable True (pmem s4 pt_entry))\<rparr>
             in Done (flush_pg_tbl cr2 s5)))
        else let s2 = decode_error_flags err (walk_virt_addr cr2 s1)
             in Halt ''Page fault at virtual address %p cannot be recovered!''))"

section \<open>The invariant does not look at the bank or the log\<close>

lemma mmu_inv_ignores [simp]:
  "mmu_inv (s\<lparr>virt_addr_bank := b\<rparr>) xs = mmu_inv s xs"
  "mmu_inv (mmu_say k s) xs = mmu_inv s xs"
  by (simp_all add: mmu_inv_def frames_held_def new_frames_def)

lemma leaf_ignores [simp]:
  "leaf (s\<lparr>virt_addr_bank := b\<rparr>) = leaf s" "leaf (mmu_say k s) = leaf s"
  by (simp_all add: leaf_def fun_eq_iff split: option.split)

lemma frames_kept_ignores [simp]:
  "frames_kept s xs (s'\<lparr>virt_addr_bank := b\<rparr>) ys = frames_kept s xs s' ys"
  "frames_kept s xs (mmu_say k s') ys = frames_kept s xs s' ys"
  "frames_kept s xs (flush_pg_tbl a s') ys = frames_kept s xs s' ys"
  by (simp_all add: frames_kept_def frames_stay_def frame_unchanged_def data_frame_def flush_pg_tbl_def)

text \<open>Writing a leaf entry moves no table.\<close>

lemma frames_kept_leaf_write:
  assumes inv: "mmu_inv s xs" and t: "tbl (pmem s) (pml4 s) (pt_path va) = Some t"
  shows "frames_kept s xs (s\<lparr>pmem := (pmem s)(t + 8 * GET_PAGE_TBL_INDEX va := v)\<rparr>) xs"
proof -
  have tok: "tables_ok (pmem s) (pml4 s) xs" using inv by (simp add: mmu_inv_def)
  have "frame_unchanged s (s\<lparr>pmem := (pmem s)(t + 8 * GET_PAGE_TBL_INDEX va := v)\<rparr>) f" if f: "data_frame s xs f" for f
  proof -
    have "t \<noteq> f" "good_frame f" using f t tpath_pt_path(1) by (auto simp: data_frame_def)
    then show ?thesis
      using entry_word_apart [OF tables_okD(1) [OF tok tpath_pt_path(1) t]] by (simp add: frame_unchanged_def)
  qed
  then show ?thesis
    using tok tbl_leaf_write [OF _ tpath_pt_path t index_less(4)]
    by (auto simp: frames_kept_def frames_stay_def data_frame_def)
qed

lemma flush_pg_tbl_simps [simp]:
  "mmu_inv (flush_pg_tbl a s) xs = mmu_inv s xs" "leaf (flush_pg_tbl a s) = leaf s"
  "virt_addr_bank (flush_pg_tbl a s) = virt_addr_bank s" "pml4 (flush_pg_tbl a s) = pml4 s"
  by (simp_all add: flush_pg_tbl_def)

text \<open>The diagnostics change nothing but the log; their last line is the translation of the
  address exactly where it has one.\<close>

lemma print_entry_simps [simp]:
  "pmem (print_entry l e s) = pmem s" "pml4 (print_entry l e s) = pml4 s"
  "addr_ranges (print_entry l e s) = addr_ranges s"
  "pf_free_list_head (print_entry l e s) = pf_free_list_head s"
  by (simp_all add: print_entry_def Let_def)

lemma hd_mmu_say [simp]: "hd (mmu_log (mmu_say k s)) = k"
  by (simp add: mmu_say_def)

lemma walk_virt_addr_pmem:
  "pmem (walk_virt_addr va s) = pmem s \<and> pml4 (walk_virt_addr va s) = pml4 s
     \<and> addr_ranges (walk_virt_addr va s) = addr_ranges s
     \<and> pf_free_list_head (walk_virt_addr va s) = pf_free_list_head s"
  by (simp add: walk_virt_addr_def Let_def)

lemma walk_virt_addr_last:
  "hd (mmu_log (walk_virt_addr va s)) =
     PRINTK ''Physical Address: %p'' [READ_FRAME_ADDR (leaf s va) + GET_PHYS_PAGE_INDEX va]
   \<longleftrightarrow> pte_present (leaf s va)"
  by (simp add: walk_virt_addr_def Let_def leaf_def pt_path_def)

section \<open>Page arithmetic\<close>

lemma page_aligned_add_4096: "page_aligned (a + 4096) \<longleftrightarrow> page_aligned a"
proof -
  have "unat (a + 4096) mod 4096 = (unat a + 4096) mod 18446744073709551616 mod 4096"
    by (simp add: unat_word_ariths)
  also have "\<dots> = unat a mod 4096" by (simp add: mod_mod_cancel)
  finally show ?thesis by (simp add: page_aligned_dvd dvd_eq_mod_eq_0)
qed

lemma same_page_align: "same_page (a AND NOT 4095) a"
proof -
  have b: "bit (NOT 4095 :: u64) n" if "12 \<le> n" "n < 64" for n
  proof -
    have m: "(4095 :: u64) = mask 12" by (simp add: mask_eq_decr_exp)
    show ?thesis unfolding m bit_not_iff bit_mask_iff using that by simp
  qed
  define c where "c = (NOT 4095 :: u64)"
  have c: "bit c n" if "12 \<le> n" "n < 64" for n using b that by (simp only: c_def)
  have "drop_bit k (a AND c) = drop_bit k a" if "12 \<le> k" for k
    by (rule bit_eqI) (use c that bit_imp_le_length [of a] in \<open>auto simp: bit_drop_bit_eq bit_and_iff\<close>)
  then show ?thesis unfolding c_def [symmetric] by (simp add: same_page_def pt_path_def index_defs)
qed

lemma page_aligned_align: "page_aligned (a AND NOT 4095)"
proof -
  have "take_bit 12 (a AND NOT (mask 12)) = 0"
    by (rule bit_eqI) (auto simp: bit_take_bit_iff bit_and_iff bit_not_iff bit_mask_iff)
  then have "(a AND NOT 4095) mod 2 ^ 12 = 0"
    by (simp add: take_bit_eq_mod mask_eq_decr_exp)
  then show ?thesis by (simp add: page_aligned_def)
qed

lemma leaf_cong_same_page: "same_page a b \<Longrightarrow> leaf s a = leaf s b"
  by (simp add: leaf_def same_page_def split: option.split)

lemma same_page_cong: "same_page a b \<Longrightarrow> same_page w a \<longleftrightarrow> same_page w b"
  by (simp add: same_page_def)

section \<open>On-demand pages\<close>

text \<open>The entry of a page that is allocated but not yet backed by a frame.\<close>

definition demand_entry :: "u64 \<Rightarrow> u64" where
  "demand_entry e = set_present False (set_alloc True e)"

lemma demand_entry_simps [simp]:
  "\<not> pte_present (demand_entry e)" "pte_alloc (demand_entry e)"
  "READ_FRAME_ADDR (demand_entry e) = READ_FRAME_ADDR e"
  by (simp_all add: demand_entry_def)

lemma MMU_alloc_page_cases:
  assumes inv: "mmu_inv s xs" and al: "page_aligned (virt_addr_bank s region)"
  shows "length xs \<le> 3 \<and> halts (MMU_alloc_page region s)
    \<or> (\<exists>s' n. MMU_alloc_page region s = Done (virt_addr_bank s region, s') \<and> n \<le> 3
           \<and> mmu_inv s' (drop n xs) \<and> pml4 s' = pml4 s
           \<and> (\<forall>w. leaf s' w = (if same_page w (virt_addr_bank s region)
                              then demand_entry (leaf s (virt_addr_bank s region)) else leaf s w))
           \<and> virt_addr_bank s' = (virt_addr_bank s)(region := virt_addr_bank s region + 4096)
           \<and> frames_kept s xs s' (drop n xs))"
  using get_pt_entry_cases [OF inv al]
proof (elim disjE exE conjE)
  let ?va = "virt_addr_bank s region"
  fix s1 n t
  assume g: "get_pt_entry ?va s = Done (t + 8 * GET_PAGE_TBL_INDEX ?va, s1)" and n: "n \<le> 3"
    and i1: "mmu_inv s1 (drop n xs)" and k: "walk_keeps s s1" and fk: "frames_kept s xs s1 (drop n xs)"
    and t: "tbl (pmem s1) (pml4 s1) (pt_path ?va) = Some t"
  have l: "leaf s1 = leaf s" and same: "pml4 s1 = pml4 s" "virt_addr_bank s1 = virt_addr_bank s"
    using k by (auto simp: walk_keeps_def)
  show ?thesis
    using g n same leaf_write(3) [OF i1 t] leaf_write(1,2) [OF i1 t, of "demand_entry (leaf s ?va)"]
      frames_kept_trans [OF fk frames_kept_leaf_write [OF i1 t]]
    by (intro disjI2, simp add: MMU_alloc_page_def Let_def l demand_entry_def [symmetric] PAGE_SIZE_def)
       (intro exI [of _ n], simp)
qed (simp add: MMU_alloc_page_def Let_def)

lemma MMU_alloc_page_ok:
  assumes "mmu_inv s xs" and "4 \<le> length xs" and "page_aligned (virt_addr_bank s region)"
  shows "\<exists>s' n. MMU_alloc_page region s = Done (virt_addr_bank s region, s') \<and> n \<le> 3
           \<and> mmu_inv s' (drop n xs) \<and> pml4 s' = pml4 s
           \<and> (\<forall>w. leaf s' w = (if same_page w (virt_addr_bank s region)
                              then demand_entry (leaf s (virt_addr_bank s region)) else leaf s w))
           \<and> virt_addr_bank s' = (virt_addr_bank s)(region := virt_addr_bank s region + 4096)
           \<and> frames_kept s xs s' (drop n xs)"
  using MMU_alloc_page_cases [OF assms(1,3)] assms(2) by simp

lemma alloc_pages_loop_ok:
  "mmu_inv s xs \<Longrightarrow> 3 * n < length xs \<Longrightarrow> page_aligned (virt_addr_bank s region) \<Longrightarrow>
   \<exists>s' k. alloc_pages_loop n region s = Done s' \<and> k \<le> 3 * n \<and> mmu_inv s' (drop k xs)
     \<and> pml4 s' = pml4 s
     \<and> virt_addr_bank s' = (virt_addr_bank s)(region := virt_addr_bank s region + 4096 * of_nat n)
     \<and> (\<forall>w. if \<exists>i < n. same_page w (virt_addr_bank s region + 4096 * of_nat i)
            then \<not> pte_present (leaf s' w) \<and> pte_alloc (leaf s' w) else leaf s' w = leaf s w)"
proof (induction n arbitrary: s xs)
  case 0
  then show ?case by (intro exI [of _ s] exI [of _ 0]) simp
next
  case (Suc n)
  let ?b = "virt_addr_bank s region"
  have "4 \<le> length xs" using Suc.prems(2) by simp
  then obtain s1 k1 where s1: "MMU_alloc_page region s = Done (?b, s1)" "k1 \<le> 3"
      "mmu_inv s1 (drop k1 xs)" "pml4 s1 = pml4 s"
    and l1: "\<forall>w. leaf s1 w = (if same_page w ?b then demand_entry (leaf s ?b) else leaf s w)"
    and b1: "virt_addr_bank s1 = (virt_addr_bank s)(region := ?b + 4096)"
    using MMU_alloc_page_ok [OF Suc.prems(1) _ Suc.prems(3)] by blast
  have "3 * n < length (drop k1 xs)" using Suc.prems(2) s1(2) by simp
  moreover have "page_aligned (virt_addr_bank s1 region)"
    using Suc.prems(3) by (simp add: b1 page_aligned_add_4096)
  ultimately obtain s2 k2 where s2: "alloc_pages_loop n region s1 = Done s2" "k2 \<le> 3 * n"
      "mmu_inv s2 (drop k2 (drop k1 xs))" "pml4 s2 = pml4 s1"
    and b2: "virt_addr_bank s2 = (virt_addr_bank s1)(region := virt_addr_bank s1 region + 4096 * of_nat n)"
    and l2: "\<forall>w. if \<exists>i < n. same_page w (virt_addr_bank s1 region + 4096 * of_nat i)
            then \<not> pte_present (leaf s2 w) \<and> pte_alloc (leaf s2 w) else leaf s2 w = leaf s1 w"
    using Suc.IH [OF s1(3)] by blast
  have ex: "(\<exists>i < Suc n. same_page w (?b + 4096 * of_nat i)) \<longleftrightarrow>
      same_page w ?b \<or> (\<exists>i < n. same_page w (virt_addr_bank s1 region + 4096 * of_nat i))" for w
    by (simp add: Ex_less_Suc2 b1 algebra_simps)
  have "if \<exists>i < Suc n. same_page w (?b + 4096 * of_nat i)
        then \<not> pte_present (leaf s2 w) \<and> pte_alloc (leaf s2 w) else leaf s2 w = leaf s w" for w
    unfolding ex using l2 [rule_format, of w] l1 [rule_format, of w] by (auto split: if_splits)
  then show ?case
    using s1 s2 b1 b2
    by (intro exI [of _ s2] exI [of _ "k1 + k2"]) (auto simp: algebra_simps)
qed

text \<open>A break grows by whole pages: the part of the increment below a page is dropped.\<close>

lemma kbrk_ok:
  assumes inv: "mmu_inv s xs" and len: "3 * unat (inc div 4096) < length xs"
    and al: "page_aligned (virt_addr_bank s MMU_VADDR_KHEAP)"
  shows "\<exists>s' k. kbrk inc s = Done (virt_addr_bank s MMU_VADDR_KHEAP, s')
     \<and> k \<le> 3 * unat (inc div 4096) \<and> mmu_inv s' (drop k xs) \<and> pml4 s' = pml4 s
     \<and> virt_addr_bank s' = (virt_addr_bank s)(MMU_VADDR_KHEAP :=
          virt_addr_bank s MMU_VADDR_KHEAP + 4096 * (inc div 4096))
     \<and> (\<forall>w. if \<exists>i < unat (inc div 4096). same_page w (virt_addr_bank s MMU_VADDR_KHEAP + 4096 * of_nat i)
            then \<not> pte_present (leaf s' w) \<and> pte_alloc (leaf s' w) else leaf s' w = leaf s w)"
proof (cases "inc = 0")
  case True
  then show ?thesis using inv by (intro exI [of _ s] exI [of _ 0]) (simp add: kbrk_def)
next
  case False
  then show ?thesis
    using alloc_pages_loop_ok [OF inv len al]
    by (auto simp: kbrk_def MMU_alloc_pages_def Let_def PAGE_SIZE_def)
qed

section \<open>The page-fault handler\<close>

lemma mapped_entry_again: "set_writable True (set_alloc False (mapped_entry pa)) = mapped_entry pa"
  by (rule bit_eqI)
     (auto simp: mapped_entry_def pte_defs bit_set_bit_iff bit_unset_bit_iff)

lemma page_fault_irq_demand_cases:
  assumes inv: "mmu_inv s xs" and dem: "\<not> pte_present (leaf s cr2)" "pte_alloc (leaf s cr2)"
  shows "length xs \<le> 4 \<and> halts (page_fault_irq err cr2 s)
    \<or> (\<exists>s' n. page_fault_irq err cr2 s = Done s' \<and> n \<le> 3 \<and> n < length xs \<and> mmu_inv s' (drop (Suc n) xs)
           \<and> (\<forall>w. leaf s' w = (if same_page w cr2 then mapped_entry (xs ! n) else leaf s w))
           \<and> virt_addr_bank s' = virt_addr_bank s \<and> pml4 s' = pml4 s
           \<and> data_frame s' (drop (Suc n) xs) (xs ! n) \<and> frames_kept s xs s' (drop (Suc n) xs))"
    (is "?halt \<or> ?done")
proof -
  define va where "va = (if cr2 mod PAGE_SIZE \<noteq> 0 then cr2 AND NOT (PAGE_SIZE - 1) else cr2)"
  have al: "page_aligned va" and sp: "same_page va cr2"
    using page_aligned_align [of cr2] same_page_align [of cr2]
    by (auto simp: va_def PAGE_SIZE_def page_aligned_def)
  from get_pt_entry_cases [OF inv al] show ?thesis
  proof (elim disjE exE conjE)
    fix s1 n t
    let ?e = "t + 8 * GET_PAGE_TBL_INDEX va"
    assume g: "get_pt_entry va s = Done (?e, s1)" and n: "n \<le> 3"
      and i1: "mmu_inv s1 (drop n xs)" and k1: "walk_keeps s s1" and fk: "frames_kept s xs s1 (drop n xs)"
      and t: "tbl (pmem s1) (pml4 s1) (pt_path va) = Some t"
    have l1: "leaf s1 = leaf s" and same1: "pml4 s1 = pml4 s" "virt_addr_bank s1 = virt_addr_bank s"
      using k1 by (auto simp: walk_keeps_def)
    have e: "pmem s1 ?e = leaf s cr2"
      using leaf_write(3) [OF i1 t] leaf_cong_same_page [OF sp] by (simp add: l1)
    have f1: "frames_held s1 (drop n xs)" and tok: "tables_ok (pmem s1) (pml4 s1) (drop n xs)"
      using i1 by (auto simp: mmu_inv_def)
    from MMU_pf_alloc_cases [OF f1] show ?thesis
    proof (elim disjE exE conjE)
      assume "length (drop n xs) \<le> 1" "halts (MMU_pf_alloc s1)"
      moreover have "length xs \<le> 4" using calculation(1) n by simp
      ultimately show ?thesis using g e dem by (simp add: page_fault_irq_def va_def [symmetric])
    next
      fix x ys s2
      assume split: "drop n xs = x # ys" and s2: "MMU_pf_alloc s1 = Done (x, s2)" "frames_held s2 ys"
        "pmem s2 = pmem s1" "pml4 s2 = pml4 s1" "virt_addr_bank s2 = virt_addr_bank s1"
      have lt: "n < length xs" using split by (cases "n < length xs") auto
      then have x: "xs ! n = x" "drop (Suc n) xs = ys" using split by (metis Cons_nth_drop_Suc list.inject)+
      have "tables_ok (pmem s1) (pml4 s1) ys" using tok unfolding split tables_ok_def by auto
      then have i2: "mmu_inv s2 ys" using s2 by (simp add: mmu_inv_def)
      have l2: "leaf s2 = leaf s" using leaf_cong [OF s2(3,4)] l1 by simp
      have gx: "good_frame x" "x \<notin> set ys" using pf.holds_good [OF f1] pf.holds_distinct [OF f1] split by auto
      have t2: "tbl (pmem s2) (pml4 s2) (pt_path va) = Some t" using t s2 by simp
      have run3: "map_page x va s2 = Done (s2\<lparr>pmem := (pmem s2)(?e := mapped_entry x)\<rparr>)"
        using gx e dem(1) get_pt_entry_present [OF t2 al]
        by (simp add: map_page_def good_frame_def s2(3) mapped_entry_def)
      define s3 where "s3 = s2\<lparr>pmem := (pmem s2)(?e := mapped_entry x)\<rparr>"
      have run: "page_fault_irq err cr2 s = Done (flush_pg_tbl va s3)"
        using g e dem s2(1) run3
        by (simp add: page_fault_irq_def va_def [symmetric] s3_def mapped_entry_again)
      have leaf: "leaf s3 w = (if same_page w cr2 then mapped_entry x else leaf s w)" for w
        using leaf_write(1) [OF i2 t2, of "mapped_entry x" w] same_page_cong [OF sp] by (simp add: s3_def l2)
      have i3: "mmu_inv s3 ys" using leaf_write(2) [OF i2 t2, of "mapped_entry x"] by (simp add: s3_def)
      have k2: "data_frame s2 ys x" "frames_kept s1 (drop n xs) s2 ys"
        using gx tables_okD(2) [OF tok] by (auto simp: frames_kept_def frames_stay_def data_frame_def s2(3,4) split)
      have k3: "frames_kept s2 ys s3 ys" unfolding s3_def by (rule frames_kept_leaf_write [OF i2 t2])
      have "data_frame (flush_pg_tbl va s3) ys x" "frames_kept s xs (flush_pg_tbl va s3) ys"
        using k2(1) k3 frames_kept_trans [OF frames_kept_trans [OF fk k2(2)] k3]
        by (simp_all add: frames_kept_def frames_stay_def frame_unchanged_def data_frame_def flush_pg_tbl_def)
      then have ?done
        using run n lt leaf i3 s2(4,5) same1 by (intro exI [of _ "flush_pg_tbl va s3"] exI [of _ n]) (simp add: x s3_def)
      then show ?thesis ..
    qed
  qed (simp add: page_fault_irq_def va_def [symmetric])
qed

lemma page_fault_irq_demand:
  assumes "mmu_inv s xs" and "5 \<le> length xs" and "\<not> pte_present (leaf s cr2)" "pte_alloc (leaf s cr2)"
  shows "\<exists>s' n. page_fault_irq err cr2 s = Done s' \<and> n \<le> 3 \<and> mmu_inv s' (drop (Suc n) xs)
           \<and> (\<forall>w. leaf s' w = (if same_page w cr2 then mapped_entry (xs ! n) else leaf s w))
           \<and> virt_addr_bank s' = virt_addr_bank s \<and> pml4 s' = pml4 s
           \<and> data_frame s' (drop (Suc n) xs) (xs ! n)"
  using page_fault_irq_demand_cases [OF assms(1,3,4), of err] assms(2) by auto

text \<open>A fault on a page that was never allocated, or on one that is mapped, stops the machine.\<close>

lemma page_fault_irq_fatal:
  assumes inv: "mmu_inv s xs" and len: "4 \<le> length xs"
    and dem: "pte_present (leaf s cr2) \<or> \<not> pte_alloc (leaf s cr2)"
  shows "page_fault_irq err cr2 s = Halt ''Page fault at virtual address %p cannot be recovered!''"
proof -
  define va where "va = (if cr2 mod PAGE_SIZE \<noteq> 0 then cr2 AND NOT (PAGE_SIZE - 1) else cr2)"
  have al: "page_aligned va" and sp: "same_page va cr2"
    using page_aligned_align [of cr2] same_page_align [of cr2]
    by (auto simp: va_def PAGE_SIZE_def page_aligned_def)
  obtain s1 n t where g: "get_pt_entry va s = Done (t + 8 * GET_PAGE_TBL_INDEX va, s1)"
    and i1: "mmu_inv s1 (drop n xs)" and k1: "walk_keeps s s1"
    and t: "tbl (pmem s1) (pml4 s1) (pt_path va) = Some t"
    using get_pt_entry_ok [OF inv len al] by blast
  have "pmem s1 (t + 8 * GET_PAGE_TBL_INDEX va) = leaf s cr2"
    using leaf_write(3) [OF i1 t] leaf_cong_same_page [OF sp] k1 by (simp add: walk_keeps_def)
  then show ?thesis
    using g dem by (auto simp: page_fault_irq_def va_def [symmetric])
qed

lemma page_fault_irq_recovers:
  assumes inv: "mmu_inv s xs" and run: "page_fault_irq err cr2 s = Done s'"
  shows "\<not> pte_present (leaf s cr2)" "pte_alloc (leaf s cr2)"
proof -
  define va where "va = (if cr2 mod PAGE_SIZE \<noteq> 0 then cr2 AND NOT (PAGE_SIZE - 1) else cr2)"
  have al: "page_aligned va" and sp: "same_page va cr2"
    using page_aligned_align [of cr2] same_page_align [of cr2]
    by (auto simp: va_def PAGE_SIZE_def page_aligned_def)
  obtain e s1 where g: "get_pt_entry va s = Done (e, s1)" and dem: "\<not> pte_present (pmem s1 e)" "pte_alloc (pmem s1 e)"
    using run by (auto simp: page_fault_irq_def va_def [symmetric] split: if_splits)
  from get_pt_entry_cases [OF inv al] g obtain n t where e: "e = t + 8 * GET_PAGE_TBL_INDEX va"
    and i1: "mmu_inv s1 (drop n xs)" and k1: "walk_keeps s s1"
    and t: "tbl (pmem s1) (pml4 s1) (pt_path va) = Some t"
    by auto
  have "pmem s1 e = leaf s cr2"
    using leaf_write(3) [OF i1 t] leaf_cong_same_page [OF sp] k1 e by (simp add: walk_keeps_def)
  then show "\<not> pte_present (leaf s cr2)" "pte_alloc (leaf s cr2)" using dem by simp_all
qed

section \<open>Freeing a page\<close>

text \<open>A write to a data frame is seen neither by the tables nor by the allocator.\<close>

lemma data_write_outside:
  assumes df: "data_frame s xs f" and a: "a - f < PAGE_SIZE"
    and u: "good_frame u" "u \<in> set xs \<or> tpath q \<and> tbl (pmem s) (pml4 s) q = Some u" and j: "j < 512"
  shows "u + 8 * j \<noteq> a"
proof
  assume "u + 8 * j = a"
  then have "u + 8 * j - f < 4096" using a by (simp add: PAGE_SIZE_def)
  then have "u = f" using entry_in_page [OF u(1) _ j, of f] df by (simp add: data_frame_def)
  then show False using df u(2) by (auto simp: data_frame_def)
qed

lemma data_fill:
  assumes inv: "mmu_inv s xs" and df: "data_frame s xs f" and m: "\<And>a. \<not> a - f < PAGE_SIZE \<Longrightarrow> m a = pmem s a"
  shows "tpath q \<Longrightarrow> tbl m (pml4 s) q = tbl (pmem s) (pml4 s) q"
    and "mmu_inv (s\<lparr>pmem := m\<rparr>) xs" and "leaf (s\<lparr>pmem := m\<rparr>) = leaf s" and "frames_stay s xs (s\<lparr>pmem := m\<rparr>) xs"
proof -
  have held: "frames_held s xs" and tok: "tables_ok (pmem s) (pml4 s) xs"
    using inv by (auto simp: mmu_inv_def)
  have keep: "m (u + 8 * j) = pmem s (u + 8 * j)" if "good_frame u" "u \<in> set xs \<or> tpath q \<and> tbl (pmem s) (pml4 s) q = Some u" "j < 512" for q u j
    using data_write_outside [OF df _ that] m by blast
  have table: "m (u + 8 * j) = pmem s (u + 8 * j)" if "tpath q" "tbl (pmem s) (pml4 s) q = Some u" "j < 512" for q u j
    using keep [OF tables_okD(1) [OF tok that(1,2)] _ that(3)] that(1,2) by blast
  have T: "tbl m (pml4 s) q = tbl (pmem s) (pml4 s) q" if "tpath q" for q
    using that
  proof (induction q)
    case (Cons j q)
    have "tpath q" "j < 512" using Cons.prems by (auto simp: tpath_Cons)
    then show ?case using Cons.IH table [of q _ j] by (auto split: option.split)
  qed simp
  then show "tpath q \<Longrightarrow> tbl m (pml4 s) q = tbl (pmem s) (pml4 s) q" .
  have "frames_held (s\<lparr>pmem := m\<rparr>) xs"
    using keep [OF pf.holds_good [OF held], of _ _ 0] by (intro frames_held_write [OF held]) auto
  moreover have "tables_ok m (pml4 s) xs"
    using tok T unfolding tables_ok_def by (metis (no_types, lifting))
  ultimately show "mmu_inv (s\<lparr>pmem := m\<rparr>) xs" by (simp add: mmu_inv_def)
  show "leaf (s\<lparr>pmem := m\<rparr>) = leaf s"
    using T [OF tpath_pt_path(1)] table [OF tpath_pt_path(1) _ index_less(4)]
    by (auto simp: leaf_def fun_eq_iff split: option.split)
  show "frames_stay s xs (s\<lparr>pmem := m\<rparr>) xs"
    using T by (simp add: frames_stay_def data_frame_def)
qed

lemma data_write:
  assumes "mmu_inv s xs" and "data_frame s xs f" and "a - f < PAGE_SIZE"
  shows "tpath q \<Longrightarrow> tbl ((pmem s)(a := v)) (pml4 s) q = tbl (pmem s) (pml4 s) q"
    and "mmu_inv (s\<lparr>pmem := (pmem s)(a := v)\<rparr>) xs"
    and "leaf (s\<lparr>pmem := (pmem s)(a := v)\<rparr>) = leaf s"
    and "frames_stay s xs (s\<lparr>pmem := (pmem s)(a := v)\<rparr>) xs"
  by (rule data_fill [OF assms(1,2)]; use assms(3) in auto)+

text \<open>The allocator takes any data frame back.\<close>

lemma MMU_pf_free_data:
  assumes inv: "mmu_inv s xs" and df: "data_frame s xs f"
  shows "\<exists>s'. MMU_pf_free f s = Done s' \<and> mmu_inv s' (f # xs) \<and> leaf s' = leaf s
     \<and> pml4 s' = pml4 s \<and> virt_addr_bank s' = virt_addr_bank s
     \<and> (\<forall>q. tpath q \<longrightarrow> tbl (pmem s') (pml4 s') q = tbl (pmem s) (pml4 s) q)
     \<and> (\<forall>g. data_frame s xs g \<longrightarrow> g \<noteq> f \<longrightarrow> data_frame s' (f # xs) g \<and> frame_unchanged s s' g)"
proof -
  have held: "frames_held s xs" using inv by (simp add: mmu_inv_def)
  have gf: "good_frame f" "f \<notin> set xs" using df by (auto simp: data_frame_def)
  obtain s' where s': "MMU_pf_free f s = Done s'" "frames_held s' (f # xs)"
    "pmem s' = (pmem s)(f := pf_free_list_head s)" "pml4 s' = pml4 s" "virt_addr_bank s' = virt_addr_bank s"
    using MMU_pf_free_step [OF held gf] by blast
  have a: "f - f < PAGE_SIZE" by (simp add: PAGE_SIZE_def)
  note w = data_write [OF inv df a, where v = "pf_free_list_head s"]
  have T: "tbl (pmem s') (pml4 s') q = tbl (pmem s) (pml4 s) q" if "tpath q" for q
    unfolding s'(3,4) by (rule w(1) [OF that])
  have tok: "tables_ok (pmem s') (pml4 s) xs" using w(2) by (simp add: mmu_inv_def s'(3))
  have "tables_ok (pmem s') (pml4 s') (f # xs)"
    using tok T df s'(4) unfolding tables_ok_def data_frame_def by (metis set_ConsD)
  moreover have "leaf s' = leaf s" using leaf_cong [of s'] w(3) s'(3,4) by (metis mmu.select_convs(1,6) mmu.surjective mmu.update_convs(1))
  moreover have "frame_unchanged s s' g" if "data_frame s xs g" "g \<noteq> f" for g
    using frame_words_apart [of g f _ 0] that df by (auto simp: frame_unchanged_def s'(3) data_frame_def PAGE_SIZE_def)
  ultimately show ?thesis using s'(1,2,4,5) T by (auto simp: mmu_inv_def data_frame_def)
qed

text \<open>Freeing a mapped page gives its frame back and clears the entry.\<close>

lemma MMU_free_page_mapped:
  assumes inv: "mmu_inv s xs" and al: "page_aligned page"
    and pf: "READ_FRAME_ADDR (leaf s page) = pf" "data_frame s xs pf"
  shows "\<exists>s'. MMU_free_page page s = Done s' \<and> mmu_inv s' (pf # xs)
           \<and> (\<forall>w. leaf s' w = (if same_page w page then 0 else leaf s w))
           \<and> virt_addr_bank s' = virt_addr_bank s \<and> pml4 s' = pml4 s
           \<and> (\<forall>g. data_frame s xs g \<longrightarrow> g \<noteq> pf \<longrightarrow> data_frame s' (pf # xs) g \<and> frame_unchanged s s' g)"
proof -
  obtain t where t: "tbl (pmem s) (pml4 s) (pt_path page) = Some t"
    using pf by (cases "tbl (pmem s) (pml4 s) (pt_path page)")
      (auto simp: leaf_def data_frame_def good_frame_def READ_FRAME_ADDR_def)
  obtain s2 where s2: "MMU_pf_free pf s = Done s2" "mmu_inv s2 (pf # xs)" "leaf s2 = leaf s"
    "pml4 s2 = pml4 s" "virt_addr_bank s2 = virt_addr_bank s"
    and T: "\<forall>q. tpath q \<longrightarrow> tbl (pmem s2) (pml4 s2) q = tbl (pmem s) (pml4 s) q"
    and D: "\<forall>g. data_frame s xs g \<longrightarrow> g \<noteq> pf \<longrightarrow> data_frame s2 (pf # xs) g \<and> frame_unchanged s s2 g"
    using MMU_pf_free_data [OF inv pf(2)] by blast
  have t2: "tbl (pmem s2) (pml4 s2) (pt_path page) = Some t" using T t by simp
  let ?e = "t + 8 * GET_PAGE_TBL_INDEX page"
  have "MMU_free_page page s = Done (s2\<lparr>pmem := (pmem s2)(?e := 0)\<rparr>)"
    using al get_pt_entry_present [OF t al] leaf_write(3) [OF inv t] pf(1) s2(1)
    by (simp add: MMU_free_page_def)
  moreover have "data_frame (s2\<lparr>pmem := (pmem s2)(?e := 0)\<rparr>) (pf # xs) g
      \<and> frame_unchanged s (s2\<lparr>pmem := (pmem s2)(?e := 0)\<rparr>) g" if "data_frame s xs g" "g \<noteq> pf" for g
    using D that frames_kept_leaf_write [OF s2(2) t2, of 0] frame_unchanged_trans
    unfolding frames_kept_def frames_stay_def by blast
  ultimately show ?thesis
    using leaf_write(1,2) [OF s2(2) t2, of 0] s2(3,4,5)
    by (intro exI [of _ "s2\<lparr>pmem := (pmem s2)(?e := 0)\<rparr>"]) simp
qed

lemma MMU_free_page_frame:
  assumes inv: "mmu_inv s xs" and run: "MMU_free_page page s = Done s'"
  shows "page_aligned page" "READ_FRAME_ADDR (leaf s page) \<noteq> NULL"
proof -
  show al: "page_aligned page"
    using run by (auto simp: MMU_free_page_def CHECK_PAGE_ALIGNED_def PAGE_SIZE_def page_aligned_def split: if_splits)
  obtain e s1 s2 where g: "get_pt_entry page s = Done (e, s1)" and f: "MMU_pf_free (READ_FRAME_ADDR (pmem s1 e)) s1 = Done s2"
    using run by (auto simp: MMU_free_page_def)
  from get_pt_entry_cases [OF inv al] g obtain n t where e: "e = t + 8 * GET_PAGE_TBL_INDEX page"
    and i1: "mmu_inv s1 (drop n xs)" and k1: "walk_keeps s s1"
    and t: "tbl (pmem s1) (pml4 s1) (pt_path page) = Some t"
    by auto
  have "pmem s1 e = leaf s page" using leaf_write(3) [OF i1 t] k1 e by (simp add: walk_keeps_def)
  then show "READ_FRAME_ADDR (leaf s page) \<noteq> NULL" using f by (auto simp: MMU_pf_free_def split: if_splits)
qed

text \<open>Freeing a page that no access has touched yet stops the machine: its entry holds no frame.\<close>

lemma MMU_free_page_untouched:
  assumes inv: "mmu_inv s xs" and len: "4 \<le> length xs" and al: "page_aligned page"
    and none: "READ_FRAME_ADDR (leaf s page) = NULL"
  shows "MMU_free_page page s = Halt ''Page frame is NULL!''"
proof -
  obtain s1 n t where g: "get_pt_entry page s = Done (t + 8 * GET_PAGE_TBL_INDEX page, s1)"
    and i1: "mmu_inv s1 (drop n xs)" and k1: "walk_keeps s s1"
    and t: "tbl (pmem s1) (pml4 s1) (pt_path page) = Some t"
    using get_pt_entry_ok [OF inv len al] by blast
  have "pmem s1 (t + 8 * GET_PAGE_TBL_INDEX page) = leaf s page"
    using leaf_write(3) [OF i1 t] k1 by (simp add: walk_keeps_def)
  moreover have "page_aligned NULL" by (simp add: page_aligned_def)
  ultimately show ?thesis using al g none by (simp add: MMU_free_page_def MMU_pf_free_def)
qed

end
