(* ===== verification/HeapBrk.thy ===== *)
theory HeapBrk imports HeapOps VirtMem begin

text \<open>
  How the kernel heap grows: the interface the allocator of lib/kmalloc.c uses of \<open>kbrk\<close>, what
  \<open>extend_mem\<close> does over it, and its interpretation on \<open>kbrk\<close> of src/drivers/mmu\_driver.c.
\<close>

lemma bin_numbers:
  "65536 + HEADER_SIZE = 65568" "ROUND_UP BIN_SIZE BIN_SIZE = 65536"
  by (simp_all add: ROUND_UP_def BIN_SIZE_def HEADER_SIZE_def)

section \<open>A provider of heap memory\<close>

text \<open>
  The break moves by whole pages, the remainder of the increment dropped. The allocator's
  header file expects a break that moves by the increment; the law is what \<open>kbrk\<close> does.
\<close>

locale brk_provider =
  fixes brk :: "'b brk_fn" and top :: "'b \<Rightarrow> addr"
  assumes brk_zero: "brk 0 b = Done (top b, b)"
    and brk_step: "brk n b = Done (p, b') \<Longrightarrow> p = top b \<and> top b' = top b + 4096 * (n div 4096)"
begin

lemma do_brk_zero: "do_brk brk 0 s = Done (top (brk_state s), s)"
  by (simp add: do_brk_def brk_zero)

text \<open>An extension of one bin, without the split.\<close>

lemma extend_bin:
  assumes al: "top (brk_state s) mod 16 = 0" and step: "brk 65568 (brk_state s) = Done (p, b')"
    and b: "top (brk_state s) \<noteq> NULL" "unat (top (brk_state s)) + 65568 < 18446744073709551616"
  shows "\<exists>s'. extend_mem brk BIN_SIZE prev next s = Done (top (brk_state s), s')
     \<and> hdr (kmem s') (top (brk_state s)) prev 65536 True \<and> h_next (kmem s') (top (brk_state s)) = next
     \<and> brk_state s' = b' \<and> top b' = top (brk_state s) + 65536
     \<and> kernel_heap_head s' = kernel_heap_head s \<and> kerrno s' = kerrno s
     \<and> (\<forall>x. \<not> in_region x (top (brk_state s)) 32 \<longrightarrow> kmem s' x = kmem s x)"
proof -
  let ?b = "top (brk_state s)"
  have ok: "hdr_ok ?b" using b(2) by (simp add: hdr_ok_def)
  have p: "p = ?b" and t: "top b' = ?b + 65536"
    using brk_step [OF step] by simp_all
  have neq: "?b \<noteq> - 1"
  proof
    assume "?b = - 1"
    moreover have "unat (- 1 :: u64) = 18446744073709551615" using unat_uminus [of 1] by simp
    ultimately show False using b(2) by simp
  qed
  define m where "m = set_prev ?b prev (set_next ?b next (set_free ?b True (set_size ?b 65536
      (set_ptr ?b (?b + HEADER_SIZE) (kmem s)))))"
  have h: "hdr m ?b prev 65536 True" "h_next m ?b = next"
    using b(1) unfolding m_def hdr_def by (simp_all add: field_same [OF ok] HEADER_SIZE_def)
  have skip: "split_block ?b BIN_SIZE m = m"
    using split_block_skip [OF h(1), of 65536] by (simp add: BIN_SIZE_def)
  have brk: "do_brk brk 65568 s = Done (?b, s\<lparr>brk_state := b'\<rparr>)"
    using step p by (simp add: do_brk_def)
  have "extend_mem brk BIN_SIZE prev next s = Done (?b, s\<lparr>brk_state := b', kmem := m\<rparr>)"
    using al neq skip
    by (simp add: extend_mem_def do_brk_zero ALIGN_SIZE_def bin_numbers brk Let_def on_mem_def m_def)
  moreover have "m x = kmem s x" if "\<not> in_region x ?b 32" for x
    unfolding m_def using that by (simp add: set_outside [OF ok])
  ultimately show ?thesis using h t by auto
qed

text \<open>The payload of the new block ends 32 bytes above the new break, and the header of the next
  extension lies in it.\<close>

lemma extend_twice:
  assumes al: "top (brk_state s) mod 4096 = 0" and b: "top (brk_state s) \<noteq> NULL"
      "unat (top (brk_state s)) + 131136 < 18446744073709551616"
    and s1: "extend_mem brk BIN_SIZE p1 n1 s = Done (b1, s1)"
    and s2: "extend_mem brk BIN_SIZE p2 n2 s1 = Done (b2, s2)"
  shows "unat (h_ptr (kmem s1) b1 + size64 (kmem s1) b1) = unat (top (brk_state s1)) + 32
     \<and> b2 = top (brk_state s1) \<and> unat b1 + 32 \<le> unat b2
     \<and> unat b2 + 32 \<le> unat (h_ptr (kmem s1) b1 + size64 (kmem s1) b1)"
proof -
  let ?t = "top (brk_state s)"
  have al16: "?t mod 16 = 0"
  proof -
    have "unat (?t mod 4096) = 0" using al by simp
    then have "4096 dvd unat ?t" by (simp add: unat_mod_distrib dvd_eq_mod_eq_0)
    then have "16 dvd unat ?t" using dvd_trans [of 16 "4096 :: nat"] by simp
    then show ?thesis by (simp add: word_unat_eq_iff unat_mod_distrib dvd_eq_mod_eq_0)
  qed
  have ex: "\<exists>p b'. brk 65568 (brk_state s) = Done (p, b')"
    if "extend_mem brk BIN_SIZE p n s = Done r" "top (brk_state s) mod 16 = 0" for s :: "'b kheap" and p n r
    using that
    by (cases "brk 65568 (brk_state s)")
       (auto simp: extend_mem_def do_brk_zero ALIGN_SIZE_def do_brk_def [of brk 65568] bin_numbers)
  obtain p b' where p: "brk 65568 (brk_state s) = Done (p, b')" using ex [OF s1 al16] by blast
  have e1: "b1 = ?t" "hdr (kmem s1) b1 p1 65536 True" "top (brk_state s1) = ?t + 65536"
    using extend_bin [OF al16 p, of p1 n1] s1 b by auto
  have u: "unat (?t + 65536) = unat ?t + 65536" using b(2) by (subst unat_add_nowrap) simp_all
  have al2: "top (brk_state s1) mod 16 = 0"
    using al16 mod_add_right_eq [of "unat ?t" 65536 16] unfolding e1(3)
    by (simp add: word_unat_eq_iff unat_mod_distrib u)
  obtain q c' where q: "brk 65568 (brk_state s1) = Done (q, c')" using ex [OF s2 al2] by blast
  have nz: "top (brk_state s1) \<noteq> NULL" using u e1(3) by (metis add_is_0 unat_0 numeral_neq_zero)
  have "b2 = top (brk_state s1)"
    using extend_bin [OF al2 q nz, of p2 n2] s2 b(2) u e1(3) by auto
  moreover have "unat (h_ptr (kmem s1) b1 + size64 (kmem s1) b1) = unat b1 + 32 + 65536"
    using hdr_end [OF e1(2)] b(2) e1(1) by simp
  ultimately show ?thesis using e1(1,3) u by simp
qed

text \<open>The first allocation: one bin is taken from the provider and cut for the request.\<close>

lemma first_kmalloc:
  assumes head: "kernel_heap_head s = NULL" and al: "top (brk_state s) mod 16 = 0"
    and b: "top (brk_state s) \<noteq> NULL" "unat (top (brk_state s)) + 65568 < 18446744073709551616"
    and step: "brk 65568 (brk_state s) = Done (p, b')" and sz: "unat sz \<le> 65536" and fuel: "1 \<le> fuel"
  shows "\<exists>s'. kmalloc fuel brk sz s = Done (top (brk_state s) + 32, s')
     \<and> heap_at s' (taken (top (brk_state s)) 65536 (round16 (max 1 (unat sz))) [])
          (unat (top (brk_state s)) + 65568)
     \<and> brk_state s' = b' \<and> kernel_heap_head s' = top (brk_state s)"
proof -
  let ?t = "top (brk_state s)" and ?n = "round16 (max 1 (unat sz))"
  obtain s1 where e: "extend_mem brk BIN_SIZE NULL NULL s = Done (?t, s1)"
    and h: "hdr (kmem s1) ?t NULL 65536 True" "h_next (kmem s1) ?t = NULL" "brk_state s1 = b'"
    using extend_bin [OF al step b, of NULL NULL] by blast
  define s2 where "s2 = s1\<lparr>kernel_heap_head := ?t\<rparr>"
  have heap: "heap_at s2 [(?t, 65536, True)] (unat ?t + 65568)"
    using h b by (simp add: heap_at_def s2_def)
  have "(max 1 (unat sz) + 15) div 16 \<le> (65536 + 15) div 16" by (rule div_le_mono) (use sz in simp)
  then have n: "?n \<le> 65536" by (simp add: round16_def)
  have pk: "pick ?n [(?t, 65536, True)] = Some ?t" using n by auto
  obtain s' xs n' ys where k: "kmalloc fuel brk sz s2 = Done (?t + 32, s')"
    and bs: "[(?t, 65536, True)] = xs @ (?t, n', True) # ys"
    and h': "heap_at s' (xs @ taken ?t n' ?n ys) (unat ?t + 65568)"
    and keep: "brk_state s' = brk_state s2" "kernel_heap_head s' = kernel_heap_head s2"
    using kmalloc_pick [OF heap pk, of fuel brk] fuel by auto
  have "get_empty_mem fuel brk x s = get_empty_mem fuel brk x s2" for x
    using e head b(1) by (simp add: get_empty_mem_def s2_def)
  moreover have "?t + 32 \<noteq> NULL"
  proof -
    have "unat (?t + 32) = unat ?t + 32" using b(2) by (subst unat_add_nowrap) simp_all
    then show ?thesis by (metis add_is_0 unat_0 numeral_neq_zero)
  qed
  ultimately have "kmalloc fuel brk sz s = Done (?t + 32, s')"
    using k unfolding kmalloc_def Let_def by (simp split: if_splits)
  moreover have "xs = []" "ys = []" "n' = 65536" using bs by (cases xs; simp)+
  ultimately show ?thesis using h' keep h(3) by (simp add: s2_def)
qed

end

section \<open>The memory manager as the provider\<close>

lemma MMU_pf_alloc_bank: "MMU_pf_alloc s = Done (p, s') \<Longrightarrow> virt_addr_bank s' = virt_addr_bank s"
  by (auto simp: MMU_pf_alloc_def alloc_new_pf_def Let_def split: if_splits)

lemma ensure_table_bank: "ensure_table e s = Done s' \<Longrightarrow> virt_addr_bank s' = virt_addr_bank s"
  using MMU_pf_alloc_bank
  by (fastforce simp: ensure_table_def alloc_table_entry_def Let_def split: if_splits)

lemma get_pt_entry_bank: "get_pt_entry va s = Done (e, s') \<Longrightarrow> virt_addr_bank s' = virt_addr_bank s"
  using ensure_table_bank by (fastforce simp: get_pt_entry_def Let_def)

lemma MMU_alloc_page_bank:
  "MMU_alloc_page r s = Done (p, s') \<Longrightarrow> virt_addr_bank s' = (virt_addr_bank s)(r := virt_addr_bank s r + 4096)"
  using get_pt_entry_bank by (fastforce simp: MMU_alloc_page_def Let_def PAGE_SIZE_def)

lemma alloc_pages_loop_bank:
  "alloc_pages_loop n r s = Done s' \<Longrightarrow> virt_addr_bank s' r = virt_addr_bank s r + 4096 * of_nat n"
proof (induction n arbitrary: s)
  case (Suc n)
  then obtain p s1 where "MMU_alloc_page r s = Done (p, s1)" "alloc_pages_loop n r s1 = Done s'" by auto
  then show ?case using Suc.IH MMU_alloc_page_bank by (auto simp: algebra_simps)
qed simp

interpretation kb: brk_provider kbrk "\<lambda>s. virt_addr_bank s MMU_VADDR_KHEAP"
proof unfold_locales
  fix b show "kbrk 0 b = Done (virt_addr_bank b MMU_VADDR_KHEAP, b)" by (simp add: kbrk_def)
next
  fix n b p b' assume "kbrk n b = Done (p, b')"
  then show "p = virt_addr_bank b MMU_VADDR_KHEAP
      \<and> virt_addr_bank b' MMU_VADDR_KHEAP = virt_addr_bank b MMU_VADDR_KHEAP + 4096 * (n div 4096)"
    using alloc_pages_loop_bank by (auto simp: kbrk_def MMU_alloc_pages_def Let_def PAGE_SIZE_def split: if_splits)
qed

end
