(* ===== verification/PortIO.thy ===== *)
theory PortIO imports Prelude begin

text \<open>
  lib/common.c: port input and output, the \<open>io_wait\<close> delays, the atomic operations and the
  binary semaphore. The devices behind the ports are not part of the source: a device model
  is a function from the history of port accesses to the byte the next read returns.
\<close>

section \<open>Ports\<close>

datatype io_event = In u16 u8 | Out u16 u8 | InW u16 u16 | OutW u16 u16 | InL u16 u32 | OutL u16 u32

text \<open>The history of port accesses (newest first), the console messages (newest first) and
  the processor's interrupt flag, which \<open>sti\<close> sets and \<open>cli\<close> clears.\<close>

record machine =
  trace :: "io_event list"
  klog :: "kmsg list"
  if_flag :: bool

type_synonym device = "io_event list \<Rightarrow> u16 \<Rightarrow> u8"

definition say :: "kmsg \<Rightarrow> 'a machine_scheme \<Rightarrow> 'a machine_scheme" where
  "say k s = s\<lparr>klog := k # klog s\<rparr>"

definition inb :: "device \<Rightarrow> u16 \<Rightarrow> 'a machine_scheme \<Rightarrow> u8 \<times> 'a machine_scheme" where
  "inb dev port s = (let v = dev (trace s) port in (v, s\<lparr>trace := In port v # trace s\<rparr>))"

definition outb :: "u16 \<Rightarrow> u8 \<Rightarrow> 'a machine_scheme \<Rightarrow> 'a machine_scheme" where
  "outb port val s = s\<lparr>trace := Out port val # trace s\<rparr>"

text \<open>The accesses of 16 and 32 bits; what a device answers to them is a function of its own.\<close>

definition inw :: "(io_event list \<Rightarrow> u16 \<Rightarrow> u16) \<Rightarrow> u16 \<Rightarrow> 'a machine_scheme \<Rightarrow> u16 \<times> 'a machine_scheme" where
  "inw dev port s = (let v = dev (trace s) port in (v, s\<lparr>trace := InW port v # trace s\<rparr>))"

definition inl :: "(io_event list \<Rightarrow> u16 \<Rightarrow> u32) \<Rightarrow> u16 \<Rightarrow> 'a machine_scheme \<Rightarrow> u32 \<times> 'a machine_scheme" where
  "inl dev port s = (let v = dev (trace s) port in (v, s\<lparr>trace := InL port v # trace s\<rparr>))"

definition outw :: "u16 \<Rightarrow> u16 \<Rightarrow> 'a machine_scheme \<Rightarrow> 'a machine_scheme" where
  "outw port val s = s\<lparr>trace := OutW port val # trace s\<rparr>"

definition outl :: "u16 \<Rightarrow> u32 \<Rightarrow> 'a machine_scheme \<Rightarrow> 'a machine_scheme" where
  "outl port val s = s\<lparr>trace := OutL port val # trace s\<rparr>"

definition io_wait :: "'a machine_scheme \<Rightarrow> 'a machine_scheme" where
  "io_wait s = outb 0x80 0 s"

primrec io_wait_n :: "nat \<Rightarrow> 'a machine_scheme \<Rightarrow> 'a machine_scheme" where
  "io_wait_n 0 s = s"
| "io_wait_n (Suc t) s = io_wait_n t (io_wait s)"

lemma port_simps [simp]:
  "trace (outb p v s) = Out p v # trace s" "klog (outb p v s) = klog s" "if_flag (outb p v s) = if_flag s"
  "trace (snd (inb dev p s)) = In p (dev (trace s) p) # trace s" "fst (inb dev p s) = dev (trace s) p"
  "klog (snd (inb dev p s)) = klog s" "if_flag (snd (inb dev p s)) = if_flag s"
  "trace (say k s) = trace s" "klog (say k s) = k # klog s" "if_flag (say k s) = if_flag s"
  by (simp_all add: inb_def outb_def say_def Let_def)

lemma fst_inb: "fst (inb dev p s) = dev (trace s) p"
  by simp

lemma trace_io_wait_n [simp]: "trace (io_wait_n n s) = replicate n (Out 0x80 0) @ trace s"
  by (induction n arbitrary: s) (simp_all add: io_wait_def replicate_app_Cons_same)

lemma io_wait_n_eq: "io_wait_n n s = s\<lparr>trace := replicate n (Out 0x80 0) @ trace s\<rparr>"
  by (induction n arbitrary: s) (simp_all add: io_wait_def outb_def replicate_app_Cons_same)

section \<open>The interrupt flag\<close>

text \<open>The flags register is bit 9 for the interrupt flag and \<open>rest\<close> for the other flags, which
  none of this code looks at.\<close>

definition read_flags :: "u64 \<Rightarrow> 'a machine_scheme \<Rightarrow> u64" where
  "read_flags rest s = (if if_flag s then set_bit 9 rest else unset_bit 9 rest)"

definition are_interrupts_enabled :: "u64 \<Rightarrow> 'a machine_scheme \<Rightarrow> bool" where
  "are_interrupts_enabled rest s = (read_flags rest s AND push_bit 9 1 \<noteq> 0)"

definition save_irqdisable :: "u64 \<Rightarrow> 'a machine_scheme \<Rightarrow> u64 \<times> 'a machine_scheme" where
  "save_irqdisable rest s = (read_flags rest s, s\<lparr>if_flag := False\<rparr>)"

definition irqrestore :: "u64 \<Rightarrow> 'a machine_scheme \<Rightarrow> 'a machine_scheme" where
  "irqrestore flags s = s\<lparr>if_flag := bit flags 9\<rparr>"

lemma and_push_bit_1: "(x :: 'a::len word) AND push_bit n 1 = (if bit x n then push_bit n 1 else 0)"
  by (rule bit_eqI) (auto simp: bit_and_iff bit_exp_iff)

lemma are_interrupts_enabled_iff: "are_interrupts_enabled rest s = if_flag s"
proof -
  have "bit (push_bit 9 1 :: u64) 9" by (simp add: bit_push_bit_iff)
  then have "(push_bit 9 1 :: u64) \<noteq> 0" by auto
  then show ?thesis
    unfolding are_interrupts_enabled_def and_push_bit_1
    by (auto simp: read_flags_def bit_set_bit_iff bit_unset_bit_iff)
qed

lemma irqrestore_save: "irqrestore (fst (save_irqdisable rest s)) (snd (save_irqdisable rest s)) = s"
  by (simp add: irqrestore_def save_irqdisable_def read_flags_def bit_set_bit_iff bit_unset_bit_iff)

section \<open>Atomic operations\<close>

text \<open>\<open>lock cmpxchg\<close>: the old value is returned, and replaced where it equals \<open>compare\<close>. An
  \<open>int\<close> variable is its value.\<close>

definition atomic_test_and_set :: "int \<Rightarrow> int \<Rightarrow> int \<Rightarrow> int \<times> int" where
  "atomic_test_and_set v compare swap = (v, if v = compare then swap else v)"

text \<open>\<open>atomic_swap\<close> on a store of \<open>int\<close> variables; the two pointers may be equal.\<close>

definition atomic_swap :: "addr \<Rightarrow> addr \<Rightarrow> (addr \<Rightarrow> int) \<Rightarrow> int \<times> (addr \<Rightarrow> int)" where
  "atomic_swap valA valB m =
     (if valA = valB then (0, m)
      else let (ret, a') = atomic_test_and_set (m valA) (m valA) (m valB)
           in (0, m(valA := a', valB := ret)))"

lemma atomic_swap_swaps:
  "snd (atomic_swap a b m) = m(a := m b, b := m a)"
  by (auto simp: atomic_swap_def atomic_test_and_set_def)

section \<open>The binary semaphore\<close>

text \<open>
  Threads that run \<open>binary_semaphore_lock\<close>, a critical section and
  \<open>binary_semaphore_unlock\<close>. One step is one atomic test-and-set of the spin loop (which
  enters the critical section when it returned false, and goes round again otherwise) or one
  unlock.
\<close>

record semaphore =
  locked :: int
  in_critical :: "nat \<Rightarrow> bool"

definition sem_init :: semaphore where
  "sem_init = \<lparr>locked = 0, in_critical = (\<lambda>_. False)\<rparr>"

definition lock_try :: "nat \<Rightarrow> semaphore \<Rightarrow> semaphore" where
  "lock_try i s = (let (ret, v) = atomic_test_and_set (locked s) 0 1
     in if ret \<noteq> 0 then s\<lparr>locked := v\<rparr>
        else s\<lparr>locked := v, in_critical := (in_critical s)(i := True)\<rparr>)"

definition sem_unlock :: "nat \<Rightarrow> semaphore \<Rightarrow> semaphore" where
  "sem_unlock i s = s\<lparr>locked := 0, in_critical := (in_critical s)(i := False)\<rparr>"

inductive sem_step :: "semaphore \<Rightarrow> semaphore \<Rightarrow> bool" where
  try_lock: "\<not> in_critical s i \<Longrightarrow> sem_step s (lock_try i s)"
| unlock: "in_critical s i \<Longrightarrow> sem_step s (sem_unlock i s)"

inductive sem_reachable :: "semaphore \<Rightarrow> bool" where
  sem_start: "sem_reachable sem_init"
| sem_next: "sem_reachable s \<Longrightarrow> sem_step s t \<Longrightarrow> sem_reachable t"

definition sem_inv :: "semaphore \<Rightarrow> bool" where
  "sem_inv s \<longleftrightarrow> (locked s = 0 \<or> locked s = 1) \<and> (locked s = 0 \<longrightarrow> (\<forall>i. \<not> in_critical s i))
     \<and> (\<forall>i j. in_critical s i \<longrightarrow> in_critical s j \<longrightarrow> i = j)"

lemma sem_step_inv: "sem_step s t \<Longrightarrow> sem_inv s \<Longrightarrow> sem_inv t"
  by (induction rule: sem_step.induct)
     (auto simp: sem_inv_def lock_try_def sem_unlock_def atomic_test_and_set_def)

lemma sem_init_inv: "sem_inv sem_init"
  by (simp add: sem_inv_def sem_init_def)

lemma sem_reachable_inv: "sem_reachable s \<Longrightarrow> sem_inv s"
  by (induction rule: sem_reachable.induct) (blast intro: sem_init_inv sem_step_inv)+

end
