(* ===== verification/Multiboot.thy ===== *)
theory Multiboot imports Memory PortIO begin

text \<open>
  src/boot/multiboot2.c: the boot information GRUB leaves in memory is a list of tags, each
  a type, a size and a body, 8-byte aligned, ended by a tag of type 0. Memory is bytes, the
  fields are read little endian at their offsets. The loops run over memory the boot loader
  wrote and may not end, so they take fuel.
\<close>

section \<open>Tags\<close>

definition MULTIBOOT2_BOOTLOADER_MAGIC :: u64 where "MULTIBOOT2_BOOTLOADER_MAGIC = 0x36D76289"
definition MULTIBOOT_MEMORY_AVAILABLE :: u32 where "MULTIBOOT_MEMORY_AVAILABLE = 1"
definition MULTIBOOT_MEMORY_ACPI_RECLAIMABLE :: u32 where "MULTIBOOT_MEMORY_ACPI_RECLAIMABLE = 3"
definition MULTIBOOT_TAG_TYPE_END :: u32 where "MULTIBOOT_TAG_TYPE_END = 0"
definition MULTIBOOT_TAG_TYPE_MMAP :: u32 where "MULTIBOOT_TAG_TYPE_MMAP = 6"
definition MULTIBOOT_TAG_TYPE_ELF_SECTIONS :: u32 where "MULTIBOOT_TAG_TYPE_ELF_SECTIONS = 9"

definition tag_type :: "mem \<Rightarrow> addr \<Rightarrow> u32" where "tag_type m tag = rd32 m tag"
definition tag_size :: "mem \<Rightarrow> addr \<Rightarrow> u32" where "tag_size m tag = rd32 m (tag + 4)"

text \<open>\<open>(tag->size + 7) & ~7\<close>, computed in 32 bits.\<close>

definition tag_step :: "mem \<Rightarrow> addr \<Rightarrow> addr" where
  "tag_step m tag = tag + ucast ((tag_size m tag + 7) AND NOT 7)"

text \<open>The loop of \<open>find_multiboot2_tag\<close>: the section address it found and the tag it stopped at.\<close>

primrec find_loop :: "nat \<Rightarrow> mem \<Rightarrow> u32 \<Rightarrow> addr \<Rightarrow> (addr \<times> addr) res" where
  "find_loop 0 m ty tag = NoFuel"
| "find_loop (Suc fuel) m ty tag =
     (if tag_type m tag = MULTIBOOT_TAG_TYPE_END then Done (NULL, tag)
      else if tag_type m tag = ty then Done (tag, tag)
      else find_loop fuel m ty (tag_step m tag))"

definition find_multiboot2_tag ::
    "nat \<Rightarrow> mem \<Rightarrow> addr \<Rightarrow> u32 \<Rightarrow> 'a machine_scheme \<Rightarrow> (addr \<times> 'a machine_scheme) res" where
  "find_multiboot2_tag fuel m addr ty s =
     res_bind (find_loop fuel m ty (addr + 8)) (\<lambda>(section_addr, tag).
       Done (section_addr,
             if tag_type m tag \<noteq> ty then say (OS_ERROR ''Tag could not be found!'' []) s else s))"

text \<open>The tag is used without a check: where none was found its fields are read from address
  0 on. A zero entry size raises the processor's divide error.\<close>

definition get_multiboot2_mmap_info ::
    "nat \<Rightarrow> mem \<Rightarrow> addr \<Rightarrow> 'a machine_scheme \<Rightarrow> ((addr \<times> u32) \<times> 'a machine_scheme) res" where
  "get_multiboot2_mmap_info fuel m tag_addr s =
     res_bind (find_multiboot2_tag fuel m tag_addr MULTIBOOT_TAG_TYPE_MMAP s) (\<lambda>(tag, s).
       let entry_size = ucast (rd32 m (tag + 8)) :: u64 in
       if entry_size = 0 then Halt ''Divide by zero error''
       else Done ((tag + 16, ucast ((ucast (tag_size m tag) - 16) div entry_size)), s))"

definition get_multiboot2_elf_info ::
    "nat \<Rightarrow> mem \<Rightarrow> addr \<Rightarrow> 'a machine_scheme \<Rightarrow> ((addr \<times> u32) \<times> 'a machine_scheme) res" where
  "get_multiboot2_elf_info fuel m tag_addr s =
     res_bind (find_multiboot2_tag fuel m tag_addr MULTIBOOT_TAG_TYPE_ELF_SECTIONS s) (\<lambda>(tag, s).
       Done ((tag + 20, rd32 m (tag + 8)), s))"

section \<open>Memory map entries\<close>

record mb_mmap_entry_t =
  mmap_addr :: u64
  mmap_len :: u64
  mmap_type :: u32

definition read_mmap_entry :: "mem \<Rightarrow> addr \<Rightarrow> mb_mmap_entry_t" where
  "read_mmap_entry m e = \<lparr>mmap_addr = rd64 m e, mmap_len = rd64 m (e + 8), mmap_type = rd32 m (e + 16)\<rparr>"

text \<open>\<open>entries[i]\<close>: an array of structs of 24 bytes, whatever \<open>entry_size\<close> the tag gives.\<close>

definition mmap_entry :: "mem \<Rightarrow> addr \<Rightarrow> nat \<Rightarrow> mb_mmap_entry_t" where
  "mmap_entry m entries i = read_mmap_entry m (entries + of_nat (24 * i))"

section \<open>Printing the boot information\<close>

definition print_mmap_entry :: "mb_mmap_entry_t \<Rightarrow> 'a machine_scheme \<Rightarrow> 'a machine_scheme" where
  "print_mmap_entry e s =
     (let s = say (PRINTK ''  type .......... '' []) s;
          s = say (PRINTK (if mmap_type e = MULTIBOOT_MEMORY_AVAILABLE then ''RAM (Available)''
                else if mmap_type e = MULTIBOOT_MEMORY_ACPI_RECLAIMABLE then ''ACPI Memory (Reclaimable)''
                else ''Reserved'') []) s
      in say (PRINTK ''  base_addr ..... 0x%lX   length ........ 0x%lX'' [mmap_addr e, mmap_len e]) s)"

primrec parse_mmap_loop ::
    "nat \<Rightarrow> mem \<Rightarrow> addr \<Rightarrow> addr \<Rightarrow> 'a machine_scheme \<Rightarrow> 'a machine_scheme res" where
  "parse_mmap_loop 0 m tag mmap s = NoFuel"
| "parse_mmap_loop (Suc fuel) m tag mmap s =
     (if mmap < tag + ucast (tag_size m tag)
      then parse_mmap_loop fuel m tag (mmap + ucast (rd32 m (tag + 8)))
             (print_mmap_entry (read_mmap_entry m mmap) s)
      else Done s)"

definition parse_mmap :: "nat \<Rightarrow> mem \<Rightarrow> addr \<Rightarrow> 'a machine_scheme \<Rightarrow> 'a machine_scheme res" where
  "parse_mmap fuel m tag s =
     parse_mmap_loop fuel m tag (tag + 16)
       (say (PRINTK ''Memory Map Tag:    0x%X, Size 0x%X'' [ucast (tag_type m tag), ucast (tag_size m tag)]) s)"

definition elf_type_names :: "(u32 \<times> string) list" where
  "elf_type_names = [(0, ''  NULL''), (0x1, ''  PROGBITS: Program data''), (0x2, ''  SYMTAB: Symbol table''),
     (0x3, ''  STRTAB: String table''), (0x4, ''  RELA: Relocation entries with addends''),
     (0x5, ''  HASH: Symbol hash table''), (0x6, ''  DYNAMIC: Dynamic linking information''),
     (0x7, ''  NOTE: Note sections''), (0x8, ''  NOBITS: BSS''),
     (0x9, ''  REL: Relocation entries, no addends''), (0xA, ''  SHLIB: Reserved''),
     (0xB, ''  DYNSYM: Dynamic linker symbol table''), (0xE, ''  INIT_ARRAY: Array of constructors''),
     (0xF, ''  FINI_ARRAY: Array of destructors''), (0x10, ''  PREINIT_ARRAY: Array of pre-constructors''),
     (0x11, ''  GROUP: Section group''), (0x12, ''  SYMTAB_SHNDX: Extended section indeces''),
     (0x13, ''  NUM: Number of defined types''), (0x60000000, ''  LOOS: Start of OS-specific'')]"

definition print_elf_type :: "u32 \<Rightarrow> 'a machine_scheme \<Rightarrow> 'a machine_scheme" where
  "print_elf_type type s =
     say (PRINTK (case map_of elf_type_names type of Some n \<Rightarrow> n | None \<Rightarrow> ''  UNKNOWN'') []) s"

text \<open>A section header of 64 bytes: name 0, type 4, flags 8, addr 16, offset 24, size 32, link 40,
  info 44, addralign 48, entsize 56.\<close>

primrec parse_ELF_loop :: "nat \<Rightarrow> mem \<Rightarrow> addr \<Rightarrow> 'a machine_scheme \<Rightarrow> 'a machine_scheme" where
  "parse_ELF_loop 0 m sect s = s"
| "parse_ELF_loop (Suc n) m sect s = parse_ELF_loop n m (sect + 64)
     (if rd64 m (sect + 8) AND 0x2 \<noteq> 0
      then say (PRINTK ''  name type flags addr offset size link info addralign entsize''
             [ucast (rd32 m sect), ucast (rd32 m (sect + 4)), rd64 m (sect + 8), rd64 m (sect + 16),
              rd64 m (sect + 24), rd64 m (sect + 32), ucast (rd32 m (sect + 40)),
              ucast (rd32 m (sect + 44)), rd64 m (sect + 48), rd64 m (sect + 56)])
             (print_elf_type (rd32 m (sect + 4)) s)
      else s)"

definition parse_ELF :: "mem \<Rightarrow> addr \<Rightarrow> 'a machine_scheme \<Rightarrow> 'a machine_scheme" where
  "parse_ELF m tag s =
     parse_ELF_loop (unat (rd32 m (tag + 8))) m (tag + 20)
       (say (PRINTK ''ELF Sections Tag: 0x%X, Size 0x%X'' [ucast (tag_type m tag), ucast (tag_size m tag)]) s)"

primrec parse_tags :: "nat \<Rightarrow> mem \<Rightarrow> addr \<Rightarrow> 'a machine_scheme \<Rightarrow> 'a machine_scheme res" where
  "parse_tags 0 m tag s = NoFuel"
| "parse_tags (Suc fuel) m tag s =
     (if tag_type m tag = MULTIBOOT_TAG_TYPE_END then Done s
      else let s = io_wait_n 0x100000 s in
        if tag_type m tag = MULTIBOOT_TAG_TYPE_MMAP
        then res_bind (parse_mmap fuel m tag s) (\<lambda>s.
               parse_tags fuel m (tag_step m tag) (say (PRINTK '''' []) s))
        else if tag_type m tag = MULTIBOOT_TAG_TYPE_ELF_SECTIONS
        then parse_tags fuel m (tag_step m tag) (say (PRINTK '''' []) (parse_ELF m tag s))
        else parse_tags fuel m (tag_step m tag) s)"

definition parse_multiboot2 ::
    "nat \<Rightarrow> mem \<Rightarrow> u64 \<Rightarrow> u64 \<Rightarrow> 'a machine_scheme \<Rightarrow> (int \<times> 'a machine_scheme) res" where
  "parse_multiboot2 fuel m magic addr s =
     (let magic = magic AND 0xFFFFFFFF; addr = addr AND 0xFFFFFFFF in
      if magic \<noteq> MULTIBOOT2_BOOTLOADER_MAGIC then Done (1, say (PRINTK ''Invalid magic number: %lX'' [magic]) s)
      else if addr = 0 then Done (1, say (PRINTK ''Invalid mbi: %lX'' [addr]) s)
      else if addr AND 7 \<noteq> 0 then Done (1, say (PRINTK ''Unaligned mbi: %lX'' [addr]) s)
      else res_bind (parse_tags fuel m (addr + 8)
             (say (PRINTK ''Multiboot2 Header: magic 0x%lX addr 0x%lX'' [magic, addr]) s)) (\<lambda>s.
           Done (0, say (PRINTK ''Done!'' []) s)))"

section \<open>Well-formed boot information\<close>

text \<open>The tags laid out from address \<open>a\<close> on, types and sizes, ended by the end tag.\<close>

fun tags_at :: "mem \<Rightarrow> addr \<Rightarrow> (u32 \<times> u32) list \<Rightarrow> bool" where
  "tags_at m a [] \<longleftrightarrow> tag_type m a = 0"
| "tags_at m a ((ty, sz) # ts) \<longleftrightarrow>
     tag_type m a = ty \<and> ty \<noteq> 0 \<and> tag_size m a = sz \<and> tags_at m (tag_step m a) ts"

text \<open>Where the tag of position \<open>i\<close> starts.\<close>

primrec tag_addr :: "mem \<Rightarrow> addr \<Rightarrow> nat \<Rightarrow> addr" where
  "tag_addr m a 0 = a"
| "tag_addr m a (Suc i) = tag_addr m (tag_step m a) i"

lemma find_loop_found:
  "tags_at m a ts \<Longrightarrow> i < length ts \<Longrightarrow> fst (ts ! i) = ty \<Longrightarrow> \<forall>j < i. fst (ts ! j) \<noteq> ty \<Longrightarrow> i < fuel
   \<Longrightarrow> find_loop fuel m ty a = Done (tag_addr m a i, tag_addr m a i)
       \<and> tag_type m (tag_addr m a i) = ty \<and> tag_size m (tag_addr m a i) = snd (ts ! i)"
proof (induction i arbitrary: a ts fuel)
  case 0
  then show ?case by (cases ts; cases fuel) (auto simp: MULTIBOOT_TAG_TYPE_END_def)
next
  case (Suc i)
  obtain t ts' where ts: "ts = t # ts'" using Suc.prems(2) by (cases ts) auto
  obtain f where f: "fuel = Suc f" using Suc.prems(5) by (cases fuel) auto
  have ne: "fst t \<noteq> ty" using Suc.prems(4) ts by (metis nth_Cons_0 zero_less_Suc)
  have pre: "tags_at m (tag_step m a) ts'" "i < length ts'" "fst (ts' ! i) = ty" "i < f"
    using Suc.prems(1,2,3,5) ts f by (cases t, auto)+
  have "\<forall>j < i. fst (ts' ! j) \<noteq> ty" using Suc.prems(4) ts by (metis Suc_mono nth_Cons_Suc)
  then show ?case
    using Suc.IH [OF pre(1-3) _ pre(4)] ne Suc.prems(1)
    by (cases t) (simp add: ts f MULTIBOOT_TAG_TYPE_END_def)
qed

lemma find_loop_missing:
  "tags_at m a ts \<Longrightarrow> ty \<notin> fst ` set ts \<Longrightarrow> length ts < fuel
   \<Longrightarrow> \<exists>t. find_loop fuel m ty a = Done (NULL, t) \<and> tag_type m t = 0"
proof (induction ts arbitrary: a fuel)
  case Nil
  then show ?case by (cases fuel) (auto simp: MULTIBOOT_TAG_TYPE_END_def)
next
  case (Cons t ts)
  then obtain f where "fuel = Suc f" by (cases fuel) auto
  then show ?case
    using Cons by (cases t) (auto simp: MULTIBOOT_TAG_TYPE_END_def)
qed

lemma find_loop_stuck:
  assumes "tag_type m a \<noteq> 0" "tag_type m a \<noteq> ty" "tag_step m a = a"
  shows "find_loop fuel m ty a = NoFuel"
  by (induction fuel) (simp_all add: assms MULTIBOOT_TAG_TYPE_END_def)

end
