(* ===== verification/Irq.thy ===== *)
theory Irq imports PortIO begin

text \<open>
  src/ISR/pic.c and src/ISR/irq_handler.c: the two cascaded 8259 interrupt controllers, the
  table of interrupt handlers, the kernel's record of the interrupt state, and the dispatch
  of an interrupt; and src/drivers/timer\_driver.c, which only uses these.
\<close>

section \<open>State\<close>

datatype IRQ_status_t = DISABLED | ENABLED

text \<open>The handlers the kernel installs, by name; \<open>None\<close> is the null function pointer.\<close>

datatype irq_handler_t = timer_isr_fn | serial_tx_irq_handler_fn | ps2_keyboard_irq_handler_fn
  | page_fault_irq_fn | other_handler nat

record irq_handler_entry_t =
  handler :: "irq_handler_t option"
  handler_arg :: u64

record irq_state = machine +
  irq_handler_table :: "irq_handler_entry_t list"
  IRQ_status_prev :: IRQ_status_t
  IRQ_status_curr :: IRQ_status_t

definition PIC1_OFFSET :: nat where "PIC1_OFFSET = 0x20"
definition PIC2_OFFSET :: nat where "PIC2_OFFSET = PIC1_OFFSET + 8"
definition PIC1_MIN_IRQ :: nat where "PIC1_MIN_IRQ = PIC1_OFFSET"
definition PIC1_MAX_IRQ :: nat where "PIC1_MAX_IRQ = PIC1_OFFSET + 7"
definition PIC2_MIN_IRQ :: nat where "PIC2_MIN_IRQ = PIC2_OFFSET"
definition PIC2_MAX_IRQ :: nat where "PIC2_MAX_IRQ = PIC2_OFFSET + 7"
definition IDT_MAX_IRQ :: nat where "IDT_MAX_IRQ = PIC2_MAX_IRQ + 1"

lemmas irq_numbers = PIC1_OFFSET_def PIC2_OFFSET_def PIC1_MIN_IRQ_def PIC1_MAX_IRQ_def
  PIC2_MIN_IRQ_def PIC2_MAX_IRQ_def IDT_MAX_IRQ_def

definition PIC1_COMMAND :: u16 where "PIC1_COMMAND = 0x20"
definition PIC1_DATA :: u16 where "PIC1_DATA = 0x21"
definition PIC2_COMMAND :: u16 where "PIC2_COMMAND = 0xA0"
definition PIC2_DATA :: u16 where "PIC2_DATA = 0xA1"

lemmas pic_ports = PIC1_COMMAND_def PIC1_DATA_def PIC2_COMMAND_def PIC2_DATA_def

definition IS_PIC_IRQ :: "nat \<Rightarrow> bool" where
  "IS_PIC_IRQ irq \<longleftrightarrow> PIC1_MIN_IRQ \<le> irq \<and> irq \<le> PIC2_MAX_IRQ"

definition IS_EXCEPTION :: "nat \<Rightarrow> bool" where
  "IS_EXCEPTION irq \<longleftrightarrow> irq = 0x06 \<or> irq = 0x08 \<or> irq = 0x0A \<or> irq = 0x0B \<or> irq = 0x0C
     \<or> irq = 0x0D \<or> irq = 0x0E \<or> irq = 0x11 \<or> irq = 0x1E"

definition IS_VALID_IRQ :: "nat \<Rightarrow> bool" where
  "IS_VALID_IRQ irq \<longleftrightarrow> IS_PIC_IRQ irq \<and> \<not> IS_EXCEPTION irq"

section \<open>The interrupt controllers\<close>

definition PIC_remap :: "device \<Rightarrow> nat \<Rightarrow> nat \<Rightarrow> 'a machine_scheme \<Rightarrow> 'a machine_scheme" where
  "PIC_remap dev offset1 offset2 s =
     (let (a1, s) = inb dev PIC1_DATA s;
          (a2, s) = inb dev PIC2_DATA s;
          s = io_wait (outb PIC1_COMMAND (0x10 OR 0x01) s);
          s = io_wait (outb PIC2_COMMAND (0x10 OR 0x01) s);
          s = io_wait (outb PIC1_DATA (of_nat offset1) s);
          s = io_wait (outb PIC2_DATA (of_nat offset2) s);
          s = io_wait (outb PIC1_DATA 0x04 s);
          s = io_wait (outb PIC2_DATA 0x02 s);
          s = io_wait (outb PIC1_DATA 0x01 s);
          s = io_wait (outb PIC2_DATA 0x01 s);
          s = outb PIC1_DATA a1 s
      in outb PIC2_DATA a2 s)"

text \<open>The port and the bit number the three mask functions compute from an IRQ number: the
  number has had the offset subtracted when it is compared with \<open>PIC1_MIN_IRQ\<close>.\<close>

definition pic_port_and_line :: "nat \<Rightarrow> u16 \<times> nat" where
  "pic_port_and_line irq =
     (let irq = irq - PIC1_OFFSET
      in if irq < PIC1_MIN_IRQ then (PIC1_DATA, irq) else (PIC2_DATA, irq - 8))"

text \<open>\<open>1 << irq\<close> is an \<open>int\<close>; the mask is stored back into a \<open>uint8_t\<close>.\<close>

definition PIC_set_mask :: "device \<Rightarrow> nat \<Rightarrow> 'a machine_scheme \<Rightarrow> int \<times> 'a machine_scheme" where
  "PIC_set_mask dev irq s =
     (if \<not> IS_PIC_IRQ irq
      then (-1, say (OS_ERROR ''Invalid IRQ: %d, out of PIC range!'' [of_nat irq]) s)
      else let (pic_data_port, line) = pic_port_and_line irq;
               (v, s) = inb dev pic_data_port s;
               mask = ucast (ucast v OR push_bit line (1 :: u32)) :: u8
           in (0, outb pic_data_port mask s))"

definition PIC_clear_mask :: "device \<Rightarrow> nat \<Rightarrow> 'a machine_scheme \<Rightarrow> int \<times> 'a machine_scheme" where
  "PIC_clear_mask dev irq s =
     (if \<not> IS_PIC_IRQ irq
      then (-1, say (OS_ERROR ''Invalid IRQ: %d, out of PIC range!'' [of_nat irq]) s)
      else let (pic_data_port, line) = pic_port_and_line irq;
               (v, s) = inb dev pic_data_port s;
               mask = ucast (ucast v AND NOT (push_bit line (1 :: u32))) :: u8
           in (0, outb pic_data_port mask s))"

definition PIC_get_mask :: "device \<Rightarrow> nat \<Rightarrow> 'a machine_scheme \<Rightarrow> int \<times> 'a machine_scheme" where
  "PIC_get_mask dev irq s =
     (if \<not> IS_PIC_IRQ irq
      then (-1, say (OS_ERROR ''Invalid IRQ: %d, out of PIC range!'' [of_nat irq]) s)
      else let (pic_data_port, line) = pic_port_and_line irq;
               (v, s) = inb dev pic_data_port s;
               mask = ucast (ucast v AND push_bit line (1 :: u32)) :: u8
           in (if mask > 0 then 1 else 0, s))"

text \<open>\<open>for (i = PIC1_MIN_IRQ; i < PIC2_MAX_IRQ; i++) PIC_set_mask(i)\<close>.\<close>

definition PIC_init :: "device \<Rightarrow> 'a machine_scheme \<Rightarrow> 'a machine_scheme" where
  "PIC_init dev s =
     fold (\<lambda>i s. snd (PIC_set_mask dev i s)) [PIC1_MIN_IRQ..<PIC2_MAX_IRQ]
       (PIC_remap dev PIC1_OFFSET PIC2_OFFSET s)"

definition PIC_disable :: "'a machine_scheme \<Rightarrow> 'a machine_scheme" where
  "PIC_disable s = outb PIC2_DATA 0xFF (outb PIC1_DATA 0xFF s)"

definition PIC_send_EOI :: "nat \<Rightarrow> 'a machine_scheme \<Rightarrow> 'a machine_scheme" where
  "PIC_send_EOI irq s =
     (if irq < PIC1_MIN_IRQ \<or> irq > PIC2_MAX_IRQ
      then say (OS_ERROR ''Cannot send EOI for IRQ %d'' [of_nat irq]) s
      else let s = (if irq > PIC1_MAX_IRQ then outb PIC2_COMMAND 0x20 s else s)
           in outb PIC1_COMMAND 0x20 s)"

section \<open>The interrupt state\<close>

text \<open>The instructions are the source's: \<open>IRQ_enable\<close> executes \<open>cli\<close>, which clears the
  interrupt flag, and \<open>IRQ_disable\<close> executes \<open>sti\<close>, which sets it.\<close>

definition asm_cli :: "'a machine_scheme \<Rightarrow> 'a machine_scheme" where
  "asm_cli s = s\<lparr>if_flag := False\<rparr>"
definition asm_sti :: "'a machine_scheme \<Rightarrow> 'a machine_scheme" where
  "asm_sti s = s\<lparr>if_flag := True\<rparr>"

definition IRQ_enable :: "'a irq_state_scheme \<Rightarrow> 'a irq_state_scheme" where
  "IRQ_enable s = asm_cli (s\<lparr>IRQ_status_prev := IRQ_status_curr s, IRQ_status_curr := ENABLED\<rparr>)"

definition IRQ_disable :: "'a irq_state_scheme \<Rightarrow> 'a irq_state_scheme" where
  "IRQ_disable s =
     (let s = (if IRQ_status_curr s = ENABLED then asm_sti s else s)
      in s\<lparr>IRQ_status_prev := IRQ_status_curr s, IRQ_status_curr := DISABLED\<rparr>)"

definition IRQ_reenable :: "'a irq_state_scheme \<Rightarrow> 'a irq_state_scheme" where
  "IRQ_reenable s =
     (if IRQ_status_prev s = ENABLED \<and> IRQ_status_curr s = DISABLED then IRQ_enable s else s)"

definition IRQs_are_enabled :: "'a irq_state_scheme \<Rightarrow> int" where
  "IRQs_are_enabled s = (case IRQ_status_curr s of DISABLED \<Rightarrow> 0 | ENABLED \<Rightarrow> 1)"

section \<open>Handlers\<close>

definition set_table :: "nat \<Rightarrow> irq_handler_t option \<Rightarrow> u64 \<Rightarrow> 'a irq_state_scheme \<Rightarrow> 'a irq_state_scheme" where
  "set_table irq h arg s = s\<lparr>irq_handler_table :=
     (irq_handler_table s)[irq := \<lparr>handler = h, handler_arg = arg\<rparr>]\<rparr>"

definition IRQ_set_handler ::
    "nat \<Rightarrow> irq_handler_t option \<Rightarrow> u64 \<Rightarrow> 'a irq_state_scheme \<Rightarrow> int \<times> 'a irq_state_scheme" where
  "IRQ_set_handler irq h arg s =
     (if \<not> IS_VALID_IRQ irq then (-1, say (OS_ERROR ''Invalid IRQ: %d'' [of_nat irq]) s)
      else (0, set_table irq h arg s))"

definition IRQ_set_exception_handler ::
    "nat \<Rightarrow> irq_handler_t option \<Rightarrow> u64 \<Rightarrow> 'a irq_state_scheme \<Rightarrow> int \<times> 'a irq_state_scheme" where
  "IRQ_set_exception_handler irq h arg s =
     (if \<not> IS_EXCEPTION irq then (-1, say (OS_ERROR ''Invalid exception: %d'' [of_nat irq]) s)
      else (0, set_table irq h arg s))"

text \<open>The \<open>switch\<close> of \<open>print_irq\<close>, by its case labels.\<close>

definition irq_descriptions :: "(nat \<times> string) list" where
  "irq_descriptions = [
     (0, ''Divide by zero error''),
     (1, ''Debug exception''),
     (2, ''Non-maskable interrupt''),
     (3, ''Breakpoint exception''),
     (4, ''Overflow exception''),
     (5, ''Bound range exceeded exception''),
     (6, ''Invalid opcode exception''),
     (7, ''Device not available exception''),
     (8, ''Double fault exception''),
     (9, ''Coprocessor segment overrun exception''),
     (10, ''Invalid TSS exception''),
     (11, ''Segment not present exception''),
     (12, ''Stack segment exception''),
     (13, ''General protection exception''),
     (14, ''Page fault exception''),
     (16, ''x87 floating-point exception''),
     (17, ''Alignment check exception''),
     (18, ''Machine check exception''),
     (19, ''SIMD floating point exception''),
     (20, ''Virtualization exception''),
     (21, ''Control protection exception''),
     (30, ''Security exception'')]"

definition print_irq :: "nat \<Rightarrow> 'a machine_scheme \<Rightarrow> 'a machine_scheme" where
  "print_irq irq s =
     (let s = (if IS_EXCEPTION irq then say (PRINTK ''  Exception 0x%X: '' [of_nat irq]) s
               else say (PRINTK ''  IRQ 0x%X: '' [of_nat irq]) s)
      in say (PRINTK (case map_of irq_descriptions irq of
                Some d \<Rightarrow> d | None \<Rightarrow> ''We should absolutely never be here!?'') []) s)"

text \<open>\<open>exception_handler\<close> prints its report and halts; the report is the state just before.\<close>

definition exception_report :: "nat \<Rightarrow> u32 \<Rightarrow> 'a machine_scheme \<Rightarrow> 'a machine_scheme" where
  "exception_report irq error s =
     (let s = print_irq irq s;
          s = (if error \<noteq> 0 then
                 let s = say (PRINTK ''Selector Error Code: 0x%X'' [ucast error]) s;
                     s = say (PRINTK ''External: %d'' [ucast (error AND 0x1)]) s;
                     s = say (PRINTK ''Table: '' []) s;
                     sel = drop_bit 1 error AND 0x3;
                     s = say (PRINTK (if sel = 0 then ''GDT'' else if sel = 1 \<or> sel = 3 then ''IDT''
                           else if sel = 2 then ''LDT'' else ''Unknown??'') []) s
                 in say (PRINTK ''Index: 0x%X'' [ucast (drop_bit 3 error AND 0x1FFF)]) s
               else s)
      in say (PRINTK ''  Halting... '' []) s)"

definition exception_handler :: "nat \<Rightarrow> u32 \<Rightarrow> 'a machine_scheme \<Rightarrow> 'b res" where
  "exception_handler irq error s = (let s = exception_report irq error s in Halt ''HLT'')"

text \<open>The dispatcher. \<open>run h irq error arg\<close> is the call through the function pointer; vectors
  are those of the IDT, below \<open>IDT_MAX_IRQ\<close>, the size of the handler table.\<close>

definition interrupt_handler ::
    "(irq_handler_t \<Rightarrow> nat \<Rightarrow> u32 \<Rightarrow> u64 \<Rightarrow> 'a irq_state_scheme \<Rightarrow> 'a irq_state_scheme res)
     \<Rightarrow> nat \<Rightarrow> u32 \<Rightarrow> 'a irq_state_scheme \<Rightarrow> 'a irq_state_scheme res" where
  "interrupt_handler run irq error s =
     (case handler (irq_handler_table s ! irq) of
        Some h \<Rightarrow>
          res_bind (run h irq error (handler_arg (irq_handler_table s ! irq)) s) (\<lambda>s.
            Done (if IS_PIC_IRQ irq then PIC_send_EOI irq s else s))
      | None \<Rightarrow>
          if IS_EXCEPTION irq
          then exception_handler irq error (say (OS_ERROR ''Exception Occured: '' []) s)
          else Done (print_irq irq (say (OS_ERROR ''Unhandled interrupt: '' []) s)))"

section \<open>The timer\<close>

record timer_state = irq_state +
  timer_enabled :: bool

definition timer_isr :: "'a timer_state_scheme \<Rightarrow> 'a timer_state_scheme" where
  "timer_isr s =
     (let s = (if \<not> timer_enabled s
               then say (OS_ERROR ''Timer interrupt called but not enabled!'' []) s else s)
      in PIC_send_EOI 32 s)"

definition timer_init :: "device \<Rightarrow> bool \<Rightarrow> 'a timer_state_scheme \<Rightarrow> 'a timer_state_scheme" where
  "timer_init dev enable s =
     (let s = snd (IRQ_set_handler 32 (Some timer_isr_fn) 0 s)
      in if enable then (snd (PIC_clear_mask dev 32 s))\<lparr>timer_enabled := True\<rparr>
         else (snd (PIC_set_mask dev 32 s))\<lparr>timer_enabled := False\<rparr>)"

end
