(* ===== verification/MmuInit.thy ===== *)
theory MmuInit imports VirtMem Multiboot Irq begin

text \<open>
  Initialisation of the memory manager (src/drivers/mmu\_driver.c): \<open>addr_map_init\<close> turns the
  boot loader's memory map into the list of physical ranges the frame allocator works on,
  \<open>MMU_init\<close> builds the first page tables and maps the first 2 MiB to themselves.
\<close>

section \<open>The physical ranges\<close>

definition PAGE_ALIGN_ADDR :: "addr \<Rightarrow> addr" where "PAGE_ALIGN_ADDR a = ALIGN a PAGE_SIZE"

definition new_range :: "addr \<Rightarrow> addr \<Rightarrow> pf_range_entry_t" where
  "new_range s e = \<lparr>start = s, curr_frame = s, end_addr = e\<rparr>"

text \<open>The entries one available memory-map entry adds: two where the kernel lies inside it and
  does not start it. \<open>ks\<close> and \<open>ke\<close> are the linker's symbols \<open>kernel_start\<close> and \<open>kernel_end\<close>.\<close>

definition ranges_of_entry :: "addr \<Rightarrow> addr \<Rightarrow> mb_mmap_entry_t \<Rightarrow> pf_range_entry_t list" where
  "ranges_of_entry ks ke e =
     (let mmap_start = mmap_addr e; mmap_end = mmap_addr e + mmap_len e in
      if mmap_start \<le> ks \<and> ke \<le> mmap_end
      then (if ks \<noteq> mmap_start then [new_range mmap_start ks] else [])
           @ [new_range (PAGE_ALIGN_ADDR ke) mmap_end]
      else [new_range mmap_start mmap_end])"

text \<open>The loop over the memory map: the ranges so far, in list order, and the local heap pointer,
  which moves by the 32 bytes of a node; it is checked once per entry.\<close>

primrec addr_map_loop ::
    "addr \<Rightarrow> addr \<Rightarrow> mb_mmap_entry_t list \<Rightarrow> pf_range_entry_t list \<Rightarrow> addr
     \<Rightarrow> (pf_range_entry_t list \<times> addr) res" where
  "addr_map_loop ks ke [] rs lhp = Done (rs, lhp)"
| "addr_map_loop ks ke (e # es) rs lhp =
     (if mmap_type e \<noteq> MULTIBOOT_MEMORY_AVAILABLE then addr_map_loop ks ke es rs lhp
      else if lhp = NULL \<or> lhp > 0x2000 then Halt ''Heap pointer is NULL!? :(''
      else let new = ranges_of_entry ks ke e
           in addr_map_loop ks ke es (rs @ new) (lhp + 32 * of_nat (length new)))"

text \<open>The first node gets page 2 as its first frame; where no entry was available it is a node
  of the cleared local heap page, all zero.\<close>

definition start_at_page_2 :: "pf_range_entry_t list \<Rightarrow> pf_range_entry_t list" where
  "start_at_page_2 rs = (case rs of
      [] \<Rightarrow> [\<lparr>start = NULL, curr_frame = 0x2000, end_addr = NULL\<rparr>]
    | r # rs \<Rightarrow> r\<lparr>curr_frame := 0x2000\<rparr> # rs)"

definition addr_map_init ::
    "nat \<Rightarrow> mem \<Rightarrow> addr \<Rightarrow> addr \<Rightarrow> addr \<Rightarrow> mmu \<Rightarrow> 'a machine_scheme \<Rightarrow> (mmu \<times> 'a machine_scheme) res" where
  "addr_map_init fuel m ks ke tag_ptr s mach =
     (if tag_ptr = NULL then Halt ''Invalid multiboot2 tag pointer''
      else res_bind (get_multiboot2_mmap_info fuel m tag_ptr mach) (\<lambda>((entries, num), mach).
        if num = 0 then Halt ''No memory map entries found???''
        else if ks \<ge> ke then Halt ''Kernel start address (%p) is greater than or equal to the kernel end address (%p)!''
        else if ks \<noteq> 0x100000 then Halt ''Kernel start address (%p) is not 0x100000''
        else if mmap_addr (mmap_entry m entries 0) \<noteq> 0 then Halt ''First MMAP entries start at %p, not 0x0!''
        else
          let s = s\<lparr>pmem := memset_page (pmem s) (local_heap_ptr s)\<rparr> in
          res_bind (addr_map_loop ks ke (map (mmap_entry m entries) [0..<unat num]) [] (local_heap_ptr s))
            (\<lambda>(rs, lhp). Done (s\<lparr>addr_ranges := start_at_page_2 rs, addr_range_curr := 0,
                                 local_heap_ptr := lhp\<rparr>, mach))))"

section \<open>The first page tables\<close>

primrec identity_map :: "nat \<Rightarrow> addr \<Rightarrow> mmu \<Rightarrow> mmu res" where
  "identity_map 0 i s = Done s"
| "identity_map (Suc n) i s = res_bind (map_page i i s) (\<lambda>s. identity_map n (i + PAGE_SIZE) s)"

primrec identity_check :: "nat \<Rightarrow> addr \<Rightarrow> mmu \<Rightarrow> mmu res" where
  "identity_check 0 i s = Done s"
| "identity_check (Suc n) i s = res_bind (virt_to_phys i s) (\<lambda>(temp, s).
     if i \<noteq> temp then Halt ''Pointer mismatch'' else identity_check n (i + PAGE_SIZE) s)"

text \<open>The two loops run over 0, 0x1000, ..., 0x200000 (513 pages, \<open>i <= temp\<close>) and over
  0x1000, ..., 0x1FF000 (511 pages).\<close>

definition setup_tables :: "mmu \<Rightarrow> mmu res" where
  "setup_tables s =
     res_bind (MMU_pf_alloc s) (\<lambda>(p, s).
     let s = s\<lparr>pml4 := p, pmem := memset_page (pmem s) p\<rparr> in
     res_bind (identity_map 513 0 s) (\<lambda>s.
     identity_check 511 PAGE_SIZE s))"

definition MMU_init ::
    "nat \<Rightarrow> mem \<Rightarrow> addr \<Rightarrow> addr \<Rightarrow> addr \<Rightarrow> mmu \<Rightarrow> 'a irq_state_scheme \<Rightarrow> (mmu \<times> 'a irq_state_scheme) res" where
  "MMU_init fuel m ks ke tag_ptr s irqs =
     res_bind (addr_map_init fuel m ks ke tag_ptr s irqs) (\<lambda>(s, irqs).
     res_bind (setup_tables s) (\<lambda>s.
     let (r, irqs) = IRQ_set_exception_handler 0x0E (Some page_fault_irq_fn) 0 irqs in
     if r \<noteq> 0 then Halt ''Failed to set the page fault IRQ handler''
     else Done (s, irqs)))"

section \<open>The tables after the set-up\<close>

text \<open>A cleared root table is an empty page table.\<close>

lemma tbl_cleared:
  assumes "good_frame root" and "tpath p"
  shows "tbl (memset_page m root) root p = Some t \<longleftrightarrow> p = [] \<and> t = root"
  using assms(2)
proof (induction p arbitrary: t)
  case (Cons i p)
  have "i < 512" "tpath p" using Cons.prems by (auto simp: tpath_Cons)
  moreover have "memset_page m root (root + 8 * i) = 0" if "i < 512"
    using assms(1) that by (simp add: memset_page_entry)
  ultimately show ?case using Cons.IH by (auto split: option.splits)
qed auto

lemma fresh_root_inv:
  assumes held: "frames_held s xs" and root: "good_frame root" "root \<notin> set xs"
  shows "mmu_inv (s\<lparr>pml4 := root, pmem := memset_page (pmem s) root\<rparr>) xs"
    and "leaf (s\<lparr>pml4 := root, pmem := memset_page (pmem s) root\<rparr>) w = 0"
proof -
  let ?s = "s\<lparr>pml4 := root, pmem := memset_page (pmem s) root\<rparr>"
  have keep: "memset_page (pmem s) root x = pmem s x" if "x \<in> set xs" for x
    using memset_page_entry [of x root 0 "pmem s"] root that pf.holds_good [OF held that] by auto
  have "frames_held (s\<lparr>pmem := memset_page (pmem s) root\<rparr>) xs"
    by (rule frames_held_write [OF held keep])
  then have "frames_held ?s xs" by (rule frames_held_cong [THEN iffD2, rotated -1]) simp_all
  then show "mmu_inv ?s xs"
    using root tbl_cleared [OF root(1)] by (auto simp: mmu_inv_def tables_ok_def)
  have "tbl (memset_page (pmem s) root) root (pt_path w) = None"
    using tbl_cleared [OF root(1) tpath_pt_path(1), of "pmem s" w] tpath_pt_path(2) [of w]
    by (cases "tbl (memset_page (pmem s) root) root (pt_path w)") (auto simp: pt_path_def)
  then show "leaf ?s w = 0" by (simp add: leaf_def)
qed

text \<open>The indices of an address as numbers, and pages of the first gigabyte told apart.\<close>

lemma unat_and_1FF: "unat (x AND 0x1FF :: u64) = unat x mod 512"
proof -
  have "x AND 0x1FF = take_bit 9 x" by (simp add: take_bit_eq_mask mask_eq_exp_minus_1)
  then have "unat (x AND 0x1FF) = take_bit 9 (unat x)" by (simp add: unsigned_take_bit_eq)
  then show ?thesis by (simp add: take_bit_eq_mod)
qed

lemma unat_index: "unat (drop_bit n x AND 0x1FF :: u64) = unat x div 2 ^ n mod 512"
proof -
  have "unat (drop_bit n x) = drop_bit n (unat x)"
    unfolding unsigned_drop_bit_eq by (rule arg_cong [where f = "drop_bit n"])
      (simp add: take_bit_nat_eq_self)
  then show ?thesis unfolding unat_and_1FF by (simp only: drop_bit_eq_div)
qed

lemma same_page_number:
  assumes "j < 1024" "k < 1024"
  shows "same_page (4096 * of_nat j) (4096 * of_nat k) \<longleftrightarrow> j = k"
proof
  assume sp: "same_page (4096 * of_nat j) (4096 * of_nat k)"
  have u: "unat (4096 * of_nat n :: u64) = 4096 * n" if "n < 1024" for n
    using that by (simp add: unat_word_ariths unat_of_nat_u64)
  have "unat (GET_PAGE_TBL_INDEX (4096 * of_nat j)) = unat (GET_PAGE_TBL_INDEX (4096 * of_nat k))"
    and "unat (GET_PAGE_DIR_INDEX (4096 * of_nat j)) = unat (GET_PAGE_DIR_INDEX (4096 * of_nat k))"
    using sp by (simp_all add: same_page_def pt_path_def)
  then have m: "j mod 512 = k mod 512" and d: "4096 * j div 2097152 mod 512 = 4096 * k div 2097152 mod 512"
    using assms by (simp_all add: index_defs unat_index u)
  have e: "4096 * n div 2097152 = n div 512" for n :: nat
    using div_mult_mult1 [of 4096 n 512] by simp
  have "j div 512 = k div 512"
    using d assms unfolding e by simp
  with m show "j = k" by (metis div_mult_mod_eq)
qed simp

lemma identity_map_ok:
  "mmu_inv s xs \<Longrightarrow> 3 * n < length xs \<Longrightarrow> k + n \<le> 1024 \<Longrightarrow>
   \<forall>j. k \<le> j \<longrightarrow> j < k + n \<longrightarrow> \<not> pte_present (leaf s (4096 * of_nat j)) \<Longrightarrow>
   \<exists>s' c. identity_map n (4096 * of_nat k) s = Done s' \<and> c \<le> 3 * n \<and> mmu_inv s' (drop c xs)
     \<and> (\<forall>j. k \<le> j \<longrightarrow> j < k + n \<longrightarrow> leaf s' (4096 * of_nat j) = mapped_entry (4096 * of_nat j))
     \<and> (\<forall>w. (\<forall>j. k \<le> j \<longrightarrow> j < k + n \<longrightarrow> \<not> same_page w (4096 * of_nat j)) \<longrightarrow> leaf s' w = leaf s w)
     \<and> virt_addr_bank s' = virt_addr_bank s"
proof (induction n arbitrary: s xs k)
  case 0
  then show ?case by (intro exI [of _ s] exI [of _ 0]) simp
next
  case (Suc n)
  let ?i = "4096 * of_nat k :: addr"
  have u: "unat ?i = 4096 * k" using Suc.prems(3) by (simp add: unat_word_ariths unat_of_nat_u64)
  then have al: "page_aligned ?i" by (simp add: page_aligned_dvd)
  have np: "\<not> pte_present (leaf s ?i)" using Suc.prems(4) by simp
  obtain s1 c1 where m: "map_page ?i ?i s = Done s1" "c1 \<le> 3" "mmu_inv s1 (drop c1 xs)"
    and l1: "\<forall>w. leaf s1 w = (if same_page w ?i then mapped_entry ?i else leaf s w)"
    and b1: "virt_addr_bank s1 = virt_addr_bank s"
    using map_page_ok [OF Suc.prems(1) _ al al np] Suc.prems(2) by auto
  have ne: "\<not> same_page (4096 * of_nat j) ?i" if "Suc k \<le> j" "j < Suc k + n" for j
    using same_page_number [of j k] that Suc.prems(3) by simp
  have "3 * n < length (drop c1 xs)" using Suc.prems(2) m(2) by simp
  moreover have "\<forall>j. Suc k \<le> j \<longrightarrow> j < Suc k + n \<longrightarrow> \<not> pte_present (leaf s1 (4096 * of_nat j))"
    using Suc.prems(4) l1 ne by simp
  moreover have "Suc k + n \<le> 1024" using Suc.prems(3) by simp
  ultimately obtain s2 c2 where r: "identity_map n (4096 * of_nat (Suc k)) s1 = Done s2" "c2 \<le> 3 * n"
      "mmu_inv s2 (drop c2 (drop c1 xs))"
    and l2: "\<forall>j. Suc k \<le> j \<longrightarrow> j < Suc k + n \<longrightarrow> leaf s2 (4096 * of_nat j) = mapped_entry (4096 * of_nat j)"
    and o2: "\<forall>w. (\<forall>j. Suc k \<le> j \<longrightarrow> j < Suc k + n \<longrightarrow> \<not> same_page w (4096 * of_nat j)) \<longrightarrow> leaf s2 w = leaf s1 w"
    and b2: "virt_addr_bank s2 = virt_addr_bank s1"
    using Suc.IH [OF m(3)] by blast
  have sym: "\<not> same_page ?i (4096 * of_nat j)" if "Suc k \<le> j" "j < Suc k + n" for j
    using ne [OF that] unfolding same_page_def by metis
  have "leaf s2 ?i = mapped_entry ?i" using o2 sym l1 by simp
  then have "\<forall>j. k \<le> j \<longrightarrow> j < k + Suc n \<longrightarrow> leaf s2 (4096 * of_nat j) = mapped_entry (4096 * of_nat j)"
    using l2 by (metis Suc_leI add_Suc_right add_Suc le_neq_implies_less)
  moreover have "\<forall>w. (\<forall>j. k \<le> j \<longrightarrow> j < k + Suc n \<longrightarrow> \<not> same_page w (4096 * of_nat j)) \<longrightarrow> leaf s2 w = leaf s w"
    using o2 l1 by auto
  moreover have "identity_map (Suc n) ?i s = Done s2"
    using m(1) r(1) by (simp add: PAGE_SIZE_def algebra_simps)
  ultimately show ?case
    using r(2,3) m(2) b1 b2 by (intro exI [of _ s2] exI [of _ "c2 + c1"]) simp
qed

text \<open>The check finds every page present: it changes nothing and takes no frame.\<close>

lemma virt_to_phys_present:
  assumes inv: "mmu_inv s xs" and al: "page_aligned va" and pres: "pte_present (leaf s va)"
  shows "virt_to_phys va s = Done (READ_FRAME_ADDR (leaf s va) + GET_PHYS_PAGE_INDEX va, s)"
proof -
  obtain t where t: "tbl (pmem s) (pml4 s) (pt_path va) = Some t"
    using pres by (cases "tbl (pmem s) (pml4 s) (pt_path va)") (auto simp: leaf_def)
  show ?thesis
    using get_pt_entry_present [OF t al] leaf_write(3) [OF inv t] pres by (simp add: virt_to_phys_def)
qed

lemma identity_check_ok:
  assumes inv: "mmu_inv s xs"
  shows "k + n \<le> 1024 \<Longrightarrow>
   \<forall>j. k \<le> j \<longrightarrow> j < k + n \<longrightarrow> leaf s (4096 * of_nat j) = mapped_entry (4096 * of_nat j) \<Longrightarrow>
   identity_check n (4096 * of_nat k) s = Done s"
proof (induction n arbitrary: k)
  case (Suc n)
  let ?i = "4096 * of_nat k :: addr"
  have u: "unat ?i = 4096 * k" using Suc.prems(1) by (simp add: unat_word_ariths unat_of_nat_u64)
  have al: "page_aligned ?i" using u by (simp add: page_aligned_dvd)
  have le: "?i \<le> PHYS_END" using u Suc.prems(1) by (simp add: word_le_nat_alt unat_PHYS_END)
  have off: "GET_PHYS_PAGE_INDEX ?i = 0"
    using take_bit_eq_mask [of 12 ?i] al
    by (simp add: GET_PHYS_PAGE_INDEX_def page_aligned_def take_bit_eq_mod mask_eq_exp_minus_1)
  have "leaf s ?i = mapped_entry ?i" using Suc.prems(2) by simp
  then have "virt_to_phys ?i s = Done (?i, s)"
    using virt_to_phys_present [OF inv al] al le off by simp
  moreover have "identity_check n (4096 * of_nat (Suc k)) s = Done s"
    using Suc.IH [of "Suc k"] Suc.prems by simp
  ultimately show ?case by (simp add: PAGE_SIZE_def algebra_simps)
qed simp

lemma setup_tables_ok:
  assumes held: "frames_held s (x # xs)" and len: "1540 \<le> length xs"
  shows "\<exists>s' c. setup_tables s = Done s' \<and> mmu_inv s' (drop c xs) \<and> c \<le> 1539
     \<and> virt_addr_bank s' = virt_addr_bank s
     \<and> (\<forall>j \<le> 512. leaf s' (4096 * of_nat j) = mapped_entry (4096 * of_nat j))
     \<and> (\<forall>w. (\<forall>j \<le> 512. \<not> same_page w (4096 * of_nat j)) \<longrightarrow> leaf s' w = 0)"
proof -
  obtain y ys where ys: "xs = y # ys" using len by (cases xs) auto
  obtain s1 where a: "MMU_pf_alloc s = Done (x, s1)" "frames_held s1 xs"
      "pmem s1 = pmem s" "virt_addr_bank s1 = virt_addr_bank s"
    using MMU_pf_alloc_step held ys by blast
  have gx: "good_frame x" "x \<notin> set xs"
    using pf.holds_good [OF held] pf.holds_distinct [OF held] by auto
  define s2 where "s2 = s1\<lparr>pml4 := x, pmem := memset_page (pmem s1) x\<rparr>"
  have i2: "mmu_inv s2 xs" and l2: "leaf s2 w = 0" for w
    using fresh_root_inv [OF a(2) gx] by (simp_all add: s2_def)
  have pre: "\<forall>j. 0 \<le> j \<longrightarrow> j < 0 + 513 \<longrightarrow> \<not> pte_present (leaf s2 (4096 * of_nat j))"
    by (simp add: l2)
  obtain s3 c where m: "identity_map 513 (4096 * of_nat 0) s2 = Done s3" "c \<le> 3 * 513" "mmu_inv s3 (drop c xs)"
    and l3: "\<forall>j. 0 \<le> j \<longrightarrow> j < 0 + 513 \<longrightarrow> leaf s3 (4096 * of_nat j) = mapped_entry (4096 * of_nat j)"
    and o3: "\<forall>w. (\<forall>j. 0 \<le> j \<longrightarrow> j < 0 + 513 \<longrightarrow> \<not> same_page w (4096 * of_nat j)) \<longrightarrow> leaf s3 w = leaf s2 w"
    and b3: "virt_addr_bank s3 = virt_addr_bank s2"
    using identity_map_ok [OF i2 _ _ pre] len by fastforce
  have "identity_check 511 (4096 * of_nat 1) s3 = Done s3"
    by (rule identity_check_ok [OF m(3)]) (use l3 in auto)
  then have "setup_tables s = Done s3"
    using a(1) m(1) by (simp add: setup_tables_def s2_def [symmetric] PAGE_SIZE_def)
  moreover have "virt_addr_bank s3 = virt_addr_bank s" using b3 a(4) by (simp add: s2_def)
  ultimately show ?thesis
    using m(2,3) l3 o3 l2 by (intro exI [of _ s3] exI [of _ c]) (simp add: less_Suc_eq_le)
qed

text \<open>The same steps seen from a run that ended, whatever the number of frames: what it leaves.\<close>

lemma map_page_done:
  assumes inv: "mmu_inv s xs" and run: "map_page pa va s = Done s'"
  shows "\<exists>n. mmu_inv s' (drop n xs) \<and> frames_kept s xs s' (drop n xs)
     \<and> (\<forall>w. \<not> same_page w va \<longrightarrow> leaf s' w = leaf s w)"
proof -
  have al: "page_aligned va"
    using run by (auto simp: map_page_def get_pt_entry_def CHECK_PAGE_ALIGNED_def PAGE_SIZE_def page_aligned_def split: if_splits)
  from get_pt_entry_cases [OF inv al] run
  obtain s1 n t where g: "get_pt_entry va s = Done (t + 8 * GET_PAGE_TBL_INDEX va, s1)"
    and i1: "mmu_inv s1 (drop n xs)" and k: "walk_keeps s s1" and fk: "frames_kept s xs s1 (drop n xs)"
    and t: "tbl (pmem s1) (pml4 s1) (pt_path va) = Some t"
    by (cases "CHECK_PAGE_ALIGNED pa") (auto simp: map_page_def CHECK_PAGE_ALIGNED_def split: if_splits)
  have s': "s' = s1\<lparr>pmem := (pmem s1)(t + 8 * GET_PAGE_TBL_INDEX va := mapped_entry pa)\<rparr>"
    using run g by (auto simp: map_page_def mapped_entry_def CHECK_PAGE_ALIGNED_def split: if_splits)
  have "leaf s1 = leaf s" using k by (simp add: walk_keeps_def)
  then show ?thesis
    using leaf_write(1,2) [OF i1 t, of "mapped_entry pa"] frames_kept_trans [OF fk frames_kept_leaf_write [OF i1 t]]
    unfolding s' by (intro exI [of _ n]) simp
qed

lemma identity_map_done:
  "identity_map n (4096 * of_nat k) s = Done s' \<Longrightarrow> mmu_inv s xs \<Longrightarrow>
   \<exists>c. mmu_inv s' (drop c xs) \<and> frames_kept s xs s' (drop c xs)
     \<and> (\<forall>w. (\<forall>j. k \<le> j \<longrightarrow> j < k + n \<longrightarrow> \<not> same_page w (4096 * of_nat j)) \<longrightarrow> leaf s' w = leaf s w)"
proof (induction n arbitrary: s xs k)
  case 0
  then show ?case by (intro exI [of _ 0]) simp
next
  case (Suc n)
  obtain s1 where s1: "map_page (4096 * of_nat k) (4096 * of_nat k) s = Done s1"
    and r: "identity_map n (4096 * of_nat (Suc k)) s1 = Done s'"
    using Suc.prems(1) by (auto simp: PAGE_SIZE_def algebra_simps)
  obtain c1 where c1: "mmu_inv s1 (drop c1 xs)" "frames_kept s xs s1 (drop c1 xs)"
    and l1: "\<forall>w. \<not> same_page w (4096 * of_nat k) \<longrightarrow> leaf s1 w = leaf s w"
    using map_page_done [OF Suc.prems(2) s1] by blast
  obtain c2 where c2: "mmu_inv s' (drop c2 (drop c1 xs))" "frames_kept s1 (drop c1 xs) s' (drop c2 (drop c1 xs))"
    and l2: "\<forall>w. (\<forall>j. Suc k \<le> j \<longrightarrow> j < Suc k + n \<longrightarrow> \<not> same_page w (4096 * of_nat j)) \<longrightarrow> leaf s' w = leaf s1 w"
    using Suc.IH [OF r c1(1)] by blast
  show ?case
    using c2(1) frames_kept_trans [OF c1(2) c2(2)] l1 l2 by (intro exI [of _ "c2 + c1"]) simp
qed

lemma identity_check_done:
  "identity_check n (4096 * of_nat k) s = Done s' \<Longrightarrow> mmu_inv s xs \<Longrightarrow>
   \<exists>c. mmu_inv s' (drop c xs) \<and> frames_kept s xs s' (drop c xs) \<and> leaf s' = leaf s"
proof (induction n arbitrary: s xs k)
  case 0
  then show ?case by (intro exI [of _ 0]) simp
next
  case (Suc n)
  obtain p s1 where s1: "virt_to_phys (4096 * of_nat k) s = Done (p, s1)"
    and r: "identity_check n (4096 * of_nat (Suc k)) s1 = Done s'"
    using Suc.prems(1) by (auto simp: PAGE_SIZE_def algebra_simps split: if_splits)
  have "page_aligned (4096 * of_nat k)"
    using s1 by (auto simp: virt_to_phys_def get_pt_entry_def CHECK_PAGE_ALIGNED_def PAGE_SIZE_def page_aligned_def split: if_splits)
  from virt_to_phys_cases [OF Suc.prems(2) this] s1
  obtain c1 where c1: "mmu_inv s1 (drop c1 xs)" "frames_kept s xs s1 (drop c1 xs)" "leaf s1 = leaf s" by auto
  obtain c2 where c2: "mmu_inv s' (drop c2 (drop c1 xs))" "frames_kept s1 (drop c1 xs) s' (drop c2 (drop c1 xs))"
      "leaf s' = leaf s1"
    using Suc.IH [OF r c1(1)] by blast
  show ?case
    using c2(1,3) frames_kept_trans [OF c1(2) c2(2)] c1(3) by (intro exI [of _ "c2 + c1"]) simp
qed

text \<open>A frame the allocator did not hold before the set-up is no table after it.\<close>

lemma setup_tables_done:
  assumes held: "frames_held s xs" and run: "setup_tables s = Done s'"
  shows "\<exists>c. mmu_inv s' (drop c xs) \<and> (\<forall>f. good_frame f \<longrightarrow> f \<notin> set xs \<longrightarrow> data_frame s' (drop c xs) f)
     \<and> (\<forall>w. (\<forall>j \<le> 512. \<not> same_page w (4096 * of_nat j)) \<longrightarrow> leaf s' w = 0)"
proof -
  obtain x ys s1 where a: "xs = x # ys" "MMU_pf_alloc s = Done (x, s1)" "frames_held s1 ys"
    using MMU_pf_alloc_cases [OF held] run by (auto simp: setup_tables_def)
  have gx: "good_frame x" "x \<notin> set ys"
    using pf.holds_good [OF held] pf.holds_distinct [OF held] a(1) by auto
  define s2 where "s2 = s1\<lparr>pml4 := x, pmem := memset_page (pmem s1) x\<rparr>"
  have i2: "mmu_inv s2 ys" and l2: "leaf s2 w = 0" for w
    using fresh_root_inv [OF a(3) gx] by (simp_all add: s2_def)
  have d2: "data_frame s2 ys f" if "good_frame f" "f \<notin> set xs" for f
    using that a(1) tbl_cleared [OF gx(1)] by (auto simp: data_frame_def s2_def)
  obtain s3 where m: "identity_map 513 (4096 * of_nat 0) s2 = Done s3" "identity_check 511 (4096 * of_nat 1) s3 = Done s'"
    using run a(2) by (auto simp: setup_tables_def s2_def [symmetric] PAGE_SIZE_def)
  obtain c where c: "mmu_inv s3 (drop c ys)" "frames_kept s2 ys s3 (drop c ys)"
    and l3: "\<forall>w. (\<forall>j. 0 \<le> j \<longrightarrow> j < 0 + 513 \<longrightarrow> \<not> same_page w (4096 * of_nat j)) \<longrightarrow> leaf s3 w = leaf s2 w"
    using identity_map_done [OF m(1) i2] by blast
  obtain d where d: "mmu_inv s' (drop d (drop c ys))" "frames_kept s3 (drop c ys) s' (drop d (drop c ys))" "leaf s' = leaf s3"
    using identity_check_done [OF m(2) c(1)] by blast
  have "data_frame s' (drop d (drop c ys)) f" if "good_frame f" "f \<notin> set xs" for f
    using frames_kept_trans [OF c(2) d(2)] d2 [OF that] by (simp add: frames_kept_def frames_stay_def)
  then show ?thesis
    using d(1,3) l2 l3 by (intro exI [of _ "Suc (d + c)"]) (simp add: a(1) less_Suc_eq_le)
qed

end
