(* ===== verification/MmuProps.thy ===== *)
theory MmuProps imports VirtMem begin

text \<open>
  The properties of the memory manager (src/drivers/mmu_driver.c), on top of the lemmas of
  \<open>PageFrames\<close>, \<open>PageTables\<close> and \<open>VirtMem\<close>, and the concrete state their witnesses use.
\<close>

section \<open>A concrete state\<close>

text \<open>Empty tables with the PML4 at 1 MiB, twelve frames from 2 MiB on, the initial bank.\<close>

definition sample_mmu :: mmu where
  "sample_mmu = \<lparr>pmem = (\<lambda>_. 0),
     addr_ranges = [\<lparr>start = 0x200000, curr_frame = 0x200000, end_addr = 0x20C000\<rparr>],
     addr_range_curr = 0, pf_free_list_head = NULL, local_heap_ptr = 0x1000, pml4 = 0x100000,
     virt_addr_bank = virt_addr_bank_init, mmu_log = []\<rparr>"

definition sample_frames :: "addr list" where
  "sample_frames = map (\<lambda>i. 0x200000 + of_nat (4096 * i)) [0..<12]"

lemma sample_frames_simps:
  "sample_frames = [0x200000, 0x201000, 0x202000, 0x203000, 0x204000, 0x205000, 0x206000, 0x207000,
     0x208000, 0x209000, 0x20A000, 0x20B000]"
  by (simp add: sample_frames_def upt_rec numeral_eq_Suc)

lemma tbl_zero: "tbl (\<lambda>_. 0) root p = Some t \<longleftrightarrow> p = [] \<and> t = root"
  by (cases p) (auto split: option.splits)

lemma sample_mmu_inv: "mmu_inv sample_mmu sample_frames"
proof -
  have new: "new_frames sample_mmu = sample_frames"
    by (simp add: new_frames_def sample_mmu_def range_frames_def sample_frames_def)
  have "frames_held sample_mmu sample_frames"
    unfolding frames_held_def new
    by (rule conjI, rule exI [of _ "[]"])
       (simp_all add: sample_mmu_def sample_frames_simps good_frame_def page_aligned_def PHYS_END_def range_ok_def)
  moreover have "tables_ok (pmem sample_mmu) (pml4 sample_mmu) sample_frames"
    by (simp add: sample_mmu_def tables_ok_def tbl_zero sample_frames_simps good_frame_def
        page_aligned_def PHYS_END_def)
  ultimately show ?thesis by (simp add: mmu_inv_def)
qed

lemma sample_leaf: "leaf sample_mmu va = 0"
  using tbl_zero [of "0x100000" "pt_path va"]
  by (simp add: leaf_def sample_mmu_def split: option.split)

lemma sample_length: "length sample_frames = 12"
  by (simp add: sample_frames_def)

lemma sample_bank: "virt_addr_bank sample_mmu = virt_addr_bank_init"
  by (simp add: sample_mmu_def)

lemma bank_KHEAP: "virt_addr_bank_init MMU_VADDR_KHEAP = 0x010000000000"
  by (simp add: virt_addr_bank_init_def)

lemma page_offset_aligned: "page_aligned a \<Longrightarrow> GET_PHYS_PAGE_INDEX a = 0"
  using take_bit_eq_mask [of 12 a]
  by (simp add: GET_PHYS_PAGE_INDEX_def page_aligned_def take_bit_eq_mod mask_eq_decr_exp)

section \<open>Page frames\<close>

text \<open>A run of n allocations returns n different page-aligned non-null frames, all of them
  frames the allocator held, and none of them is among the frames it still holds.\<close>

theorem frame_allocation_distinct:
  assumes "frames_held s xs" and "n < length xs"
  shows "\<exists>ps s'. alloc_times MMU_pf_alloc n s = Done (ps, s') \<and> length ps = n \<and> distinct ps
           \<and> list_all good_frame ps \<and> set ps \<subseteq> set xs
           \<and> frames_held s' (drop n xs) \<and> set ps \<inter> set (drop n xs) = {}"
proof -
  obtain s' where run: "alloc_times MMU_pf_alloc n s = Done (take n xs, s')"
    using pf.alloc_times_take [OF assms] by blast
  show ?thesis
    using run pf.alloc_times_distinct [OF assms run] set_take_subset [of n xs] by blast
qed

theorem frame_allocation_distinct_witness:
  "\<exists>ps s'. alloc_times MMU_pf_alloc 5 sample_mmu = Done (ps, s') \<and> distinct ps \<and> length ps = 5"
  using frame_allocation_distinct [of sample_mmu sample_frames 5] sample_mmu_inv
  by (auto simp: mmu_inv_def sample_length)

text \<open>A frame that is allocated and freed again is the next one to be handed out, and the
  allocator holds what it held before.\<close>

theorem frame_free_then_alloc:
  assumes "frames_held s (x # y # xs)"
  shows "\<exists>s1 s2 s3. MMU_pf_alloc s = Done (x, s1) \<and> MMU_pf_free x s1 = Done s2
           \<and> frames_held s2 (x # y # xs) \<and> MMU_pf_alloc s2 = Done (x, s3)"
  using pf.alloc_free_alloc [OF assms] .

theorem frame_free_then_alloc_witness:
  "\<exists>s1 s2 s3. MMU_pf_alloc sample_mmu = Done (0x200000, s1) \<and> MMU_pf_free 0x200000 s1 = Done s2
     \<and> MMU_pf_alloc s2 = Done (0x200000, s3)"
  using frame_free_then_alloc [of sample_mmu "0x200000" "0x201000" "drop 2 sample_frames"] sample_mmu_inv
  by (simp add: mmu_inv_def sample_frames_simps) blast

text \<open>With one frame left and an empty free list the allocator halts: the last frame of
  memory is never handed out.\<close>

theorem last_frame_halts:
  assumes "frames_held s [x]" and "pf_free_list_head s = NULL"
  shows "MMU_pf_alloc s = Halt ''All memory has been allocated!''"
proof -
  obtain fl where fl: "free_chain (pmem s) (pf_free_list_head s) fl" and xs: "[x] = fl @ new_frames s"
    using assms(1) by (auto simp: frames_held_def)
  then have "new_frames s = [x]" using assms(2) by (cases fl) auto
  then show ?thesis
    using alloc_new_pf_last assms by (simp add: MMU_pf_alloc_def frames_held_def)
qed

theorem last_frame_halts_witness:
  "MMU_pf_alloc (sample_mmu\<lparr>addr_ranges :=
      [\<lparr>start = 0x200000, curr_frame = 0x20B000, end_addr = 0x20C000\<rparr>]\<rparr>)
   = Halt ''All memory has been allocated!''"
  by (rule last_frame_halts [of _ "0x20B000"])
     (simp_all add: frames_held_def sample_mmu_def new_frames_def range_frames_def good_frame_def
        page_aligned_def PHYS_END_def range_ok_def)

section \<open>Page tables\<close>

text \<open>C13: mapping a page that is not present never fails while frames are left; it changes the
  page-table entry of that page and of no other, to a present writable entry that holds the
  frame's address, and keeps the invariant (the tables are a tree of frames the allocator
  does not hold, and the frames taken are no longer held).\<close>

theorem map_page_refines:
  assumes "mmu_inv s xs" and "4 \<le> length xs"
    and "page_aligned va" "good_frame pa" and "\<not> pte_present (leaf s va)"
  shows "\<exists>s' n. map_page pa va s = Done s' \<and> n \<le> 3 \<and> mmu_inv s' (drop n xs)
           \<and> (\<forall>w. leaf s' w = (if same_page w va then mapped_entry pa else leaf s w))
           \<and> pte_present (mapped_entry pa) \<and> pte_writable (mapped_entry pa)
           \<and> READ_FRAME_ADDR (mapped_entry pa) = pa"
  using map_page_ok [OF assms(1,2,3) _ assms(5), of pa] assms(4) by (auto simp: good_frame_def)

theorem map_page_refines_witness:
  "\<exists>s' n. map_page 0x300000 0x10000000000 sample_mmu = Done s' \<and> n \<le> 3
     \<and> mmu_inv s' (drop n sample_frames) \<and> leaf s' 0x10000000000 = mapped_entry 0x300000"
  using map_page_refines [OF sample_mmu_inv, of "0x10000000000" "0x300000"]
  by (auto simp: sample_length sample_leaf page_aligned_def good_frame_def PHYS_END_def)

text \<open>Mapping over a page that is already present halts instead of replacing the entry.\<close>

theorem map_page_present_halts:
  assumes inv: "mmu_inv s xs" and al: "page_aligned va" "page_aligned pa" and pres: "pte_present (leaf s va)"
  shows "map_page pa va s = Halt ''Page at %p is already present!''"
proof -
  obtain t where t: "tbl (pmem s) (pml4 s) (pt_path va) = Some t"
    using pres by (cases "tbl (pmem s) (pml4 s) (pt_path va)") (auto simp: leaf_def)
  show ?thesis
    using get_pt_entry_present [OF t al(1)] leaf_write(3) [OF inv t] pres al
    by (simp add: map_page_def)
qed

theorem map_page_present_halts_witness:
  "\<exists>s'. map_page 0x300000 0x10000000000 sample_mmu = Done s'
     \<and> map_page 0x301000 0x10000000000 s' = Halt ''Page at %p is already present!''"
proof -
  have al: "page_aligned 0x10000000000" "page_aligned 0x300000" "page_aligned 0x301000"
    by (simp_all add: page_aligned_def)
  obtain s' n where s': "map_page 0x300000 0x10000000000 sample_mmu = Done s'" "mmu_inv s' (drop n sample_frames)"
    "leaf s' 0x10000000000 = mapped_entry 0x300000"
    using map_page_ok [OF sample_mmu_inv _ al(1,2)] by (auto simp: sample_length sample_leaf)
  show ?thesis using s' map_page_present_halts [OF s'(2) al(1,3)] by simp
qed

text \<open>C26: \<open>virt_to_phys\<close> on every address. A page-aligned address whose page is present gives the frame of its entry, and
  one whose page is not present \<open>NULL\<close>; the translation of no address changes, and at most three frames are taken, for
  tables of the walk that are missing. With three frames left or fewer the walk may halt instead. Every address that is not
  page aligned halts, so that the offset the code adds to the frame is always 0.\<close>

theorem virt_to_phys_refines:
  assumes "mmu_inv s xs"
  shows "if page_aligned va
   then (length xs \<le> 3 \<and> halts (virt_to_phys va s))
      \<or> (\<exists>s' n. virt_to_phys va s =
             Done (if pte_present (leaf s va) then READ_FRAME_ADDR (leaf s va) else NULL, s')
           \<and> n \<le> 3 \<and> mmu_inv s' (drop n xs) \<and> leaf s' = leaf s)
   else virt_to_phys va s = Halt ''Address %p is not page aligned!''"
proof (cases "page_aligned va")
  case True
  then show ?thesis using virt_to_phys_cases [OF assms True] page_offset_aligned [OF True] by auto
next
  case False
  then show ?thesis
    by (simp add: virt_to_phys_def get_pt_entry_def CHECK_PAGE_ALIGNED_def page_aligned_def PAGE_SIZE_def)
qed

theorem virt_to_phys_refines_witness:
  "(\<exists>s'. virt_to_phys 0x10000000000 sample_mmu = Done (NULL, s'))
   \<and> virt_to_phys 0x10000000008 sample_mmu = Halt ''Address %p is not page aligned!''"
  using virt_to_phys_refines [OF sample_mmu_inv, of "0x10000000000"] virt_to_phys_refines [OF sample_mmu_inv, of "0x10000000008"]
  by (auto simp: sample_length sample_leaf page_aligned_def)

section \<open>Demand paging\<close>

text \<open>C14: the life of a demand page. Allocating a page returns the region's next address; the
  first access to any address of that page faults and is repaired with a frame the allocator
  held and now no longer holds; after it the page translates to that frame, is writable, and
  no entry of another page has changed.\<close>

theorem demand_page_lifecycle:
  assumes inv: "mmu_inv s xs" and len: "12 \<le> length xs"
    and al: "page_aligned (virt_addr_bank s region)" and cr2: "same_page cr2 (virt_addr_bank s region)"
  shows "\<exists>s1 s2 s3 f ys. MMU_alloc_page region s = Done (virt_addr_bank s region, s1)
           \<and> page_fault_irq err cr2 s1 = Done s2
           \<and> virt_to_phys (virt_addr_bank s region) s2 = Done (f, s3)
           \<and> f \<in> set xs \<and> good_frame f \<and> mmu_inv s3 ys \<and> set ys \<subseteq> set xs \<and> f \<notin> set ys
           \<and> pte_writable (leaf s3 (virt_addr_bank s region))
           \<and> (\<forall>w. \<not> same_page w (virt_addr_bank s region) \<longrightarrow> leaf s3 w = leaf s w)"
proof -
  let ?va = "virt_addr_bank s region"
  obtain s1 n1 where a: "MMU_alloc_page region s = Done (?va, s1)" "n1 \<le> 3" "mmu_inv s1 (drop n1 xs)"
    and l1: "\<forall>w. leaf s1 w = (if same_page w ?va then demand_entry (leaf s ?va) else leaf s w)"
    using MMU_alloc_page_ok [OF inv _ al] len by auto
  define ys where "ys = drop n1 xs"
  have i1: "mmu_inv s1 ys" and len1: "5 \<le> length ys" using a(2,3) len by (simp_all add: ys_def)
  have "\<not> pte_present (leaf s1 cr2)" "pte_alloc (leaf s1 cr2)" using l1 cr2 by simp_all
  then obtain s2 n2 where b: "page_fault_irq err cr2 s1 = Done s2" "n2 \<le> 3" "mmu_inv s2 (drop (Suc n2) ys)"
    and l2: "\<forall>w. leaf s2 w = (if same_page w cr2 then mapped_entry (ys ! n2) else leaf s1 w)"
    using page_fault_irq_demand [OF i1 len1] by blast
  define zs where "zs = drop (Suc n2) ys"
  have i2: "mmu_inv s2 zs" and len2: "4 \<le> length zs" using a(2) b(2,3) len by (simp_all add: zs_def ys_def)
  define f where "f = ys ! n2"
  obtain s3 n3 where c: "virt_to_phys ?va s2 = Done (if pte_present (leaf s2 ?va)
      then READ_FRAME_ADDR (leaf s2 ?va) + GET_PHYS_PAGE_INDEX ?va else NULL, s3)"
    "mmu_inv s3 (drop n3 zs)" "leaf s3 = leaf s2"
    using virt_to_phys_ok [OF i2 len2 al] by blast
  have sp: "same_page ?va cr2" using cr2 by (simp add: same_page_def)
  have ys: "drop n2 ys = f # zs"
    using b(2) len1 by (simp add: f_def zs_def Cons_nth_drop_Suc)
  have "f \<in> set (drop n2 ys)" unfolding ys by simp
  then have fy: "f \<in> set ys" by (rule in_set_dropD)
  then have g: "good_frame f" "f \<in> set xs"
    using i1 pf.holds_good by (auto simp: mmu_inv_def ys_def dest: in_set_dropD)
  have "distinct (drop n2 ys)" using i1 pf.holds_distinct by (auto simp: mmu_inv_def)
  then have fresh: "f \<notin> set (drop n3 zs)" unfolding ys by (auto dest: in_set_dropD)
  have sub: "set (drop n3 zs) \<subseteq> set xs" by (auto simp: zs_def ys_def dest!: in_set_dropD)
  have va: "leaf s2 ?va = mapped_entry f" using l2 sp by (simp add: f_def)
  have "virt_to_phys ?va s2 = Done (f, s3)"
    using c(1) va g(1) page_offset_aligned [OF al] by (simp add: good_frame_def)
  moreover have "\<forall>w. \<not> same_page w ?va \<longrightarrow> leaf s3 w = leaf s w"
    using l1 l2 c(3) same_page_cong [OF cr2] by simp
  ultimately show ?thesis
    using a(1) b(1) g c(2,3) fresh va sub
    by (intro exI [of _ s1] exI [of _ s2] exI [of _ s3] exI [of _ f] exI [of _ "drop n3 zs"] conjI) auto
qed

theorem demand_page_lifecycle_witness:
  "\<exists>s1 s2 s3 f. MMU_alloc_page MMU_VADDR_KHEAP sample_mmu = Done (0x10000000000, s1)
     \<and> page_fault_irq 2 0x10000000008 s1 = Done s2 \<and> virt_to_phys 0x10000000000 s2 = Done (f, s3)
     \<and> good_frame f"
  using demand_page_lifecycle [OF sample_mmu_inv, of MMU_VADDR_KHEAP "0x10000000008" 2]
  by (auto simp: sample_length sample_bank bank_KHEAP page_aligned_def same_page_def pt_path_def index_defs)

text \<open>A fault on a page that was never allocated, or on a page that is present, halts.\<close>

theorem page_fault_unrecoverable:
  assumes "mmu_inv s xs" and "4 \<le> length xs"
    and "pte_present (leaf s cr2) \<or> \<not> pte_alloc (leaf s cr2)"
  shows "page_fault_irq err cr2 s = Halt ''Page fault at virtual address %p cannot be recovered!''"
  using page_fault_irq_fatal [OF assms] .

theorem page_fault_unrecoverable_witness:
  "page_fault_irq 0 0x123456 sample_mmu = Halt ''Page fault at virtual address %p cannot be recovered!''"
  by (rule page_fault_unrecoverable [OF sample_mmu_inv]) (simp_all add: sample_length sample_leaf)

text \<open>Freeing a demand page that was accessed gives its frame back to the allocator as the
  next frame it will hand out, and leaves every entry of the abstract page table as it was
  before the page was allocated, with the entry of the page itself cleared.\<close>

theorem demand_page_freed:
  assumes inv: "mmu_inv s xs" and len: "12 \<le> length xs"
    and al: "page_aligned (virt_addr_bank s region)"
  shows "\<exists>s1 s2 s3 f ys. MMU_alloc_page region s = Done (virt_addr_bank s region, s1)
           \<and> page_fault_irq err (virt_addr_bank s region) s1 = Done s2
           \<and> READ_FRAME_ADDR (leaf s2 (virt_addr_bank s region)) = f
           \<and> MMU_free_page (virt_addr_bank s region) s2 = Done s3
           \<and> f \<in> set xs \<and> mmu_inv s3 (f # ys)
           \<and> (\<forall>w. leaf s3 w = (if same_page w (virt_addr_bank s region) then 0 else leaf s w))"
proof -
  let ?va = "virt_addr_bank s region"
  obtain s1 n1 where a: "MMU_alloc_page region s = Done (?va, s1)" "n1 \<le> 3" "mmu_inv s1 (drop n1 xs)"
    and l1: "\<forall>w. leaf s1 w = (if same_page w ?va then demand_entry (leaf s ?va) else leaf s w)"
    using MMU_alloc_page_ok [OF inv _ al] len by auto
  define ys where "ys = drop n1 xs"
  have i1: "mmu_inv s1 ys" and len1: "5 \<le> length ys" using a(2,3) len by (simp_all add: ys_def)
  have "\<not> pte_present (leaf s1 ?va)" "pte_alloc (leaf s1 ?va)" using l1 by simp_all
  then obtain s2 n2 where b: "page_fault_irq err ?va s1 = Done s2" "n2 \<le> 3" "mmu_inv s2 (drop (Suc n2) ys)"
    and l2: "\<forall>w. leaf s2 w = (if same_page w ?va then mapped_entry (ys ! n2) else leaf s1 w)"
    and df: "data_frame s2 (drop (Suc n2) ys) (ys ! n2)"
    using page_fault_irq_demand [OF i1 len1] by blast
  have n: "n2 < length ys" using b(2) len1 by simp
  then have f: "ys ! n2 \<in> set xs" by (auto simp: ys_def dest: in_set_dropD nth_mem)
  have va: "leaf s2 ?va = mapped_entry (ys ! n2)" using l2 by simp
  have r: "READ_FRAME_ADDR (leaf s2 ?va) = ys ! n2"
    using va df by (simp add: data_frame_def good_frame_def)
  obtain s3 where c: "MMU_free_page ?va s2 = Done s3" "mmu_inv s3 (ys ! n2 # drop (Suc n2) ys)"
    "\<forall>w. leaf s3 w = (if same_page w ?va then 0 else leaf s2 w)"
    using MMU_free_page_mapped [OF b(3) al r df] by blast
  show ?thesis
    using a(1) b(1) c r f l1 l2
    by (intro exI [of _ s1] exI [of _ s2] exI [of _ s3] exI [of _ "ys ! n2"]
        exI [of _ "drop (Suc n2) ys"] conjI) auto
qed

theorem demand_page_freed_witness:
  "\<exists>s1 s2 s3. MMU_alloc_page MMU_VADDR_KHEAP sample_mmu = Done (0x10000000000, s1)
     \<and> page_fault_irq 2 0x10000000000 s1 = Done s2 \<and> MMU_free_page 0x10000000000 s2 = Done s3
     \<and> leaf s3 0x10000000000 = 0"
  using demand_page_freed [OF sample_mmu_inv, of MMU_VADDR_KHEAP 2]
  by (auto simp: sample_length sample_bank bank_KHEAP page_aligned_def)

text \<open>Freeing a page that was allocated but never accessed halts: the page has no frame yet,
  and \<open>MMU_free_page\<close> hands the null frame to \<open>MMU_pf_free\<close>.\<close>

theorem free_untouched_page_halts:
  assumes inv: "mmu_inv s xs" and len: "8 \<le> length xs"
    and al: "page_aligned (virt_addr_bank s region)" and new: "leaf s (virt_addr_bank s region) = 0"
  shows "\<exists>s1. MMU_alloc_page region s = Done (virt_addr_bank s region, s1)
           \<and> MMU_free_page (virt_addr_bank s region) s1 = Halt ''Page frame is NULL!''"
proof -
  let ?va = "virt_addr_bank s region"
  obtain s1 n1 where a: "MMU_alloc_page region s = Done (?va, s1)" "n1 \<le> 3" "mmu_inv s1 (drop n1 xs)"
    and l1: "\<forall>w. leaf s1 w = (if same_page w ?va then demand_entry (leaf s ?va) else leaf s w)"
    using MMU_alloc_page_ok [OF inv _ al] len by auto
  have "READ_FRAME_ADDR (leaf s1 ?va) = READ_FRAME_ADDR 0" using l1 new by simp
  then have "READ_FRAME_ADDR (leaf s1 ?va) = NULL" by (simp add: READ_FRAME_ADDR_def)
  then show ?thesis
    using MMU_free_page_untouched [OF a(3) _ al] a(1,2) len by simp
qed

theorem free_untouched_page_halts_witness:
  "\<exists>s1. MMU_alloc_page MMU_VADDR_KHEAP sample_mmu = Done (0x10000000000, s1)
     \<and> MMU_free_page 0x10000000000 s1 = Halt ''Page frame is NULL!''"
  using free_untouched_page_halts [OF sample_mmu_inv, of MMU_VADDR_KHEAP]
  by (simp add: sample_length sample_bank bank_KHEAP page_aligned_def sample_leaf)

section \<open>Regions of the virtual address space\<close>

text \<open>C25: \<open>kbrk\<close> returns the old break and moves it up by the whole pages of the increment, the
  remainder dropped; exactly the pages between become demand pages.\<close>

theorem kbrk_refines:
  assumes "mmu_inv s xs" and "3 * unat (inc div 4096) < length xs"
    and "page_aligned (virt_addr_bank s MMU_VADDR_KHEAP)"
  shows "\<exists>s' k. kbrk inc s = Done (virt_addr_bank s MMU_VADDR_KHEAP, s') \<and> mmu_inv s' (drop k xs)
           \<and> virt_addr_bank s' = (virt_addr_bank s)(MMU_VADDR_KHEAP :=
                virt_addr_bank s MMU_VADDR_KHEAP + 4096 * (inc div 4096))
           \<and> (\<forall>w. if \<exists>i < unat (inc div 4096). same_page w (virt_addr_bank s MMU_VADDR_KHEAP + 4096 * of_nat i)
                  then \<not> pte_present (leaf s' w) \<and> pte_alloc (leaf s' w) else leaf s' w = leaf s w)"
  using kbrk_ok [OF assms] by auto

theorem kbrk_refines_witness:
  "\<exists>s'. kbrk 0x2FFF sample_mmu = Done (0x10000000000, s')
     \<and> virt_addr_bank s' MMU_VADDR_KHEAP = 0x10000002000"
  using kbrk_refines [OF sample_mmu_inv, of "0x2FFF"]
  by (auto simp: sample_length sample_bank bank_KHEAP page_aligned_def)

text \<open>None of the stack regions can ever give a page: their start addresses end in FFF, and
  the walk halts on an address that is not page aligned.\<close>

theorem stack_regions_halt:
  assumes "region \<in> {MMU_VADDR_IST1, MMU_VADDR_IST2, MMU_VADDR_IST3, MMU_VADDR_IST4,
                     MMU_VADDR_KSTACK, MMU_VADDR_USTACK}"
    and "virt_addr_bank s region = virt_addr_bank_init region"
  shows "MMU_alloc_page region s = Halt ''Address %p is not page aligned!''"
  using assms
  by (auto simp: MMU_alloc_page_def get_pt_entry_def CHECK_PAGE_ALIGNED_def virt_addr_bank_init_def
      PAGE_SIZE_def)

theorem stack_regions_halt_witness:
  "MMU_alloc_page MMU_VADDR_KSTACK sample_mmu = Halt ''Address %p is not page aligned!''"
  by (rule stack_regions_halt) (simp_all add: sample_bank)

end
