(* ===== verification/BootProps.thy ===== *)
theory BootProps imports MmuInit MmuProps begin

text \<open>
  The properties of the boot information parser (src/boot/multiboot2.c) and of the
  initialisation of the memory manager.
\<close>

section \<open>Finding a tag\<close>

text \<open>C34: in well-formed boot information the search for a tag ends and returns the first tag of
  the type asked for; where there is none it reports an error and returns \<open>NULL\<close>.\<close>

theorem find_tag_correct:
  assumes "tags_at m (a + 8) ts" and "length ts < fuel"
  shows "\<exists>tag s'. find_multiboot2_tag fuel m a ty s = Done (tag, s')
     \<and> (if ty \<in> fst ` set ts
        then s' = s \<and> tag_type m tag = ty
             \<and> (\<exists>i < length ts. tag = tag_addr m (a + 8) i \<and> tag_size m tag = snd (ts ! i)
                  \<and> (\<forall>j < i. fst (ts ! j) \<noteq> ty))
        else tag = NULL \<and> (ty \<noteq> 0 \<longrightarrow> klog s' = OS_ERROR ''Tag could not be found!'' [] # klog s))"
proof (cases "ty \<in> fst ` set ts")
  case True
  define P where "P i \<longleftrightarrow> i < length ts \<and> fst (ts ! i) = ty" for i
  define i where "i = (LEAST i. P i)"
  obtain b where "(ty, b) \<in> set ts" using True by auto
  then obtain k where "k < length ts" "ts ! k = (ty, b)" by (auto simp: in_set_conv_nth)
  then have "\<exists>i. P i" by (auto simp: P_def intro!: exI [of _ k])
  then have i: "P i" and least: "\<forall>j < i. \<not> P j"
    unfolding i_def by (auto intro: LeastI_ex dest: not_less_Least)
  then have min: "\<forall>j < i. fst (ts ! j) \<noteq> ty" by (auto simp: P_def)
  have "i < fuel" using i assms(2) by (simp add: P_def)
  then show ?thesis
    using find_loop_found [OF assms(1), of i ty fuel] i min True
    by (auto simp: find_multiboot2_tag_def P_def)
next
  case False
  obtain t where "find_loop fuel m ty (a + 8) = Done (NULL, t)" "tag_type m t = 0"
    using find_loop_missing [OF assms(1) False assms(2)] by blast
  then show ?thesis using False by (auto simp: find_multiboot2_tag_def say_def)
qed

text \<open>Boot information of two tags at 0x9000: a command line and a memory map of one entry.\<close>

definition sample_mbi :: mem where
  "sample_mbi = ((\<lambda>_. 0) (0x9008 := 1, 0x900C := 12, 0x9018 := 6, 0x901C := 40, 0x9020 := 24,
      0x9032 := 0x20, 0x9038 := 1))"

lemma sample_mbi_tags: "tags_at sample_mbi 0x9008 [(1, 12), (6, 40)]"
  by (simp add: tag_type_def tag_size_def tag_step_def rd32_bytes sample_mbi_def)

definition sample_boot :: machine where "sample_boot = \<lparr>trace = [], klog = [], if_flag = False\<rparr>"

theorem find_tag_correct_witness:
  "\<exists>tag s'. find_multiboot2_tag 3 sample_mbi 0x9000 6 sample_boot = Done (tag, s')
     \<and> tag_type sample_mbi tag = 6"
  using find_tag_correct [of sample_mbi "0x9000" "[(1, 12), (6, 40)]" 3 6 sample_boot] sample_mbi_tags by auto

text \<open>C36: a tag whose size field is 0 and whose type is not the one asked for makes the search
  loop forever: no amount of fuel gives a result.\<close>

theorem find_tag_zero_size_never_ends:
  assumes "tag_type m (a + 8) \<notin> {0, ty}" and "tag_size m (a + 8) = 0"
  shows "\<forall>fuel. find_multiboot2_tag fuel m a ty s = NoFuel"
  using find_loop_stuck [of m "a + 8" ty] assms
  by (auto simp: find_multiboot2_tag_def tag_step_def)

theorem find_tag_zero_size_never_ends_witness:
  "\<forall>fuel. find_multiboot2_tag fuel (\<lambda>x. if x = 0x9008 then 1 else 0) 0x9000 6
     sample_boot = NoFuel"
  by (rule find_tag_zero_size_never_ends) (simp_all add: tag_type_def tag_size_def rd32_bytes)

section \<open>The ranges handed to the frame allocator\<close>

lemma in_range_frames:
  assumes "f \<in> set (range_frames r)"
  shows "unat (curr_frame r) \<le> unat f \<and> unat f < unat (end_addr r)
     \<and> (page_aligned (curr_frame r) \<longrightarrow> page_aligned f)"
proof -
  let ?d = "unat (end_addr r) - unat (curr_frame r)"
  obtain i where i: "i < (?d + 4095) div 4096" and f: "f = curr_frame r + of_nat (4096 * i)"
    using assms unfolding range_frames_def set_map set_upt image_iff by (meson atLeastLessThan_iff)
  have lt: "4096 * i < ?d" using i by linarith
  have e: "unat (end_addr r) < 18446744073709551616" by (rule unat_u64_less)
  have o: "unat (of_nat (4096 * i) :: addr) = 4096 * i" using lt e by (intro unat_of_nat_u64) linarith
  have "unat (curr_frame r + of_nat (4096 * i)) = unat (curr_frame r) + unat (of_nat (4096 * i) :: addr)"
  proof (rule unat_add_nowrap)
    have "unat (curr_frame r) + 4096 * i < 18446744073709551616" using lt e by linarith
    then show "unat (curr_frame r) + unat (of_nat (4096 * i) :: addr) < 2 ^ LENGTH(64)"
      unfolding o by simp
  qed
  then have u: "unat f = unat (curr_frame r) + 4096 * i" unfolding f o .
  show ?thesis using u lt by (auto simp: page_aligned_dvd)
qed

text \<open>Frames that stay clear of the kernel image \<open>[ks, ke)\<close>.\<close>

definition clear_of :: "addr \<Rightarrow> addr \<Rightarrow> addr \<Rightarrow> bool" where
  "clear_of ks ke f \<longleftrightarrow> unat f + 4096 \<le> unat ks \<or> unat ke \<le> unat f"

lemma range_frames_clear:
  assumes "f \<in> set (range_frames r)" and "page_aligned (curr_frame r)" and "page_aligned ks"
    and "unat (end_addr r) \<le> unat ks \<or> unat ke \<le> unat (curr_frame r)"
  shows "clear_of ks ke f"
proof -
  obtain q k where qk: "unat f = 4096 * q" "unat ks = 4096 * k"
    using in_range_frames [OF assms(1)] assms(2,3) by (auto simp: page_aligned_dvd dvd_def)
  show ?thesis
  proof (cases "unat ke \<le> unat (curr_frame r)")
    case False
    then have "4096 * q < 4096 * k" using in_range_frames [OF assms(1)] assms(4) qk by linarith
    then have "Suc q \<le> k" by simp
    then have "4096 * Suc q \<le> 4096 * k" by (rule mult_le_mono2)
    then show ?thesis using qk by (simp add: clear_of_def)
  qed (use in_range_frames [OF assms(1)] in \<open>auto simp: clear_of_def\<close>)
qed

text \<open>An available entry the loop can take: it starts a page, does not wrap, and holds the whole
  kernel image or none of it.\<close>

definition entry_ok :: "addr \<Rightarrow> addr \<Rightarrow> mb_mmap_entry_t \<Rightarrow> bool" where
  "entry_ok ks ke e \<longleftrightarrow> page_aligned (mmap_addr e)
     \<and> unat (mmap_addr e) + unat (mmap_len e) < 18446744073709551616
     \<and> (mmap_addr e \<le> ks \<and> unat ke \<le> unat (mmap_addr e) + unat (mmap_len e)
        \<or> unat (mmap_addr e) + unat (mmap_len e) \<le> unat ks \<or> ke \<le> mmap_addr e)"

definition range_clear :: "addr \<Rightarrow> addr \<Rightarrow> pf_range_entry_t \<Rightarrow> bool" where
  "range_clear ks ke r \<longleftrightarrow> page_aligned (curr_frame r)
     \<and> (unat (end_addr r) \<le> unat ks \<or> unat ke \<le> unat (curr_frame r))"

lemma PAGE_ALIGN_ADDR_ok:
  assumes "1 \<le> unat ke" "unat ke \<le> 1099511627775"
  shows "page_aligned (PAGE_ALIGN_ADDR ke)" and "unat ke \<le> unat (PAGE_ALIGN_ADDR ke)"
proof -
  have "unat (ALIGN ke (2 ^ 12)) = ((unat ke - 1) div 2 ^ 12 + 1) * 2 ^ 12"
    using assms by (intro unat_ALIGN) auto
  then have u: "unat (PAGE_ALIGN_ADDR ke) = ((unat ke - 1) div 4096 + 1) * 4096"
    by (simp add: PAGE_ALIGN_ADDR_def PAGE_SIZE_def)
  show "page_aligned (PAGE_ALIGN_ADDR ke)" by (simp add: page_aligned_dvd u)
  show "unat ke \<le> unat (PAGE_ALIGN_ADDR ke)"
    using assms(1) div_mult_mod_eq [of "unat ke - 1" 4096] mod_less_divisor [of 4096 "unat ke - 1"]
    unfolding u by simp
qed

lemma ranges_of_entry_clear:
  assumes ok: "entry_ok ks ke e" and ks: "page_aligned ks" "ks < ke" and ke: "unat ke \<le> 1099511627775"
    and r: "r \<in> set (ranges_of_entry ks ke e)"
  shows "range_clear ks ke r"
proof -
  have sum: "unat (mmap_addr e + mmap_len e) = unat (mmap_addr e) + unat (mmap_len e)"
    using ok by (intro unat_add_nowrap) (simp add: entry_ok_def)
  have ke1: "1 \<le> unat ke" using ks(2) by (simp add: word_less_nat_alt)
  note al = PAGE_ALIGN_ADDR_ok [OF ke1 ke]
  show ?thesis
    using r ok ks al sum
    by (auto simp: ranges_of_entry_def Let_def new_range_def range_clear_def entry_ok_def
        word_le_nat_alt word_less_nat_alt split: if_splits)
qed

lemma addr_map_loop_clear:
  "addr_map_loop ks ke es rs lhp = Done (rs', lhp') \<Longrightarrow> list_all (range_clear ks ke) rs \<Longrightarrow>
   page_aligned ks \<Longrightarrow> ks < ke \<Longrightarrow> unat ke \<le> 1099511627775 \<Longrightarrow>
   (\<forall>e \<in> set es. mmap_type e = MULTIBOOT_MEMORY_AVAILABLE \<longrightarrow> entry_ok ks ke e) \<Longrightarrow>
   list_all (range_clear ks ke) rs'"
proof (induction es arbitrary: rs lhp)
  case (Cons e es)
  show ?case
  proof (cases "mmap_type e = MULTIBOOT_MEMORY_AVAILABLE")
    case True
    then have "list_all (range_clear ks ke) (rs @ ranges_of_entry ks ke e)"
      using Cons.prems ranges_of_entry_clear by (auto simp: list_all_iff)
    then show ?thesis
      using Cons.IH Cons.prems True by (auto simp: Let_def split: if_splits)
  qed (use Cons in auto)
qed simp

lemma addr_map_loop_append:
  "addr_map_loop ks ke es rs lhp = Done (rs', lhp') \<Longrightarrow> \<exists>suffix. rs' = rs @ suffix"
  by (induction es arbitrary: rs lhp) (fastforce simp: Let_def split: if_splits)+

text \<open>No frame the allocator can hand out after the initialisation overlaps the kernel image,
  as long as the available entries of the memory map start on pages and the kernel is not split
  over several of them.\<close>

theorem addr_map_spares_kernel:
  assumes run: "addr_map_init fuel m ks ke tag_ptr s mach = Done (s', mach')"
    and info: "get_multiboot2_mmap_info fuel m tag_ptr mach = Done ((entries, num), mach')"
    and ok: "\<forall>i < unat num. mmap_type (mmap_entry m entries i) = MULTIBOOT_MEMORY_AVAILABLE
               \<longrightarrow> entry_ok ks ke (mmap_entry m entries i)"
    and first: "mmap_type (mmap_entry m entries 0) = MULTIBOOT_MEMORY_AVAILABLE"
    and ke: "unat ke \<le> 1099511627775"
    and f: "f \<in> set (new_frames s')"
  shows "clear_of ks ke f"
proof -
  let ?es = "map (mmap_entry m entries) [0..<unat num]"
  have ks: "ks = 0x100000" "ks < ke" and num: "num \<noteq> 0" and zero: "mmap_addr (mmap_entry m entries 0) = 0"
    using run info by (auto simp: addr_map_init_def not_le split: if_splits)
  obtain rs lhp where loop: "addr_map_loop ks ke ?es [] (local_heap_ptr s) = Done (rs, lhp)"
    and new: "new_frames s' = concat (map range_frames (start_at_page_2 rs))"
    using run info by (auto simp: addr_map_init_def new_frames_def Let_def split: if_splits)
  have pk: "page_aligned ks" by (simp add: ks page_aligned_def)
  have all: "list_all (range_clear ks ke) rs"
    by (rule addr_map_loop_clear [OF loop _ pk ks(2) ke]) (use ok in auto)
  have es: "?es = mmap_entry m entries 0 # map (mmap_entry m entries) [1..<unat num]"
    using num by (simp add: upt_conv_Cons unat_gt_0)
  have "\<exists>p. addr_map_loop ks ke (map (mmap_entry m entries) [1..<unat num])
      (ranges_of_entry ks ke (mmap_entry m entries 0)) p = Done (rs, lhp)"
    using loop first unfolding es by (auto simp: Let_def split: if_splits)
  then obtain rest where rs: "rs = ranges_of_entry ks ke (mmap_entry m entries 0) @ rest"
    using addr_map_loop_append by blast
  obtain r rs' where r: "rs = r # rs'" "curr_frame r = 0"
    using rs zero ks(1) by (auto simp: ranges_of_entry_def new_range_def Let_def split: if_splits)
  have "range_clear ks ke (r\<lparr>curr_frame := 0x2000\<rparr>)"
    using all r ks(2) by (auto simp: range_clear_def page_aligned_def word_less_nat_alt)
  then have "list_all (range_clear ks ke) (start_at_page_2 rs)"
    using all r by (simp add: start_at_page_2_def)
  then show ?thesis
    using f range_frames_clear pk unfolding new by (auto simp: list_all_iff range_clear_def)
qed

text \<open>The memory map of the sample has one entry, of 2 MiB at 0.\<close>

lemma sample_mbi_info:
  "get_multiboot2_mmap_info 3 sample_mbi 0x9000 (s :: machine) = Done ((0x9028, 1), s)"
  by (simp add: get_multiboot2_mmap_info_def find_multiboot2_tag_def MULTIBOOT_TAG_TYPE_MMAP_def
      MULTIBOOT_TAG_TYPE_END_def numeral_3_eq_3 tag_type_def tag_size_def tag_step_def rd32_bytes sample_mbi_def)

lemma sample_mbi_entry: "mmap_entry sample_mbi 0x9028 0 = \<lparr>mmap_addr = 0, mmap_len = 0x200000, mmap_type = 1\<rparr>"
  by (simp add: mmap_entry_def read_mmap_entry_def rd32_bytes rd64_bytes sample_mbi_def)

theorem addr_map_spares_kernel_witness:
  "clear_of 0x100000 0x180000 0x2000 \<and> (\<exists>s'. addr_map_init 3 sample_mbi 0x100000 0x180000 0x9000
     sample_mmu sample_boot = Done (s', sample_boot) \<and> 0x2000 \<in> set (new_frames s'))"
proof -
  define s' where "s' = sample_mmu\<lparr>pmem := memset_page (pmem sample_mmu) 0x1000,
    addr_ranges := start_at_page_2 (ranges_of_entry 0x100000 0x180000 (mmap_entry sample_mbi 0x9028 0)),
    addr_range_curr := 0, local_heap_ptr := 0x1040\<rparr>"
  have rs: "ranges_of_entry 0x100000 0x180000 (mmap_entry sample_mbi 0x9028 0) =
      [new_range 0 0x100000, new_range 0x180000 0x200000]"
    by (simp add: ranges_of_entry_def sample_mbi_entry Let_def PAGE_ALIGN_ADDR_def PAGE_SIZE_def ALIGN_def)
  have run: "addr_map_init 3 sample_mbi 0x100000 0x180000 0x9000 sample_mmu sample_boot = Done (s', sample_boot)"
    using rs by (simp add: addr_map_init_def sample_mbi_info s'_def Let_def)
      (simp add: sample_mbi_entry sample_mmu_def MULTIBOOT_MEMORY_AVAILABLE_def)
  have "(0 :: nat) \<in> {0..<254}" by simp
  then have "0x2000 \<in> set (new_frames s')"
    unfolding s'_def rs
    by (simp add: new_frames_def start_at_page_2_def new_range_def range_frames_def image_iff)
       (intro disjI1 bexI [of _ 0], simp_all)
  moreover have "clear_of 0x100000 0x180000 0x2000"
    by (rule addr_map_spares_kernel [OF run sample_mbi_info])
       (use calculation in \<open>simp_all add: sample_mbi_entry entry_ok_def page_aligned_def MULTIBOOT_MEMORY_AVAILABLE_def\<close>)
  ultimately show ?thesis using run by blast
qed

section \<open>The identity map\<close>

text \<open>An allocator with one range and an empty free list, for the witnesses.\<close>

lemma range_frames_good:
  assumes "range_ok r"
  shows "list_all good_frame (range_frames r)" and "distinct (range_frames r)"
proof -
  let ?d = "unat (end_addr r) - unat (curr_frame r)"
  have e: "unat (end_addr r) \<le> 1099511627776" using assms by (simp add: range_ok_def unat_PHYS_END)
  have "good_frame f" if "f \<in> set (range_frames r)" for f
    using in_range_frames [OF that] assms e
    by (auto simp: range_ok_def good_frame_def word_le_nat_alt unat_PHYS_END simp flip: unat_gt_0)
  then show "list_all good_frame (range_frames r)" by (simp add: list_all_iff)
  have "inj_on (\<lambda>i. curr_frame r + of_nat (4096 * i)) {0..<(?d + 4095) div 4096}"
  proof (rule inj_onI)
    fix i j assume i: "i \<in> {0..<(?d + 4095) div 4096}" and j: "j \<in> {0..<(?d + 4095) div 4096}"
      and eq: "curr_frame r + of_nat (4096 * i) = curr_frame r + of_nat (4096 * j)"
    have "4096 * i < 18446744073709551616" "4096 * j < 18446744073709551616" using i j e by simp_all
    then have "4096 * i = 4096 * j" using eq addr_offset_inj by blast
    then show "i = j" by simp
  qed
  then show "distinct (range_frames r)" by (auto simp: distinct_map range_frames_def simp del: of_nat_mult)
qed

lemma single_range_held:
  assumes "range_ok r" "addr_ranges s = [r]" "addr_range_curr s = 0" "pf_free_list_head s = NULL"
  shows "frames_held s (range_frames r)"
  using assms range_frames_good [OF assms(1)] unfolding frames_held_def new_frames_def
  by (auto intro!: exI [of _ "[]"])

text \<open>Two ranges, the second behind the first.\<close>

lemma two_ranges_held:
  assumes r: "range_ok r1" "range_ok r2" "end_addr r1 \<le> curr_frame r2"
    and s: "addr_ranges s = [r1, r2]" "addr_range_curr s = 0" "pf_free_list_head s = NULL"
  shows "frames_held s (range_frames r1 @ range_frames r2)"
proof -
  have "set (range_frames r1) \<inter> set (range_frames r2) = {}"
  proof (rule ccontr)
    assume "set (range_frames r1) \<inter> set (range_frames r2) \<noteq> {}"
    then obtain f where "f \<in> set (range_frames r1)" "f \<in> set (range_frames r2)" by blast
    then have "unat f < unat (end_addr r1)" "unat (curr_frame r2) \<le> unat f" using in_range_frames by blast+
    then show False using r(3) by (simp add: word_le_nat_alt)
  qed
  then show ?thesis
    using s r(1,2) range_frames_good [OF r(1)] range_frames_good [OF r(2)] unfolding frames_held_def new_frames_def
    by (auto intro!: exI [of _ "[]"])
qed

definition big_mmu :: mmu where
  "big_mmu = sample_mmu\<lparr>addr_ranges := [\<lparr>start = 0x200000, curr_frame = 0x200000, end_addr = 0xA00000\<rparr>]\<rparr>"

lemma big_mmu_held:
  "frames_held big_mmu (0x200000 # range_frames \<lparr>start = 0x200000, curr_frame = 0x201000, end_addr = 0xA00000\<rparr>)"
  and big_mmu_length: "length (range_frames \<lparr>start = 0x200000, curr_frame = 0x201000, end_addr = 0xA00000\<rparr>) = 2047"
  using single_range_held [of "\<lparr>start = 0x200000, curr_frame = 0x200000, end_addr = 0xA00000\<rparr>" big_mmu]
    range_frames_Cons [of "\<lparr>start = 0x200000, curr_frame = 0x200000, end_addr = 0xA00000\<rparr>"]
  by (simp_all add: big_mmu_def sample_mmu_def range_ok_def page_aligned_def unat_PHYS_END range_frames_def)

lemma big_mmu_inv: "mmu_inv big_mmu (0x200000 # range_frames \<lparr>start = 0x200000, curr_frame = 0x201000, end_addr = 0xA00000\<rparr>)"
  (is "mmu_inv _ ?xs")
proof -
  have "0x100000 \<notin> set ?xs"
    using in_range_frames [of "0x100000" "\<lparr>start = 0x200000, curr_frame = 0x201000, end_addr = 0xA00000\<rparr>"] by auto
  then have "tables_ok (pmem big_mmu) (pml4 big_mmu) ?xs"
    by (simp add: big_mmu_def sample_mmu_def tables_ok_def tbl_zero good_frame_def page_aligned_def PHYS_END_def)
  then show ?thesis using big_mmu_held by (simp add: mmu_inv_def)
qed

text \<open>C33: setting up the page tables succeeds when the allocator holds enough frames; afterwards
  the first 513 pages map to the frames of the same address and no other page is mapped.\<close>

theorem setup_maps_identity:
  assumes "frames_held s (x # xs)" and "1540 \<le> length xs"
  shows "\<exists>s' c. setup_tables s = Done s' \<and> mmu_inv s' (drop c xs) \<and> c \<le> 1539
     \<and> (\<forall>j \<le> 512. leaf s' (4096 * of_nat j) = mapped_entry (4096 * of_nat j))
     \<and> (\<forall>w. (\<forall>j \<le> 512. \<not> same_page w (4096 * of_nat j)) \<longrightarrow> leaf s' w = 0)"
  using setup_tables_ok [OF assms] by blast

theorem setup_maps_identity_witness:
  "\<exists>s'. setup_tables big_mmu = Done s' \<and> leaf s' 0x1FF000 = mapped_entry 0x1FF000"
  using setup_maps_identity [OF big_mmu_held] by (force simp: big_mmu_length dest: spec [of _ 511])

text \<open>After the set-up any access above the first 513 pages, to a page frame for example,
  faults and halts: the page-fault handler itself and the table walk write to page frames at
  their physical address, which beyond 2 MiB are not mapped.\<close>

theorem frames_above_2MiB_unreachable:
  assumes "frames_held s (x # xs)" and "1560 \<le> length xs"
    and "\<forall>j \<le> 512. \<not> same_page w (4096 * of_nat j)"
  shows "\<exists>s'. setup_tables s = Done s'
     \<and> page_fault_irq err w s' = Halt ''Page fault at virtual address %p cannot be recovered!''"
proof -
  obtain s' c where s': "setup_tables s = Done s'" "mmu_inv s' (drop c xs)" "c \<le> 1539"
    and l: "\<forall>w. (\<forall>j \<le> 512. \<not> same_page w (4096 * of_nat j)) \<longrightarrow> leaf s' w = 0"
    using setup_tables_ok [OF assms(1)] assms(2) by force
  have "leaf s' w = 0" using l assms(3) by blast
  then show ?thesis
    using page_fault_irq_fatal [OF s'(2), of w err] s'(1,3) assms(2) by simp
qed

theorem frames_above_2MiB_unreachable_witness:
  "\<exists>s'. setup_tables big_mmu = Done s'
     \<and> page_fault_irq 2 0x300000 s' = Halt ''Page fault at virtual address %p cannot be recovered!''"
proof (rule frames_above_2MiB_unreachable [OF big_mmu_held])
  show "\<forall>j \<le> 512. \<not> same_page 0x300000 (4096 * of_nat j)"
    using same_page_number [of 768] by simp
qed (simp add: big_mmu_length)

end
