(* ===== verification/KmallocProps.thy ===== *)
theory KmallocProps imports HeapBrk BootProps begin

text \<open>
  The properties of the kernel heap (lib/kmalloc.c) and its use of \<open>kbrk\<close> from
  src/drivers/mmu\_driver.c, through the interface of a provider of heap memory.
\<close>

section \<open>Payloads\<close>

text \<open>The bytes of a block after its header.\<close>

definition in_payload :: "addr \<Rightarrow> blk \<Rightarrow> bool" where
  "in_payload x b \<longleftrightarrow> unat (fst b) + 32 \<le> unat x \<and> unat x < unat (fst b) + 32 + fst (snd b)"

lemma spaced_disjoint:
  "spaced lo hi bs \<Longrightarrow> (a, n, f) \<in> set bs \<Longrightarrow> (c, k, g) \<in> set bs \<Longrightarrow> (a, n, f) \<noteq> (c, k, g)
   \<Longrightarrow> unat a + 32 + n \<le> unat c \<or> unat c + 32 + k \<le> unat a"
proof (induction lo hi bs rule: spaced.induct)
  case (2 lo hi b j h bs)
  then show ?case using spaced_addr [of "unat b + 32 + j" hi bs] by fastforce
qed simp

lemma payload_not_header:
  assumes sp: "spaced lo hi bs" and hi: "hi < 18446744073709551616" and b: "b \<in> set bs" and x: "in_payload x b"
  shows "\<not> in_headers x bs"
proof
  assume "in_headers x bs"
  then obtain a where a: "a \<in> addrs bs" "in_region x a 32" by (auto simp: in_headers_def)
  have "hdr_ok a" using addrs_hdr_ok [OF sp hi a(1)] by simp
  then have r: "unat a \<le> unat x" "unat x < unat a + 32" using a(2) by (auto simp: hdr_ok_def in_region_unat)
  obtain n f where n: "(a, n, f) \<in> set bs" using a(1) by (auto simp: addrs_def)
  show False
    using spaced_disjoint [OF sp n, of "fst b" "fst (snd b)" "snd (snd b)"] b x r
    by (cases "(a, n, f) = b") (auto simp: in_payload_def)
qed

lemma chain_hdr: "chain m p b bs \<Longrightarrow> (a, n, f) \<in> set bs \<Longrightarrow> \<exists>q. hdr m a q n f"
  by (induction m p b bs rule: chain.induct) auto

lemma in_use_remove:
  assumes sp: "spaced lo hi (xs @ (a, n, f) # ys)"
  shows "in_use (xs @ ys) = in_use (xs @ (a, n, f) # ys) - {(a, n, f)}"
proof -
  have "(a, n, f) \<notin> set xs \<union> set ys"
  proof
    assume "(a, n, f) \<in> set xs \<union> set ys"
    moreover obtain mid where "spaced lo mid xs" "spaced mid hi ((a, n, f) # ys)"
      using sp by (auto simp: spaced_append)
    ultimately show False using spaced_addr [of lo mid xs a n f] spaced_addr [of _ hi ys a n f] by fastforce
  qed
  then show ?thesis by (auto simp: in_use_def)
qed

section \<open>Allocation and release within the heap\<close>

lemma kmalloc_block:
  assumes heap: "heap_at s bs hi" and co: "coalesced bs"
    and pk: "pick (round16 (max 1 (unat sz))) bs = Some a" and fuel: "length bs \<le> fuel"
  shows "\<exists>s' bs' n. kmalloc fuel brk sz s = Done (a + 32, s') \<and> heap_at s' bs' hi \<and> coalesced bs'
     \<and> round16 (max 1 (unat sz)) \<le> n \<and> in_use bs' = insert (a, n, False) (in_use bs)
     \<and> (\<forall>b \<in> in_use bs. fst b \<noteq> a \<and> (\<forall>x. in_payload x b \<longrightarrow> \<not> in_payload x (a, n, False) \<and> kmem s' x = kmem s x))"
proof -
  let ?n = "round16 (max 1 (unat sz))"
  obtain s' xs n ys where run: "kmalloc fuel brk sz s = Done (a + 32, s')" and bs: "bs = xs @ (a, n, True) # ys"
    and n: "?n \<le> n" and h': "heap_at s' (xs @ taken a n ?n ys) hi"
    and keep: "\<forall>x. \<not> in_headers x bs \<longrightarrow> \<not> (unat a + 32 + ?n \<le> unat x \<and> unat x < unat a + 32 + n)
            \<longrightarrow> kmem s' x = kmem s x"
    using kmalloc_pick [OF heap pk fuel] by blast
  have sp: "spaced (unat (kernel_heap_head s)) hi bs" "hi < 18446744073709551616"
    using heap by (auto simp: heap_at_def)
  define k where "k = (if ?n + 48 \<le> n then ?n else n)"
  have k: "?n \<le> k" "k \<le> n" using n by (auto simp: k_def)
  have use: "in_use (xs @ taken a n ?n ys) = insert (a, k, False) (in_use bs)"
    by (auto simp: taken_def k_def bs in_use_join_next)
  have apart: "fst b \<noteq> a \<and> (\<forall>x. in_payload x b \<longrightarrow> \<not> in_payload x (a, k, False) \<and> kmem s' x = kmem s x)"
    if b: "b \<in> in_use bs" for b
  proof -
    obtain c j where c: "b = (c, j, False)" "b \<in> set bs" using b by (cases b) (auto simp: in_use_def)
    have ne: "(a, n, True) \<noteq> (c, j, False)" by simp
    have d: "unat a + 32 + n \<le> unat c \<or> unat c + 32 + j \<le> unat a"
      using spaced_disjoint [OF sp(1) _ _ ne] c bs by auto
    then have "kmem s' x = kmem s x \<and> \<not> in_payload x (a, k, False)" if x: "in_payload x b" for x
      using keep payload_not_header [OF sp c(2) x] x k(2) by (auto simp: in_payload_def c(1))
    then show ?thesis using d c(1) by auto
  qed
  have "coalesced (xs @ taken a n ?n ys)" using co unfolding bs by (rule coalesced_taken)
  then show ?thesis
    using run h' k(1) use apart
    by (intro exI [of _ s'] exI [of _ "xs @ taken a n ?n ys"] exI [of _ k]) auto
qed

text \<open>C10: a request the block list can serve gets the payload of a free block, large enough; the
  list stays well formed and coalesced, exactly that block becomes used, and no byte of the
  payload of any block already in use changes.\<close>

theorem kmalloc_serves_request:
  assumes heap: "heap_at s bs hi" and co: "coalesced bs"
    and pk: "pick (round16 (max 1 (unat sz))) bs = Some a" and fuel: "length bs \<le> fuel"
  shows "\<exists>s' bs' n. kmalloc fuel brk sz s = Done (a + 32, s') \<and> heap_at s' bs' hi \<and> coalesced bs'
     \<and> unat sz \<le> n \<and> in_use bs' = insert (a, n, False) (in_use bs)
     \<and> (\<forall>b \<in> in_use bs. fst b \<noteq> a \<and> (\<forall>x. in_payload x b \<longrightarrow> \<not> in_payload x (a, n, False) \<and> kmem s' x = kmem s x))"
proof -
  obtain s' bs' n where "kmalloc fuel brk sz s = Done (a + 32, s')" "heap_at s' bs' hi" "coalesced bs'"
    and n: "round16 (max 1 (unat sz)) \<le> n" and "in_use bs' = insert (a, n, False) (in_use bs)"
    and "\<forall>b \<in> in_use bs. fst b \<noteq> a \<and> (\<forall>x. in_payload x b \<longrightarrow> \<not> in_payload x (a, n, False) \<and> kmem s' x = kmem s x)"
    using kmalloc_block [OF assms] by blast
  moreover have "unat sz \<le> n" using round16_bounds(1) [of "max 1 (unat sz)"] n by simp
  ultimately show ?thesis by blast
qed

lemma kfree_any_block:
  assumes heap: "heap_at s bs hi" and co: "coalesced bs" and b: "(a, n, False) \<in> in_use bs" and p: "in_block p a n"
    and fuel: "length bs \<le> fuel" and brk: "brk 0 (brk_state s) = Done (tp, b')" "\<not> tp - 48 < p"
  shows "\<exists>s' bs'. kfree fuel brk p s = Done s' \<and> heap_at s' bs' hi \<and> coalesced bs'
     \<and> in_use bs' = in_use bs - {(a, n, False)}
     \<and> (\<forall>c \<in> in_use bs. \<forall>x. in_payload x c \<longrightarrow> kmem s' x = kmem s x)"
proof -
  obtain xs ys where bs: "bs = xs @ (a, n, False) # ys"
    using b split_list by (fastforce simp: in_use_def)
  have sp: "spaced (unat (kernel_heap_head s)) hi bs" "hi < 18446744073709551616"
    using heap by (auto simp: heap_at_def)
  have "length xs < fuel" using fuel bs by simp
  then obtain s' where s': "kfree fuel brk p s = Done s'" "heap_at s' (freed xs a n ys) hi"
    and keep: "\<forall>x. \<not> in_headers x bs \<longrightarrow> kmem s' x = kmem s x"
    using kfree_any [of s xs a n False ys hi p fuel brk, OF _ p _ brk] heap unfolding bs by blast
  have use: "in_use (freed xs a n ys) = in_use bs - {(a, n, False)}"
    unfolding in_use_freed bs by (rule in_use_remove) (use sp bs in simp)
  have "coalesced (freed xs a n ys)" using co unfolding bs by (rule coalesced_freed)
  moreover have "kmem s' x = kmem s x" if "c \<in> in_use bs" "in_payload x c" for c x
    using keep payload_not_header [OF sp _ that(2)] that(1) by (auto simp: in_use_def)
  ultimately show ?thesis using s' use by (intro exI [of _ s'] exI [of _ "freed xs a n ys"]) auto
qed

lemma kfree_block:
  assumes heap: "heap_at s bs hi" and co: "coalesced bs" and b: "(a, n, False) \<in> in_use bs" and n: "0 < n"
    and fuel: "length bs \<le> fuel" and brk: "brk 0 (brk_state s) = Done (tp, b')" "\<not> tp - 48 < a + 32"
  shows "\<exists>s' bs'. kfree fuel brk (a + 32) s = Done s' \<and> heap_at s' bs' hi \<and> coalesced bs'
     \<and> in_use bs' = in_use bs - {(a, n, False)}
     \<and> (\<forall>c \<in> in_use bs. \<forall>x. in_payload x c \<longrightarrow> kmem s' x = kmem s x)"
proof -
  have "unat a + 32 + n \<le> hi" "hi < 18446744073709551616"
    using heap b spaced_addr [of "unat (kernel_heap_head s)" hi bs a n False] by (auto simp: heap_at_def in_use_def)
  then have "in_block (a + 32) a n" using n by (intro payload_in_block) simp_all
  then show ?thesis using kfree_any_block [where s = s and brk = brk, OF heap co b _ fuel brk] by blast
qed

text \<open>A pointer above the last 48 bytes below the break is rejected, whatever block it is in.\<close>

lemma kfree_rejects:
  assumes heap: "heap_at s bs hi" and b: "(a, n, f) \<in> set bs" and p: "in_block p a n"
    and brk: "brk 0 (brk_state s) = Done (tp, b')" "tp - 48 < p"
  shows "kfree fuel brk p s =
    Done (heap_say (OS_WARN ''kfree(%p): Invalid pointer!'' [p]) (s\<lparr>brk_state := b'\<rparr>)\<lparr>kerrno := EFAULT\<rparr>)"
proof -
  have "unat (kernel_heap_head s) \<le> unat a"
    using heap b spaced_addr [of "unat (kernel_heap_head s)" hi bs a n f] by (auto simp: heap_at_def)
  then have "\<not> p < kernel_heap_head s" using p by (simp add: in_block_def word_less_nat_alt)
  moreover have "p \<noteq> NULL" using brk(2) word_not_simps(1) by auto
  ultimately show ?thesis using brk by (simp add: kfree_def do_brk_def MIN_BLK_SIZE_def HEADER_SIZE_def ALIGN_SIZE_def)
qed

text \<open>C11: \<open>kfree\<close> of any pointer into a block in use, its header included: unless the pointer is in the
  last 48 bytes below the break, exactly that block becomes free and joins the free neighbours it touches,
  the list stays well formed and coalesced and no payload of a block in use changes. A pointer in those 48 bytes is
  rejected: the heap stays as it is and \<open>errno\<close> becomes \<open>EFAULT\<close>.\<close>

theorem kfree_releases_block:
  assumes heap: "heap_at s bs hi" and co: "coalesced bs" and b: "(a, n, False) \<in> in_use bs"
    and p: "unat a \<le> unat p" "unat p < unat a + 32 + n"
    and fuel: "length bs \<le> fuel" and brk: "brk 0 (brk_state s) = Done (tp, b')"
  shows "if tp - 48 < p
   then kfree fuel brk p s = Done (heap_say (OS_WARN ''kfree(%p): Invalid pointer!'' [p]) (s\<lparr>brk_state := b'\<rparr>)\<lparr>kerrno := EFAULT\<rparr>)
   else \<exists>s' bs'. kfree fuel brk p s = Done s' \<and> heap_at s' bs' hi \<and> coalesced bs'
     \<and> in_use bs' = in_use bs - {(a, n, False)}
     \<and> (\<forall>c \<in> in_use bs. \<forall>x. in_payload x c \<longrightarrow> kmem s' x = kmem s x)"
proof (cases "tp - 48 < p")
  case True
  have "(a, n, False) \<in> set bs" using b by (simp add: in_use_def)
  then show ?thesis using kfree_rejects [where s = s and brk = brk, OF heap _ _ brk True] p True by (simp add: in_block_def)
next
  case False
  then show ?thesis using kfree_any_block [where s = s and brk = brk, OF heap co b _ fuel brk False] p by (simp add: in_block_def)
qed

text \<open>C9: a request that the block list can serve without extending the heap, and the release of its block,
  restore the list of blocks, where the pointer is not in the last 48 bytes below the break (\<open>kfree\<close> rejects
  those).\<close>

theorem kmalloc_kfree_roundtrip:
  assumes heap: "heap_at s bs hi" and co: "coalesced bs"
    and pk: "pick (round16 (max 1 (unat sz))) bs = Some a" and fuel: "length bs < fuel"
    and brk: "brk 0 (brk_state s) = Done (tp, b')" "\<not> tp - 48 < a + 32"
  shows "\<exists>s1 s2. kmalloc fuel brk sz s = Done (a + 32, s1) \<and> kfree fuel brk (a + 32) s1 = Done s2
     \<and> heap_at s2 bs hi"
proof -
  let ?n = "round16 (max 1 (unat sz))"
  obtain s1 xs n ys where run: "kmalloc fuel brk sz s = Done (a + 32, s1)" and bs: "bs = xs @ (a, n, True) # ys"
    and n: "?n \<le> n" and h1: "heap_at s1 (xs @ taken a n ?n ys) hi" and b1: "brk_state s1 = brk_state s"
    and ex: "n = ?n \<or> ys = []"
    using kmalloc_pick [OF heap pk less_imp_le [OF fuel]] by blast
  have pos: "0 < ?n" using round16_bounds(1) [of "max 1 (unat sz)"] by simp
  define k where "k = (if ?n + 48 \<le> n then ?n else n)"
  define zs where "zs = (if ?n + 48 \<le> n then join_next (a + 32 + of_nat ?n, n - ?n - 32, True) ys else ys)"
  have t: "taken a n ?n ys = (a, k, False) # zs" by (simp add: taken_def k_def zs_def)
  have k: "0 < k" using pos n by (simp add: k_def)
  have "length xs < fuel" using fuel bs by simp
  then obtain s2 where s2: "kfree fuel brk (a + 32) s1 = Done s2" "heap_at s2 (freed xs a k zs) hi"
    using kfree_step [of s1 xs a k False zs hi fuel brk, OF _ k] h1 brk unfolding t b1 by blast
  have sp: "spaced (unat (kernel_heap_head s)) hi bs" "hi < 18446744073709551616"
    using heap by (auto simp: heap_at_def)
  obtain mid where mid: "spaced (unat (kernel_heap_head s)) mid xs" "spaced mid hi ((a, n, True) # ys)"
    using sp(1) unfolding bs spaced_append by blast
  have same: "join_next (a, k, True) zs = (a, n, True) # ys"
  proof (cases "?n + 48 \<le> n")
    case True
    then have ys: "ys = []" using ex by auto
    have "unat (a + 32 + of_nat ?n) = unat a + 32 + ?n" using spaced_split(2) [OF mid(2) sp(2) True] .
    then show ?thesis using True ys by (simp add: k_def zs_def)
  next
    case False
    have "coalesced ((a, n, True) # ys)" using co unfolding bs coalesced_append by blast
    then show ?thesis using False by (cases ys) (auto simp: k_def zs_def)
  qed
  have "freed xs a k zs = bs"
  proof (cases xs rule: rev_cases)
    case (snoc us w)
    have "kept_apart w (a, n, True)" using co unfolding bs coalesced_append snoc by simp
    then have "join_next w ((a, n, True) # ys) = w # (a, n, True) # ys"
      by (cases w) (auto simp: kept_apart_def)
    then show ?thesis using same snoc bs by (simp add: freed_def Let_def)
  qed (simp add: freed_def same bs)
  then show ?thesis using run s2 by auto
qed

section \<open>Sizes that are refused\<close>

lemma ROUND_UP_big:
  assumes "4294967280 < unat x" "unat x < 18446744073709551600"
  shows "ROUND_UP x ALIGN_SIZE > 0xFFFFFFFF"
proof -
  have d: "268435455 \<le> (unat x - 1) div 16" "(unat x - 1) div 16 < 1152921504606846975"
    using div_le_mono [of 4294967280 "unat x - 1" 16] assms by (auto simp: less_mult_imp_div_less)
  have "unat (ALIGN x (2 ^ 4)) = ((unat x - 1) div 2 ^ 4 + 1) * 2 ^ 4"
    using assms d by (intro unat_ALIGN) auto
  moreover have "ROUND_UP x ALIGN_SIZE = ALIGN x (2 ^ 4)"
    by (simp add: ROUND_UP_def ALIGN_def ALIGN_SIZE_def)
  ultimately show ?thesis using d(1) by (simp add: word_less_nat_alt)
qed

text \<open>A request above 0xFFFFFFF0 bytes, which would not fit the 32-bit size once rounded, is
  refused with \<open>ENOMEM\<close> and nothing else changes; so is an array whose size, computed without
  overflow, is above that.\<close>

theorem large_requests_refused:
  "(unat sz > 0xFFFFFFF0 \<longrightarrow> kmalloc fuel brk sz s = Done (NULL, s\<lparr>kerrno := ENOMEM\<rparr>))
   \<and> (unat nmemb * unat sz > 0xFFFFFFF0 \<longrightarrow> kcalloc fuel brk nmemb sz s = Done (NULL, s\<lparr>kerrno := ENOMEM\<rparr>))"
proof (intro conjI impI)
  assume sz: "unat sz > 0xFFFFFFF0"
  then have "\<not> sz < 1" by (auto simp: word_less_nat_alt)
  moreover have "sz > 0xFFFFFFFF \<or> ROUND_UP sz ALIGN_SIZE > 0xFFFFFFFF"
    using ROUND_UP_big [of sz] sz by (cases "unat sz \<le> 4294967295") (auto simp: word_less_nat_alt)
  ultimately show "kmalloc fuel brk sz s = Done (NULL, s\<lparr>kerrno := ENOMEM\<rparr>)"
    by (auto simp: kmalloc_def Let_def)
next
  assume p: "unat nmemb * unat sz > 0xFFFFFFF0"
  show "kcalloc fuel brk nmemb sz s = Done (NULL, s\<lparr>kerrno := ENOMEM\<rparr>)"
  proof (cases "nmemb > 0xFFFFFFFF \<or> sz > 0xFFFFFFFF")
    case False
    then have b: "unat nmemb \<le> 4294967295" "unat sz \<le> 4294967295" by (auto simp: word_less_nat_alt)
    have "unat nmemb * unat sz \<le> 4294967295 * 4294967295" using b by (rule mult_le_mono)
    then have le: "unat nmemb * unat sz < 18446744073709551600" by simp
    then have "unat (nmemb * sz) = unat nmemb * unat sz" by (simp add: unat_word_ariths)
    then show ?thesis using ROUND_UP_big [of "nmemb * sz"] p le by (simp add: kcalloc_def Let_def)
  qed (auto simp: kcalloc_def Let_def)
qed

section \<open>Cleared allocation\<close>

lemma round16_again: "round16 (max 1 (round16 n)) = round16 (max 1 n)"
proof (cases "n = 0")
  case False
  then have "1 \<le> round16 n" using round16_bounds(1) [of n] by simp
  moreover obtain q where q: "round16 n = 16 * q" using round16_bounds(3) by blast
  moreover have "(16 * q + 15) div 16 = q" by simp
  ultimately show ?thesis using False by (simp add: max_def round16_def [of "16 * q"])
qed (simp add: round16_def)

lemma kcalloc_size:
  assumes heap: "heap_at s bs hi" and pk: "pick (round16 (max 1 (unat nmemb * unat sz))) bs = Some a"
  shows "unat (ROUND_UP (nmemb * sz) ALIGN_SIZE) = round16 (unat nmemb * unat sz)"
    and "round16 (unat nmemb * unat sz) \<le> 4294967295"
proof -
  let ?p = "unat nmemb * unat sz"
  obtain xs n ys where bs: "bs = xs @ (a, n, True) # ys" and n: "round16 (max 1 ?p) \<le> n"
    using pick_split [OF pk] by fastforce
  have "\<exists>q. chain (kmem s) q a ((a, n, True) # ys)" using heap bs by (auto simp: heap_at_def chain_append)
  then have n32: "n < 4294967296" using unat_u32_less [of "h_size (kmem s) a"] by (auto simp: hdr_def)
  have b: "?p \<le> round16 (max 1 ?p)" using round16_bounds(1) [of "max 1 ?p"] by simp
  have u: "unat (nmemb * sz) = ?p" using b n n32 by (simp add: unat_word_ariths)
  show "unat (ROUND_UP (nmemb * sz) ALIGN_SIZE) = round16 ?p"
  proof (cases "?p = 0")
    case True
    then have "nmemb * sz = 0" using u by (simp add: word_unat_eq_iff)
    then show ?thesis using True by (simp add: ROUND_UP_def ALIGN_SIZE_def round16_def)
  next
    case False
    then show ?thesis using ROUND_UP_16 [of "nmemb * sz"] u b n n32 by simp
  qed
  have "round16 ?p \<le> round16 (max 1 ?p)" by (simp add: round16_def div_le_mono)
  then show "round16 ?p \<le> 4294967295" using n n32 by simp
qed

text \<open>Writing to the payload of a block keeps the list of blocks.\<close>

lemma heap_at_payload_write:
  assumes heap: "heap_at s bs hi" and b: "b \<in> set bs" and m: "\<And>x. \<not> in_payload x b \<Longrightarrow> m x = kmem s x"
  shows "heap_at (s\<lparr>kmem := m\<rparr>) bs hi"
proof -
  have sp: "spaced (unat (kernel_heap_head s)) hi bs" "hi < 18446744073709551616"
    and ch: "chain (kmem s) NULL (kernel_heap_head s) bs" using heap by (auto simp: heap_at_def)
  have "chain m NULL (kernel_heap_head s) bs"
    using ch
  proof (subst chain_cong)
    fix c x assume c: "c \<in> addrs bs"
    show "hdr_ok c" using addrs_hdr_ok [OF sp c] by simp
    assume "in_region x c 32"
    then show "m x = kmem s x" using payload_not_header [OF sp b] c m by (auto simp: in_headers_def)
  qed
  then show ?thesis using heap by (simp add: heap_at_def)
qed

text \<open>The bytes \<open>memset\<close> sets in a block are its payload.\<close>

lemma payload_region:
  assumes "heap_at s bs hi" "(a, n, f) \<in> set bs"
  shows "in_region x (a + 32) n \<longleftrightarrow> in_payload x (a, n, f)" and "a + 32 \<noteq> NULL"
    and "unat (size64 (kmem s) a :: u64) = n"
proof -
  have sp: "spaced (unat (kernel_heap_head s)) hi bs" "hi < 18446744073709551616"
    and ch: "chain (kmem s) NULL (kernel_heap_head s) bs" using assms(1) by (auto simp: heap_at_def)
  have le: "unat a + 32 + n \<le> hi" using spaced_addr [OF sp(1) assms(2)] by simp
  then have u: "unat (a + 32) = unat a + 32" using sp(2) by (subst unat_add_nowrap) simp_all
  then show "a + 32 \<noteq> NULL" by (metis add_is_0 unat_0 numeral_neq_zero)
  show "in_region x (a + 32) n \<longleftrightarrow> in_payload x (a, n, f)"
    using in_region_unat [of "a + 32" n x] u le sp(2) by (simp add: in_payload_def)
  obtain q where "hdr (kmem s) a q n f" using chain_hdr [OF ch assms(2)] by blast
  then show "unat (size64 (kmem s) a :: u64) = n" by (simp add: hdr_def unat_ucast_up)
qed

lemma kcalloc_block:
  assumes heap: "heap_at s bs hi" and co: "coalesced bs"
    and dims: "unat nmemb \<le> 0xFFFFFFFF" "unat sz \<le> 0xFFFFFFFF"
    and pk: "pick (round16 (max 1 (unat nmemb * unat sz))) bs = Some a" and fuel: "length bs \<le> fuel"
  shows "\<exists>s' bs' n. kcalloc fuel brk nmemb sz s = Done (a + 32, s') \<and> heap_at s' bs' hi \<and> coalesced bs'
     \<and> 0 < n \<and> unat nmemb * unat sz \<le> n \<and> in_use bs' = insert (a, n, False) (in_use bs)
     \<and> (\<forall>x. in_payload x (a, n, False) \<longrightarrow> kmem s' x = 0)
     \<and> (\<forall>b \<in> in_use bs. fst b \<noteq> a \<and> (\<forall>x. in_payload x b \<longrightarrow> kmem s' x = kmem s x))"
proof -
  let ?p = "unat nmemb * unat sz"
  note r = kcalloc_size [OF heap pk]
  have pk': "pick (round16 (max 1 (unat (ROUND_UP (nmemb * sz) ALIGN_SIZE)))) bs = Some a"
    using pk unfolding r(1) round16_again .
  obtain s1 bs' k where k: "kmalloc fuel brk (ROUND_UP (nmemb * sz) ALIGN_SIZE) s = Done (a + 32, s1)"
      "heap_at s1 bs' hi" "coalesced bs'" "in_use bs' = insert (a, k, False) (in_use bs)" "round16 (max 1 (round16 ?p)) \<le> k"
    and keep: "\<forall>b \<in> in_use bs. fst b \<noteq> a \<and> (\<forall>x. in_payload x b \<longrightarrow> \<not> in_payload x (a, k, False) \<and> kmem s1 x = kmem s x)"
    using kmalloc_block [OF heap co pk' fuel, of brk] unfolding r(1) by blast
  have mem: "(a, k, False) \<in> set bs'" using k(4) by (auto simp: in_use_def)
  note pay = payload_region [OF k(2) mem]
  define m where "m = memset (a + 32) 0 (size64 (kmem s1) a) (kmem s1)"
  have km: "m x = (if in_payload x (a, k, False) then 0 else kmem s1 x)" for x
    unfolding m_def memset_apply pay(3) pay(1) by simp
  have "\<not> (nmemb > 0xFFFFFFFF \<or> sz > 0xFFFFFFFF \<or> ROUND_UP (nmemb * sz) ALIGN_SIZE > 0xFFFFFFFF)"
    using dims r by (simp add: word_less_nat_alt)
  then have run: "kcalloc fuel brk nmemb sz s = Done (a + 32, s1\<lparr>kmem := m\<rparr>)"
    using k(1) pay(2) by (simp add: kcalloc_def Let_def on_mem_def m_def GET_HEADER_def HEADER_SIZE_def)
  have "heap_at (s1\<lparr>kmem := m\<rparr>) bs' hi" by (rule heap_at_payload_write [OF k(2) mem]) (simp add: km)
  moreover have "?p \<le> k" "0 < k" using k(5) round16_bounds(1) [of ?p] round16_bounds(1) [of "max 1 (round16 ?p)"] by simp_all
  ultimately show ?thesis
    using run k(3,4) km keep by (intro exI [of _ "s1\<lparr>kmem := m\<rparr>"] exI [of _ bs'] exI [of _ k]) auto
qed

text \<open>An array the block list can serve gets a block whose whole payload is zero; the list
  stays well formed and no payload of a block in use changes.\<close>

theorem kcalloc_clears:
  assumes "heap_at s bs hi" and "coalesced bs" and "unat nmemb \<le> 0xFFFFFFFF" "unat sz \<le> 0xFFFFFFFF"
    and "pick (round16 (max 1 (unat nmemb * unat sz))) bs = Some a" and "length bs \<le> fuel"
  shows "\<exists>s' bs' n. kcalloc fuel brk nmemb sz s = Done (a + 32, s') \<and> heap_at s' bs' hi
     \<and> unat nmemb * unat sz \<le> n \<and> in_use bs' = insert (a, n, False) (in_use bs)
     \<and> (\<forall>x. in_payload x (a, n, False) \<longrightarrow> kmem s' x = 0)
     \<and> (\<forall>b \<in> in_use bs. \<forall>x. in_payload x b \<longrightarrow> kmem s' x = kmem s x)"
  using kcalloc_block [OF assms, of brk] by blast

section \<open>Reallocation in place\<close>

lemma krealloc_cut:
  assumes heap: "heap_at s (xs @ (a, n, False) # ys) hi" and sz: "0 < unat sz" "round16 (unat sz) + 48 \<le> n"
  shows "\<exists>s'. krealloc fuel brk (a + 32) sz s = Done (a + 32, s')
     \<and> heap_at s' (xs @ (a, round16 (unat sz), False)
                      # join_next (a + 32 + of_nat (round16 (unat sz)), n - round16 (unat sz) - 32, True) ys) hi
     \<and> (\<forall>x. \<not> in_headers x (xs @ (a, n, False) # ys) \<longrightarrow> \<not> (unat a + 32 + round16 (unat sz) \<le> unat x \<and> unat x < unat a + 32 + n)
            \<longrightarrow> kmem s' x = kmem s x)"
proof -
  let ?n = "round16 (unat sz)"
  have ch: "chain (kmem s) NULL (kernel_heap_head s) (xs @ (a, n, False) # ys)"
    and sp: "spaced (unat (kernel_heap_head s)) hi (xs @ (a, n, False) # ys)"
    and hi: "hi < 18446744073709551616" "hi \<le> unat (kernel_heap_head s) + 4294967296"
    using heap by (auto simp: heap_at_def)
  obtain q where h: "hdr (kmem s) a q n False" using chain_hdr [OF ch, of a n False] by auto
  then have n32: "n < 4294967296" using unat_u32_less [of "h_size (kmem s) a"] by (simp add: hdr_def)
  have small: "unat sz \<le> 4294967295" using round16_bounds(1) [of "unat sz"] sz(2) n32 by simp
  have r: "unat (ROUND_UP sz ALIGN_SIZE) = ?n" using ROUND_UP_16 [OF _ small] sz(1) by simp
  then have rw: "ROUND_UP sz ALIGN_SIZE = of_nat ?n"
    using sz(2) n32 by (simp add: word_unat_eq_iff unat_of_nat_u64)
  have u: "unat (a + 32) = unat a + 32"
    using spaced_addr [OF sp, of a n False] hi(1) by (subst unat_add_nowrap) simp_all
  have nz: "a + 32 \<noteq> NULL" using u by (metis add_is_0 unat_0 numeral_neq_zero)
  have c: "sz \<noteq> 0" "\<not> sz > 0xFFFFFFFF" "\<not> ROUND_UP sz ALIGN_SIZE > 0xFFFFFFFF"
    "ROUND_UP sz ALIGN_SIZE < size64 (kmem s) a"
    using sz small r n32 h by (auto simp: word_less_nat_alt hdr_def unat_ucast_up)
  define s' where "s' = on_mem (split_block a (of_nat ?n)) s"
  have run: "krealloc fuel brk (a + 32) sz s = Done (a + 32, s')"
    using nz c by (simp add: krealloc_def Let_def GET_HEADER_def HEADER_SIZE_def s'_def rw)
  have n32': "?n < 4294967296" using sz(2) n32 by simp
  note split = split_in_list [OF ch sp hi n32']
  have cut: "cut_at a n f ?n ys = (a, ?n, f) # join_next (a + 32 + of_nat ?n, n - ?n - 32, True) ys" for f
    using sz(2) by (simp add: cut_at_def)
  have "kmem s' x = kmem s x" if "\<not> in_headers x (xs @ (a, n, False) # ys)"
      "\<not> (unat a + 32 + ?n \<le> unat x \<and> unat x < unat a + 32 + n)" for x
    using split(3) [of x] that by (auto simp: s'_def in_headers_def)
  then show ?thesis
    using run split(1,2) hi unfolding cut by (intro exI [of _ s']) (auto simp: heap_at_def s'_def)
qed

text \<open>Shrinking a block keeps its address and the bytes of the new size; what is cut off
  becomes free, joined with a free successor.\<close>

theorem krealloc_shrinks:
  assumes heap: "heap_at s (xs @ (a, n, False) # ys) hi" and sz: "0 < unat sz" "round16 (unat sz) + 48 \<le> n"
  shows "\<exists>s'. krealloc fuel brk (a + 32) sz s = Done (a + 32, s')
     \<and> heap_at s' (xs @ (a, round16 (unat sz), False)
                      # join_next (a + 32 + of_nat (round16 (unat sz)), n - round16 (unat sz) - 32, True) ys) hi
     \<and> (\<forall>x. in_payload x (a, round16 (unat sz), False) \<longrightarrow> kmem s' x = kmem s x)"
proof -
  let ?n = "round16 (unat sz)" and ?bs = "xs @ (a, n, False) # ys"
  have sp: "spaced (unat (kernel_heap_head s)) hi ?bs" "hi < 18446744073709551616" using heap by (auto simp: heap_at_def)
  have "\<not> in_headers x ?bs \<and> \<not> (unat a + 32 + ?n \<le> unat x \<and> unat x < unat a + 32 + n)"
    if x: "in_payload x (a, ?n, False)" for x
  proof -
    have "in_payload x (a, n, False)" using x sz(2) by (simp add: in_payload_def)
    then have "\<not> in_headers x ?bs" by (intro payload_not_header [OF sp]) auto
    then show ?thesis using x by (simp add: in_payload_def)
  qed
  then show ?thesis using krealloc_cut [OF heap sz, of fuel brk] by metis
qed

text \<open>Cutting a block that was merged with its neighbour leaves a rest that touches no free block.\<close>

lemma cut_at_between:
  assumes sp: "spaced (unat a) hi ((a, n + 32 + k, True) # ys)" and hi: "hi < 18446744073709551616"
    and sz: "sz + 48 \<le> n + 32 + k" and co: "coalesced ((c, k, True) # ys)" and adj: "unat a + 32 + n = unat c"
  shows "cut_at a (n + 32 + k) f sz ys = (a, sz, f) # (a + 32 + of_nat sz, n + 32 + k - sz - 32, True) # ys"
proof -
  have e: "unat (a + 32 + of_nat sz) + 32 + (n + 32 + k - sz - 32) = unat c + 32 + k"
    using spaced_split(2) [OF sp hi sz] sz adj by simp
  have "join_next (a + 32 + of_nat sz, n + 32 + k - sz - 32, True) ys = (a + 32 + of_nat sz, n + 32 + k - sz - 32, True) # ys"
  proof (cases ys)
    case (Cons y zs)
    then show ?thesis using co e by (cases y) auto
  qed simp
  then show ?thesis using sz by (simp add: cut_at_def)
qed

text \<open>Growing a block into its free successor keeps its address, but cuts the merged block at
  the size asked for and not at that size rounded up to 16: the header after it, and every
  payload in the block it starts, lies at an address that is not a multiple of 16 whenever the
  size is not.\<close>

theorem krealloc_grow_unaligned:
  assumes heap: "heap_at s (xs @ (a, n, False) # (c, k, True) # ys) hi" and adj: "unat a + 32 + n = unat c"
    and co: "coalesced ((c, k, True) # ys)"
    and sz: "n \<le> round16 (unat sz)" "0 < unat sz" "round16 (unat sz) \<le> n + 32 + k" "unat sz + 48 \<le> n + 32 + k"
    and al: "unat a mod 16 = 0"
  shows "\<exists>s'. krealloc fuel brk (a + 32) sz s = Done (a + 32, s')
     \<and> heap_at s' (xs @ (a, unat sz, False) # (a + 32 + of_nat (unat sz), n + 32 + k - unat sz - 32, True) # ys) hi
     \<and> unat (a + 32 + of_nat (unat sz)) mod 16 = unat sz mod 16"
proof -
  let ?n = "round16 (unat sz)" and ?h = "kernel_heap_head s" and ?k = "n + 32 + k"
  have ch: "chain (kmem s) NULL ?h (xs @ (a, n, False) # (c, k, True) # ys)"
    and sp: "spaced (unat ?h) hi (xs @ (a, n, False) # (c, k, True) # ys)"
    and hi: "hi < 18446744073709551616" "hi \<le> unat ?h + 4294967296"
    using heap by (auto simp: heap_at_def)
  have ok: "hdr_ok a" using addrs_hdr_ok [OF sp hi(1), of a] by simp
  define m1 where "m1 = set_free a True (kmem s)"
  define m2 where "m2 = merge_blocks a (h_next m1 a) m1"
  define m3 where "m3 = set_free a False m2"
  define m4 where "m4 = split_block a sz m3"
  note f1 = set_free_in_list(1,2) [OF ch sp hi(1), of True]
  have j: "join_next (a, n, True) ((c, k, True) # ys) = (a, ?k, True) # ys" using adj by simp
  have c2: "chain m2 NULL ?h (xs @ (a, ?k, True) # ys)" and sp2: "spaced (unat ?h) hi (xs @ (a, ?k, True) # ys)"
    using merge_in_list(1,2) [OF f1 hi] unfolding j by (simp_all add: m2_def m1_def)
  have c3: "chain m3 NULL ?h (xs @ (a, ?k, False) # ys)" and sp3: "spaced (unat ?h) hi (xs @ (a, ?k, False) # ys)"
    using set_free_in_list(1,2) [OF c2 sp2 hi(1), of False] by (simp_all add: m3_def)
  obtain q where h: "hdr (kmem s) a q n False" using chain_hdr [OF ch, of a n False] by auto
  obtain r where h2: "hdr m2 a r ?k True" using chain_hdr [OF c2, of a ?k True] by auto
  then have k32: "?k < 4294967296" using unat_u32_less [of "h_size m2 a"] by (simp add: hdr_def)
  have small: "unat sz \<le> 4294967295" using sz(4) k32 by simp
  have rt: "unat (ROUND_UP sz ALIGN_SIZE) = ?n" using ROUND_UP_16 [OF _ small] sz(2) by simp
  have u: "unat (a + 32) = unat a + 32"
    using ok spaced_addr [OF sp, of a n False] hi(1) by (subst unat_add_nowrap) simp_all
  have nz: "a + 32 \<noteq> NULL" using u by (metis add_is_0 unat_0 numeral_neq_zero)
  have g: "sz \<noteq> 0" "\<not> sz > 0xFFFFFFFF" "\<not> ROUND_UP sz ALIGN_SIZE > 0xFFFFFFFF"
    "\<not> ROUND_UP sz ALIGN_SIZE < size64 (kmem s) a" "\<not> size64 m2 a < ROUND_UP sz ALIGN_SIZE"
    "\<not> size64 m3 a < ROUND_UP sz ALIGN_SIZE" "h_ptr m2 a = a + 32"
    using sz small rt k32 h h2
    by (auto simp: word_less_nat_alt hdr_def unat_ucast_up m3_def field_same [OF ok])
  define s' where "s' = s\<lparr>kmem := m4\<rparr>"
  have run: "krealloc fuel brk (a + 32) sz s = Done (a + 32, s')"
    using nz g
    by (simp add: krealloc_def Let_def GET_HEADER_def HEADER_SIZE_def on_mem_def s'_def m4_def
        m1_def [symmetric] m2_def [symmetric] m3_def [symmetric])
  have sz_eq: "of_nat (unat sz) = sz" by simp
  have s32: "unat sz < 4294967296" using small by simp
  have spb: "spaced (unat a) hi ((a, ?k, True) # ys)" using sp2 by (auto simp: spaced_append)
  note c4 = cut_at_between [OF spb hi(1) sz(4) co adj, of False]
  have heap': "heap_at s' (xs @ (a, unat sz, False) # (a + 32 + of_nat (unat sz), ?k - unat sz - 32, True) # ys) hi"
    using split_in_list(1) [OF c3 sp3 hi s32] split_in_list(2) [OF c3 sp3 hi s32, of False] hi c4
    unfolding sz_eq by (simp add: heap_at_def s'_def m4_def)
  have "unat (a + 32 + of_nat (unat sz)) = unat a + 32 + unat sz"
    using spaced_split(2) [of "unat a" hi a ?k True ys "unat sz"] sp2 sz(4) hi(1)
    by (auto simp: spaced_append)
  then have "unat (a + 32 + of_nat (unat sz)) mod 16 = unat sz mod 16"
    using al mod_add_eq [of "unat a + 32" 16 "unat sz"] mod_add_eq [of "unat a" 16 32] by simp
  then show ?thesis using run heap' by blast
qed

section \<open>Growing the heap\<close>


text \<open>The allocator asks \<open>kbrk\<close> for a bin and a header, and \<open>kbrk\<close> drops the header as the
  remainder of a page: the block it makes ends 32 bytes above the break, and the header of the
  next extension is written over the last 32 bytes of its payload.\<close>

theorem heap_extensions_overlap:
  assumes "page_aligned (virt_addr_bank (brk_state s) MMU_VADDR_KHEAP)"
    and "virt_addr_bank (brk_state s) MMU_VADDR_KHEAP \<noteq> NULL"
    and "unat (virt_addr_bank (brk_state s) MMU_VADDR_KHEAP) + 131136 < 18446744073709551616"
    and "extend_mem kbrk BIN_SIZE p1 n1 s = Done (b1, s1)"
    and "extend_mem kbrk BIN_SIZE p2 n2 s1 = Done (b2, s2)"
  shows "unat b1 + 32 \<le> unat b2 \<and> unat b2 + 32 = unat (h_ptr (kmem s1) b1 + size64 (kmem s1) b1)"
  using kb.extend_twice [OF _ assms(2,3,4,5)] assms(1) by (auto simp: page_aligned_def)

section \<open>Witnesses\<close>

text \<open>A heap of one free block of 4096 bytes at the start of the heap region.\<close>

definition sample_heap :: "mmu kheap" where
  "sample_heap = \<lparr>kmem = set_prev 0x10000000000 NULL (set_next 0x10000000000 NULL
       (set_free 0x10000000000 True (set_size 0x10000000000 4096
         (set_ptr 0x10000000000 0x10000000020 (\<lambda>_. 0))))),
     kernel_heap_head = 0x10000000000,
     brk_state = sample_mmu\<lparr>virt_addr_bank := (virt_addr_bank_init)(MMU_VADDR_KHEAP := 0x10000010000)\<rparr>,
     kerrno = 0, heap_log = []\<rparr>"

lemma sample_heap_at: "heap_at sample_heap [(0x10000000000, 4096, True)] 0x10000001020"
proof -
  have ok: "hdr_ok 0x10000000000" by (simp add: hdr_ok_def)
  show ?thesis by (simp add: heap_at_def sample_heap_def hdr_def field_same [OF ok])
qed

lemma sample_brk: "kbrk 0 (brk_state sample_heap) = Done (0x10000010000, brk_state sample_heap)"
  by (simp add: kbrk_def sample_heap_def)

lemma sample_pick: "pick (round16 (max 1 (unat (100 :: u64)))) [(0x10000000000, 4096, True)] = Some 0x10000000000"
  by (simp add: round16_def)

theorem kmalloc_serves_request_witness:
  "\<exists>s' bs'. kmalloc 1 kbrk 100 sample_heap = Done (0x10000000020, s') \<and> heap_at s' bs' 0x10000001020"
  using kmalloc_serves_request [OF sample_heap_at _ sample_pick, of 1 kbrk] by auto

theorem kmalloc_kfree_roundtrip_witness:
  "\<exists>s1 s2. kmalloc 2 kbrk 100 sample_heap = Done (0x10000000020, s1) \<and> kfree 2 kbrk 0x10000000020 s1 = Done s2
     \<and> heap_at s2 [(0x10000000000, 4096, True)] 0x10000001020"
  using kmalloc_kfree_roundtrip [of sample_heap _ _ 100 _ 2 kbrk, OF sample_heap_at _ sample_pick _ sample_brk]
  by auto

text \<open>The same heap with one block of 96 bytes in use before the free one.\<close>

lemma sample_used:
  "\<exists>s. heap_at s [(0x10000000000, 96, False), (0x10000000080, 3968, True)] 0x10000001020
     \<and> brk_state s = brk_state sample_heap"
proof -
  obtain s' xs n ys where s': "[(0x10000000000, 4096, True)] = xs @ (0x10000000000, n, True) # ys"
    "heap_at s' (xs @ taken 0x10000000000 n (round16 (max 1 (unat (96 :: u64)))) ys) 0x10000001020"
    "brk_state s' = brk_state sample_heap"
    using kmalloc_pick [OF sample_heap_at, of 96 _ 1 kbrk] by (fastforce simp: round16_def)
  then have "xs = []" "n = 4096" "ys = []" by (cases xs; simp)+
  then show ?thesis using s' by (intro exI [of _ s']) (simp add: taken_def round16_def)
qed

theorem kfree_releases_block_witness:
  "\<exists>s s' bs'. kfree 2 kbrk 0x10000000040 s = Done s' \<and> heap_at s' bs' 0x10000001020 \<and> in_use bs' = {}"
proof -
  obtain s where s: "heap_at s [(0x10000000000, 96, False), (0x10000000080, 3968, True)] 0x10000001020"
    "brk_state s = brk_state sample_heap" using sample_used by blast
  show ?thesis
    using kfree_releases_block [of s _ _ "0x10000000000" 96 "0x10000000040" 2 kbrk, OF s(1) _ _ _ _ _ sample_brk [folded s(2)]]
    by auto
qed

theorem large_requests_refused_witness:
  "kmalloc 0 kbrk 0xFFFFFFF1 sample_heap = Done (NULL, sample_heap\<lparr>kerrno := ENOMEM\<rparr>)
   \<and> kcalloc 0 kbrk 0x10000 0x10000 sample_heap = Done (NULL, sample_heap\<lparr>kerrno := ENOMEM\<rparr>)"
  using large_requests_refused [of "0xFFFFFFF1" 0 kbrk sample_heap] large_requests_refused [of "0x10000" 0 kbrk sample_heap "0x10000"]
  by simp

theorem kcalloc_clears_witness:
  "\<exists>s' bs' n. kcalloc 1 kbrk 10 10 sample_heap = Done (0x10000000020, s') \<and> heap_at s' bs' 0x10000001020
     \<and> 100 \<le> n \<and> (\<forall>x. in_payload x (0x10000000000, n, False) \<longrightarrow> kmem s' x = 0)"
proof -
  have "pick (round16 (max 1 (unat (10 :: u64) * unat (10 :: u64)))) [(0x10000000000, 4096, True)] = Some 0x10000000000"
    by (simp add: round16_def)
  note pk = this
  have "\<exists>s' bs' n. kcalloc 1 kbrk 10 10 sample_heap = Done (0x10000000000 + 32, s') \<and> heap_at s' bs' 0x10000001020
     \<and> unat (10 :: u64) * unat (10 :: u64) \<le> n \<and> in_use bs' = insert (0x10000000000, n, False) (in_use [(0x10000000000, 4096, True)])
     \<and> (\<forall>x. in_payload x (0x10000000000, n, False) \<longrightarrow> kmem s' x = 0)
     \<and> (\<forall>b \<in> in_use [(0x10000000000, 4096, True)]. \<forall>x. in_payload x b \<longrightarrow> kmem s' x = kmem sample_heap x)"
    by (rule kcalloc_clears [OF sample_heap_at _ _ _ pk]) simp_all
  then obtain s' bs' n where k: "kcalloc 1 kbrk 10 10 sample_heap = Done (0x10000000000 + 32, s')"
    "heap_at s' bs' 0x10000001020" "unat (10 :: u64) * unat (10 :: u64) \<le> n"
    "\<forall>x. in_payload x (0x10000000000, n, False) \<longrightarrow> kmem s' x = 0"
    by blast
  have "(0x10000000000 + 32 :: addr) = 0x10000000020" "100 \<le> n" using k(3) by simp_all
  then show ?thesis using k(1,2,4) by (intro exI [of _ s'] exI [of _ bs'] exI [of _ n]) simp
qed

theorem krealloc_shrinks_witness:
  "\<exists>s s'. krealloc 1 kbrk 0x10000000020 20 s = Done (0x10000000020, s')
     \<and> heap_at s' [(0x10000000000, 32, False), (0x10000000040, 4032, True)] 0x10000001020"
proof -
  obtain s :: "mmu kheap" where s: "heap_at s ([] @ (0x10000000000, 96, False) # [(0x10000000080, 3968, True)]) 0x10000001020"
    using sample_used by auto
  show ?thesis using krealloc_shrinks [OF s, of 20 1 kbrk] by (auto simp: round16_def)
qed

theorem krealloc_grow_unaligned_witness:
  "\<exists>s s'. krealloc 1 kbrk 0x10000000020 101 s = Done (0x10000000020, s')
     \<and> heap_at s' [(0x10000000000, 101, False), (0x10000000085, 3963, True)] 0x10000001020"
proof -
  obtain s :: "mmu kheap" where s: "heap_at s ([] @ (0x10000000000, 96, False) # (0x10000000080, 3968, True) # []) 0x10000001020"
    using sample_used by auto
  show ?thesis using krealloc_grow_unaligned [OF s, of 101 1 kbrk] by (auto simp: round16_def)
qed

definition empty_heap :: "mmu \<Rightarrow> mmu kheap" where
  "empty_heap m = \<lparr>kmem = (\<lambda>_. 0), kernel_heap_head = NULL, brk_state = m, kerrno = 0, heap_log = []\<rparr>"

lemma big_mmu_bank: "virt_addr_bank big_mmu = virt_addr_bank_init"
  by (simp add: big_mmu_def sample_bank)


theorem heap_extensions_overlap_witness:
  "\<exists>b1 s1 b2 s2. extend_mem kbrk BIN_SIZE NULL NULL (empty_heap big_mmu) = Done (b1, s1)
     \<and> extend_mem kbrk BIN_SIZE b1 NULL s1 = Done (b2, s2)
     \<and> unat b1 + 32 \<le> unat b2 \<and> unat b2 + 32 = unat (h_ptr (kmem s1) b1 + size64 (kmem s1) b1)"
proof -
  let ?s = "empty_heap big_mmu"
  let ?xs = "0x200000 # range_frames \<lparr>start = 0x200000, curr_frame = 0x201000, end_addr = 0xA00000\<rparr>"
  have bs: "brk_state ?s = big_mmu" by (simp add: empty_heap_def)
  have b: "virt_addr_bank (brk_state ?s) MMU_VADDR_KHEAP = 0x10000000000" by (simp add: bs big_mmu_bank bank_KHEAP)
  have n: "unat (65568 div 4096 :: u64) = 16" by simp
  obtain m1 k where m1: "kbrk 65568 (brk_state ?s) = Done (0x10000000000, m1)" "k \<le> 3 * 16" "mmu_inv m1 (drop k ?xs)"
    "virt_addr_bank m1 = (virt_addr_bank (brk_state ?s))(MMU_VADDR_KHEAP := 0x10000000000 + 4096 * (65568 div 4096))"
    using kbrk_ok [of "brk_state ?s" ?xs 65568] big_mmu_inv big_mmu_length unfolding n b
    by (auto simp: page_aligned_def bs)
  have b1: "virt_addr_bank m1 MMU_VADDR_KHEAP = 0x10000010000" using m1(4) by simp
  have len: "3 * unat (65568 div 4096 :: u64) < length (drop k ?xs)"
    using m1(2) big_mmu_length unfolding n by simp
  have al: "page_aligned (virt_addr_bank m1 MMU_VADDR_KHEAP)" unfolding b1 by (simp add: page_aligned_def)
  have "\<exists>m2. kbrk 65568 m1 = Done (0x10000010000, m2)" using kbrk_ok [OF m1(3) len al] unfolding b1 by blast
  then obtain m2 where m2: "kbrk 65568 m1 = Done (0x10000010000, m2)" by blast
  obtain s1 where s1: "extend_mem kbrk BIN_SIZE NULL NULL ?s = Done (0x10000000000, s1)" "brk_state s1 = m1"
    using kb.extend_bin [OF _ m1(1), of NULL NULL] unfolding b by auto
  have m2': "kbrk 65568 (brk_state s1) = Done (0x10000010000, m2)" using m2 s1(2) by simp
  obtain s2 where s2: "extend_mem kbrk BIN_SIZE 0x10000000000 NULL s1 = Done (0x10000010000, s2)"
    using kb.extend_bin [OF _ m2', of "0x10000000000" NULL] unfolding s1(2) b1 by auto
  show ?thesis
    using heap_extensions_overlap [OF _ _ _ s1(1) s2] s1(1) s2 unfolding b by (auto simp: page_aligned_def)
qed

end
