(* ===== verification/HeapRun.thy ===== *)
theory HeapRun imports KmallocProps begin

text \<open>
  The kernel heap (lib/kmalloc.c) in use: allocations, releases and the writes of their callers in
  any order, over a record of what every live block holds. The requests are those that the list of
  blocks can serve; what a further extension of the heap does is in \<open>heap_extensions_overlap\<close>.
\<close>

section \<open>The client's view\<close>

text \<open>\<open>live p\<close> are the bytes of the block whose pointer \<open>p\<close> is, as far as it was asked for.\<close>

type_synonym live_blocks = "addr \<Rightarrow> u8 list option"

definition bytes_at :: "mem \<Rightarrow> addr \<Rightarrow> nat \<Rightarrow> u8 list" where
  "bytes_at m p n = map (\<lambda>i. m (p + of_nat i)) [0..<n]"

inductive heap_step :: "'b brk_fn \<Rightarrow> 'b kheap \<Rightarrow> live_blocks \<Rightarrow> 'b kheap \<Rightarrow> live_blocks \<Rightarrow> bool" for brk where
  malloc: "heap_at s bs hi \<Longrightarrow> pick (round16 (max 1 (unat sz))) bs = Some a \<Longrightarrow> length bs \<le> fuel \<Longrightarrow>
     kmalloc fuel brk sz s = Done (p, t) \<Longrightarrow> heap_step brk s live t (live(p \<mapsto> bytes_at (kmem t) p (unat sz)))"
| calloc: "heap_at s bs hi \<Longrightarrow> pick (round16 (max 1 (unat nmemb * unat sz))) bs = Some a \<Longrightarrow> length bs \<le> fuel \<Longrightarrow>
     unat nmemb \<le> 0xFFFFFFFF \<Longrightarrow> unat sz \<le> 0xFFFFFFFF \<Longrightarrow> kcalloc fuel brk nmemb sz s = Done (p, t) \<Longrightarrow>
     heap_step brk s live t (live(p \<mapsto> replicate (unat nmemb * unat sz) 0))"
| shrink: "live p = Some vs \<Longrightarrow> 0 < unat sz \<Longrightarrow> unat sz \<le> length vs \<Longrightarrow>
     ROUND_UP sz ALIGN_SIZE < size64 (kmem s) (GET_HEADER p) \<Longrightarrow> krealloc fuel brk p sz s = Done (q, t) \<Longrightarrow>
     heap_step brk s live t ((live(p := None))(q \<mapsto> take (unat sz) vs))"
| free: "live p = Some vs \<Longrightarrow> heap_at s bs hi \<Longrightarrow> length bs \<le> fuel \<Longrightarrow> kfree fuel brk p s = Done t \<Longrightarrow>
     heap_step brk s live t (live(p := None))"
| set_byte: "live p = Some vs \<Longrightarrow> i < length vs \<Longrightarrow>
     heap_step brk s live (on_mem (\<lambda>m. m(p + of_nat i := v)) s) (live(p \<mapsto> vs[i := v]))"

text \<open>From any well-formed heap whose blocks in use nobody else's record mentions.\<close>

inductive heap_run :: "'b brk_fn \<Rightarrow> 'b kheap \<Rightarrow> live_blocks \<Rightarrow> bool" for brk where
  fresh: "heap_at s bs hi \<Longrightarrow> coalesced bs \<Longrightarrow> heap_run brk s (\<lambda>_. None)"
| step: "heap_run brk s live \<Longrightarrow> heap_step brk s live t live' \<Longrightarrow> heap_run brk t live'"

section \<open>What every step keeps\<close>

text \<open>Every recorded pointer is the payload of a block in use, at least as long, with these bytes.\<close>

definition records :: "blk list \<Rightarrow> mem \<Rightarrow> live_blocks \<Rightarrow> bool" where
  "records bs m live \<longleftrightarrow> (\<forall>p vs. live p = Some vs \<longrightarrow>
     (\<exists>a n. p = a + 32 \<and> (a, n, False) \<in> in_use bs \<and> 0 < n \<and> length vs \<le> n
        \<and> (\<forall>i < length vs. m (p + of_nat i) = vs ! i)))"

definition heap_good :: "'b kheap \<Rightarrow> live_blocks \<Rightarrow> bool" where
  "heap_good s live \<longleftrightarrow> (\<exists>bs hi. heap_at s bs hi \<and> coalesced bs \<and> records bs (kmem s) live)"

lemma chain_unique: "chain m p b bs \<Longrightarrow> chain m p b cs \<Longrightarrow> bs = cs"
proof (induction m p b bs arbitrary: cs rule: chain.induct)
  case (1 m p b)
  then show ?case by (cases "(m, p, b, cs)" rule: chain.cases) (auto simp: hdr_def)
next
  case (2 m p b a n f bs)
  then show ?case by (cases "(m, p, b, cs)" rule: chain.cases) (auto simp: hdr_def)
qed

lemma heap_at_unique: "heap_at s bs hi \<Longrightarrow> heap_at s cs hj \<Longrightarrow> bs = cs"
  unfolding heap_at_def using chain_unique by blast

text \<open>The bytes of a payload, by their offset.\<close>

lemma block_small: "heap_at s bs hi \<Longrightarrow> (a, n, f) \<in> set bs \<Longrightarrow> n < 18446744073709551616"
  using spaced_addr [of "unat (kernel_heap_head s)" hi bs a n f] by (simp add: heap_at_def)

lemma payload_byte:
  assumes "heap_at s bs hi" "(a, n, f) \<in> set bs" "i < n"
  shows "in_payload (a + 32 + of_nat i) (a, n, f)"
  using payload_region(1) [OF assms(1,2)] in_region_offset [of i "a + 32" n] assms(3) block_small [OF assms(1,2)] by simp

lemma records_mono:
  assumes heap: "heap_at s bs hi" and rec: "records bs (kmem s) live"
    and blk: "\<And>a n. (a, n, False) \<in> in_use bs \<Longrightarrow> live (a + 32) \<noteq> None \<Longrightarrow> (a, n, False) \<in> in_use bs'
        \<and> (\<forall>x. in_payload x (a, n, False) \<longrightarrow> m x = kmem s x)"
  shows "records bs' m live"
  unfolding records_def
proof (intro allI impI)
  fix p vs assume p: "live p = Some vs"
  then obtain a n where a: "p = a + 32" "(a, n, False) \<in> in_use bs" "0 < n" "length vs \<le> n"
    "\<forall>i < length vs. kmem s (p + of_nat i) = vs ! i"
    using rec unfolding records_def by metis
  have mem: "(a, n, False) \<in> set bs" using a(2) by (simp add: in_use_def)
  have b: "(a, n, False) \<in> in_use bs'" "\<forall>x. in_payload x (a, n, False) \<longrightarrow> m x = kmem s x"
    using blk [OF a(2)] p a(1) by auto
  have "m (p + of_nat i) = vs ! i" if "i < length vs" for i
    using b(2) payload_byte [OF heap mem, of i] a(1,4,5) that by simp
  then show "\<exists>a n. p = a + 32 \<and> (a, n, False) \<in> in_use bs' \<and> 0 < n \<and> length vs \<le> n
        \<and> (\<forall>i < length vs. m (p + of_nat i) = vs ! i)"
    using a b(1) by blast
qed

lemma records_update:
  assumes "records bs m (live(p := None))" and "(a, n, False) \<in> in_use bs" "p = a + 32" "0 < n" "length vs \<le> n"
    "\<forall>i < length vs. m (p + of_nat i) = vs ! i"
  shows "records bs m (live(p \<mapsto> vs))"
  using assms unfolding records_def by (metis fun_upd_apply option.inject)

lemma records_forget: "records bs m live \<Longrightarrow> records bs m (live(p := None))"
  by (simp add: records_def)

lemma records_other:
  assumes "records bs m live" "live p = Some vs" "p = a + 32" "(a, n, False) \<in> in_use bs"
    and sp: "spaced lo hi bs"
  shows "0 < n" "length vs \<le> n" "\<forall>i < length vs. m (p + of_nat i) = vs ! i"
proof -
  obtain c k where c: "p = c + 32" "(c, k, False) \<in> in_use bs" "0 < k" "length vs \<le> k"
    "\<forall>i < length vs. m (p + of_nat i) = vs ! i"
    using assms(1,2) unfolding records_def by metis
  have "c = a" using c(1) assms(3) by simp
  moreover have "k = n"
  proof (rule ccontr)
    assume "k \<noteq> n"
    then have "unat a + 32 + k \<le> unat a \<or> unat a + 32 + n \<le> unat a"
      using spaced_disjoint [OF sp, of a k False a n False] c(2) assms(4) \<open>c = a\<close> by (auto simp: in_use_def)
    then show False by simp
  qed
  ultimately show "0 < n" "length vs \<le> n" "\<forall>i < length vs. m (p + of_nat i) = vs ! i" using c by simp_all
qed

text \<open>A new block.\<close>

lemma good_new:
  assumes heap: "heap_at s bs hi" and rec: "records bs (kmem s) live"
    and t: "heap_at t bs' hi" "coalesced bs'" and use: "in_use bs' = insert (a, n, False) (in_use bs)" "0 < n" "length vs \<le> n"
    and keep: "\<forall>b \<in> in_use bs. fst b \<noteq> a \<and> (\<forall>x. in_payload x b \<longrightarrow> kmem t x = kmem s x)"
    and vs: "\<forall>i < length vs. kmem t (a + 32 + of_nat i) = vs ! i"
  shows "heap_good t (live(a + 32 \<mapsto> vs))"
proof -
  have "records bs' (kmem t) live" by (rule records_mono [OF heap rec]) (use use(1) keep in auto)
  then have "records bs' (kmem t) (live(a + 32 \<mapsto> vs))"
    using use vs by (intro records_update [OF records_forget]) auto
  then show ?thesis using t by (auto simp: heap_good_def)
qed

text \<open>One block changes, and all others and their payloads stay.\<close>

lemma good_change:
  assumes heap: "heap_at s bs hi" and rec: "records bs (kmem s) live" and t: "heap_at t bs' hi" "coalesced bs'"
    and use: "in_use bs - {(a, n, False)} \<subseteq> in_use bs'" and a: "(a, n, False) \<in> in_use bs"
    and keep: "\<And>b x. b \<in> in_use bs \<Longrightarrow> b \<noteq> (a, n, False) \<Longrightarrow> in_payload x b \<Longrightarrow> kmem t x = kmem s x"
  shows "records bs' (kmem t) (live(a + 32 := None))"
proof (rule records_mono [OF heap records_forget [OF rec]])
  fix c k assume "(c, k, False) \<in> in_use bs" "(live(a + 32 := None)) (c + 32) \<noteq> None"
  moreover from this have "(c, k, False) \<noteq> (a, n, False)" by auto
  ultimately show "(c, k, False) \<in> in_use bs' \<and> (\<forall>x. in_payload x (c, k, False) \<longrightarrow> kmem t x = kmem s x)"
    using use keep by blast
qed

lemma recorded_block:
  assumes "heap_good s live" and "live p = Some vs"
  obtains bs hi a n where "heap_at s bs hi" "coalesced bs" "records bs (kmem s) live" "p = a + 32" "(a, n, False) \<in> in_use bs"
    "0 < n" "length vs \<le> n" "\<forall>i < length vs. kmem s (p + of_nat i) = vs ! i"
proof -
  obtain bs hi where h: "heap_at s bs hi" "coalesced bs" "records bs (kmem s) live"
    using assms(1) by (auto simp: heap_good_def)
  obtain a n where "p = a + 32" "(a, n, False) \<in> in_use bs" "0 < n" "length vs \<le> n" "\<forall>i < length vs. kmem s (p + of_nat i) = vs ! i"
    using h(3) assms(2) unfolding records_def by metis
  then show thesis using that h by blast
qed

text \<open>Payloads of different blocks share no byte.\<close>

lemma payloads_apart:
  assumes "heap_at s bs hi" "b \<in> in_use bs" "c \<in> in_use bs" "b \<noteq> c" "in_payload x b"
  shows "\<not> in_payload x c"
proof -
  obtain a n f d k g where bc: "b = (a, n, f)" "c = (d, k, g)" by (cases b, cases c)
  have "spaced (unat (kernel_heap_head s)) hi bs" using assms(1) by (simp add: heap_at_def)
  from spaced_disjoint [OF this, of a n f d k g] show ?thesis
    using assms bc by (auto simp: in_use_def in_payload_def)
qed

lemma good_write:
  assumes good: "heap_good s live" and p: "live p = Some vs" "i < length vs"
  shows "heap_good (on_mem (\<lambda>m. m(p + of_nat i := v)) s) (live(p \<mapsto> vs[i := v]))"
proof -
  obtain bs hi a n where h: "heap_at s bs hi" "coalesced bs" "records bs (kmem s) live" "p = a + 32" "(a, n, False) \<in> in_use bs"
    "0 < n" "length vs \<le> n" "\<forall>i < length vs. kmem s (p + of_nat i) = vs ! i"
    using recorded_block [OF good p(1)] .
  let ?t = "on_mem (\<lambda>m. m(p + of_nat i := v)) s"
  have mem: "(a, n, False) \<in> set bs" using h(5) by (simp add: in_use_def)
  have byte: "in_payload (p + of_nat i) (a, n, False)" using payload_byte [OF h(1) mem, of i] h(4,7) p(2) by simp
  have t: "heap_at ?t bs hi"
    unfolding on_mem_def by (rule heap_at_payload_write [OF h(1) mem]) (use byte in auto)
  have rec: "records bs (kmem ?t) (live(a + 32 := None))"
    by (rule good_change [OF h(1,3) t h(2) _ h(5)]) (use payloads_apart [OF h(1) _ h(5)] byte in auto)
  note n64 = block_small [OF h(1) mem]
  have "kmem ?t (p + of_nat j) = vs[i := v] ! j" if j: "j < length vs" for j
  proof (cases "j = i")
    case False
    have "p + of_nat j \<noteq> p + of_nat i"
    proof
      assume "p + of_nat j = p + of_nat i"
      then have "unat (of_nat j :: u64) = unat (of_nat i :: u64)" by simp
      then show False using False j p(2) h(7) n64 by (simp add: unat_of_nat_u64)
    qed
    then show ?thesis using False h(8) j by simp
  qed (use p(2) in simp)
  then have "records bs (kmem ?t) (live(p \<mapsto> vs[i := v]))"
    using rec h(4,5,6,7) by (intro records_update) auto
  then show ?thesis using t h(2) by (auto simp: heap_good_def)
qed

lemma good_shrink:
  assumes good: "heap_good s live" and p: "live p = Some vs" and sz: "0 < unat sz" "unat sz \<le> length vs"
    and less: "ROUND_UP sz ALIGN_SIZE < size64 (kmem s) (GET_HEADER p)" and run: "krealloc fuel brk p sz s = Done (q, t)"
  shows "q = p \<and> heap_good t (live(p \<mapsto> take (unat sz) vs))"
proof -
  obtain bs hi a n where h: "heap_at s bs hi" "coalesced bs" "records bs (kmem s) live" "p = a + 32" "(a, n, False) \<in> in_use bs"
    "0 < n" "length vs \<le> n" "\<forall>i < length vs. kmem s (p + of_nat i) = vs ! i"
    using recorded_block [OF good p] .
  have mem: "(a, n, False) \<in> set bs" using h(5) by (simp add: in_use_def)
  note pay = payload_region [OF h(1) mem]
  have gh: "GET_HEADER p = a" by (simp add: GET_HEADER_def HEADER_SIZE_def h(4))
  have n32: "n < 4294967296" using pay(3) unat_u32_less [of "h_size (kmem s) a"] by (simp add: unat_ucast_up)
  have small: "unat sz \<le> 4294967295" using sz h(7) n32 by simp
  let ?r = "round16 (unat sz)"
  have r: "unat (ROUND_UP sz ALIGN_SIZE) = ?r" using ROUND_UP_16 [OF _ small] sz(1) by simp
  then have rn: "?r < n" using less pay(3) by (simp add: gh word_less_nat_alt)
  have rz: "unat sz \<le> ?r" by (rule round16_bounds(1))
  obtain xs ys where bs: "bs = xs @ (a, n, False) # ys" using mem split_list by fastforce
  have sp: "spaced (unat (kernel_heap_head s)) hi bs" "hi < 18446744073709551616"
    and ch: "chain (kmem s) NULL (kernel_heap_head s) bs" using h(1) by (auto simp: heap_at_def)
  have prefix: "\<forall>i < length (take (unat sz) vs). kmem s (p + of_nat i) = take (unat sz) vs ! i" using h(8) by simp
  show ?thesis
  proof (cases "?r + 48 \<le> n")
    case True
    let ?ys = "join_next (a + 32 + of_nat ?r, n - ?r - 32, True) ys"
    from krealloc_cut [OF h(1) [unfolded bs] sz(1) True, of fuel brk] run h(4)
    have t: "q = p" "heap_at t (xs @ (a, ?r, False) # ?ys) hi"
      and keep: "\<forall>x. \<not> in_headers x bs \<longrightarrow> \<not> (unat a + 32 + ?r \<le> unat x \<and> unat x < unat a + 32 + n) \<longrightarrow> kmem t x = kmem s x"
      by (auto simp: bs)
    have tk: "(a, ?r, False) # ?ys = taken a n ?r ys" using True by (simp add: taken_def)
    have co: "coalesced (xs @ (a, ?r, False) # ?ys)" unfolding tk by (rule coalesced_taken) (use h(2) bs in simp)
    have kept: "kmem t x = kmem s x" if "b \<in> in_use bs" "in_payload x b" "b \<noteq> (a, n, False) \<or> unat x < unat a + 32 + ?r" for b x
    proof -
      have "\<not> in_headers x bs" using payload_not_header [OF sp _ that(2)] that(1) by (simp add: in_use_def)
      moreover have "\<not> in_payload x (a, n, False) \<or> unat x < unat a + 32 + ?r"
        using payloads_apart [OF h(1) that(1) h(5) _ that(2)] that(3) by blast
      then have "\<not> (unat a + 32 + ?r \<le> unat x \<and> unat x < unat a + 32 + n)" by (auto simp: in_payload_def)
      ultimately show ?thesis using keep by blast
    qed
    have "records (xs @ (a, ?r, False) # ?ys) (kmem t) (live(a + 32 := None))"
      by (rule good_change [OF h(1,3) t(2) co _ h(5)]) (use kept in \<open>auto simp: bs in_use_join_next\<close>)
    moreover have "kmem t (p + of_nat i) = take (unat sz) vs ! i" if i: "i < length (take (unat sz) vs)" for i
    proof -
      have "i < n" using i h(7) by simp
      then have "in_payload (p + of_nat i) (a, n, False)" using payload_byte [OF h(1) mem] h(4) by simp
      moreover have "unat (p + of_nat i) < unat a + 32 + ?r"
      proof -
        have "(a, ?r, False) \<in> set (xs @ (a, ?r, False) # ?ys)" by simp
        from payload_byte [OF t(2) this, of i] show ?thesis using i rz h(4) by (simp add: in_payload_def)
      qed
      ultimately show ?thesis using kept h(5) prefix i by metis
    qed
    ultimately have "records (xs @ (a, ?r, False) # ?ys) (kmem t) (live(p \<mapsto> take (unat sz) vs))"
      using h(4) sz rz by (intro records_update [of _ _ _ p a ?r]) auto
    then show ?thesis using t co by (auto simp: heap_good_def)
  next
    case False
    obtain k where k: "hdr (kmem s) a k n False" using chain_hdr [OF ch mem] by blast
    have rw: "ROUND_UP sz ALIGN_SIZE = of_nat ?r" using r rn n32 by (simp add: word_unat_eq_iff unat_of_nat_u64)
    have "split_block a (of_nat ?r) (kmem s) = kmem s" using split_block_skip [OF k, of ?r] False rn n32 by simp
    moreover have "sz \<noteq> 0" "\<not> sz > 0xFFFFFFFF" "\<not> ROUND_UP sz ALIGN_SIZE > 0xFFFFFFFF"
      using sz(1) small r rn n32 by (auto simp: word_less_nat_alt)
    ultimately have t: "q = p" "t = s" using run pay(2) less gh h(4) by (auto simp: krealloc_def Let_def rw on_mem_def)
    have "records bs (kmem s) (live(p \<mapsto> take (unat sz) vs))"
      using records_forget [OF h(3)] h(4,5,6,7) prefix by (intro records_update) auto
    then show ?thesis using t h(1,2) by (auto simp: heap_good_def)
  qed
qed

context brk_provider begin

lemma good_free:
  assumes good: "heap_good s live" and p: "live p = Some vs" and bs: "heap_at s bs hj" "length bs \<le> fuel"
    and run: "kfree fuel brk p s = Done t"
  shows "heap_good t (live(p := None))"
proof -
  obtain cs hi a n where h: "heap_at s cs hi" "coalesced cs" "records cs (kmem s) live" "p = a + 32" "(a, n, False) \<in> in_use cs"
    "0 < n"
    using recorded_block [OF good p] by metis
  have fuel: "length cs \<le> fuel" using heap_at_unique [OF h(1) bs(1)] bs(2) by simp
  have brk: "brk 0 (brk_state s) = Done (top (brk_state s), brk_state s)" by (rule brk_zero)
  show ?thesis
  proof (cases "top (brk_state s) - 48 < a + 32 \<or> p < kernel_heap_head s")
    case True
    then have "kmem t = kmem s \<and> kernel_heap_head t = kernel_heap_head s"
      using run h(4) payload_region(2) [OF h(1), of a n False] h(5)
      by (auto simp: kfree_def do_brk_def brk MIN_BLK_SIZE_def HEADER_SIZE_def ALIGN_SIZE_def heap_say_def in_use_def split: if_splits)
    then show ?thesis using h(1,2) records_forget [OF h(3)] by (auto simp: heap_good_def heap_at_def)
  next
    case False
    from kfree_block [where s = s and brk = brk, OF h(1,2,5,6) fuel brk] False run h(4)
    obtain bs' where t: "heap_at t bs' hi" "coalesced bs'" "in_use bs' = in_use cs - {(a, n, False)}"
      and keep: "\<forall>c \<in> in_use cs. \<forall>x. in_payload x c \<longrightarrow> kmem t x = kmem s x"
      by auto
    have "records bs' (kmem t) (live(a + 32 := None))"
      by (rule good_change [OF h(1,3) t(1,2) _ h(5)]) (use t(3) keep in auto)
    then show ?thesis using t h(4) by (auto simp: heap_good_def)
  qed
qed

lemma step_good:
  assumes "heap_step brk s live t live'" and good: "heap_good s live"
  shows "heap_good t live'"
  using assms(1)
proof (cases rule: heap_step.cases)
  case (malloc bs hi sz a fuel p)
  obtain cs hj where g: "heap_at s cs hj" "coalesced cs" "records cs (kmem s) live" using good by (auto simp: heap_good_def)
  have eq: "bs = cs" using heap_at_unique malloc(2) g(1) by blast
  from kmalloc_block [OF g(1,2) malloc(3) [unfolded eq] malloc(4) [unfolded eq], of brk] malloc(5)
  obtain bs' n where b: "p = a + 32" "heap_at t bs' hj" "coalesced bs'" "round16 (max 1 (unat sz)) \<le> n"
    "in_use bs' = insert (a, n, False) (in_use cs)"
    and keep: "\<forall>b \<in> in_use cs. fst b \<noteq> a \<and> (\<forall>x. in_payload x b \<longrightarrow> kmem t x = kmem s x)"
    by auto
  have "max 1 (unat sz) \<le> n" using round16_bounds(1) [of "max 1 (unat sz)"] b(4) by (rule order_trans)
  then show ?thesis
    unfolding malloc(1) b(1) using b keep by (intro good_new [OF g(1,3) b(2,3,5)]) (auto simp: bytes_at_def)
next
  case (calloc bs hi nmemb sz a fuel p)
  obtain cs hj where g: "heap_at s cs hj" "coalesced cs" "records cs (kmem s) live" using good by (auto simp: heap_good_def)
  have eq: "bs = cs" using heap_at_unique calloc(2) g(1) by blast
  from kcalloc_block [OF g(1,2) calloc(5,6) calloc(3) [unfolded eq] calloc(4) [unfolded eq], of brk] calloc(7)
  obtain bs' n where b: "p = a + 32" "heap_at t bs' hj" "coalesced bs'" "0 < n" "unat nmemb * unat sz \<le> n"
    "in_use bs' = insert (a, n, False) (in_use cs)" and zero: "\<forall>x. in_payload x (a, n, False) \<longrightarrow> kmem t x = 0"
    and keep: "\<forall>b \<in> in_use cs. fst b \<noteq> a \<and> (\<forall>x. in_payload x b \<longrightarrow> kmem t x = kmem s x)"
    by auto
  have "(a, n, False) \<in> set bs'" using b(6) by (auto simp: in_use_def)
  then have "\<forall>i < unat nmemb * unat sz. kmem t (a + 32 + of_nat i) = 0"
    using payload_byte [OF b(2)] zero b(5) by (meson less_le_trans)
  then show ?thesis
    unfolding calloc(1) b(1) using b keep by (intro good_new [OF g(1,3) b(2,3,6,4)]) auto
next
  case (shrink p vs sz fuel q)
  then show ?thesis using good_shrink [OF good, of p vs sz fuel brk q t] by auto
next
  case (free p vs bs hi fuel)
  then show ?thesis using good_free [OF good] by blast
next
  case (set_byte p vs i v)
  then show ?thesis using good_write [OF good] by blast
qed

lemma run_good: "heap_run brk s live \<Longrightarrow> heap_good s live"
proof (induction rule: heap_run.induct)
  case (fresh s bs hi)
  then show ?case by (auto simp: heap_good_def records_def)
next
  case (step s live t live')
  then show ?case using step_good by blast
qed

end

section \<open>The heap keeps what its clients wrote\<close>

lemma recorded_apart:
  assumes good: "heap_good s live" and p: "live p = Some vs" and q: "live q = Some ws" and ne: "p \<noteq> q"
  shows "unat p + length vs \<le> unat q \<or> unat q + length ws \<le> unat p"
proof -
  obtain bs hi a n where h: "heap_at s bs hi" "records bs (kmem s) live" "p = a + 32" "(a, n, False) \<in> in_use bs"
    "length vs \<le> n"
    using recorded_block [OF good p] by metis
  obtain c k where c: "q = c + 32" "(c, k, False) \<in> in_use bs" "length ws \<le> k"
    using h(2) q unfolding records_def by metis
  have sp: "spaced (unat (kernel_heap_head s)) hi bs" "hi < 18446744073709551616" using h(1) by (auto simp: heap_at_def)
  have mem: "(a, n, False) \<in> set bs" "(c, k, False) \<in> set bs" using h(4) c(2) by (auto simp: in_use_def)
  have u: "unat (a + 32) = unat a + 32" "unat (c + 32) = unat c + 32"
    using spaced_addr [OF sp(1) mem(1)] spaced_addr [OF sp(1) mem(2)] sp(2) by (simp_all add: unat_add_nowrap)
  have "(a, n, False) \<noteq> (c, k, False)" using ne h(3) c(1) by auto
  then show ?thesis using spaced_disjoint [OF sp(1) mem] h(3,5) c(1,3) u by auto
qed

text \<open>C1: As long as the list of blocks can serve every request, so that the heap is not extended meanwhile:
  however allocations, cleared allocations, shrinking reallocations, releases and writes of
  the callers follow each other on the kernel's heap, every live block holds exactly the bytes last
  written to it (zeroes first, if it came from \<open>kcalloc\<close>), and no two live blocks share a byte. (An extension while
  blocks are live may overwrite the end of one: \<open>heap_extensions_overlap\<close>.)\<close>

theorem heap_keeps_contents:
  assumes "heap_run kbrk s live"
  shows "(\<forall>p vs. live p = Some vs \<longrightarrow> bytes_at (kmem s) p (length vs) = vs)
     \<and> (\<forall>p q vs ws. live p = Some vs \<longrightarrow> live q = Some ws \<longrightarrow> p \<noteq> q
          \<longrightarrow> unat p + length vs \<le> unat q \<or> unat q + length ws \<le> unat p)"
proof -
  have good: "heap_good s live" by (rule kb.run_good [OF assms])
  show ?thesis
  proof (intro conjI allI impI)
    fix p vs assume p: "live p = Some vs"
    have "\<forall>i < length vs. kmem s (p + of_nat i) = vs ! i" by (rule recorded_block [OF good p])
    then show "bytes_at (kmem s) p (length vs) = vs" unfolding bytes_at_def by (intro nth_equalityI) simp_all
  next
    fix p q vs ws assume "live p = Some vs" "live q = Some ws" "p \<noteq> q"
    then show "unat p + length vs \<le> unat q \<or> unat q + length ws \<le> unat p" by (rule recorded_apart [OF good])
  qed
qed

section \<open>Witness\<close>

text \<open>A block of 100 bytes whose first byte has been set to 7.\<close>

lemma sample_run:
  "\<exists>s live vs. heap_run kbrk s live \<and> live 0x10000000020 = Some (7 # vs) \<and> length vs = 99"
proof -
  obtain t where run: "kmalloc 1 kbrk 100 sample_heap = Done (0x10000000020, t)"
    using kmalloc_pick [OF sample_heap_at sample_pick, of 1 kbrk] by auto
  let ?p = "0x10000000020 :: addr"
  define vs where "vs = bytes_at (kmem t) ?p (unat (100 :: u64))"
  have len: "length vs = 100" by (simp add: vs_def bytes_at_def)
  have r0: "heap_run kbrk sample_heap (\<lambda>_. None)" by (rule heap_run.fresh [OF sample_heap_at]) simp
  have "heap_step kbrk sample_heap (\<lambda>_. None) t ((\<lambda>_. None)(?p \<mapsto> vs))"
    unfolding vs_def by (rule heap_step.malloc [OF sample_heap_at sample_pick _ run]) simp
  then have r1: "heap_run kbrk t ((\<lambda>_. None)(?p \<mapsto> vs))" by (rule heap_run.step [OF r0])
  have "heap_step kbrk t ((\<lambda>_. None)(?p \<mapsto> vs)) (on_mem (\<lambda>m. m(?p + of_nat 0 := 7)) t)
      (((\<lambda>_. None)(?p \<mapsto> vs))(?p \<mapsto> vs[0 := 7]))"
    by (rule heap_step.set_byte) (simp_all add: len)
  from heap_run.step [OF r1 this]
  have "heap_run kbrk (on_mem (\<lambda>m. m(?p + of_nat 0 := 7)) t) ((\<lambda>_. None)(?p \<mapsto> vs[0 := 7]))" by simp
  moreover have "vs[0 := 7] = 7 # tl vs" "length (tl vs) = 99" using len by (cases vs; simp)+
  ultimately show ?thesis by (metis fun_upd_same)
qed

theorem heap_keeps_contents_witness:
  "\<exists>s live. heap_run kbrk s live \<and> live 0x10000000020 \<noteq> None \<and> kmem s 0x10000000020 = 7"
proof -
  obtain s live vs where s: "heap_run kbrk s live" "live 0x10000000020 = Some (7 # vs)" using sample_run by blast
  have "bytes_at (kmem s) 0x10000000020 (length (7 # vs)) = 7 # vs"
    by (rule heap_keeps_contents [OF s(1), THEN conjunct1, rule_format, OF s(2)])
  then have "kmem s 0x10000000020 = 7" by (simp add: bytes_at_def upt_conv_Cons del: upt_Suc)
  then show ?thesis using s by blast
qed

end
