(* ===== verification/Sched.thy ===== *)
theory Sched imports HeapOps begin

text \<open>
  The round-robin scheduler of lib/ksched.c: a doubly linked list of threads, threaded through
  two fields of the thread structures in kernel memory. The interface \<open>struct scheduler\<close> of
  lib/kproc.h is the locale \<open>scheduler\<close>; \<open>rr_admit\<close>, \<open>rr_remove\<close> and \<open>rr_next\<close> implement it
  over the queue the list represents.
\<close>

section \<open>State\<close>

text \<open>The two fields of \<open>struct threadinfo_st\<close> the scheduler owns: \<open>sched_one\<close> at offset 248 and
  \<open>sched_two\<close> at 256 (\<open>sched_next\<close> and \<open>sched_prev\<close> in lib/ksched.c).\<close>

definition sched_next :: "mem \<Rightarrow> addr \<Rightarrow> addr" where "sched_next m t = rd64 m (t + 248)"
definition sched_prev :: "mem \<Rightarrow> addr \<Rightarrow> addr" where "sched_prev m t = rd64 m (t + 256)"

record 'b sched =
  heap :: "'b kheap"
  ll_head :: addr
  ll_tail :: addr
  ll_len :: u64

definition set_sched_next :: "addr \<Rightarrow> addr \<Rightarrow> ('b, 'z) sched_scheme \<Rightarrow> ('b, 'z) sched_scheme" where
  "set_sched_next t v s = s\<lparr>heap := on_mem (\<lambda>m. wr64 m (t + 248) v) (heap s)\<rparr>"

definition set_sched_prev :: "addr \<Rightarrow> addr \<Rightarrow> ('b, 'z) sched_scheme \<Rightarrow> ('b, 'z) sched_scheme" where
  "set_sched_prev t v s = s\<lparr>heap := on_mem (\<lambda>m. wr64 m (t + 256) v) (heap s)\<rparr>"

abbreviation next_of :: "('b, 'z) sched_scheme \<Rightarrow> addr \<Rightarrow> addr" where "next_of s \<equiv> sched_next (kmem (heap s))"
abbreviation prev_of :: "('b, 'z) sched_scheme \<Rightarrow> addr \<Rightarrow> addr" where "prev_of s \<equiv> sched_prev (kmem (heap s))"

section \<open>Operations\<close>

definition validate_ll :: "('b, 'z) sched_scheme \<Rightarrow> unit res" where
  "validate_ll s =
     (if ll_head s = NULL \<and> ll_tail s \<noteq> NULL then Halt ''Linked list head is NULL but tail is not!''
      else if ll_head s \<noteq> NULL \<and> ll_tail s = NULL then Halt ''Linked list tail is NULL but head is not!''
      else if ll_head s = NULL \<and> ll_tail s = NULL \<and> ll_len s \<noteq> 0
        then Halt ''NULL linked list has a length greater than 0!''
      else if ll_head s \<noteq> NULL \<and> ll_tail s \<noteq> NULL \<and> ll_len s = 0
        then Halt ''Non-NULL linked list has a length of 0!''
      else if ll_head s = ll_tail s \<and> ll_head s \<noteq> NULL \<and> ll_len s \<noteq> 1
        then Halt ''Linked list containing a single node does not have a length of 1!''
      else Done ())"

definition rr_admit :: "addr \<Rightarrow> ('b, 'z) sched_scheme \<Rightarrow> ('b, 'z) sched_scheme res" where
  "rr_admit new_thread s = res_bind (validate_ll s) (\<lambda>_.
     let s = (if ll_len s = 0
              then set_sched_prev new_thread NULL (set_sched_next new_thread NULL
                     (s\<lparr>ll_head := new_thread, ll_tail := new_thread\<rparr>))
              else (set_sched_prev new_thread (ll_tail s) (set_sched_next (ll_tail s) new_thread s))
                     \<lparr>ll_tail := new_thread\<rparr>)
     in Done (s\<lparr>ll_len := ll_len s + 1\<rparr>))"

definition rr_remove :: "addr \<Rightarrow> ('b, 'z) sched_scheme \<Rightarrow> ('b, 'z) sched_scheme res" where
  "rr_remove victim s = res_bind (validate_ll s) (\<lambda>_.
     if ll_len s = 0 then Done s
     else
       let s = (if ll_len s = 1 then s\<lparr>ll_head := NULL, ll_tail := NULL\<rparr>
                else if victim = ll_head s then
                  let s = s\<lparr>ll_head := next_of s victim\<rparr> in set_sched_prev (ll_head s) NULL s
                else if victim = ll_tail s then
                  let s = s\<lparr>ll_tail := prev_of s (ll_tail s)\<rparr> in set_sched_next (ll_tail s) NULL s
                else
                  let s = set_sched_next (prev_of s victim) (next_of s victim) s
                  in set_sched_prev (next_of s victim) (prev_of s victim) s);
           s = set_sched_prev victim NULL (set_sched_next victim NULL s)
       in Done (s\<lparr>ll_len := ll_len s - 1\<rparr>))"

definition rr_next :: "('b, 'z) sched_scheme \<Rightarrow> (addr \<times> ('b, 'z) sched_scheme) res" where
  "rr_next s = res_bind (validate_ll s) (\<lambda>_.
     if ll_len s = 0 then Done (NULL, s)
     else if ll_len s = 1 then Done (ll_head s, s)
     else
       let now_serving = ll_head s;
           s = s\<lparr>ll_head := next_of s (ll_head s)\<rparr>;
           s = set_sched_prev (ll_head s) NULL s;
           s = set_sched_next (ll_tail s) now_serving s;
           s = set_sched_prev now_serving (ll_tail s) s;
           s = set_sched_next now_serving NULL s
       in Done (now_serving, s\<lparr>ll_tail := now_serving\<rparr>))"

section \<open>The interface of a scheduler\<close>

text \<open>The threads \<open>n\<close> calls of a scheduler's \<open>next\<close> select.\<close>

primrec serve :: "('s \<Rightarrow> ('t \<times> 's) res) \<Rightarrow> nat \<Rightarrow> 's \<Rightarrow> ('t list \<times> 's) res" where
  "serve next_thread 0 s = Done ([], s)"
| "serve next_thread (Suc n) s =
     res_bind (next_thread s) (\<lambda>(t, s). res_bind (serve next_thread n s) (\<lambda>(ts, s). Done (t # ts, s)))"

text \<open>
  \<open>holds s ts\<close>: the pool of \<open>s\<close> is the queue \<open>ts\<close>. \<open>fit ts\<close>: the threads of \<open>ts\<close> are different
  structures. The pool is served in turn, and the thread served goes to the back.
\<close>

locale scheduler =
  fixes admit :: "'t \<Rightarrow> 's \<Rightarrow> 's res" and remove_thread :: "'t \<Rightarrow> 's \<Rightarrow> 's res"
    and next_thread :: "'s \<Rightarrow> ('t \<times> 's) res" and holds :: "'s \<Rightarrow> 't list \<Rightarrow> bool"
    and fit :: "'t list \<Rightarrow> bool" and none :: 't
  assumes admit_law: "holds s ts \<Longrightarrow> fit (ts @ [t]) \<Longrightarrow> \<exists>s'. admit t s = Done s' \<and> holds s' (ts @ [t])"
    and remove_law: "holds s ts \<Longrightarrow> t \<in> set ts \<Longrightarrow> \<exists>s'. remove_thread t s = Done s' \<and> holds s' (remove1 t ts)"
    and next_law: "holds s (t # ts) \<Longrightarrow> \<exists>s'. next_thread s = Done (t, s') \<and> holds s' (ts @ [t])"
    and next_none: "holds s [] \<Longrightarrow> next_thread s = Done (none, s)"
begin

lemma serve_prefix:
  "holds s (xs @ ys) \<Longrightarrow> \<exists>s'. serve next_thread (length xs) s = Done (xs, s') \<and> holds s' (ys @ xs)"
proof (induction xs arbitrary: s ys)
  case (Cons x xs)
  then obtain s1 where "next_thread s = Done (x, s1)" "holds s1 (xs @ (ys @ [x]))"
    using next_law [of s x "xs @ ys"] by auto
  then show ?case using Cons.IH [of s1 "ys @ [x]"] by auto
qed simp

text \<open>Fairness: a full round serves every thread once, in the order of the queue.\<close>

lemma serve_round: "holds s ts \<Longrightarrow> \<exists>s'. serve next_thread (length ts) s = Done (ts, s') \<and> holds s' ts"
  using serve_prefix [of s ts "[]"] by simp

end

section \<open>The linked list\<close>

definition thread_ok :: "addr \<Rightarrow> bool" where
  "thread_ok t \<longleftrightarrow> t \<noteq> NULL \<and> unat t + 272 \<le> 18446744073709551616"

definition links_apart :: "addr \<Rightarrow> addr \<Rightarrow> bool" where
  "links_apart t u \<longleftrightarrow> apart (t + 248) 16 (u + 248) 16"

definition threads_fit :: "addr list \<Rightarrow> bool" where
  "threads_fit ts \<longleftrightarrow> (\<forall>t \<in> set ts. thread_ok t) \<and> distinct ts
     \<and> (\<forall>t \<in> set ts. \<forall>u \<in> set ts. t \<noteq> u \<longrightarrow> links_apart t u)"

fun linked :: "mem \<Rightarrow> addr list \<Rightarrow> bool" where
  "linked m (a # b # ts) \<longleftrightarrow> sched_next m a = b \<and> sched_prev m b = a \<and> linked m (b # ts)"
| "linked m ts \<longleftrightarrow> True"

text \<open>The links out of the two ends are not constrained: the code never follows them.\<close>

definition rr_holds :: "('b, 'z) sched_scheme \<Rightarrow> addr list \<Rightarrow> bool" where
  "rr_holds s ts \<longleftrightarrow> threads_fit ts \<and> linked (kmem (heap s)) ts \<and> ll_len s = of_nat (length ts)
     \<and> ll_head s = (if ts = [] then NULL else hd ts) \<and> ll_tail s = (if ts = [] then NULL else last ts)"

section \<open>Links under updates\<close>

lemma link_region:
  assumes "thread_ok t" "in_region x (t + 248) 8 \<or> in_region x (t + 256) 8"
  shows "in_region x (t + 248) 16"
  using assms unat_offset [of t 272 248] unat_offset [of t 272 256]
    in_region_unat [of "t + 248" 8 x] in_region_unat [of "t + 256" 8 x] in_region_unat [of "t + 248" 16 x]
  by (auto simp: thread_ok_def)

lemma link_fields_apart:
  assumes "thread_ok t" "thread_ok u" "links_apart t u"
  shows "apart (t + 248) 8 (u + 248) 8" "apart (t + 248) 8 (u + 256) 8"
    "apart (t + 256) 8 (u + 248) 8" "apart (t + 256) 8 (u + 256) 8"
proof -
  have "\<forall>x. (in_region x (t + 248) 8 \<longrightarrow> in_region x (t + 248) 16) \<and> (in_region x (t + 256) 8 \<longrightarrow> in_region x (t + 248) 16)"
    "\<forall>x. (in_region x (u + 248) 8 \<longrightarrow> in_region x (u + 248) 16) \<and> (in_region x (u + 256) 8 \<longrightarrow> in_region x (u + 248) 16)"
    using link_region assms(1,2) by blast+
  then show "apart (t + 248) 8 (u + 248) 8" "apart (t + 248) 8 (u + 256) 8"
    "apart (t + 256) 8 (u + 248) 8" "apart (t + 256) 8 (u + 256) 8"
    using assms(3) unfolding links_apart_def apart_def by blast+
qed

lemma own_links_apart:
  assumes "thread_ok t"
  shows "apart (t + 248) 8 (t + 256) 8" "apart (t + 256) 8 (t + 248) 8"
  using assms unat_offset [of t 272 248] unat_offset [of t 272 256]
  by (auto simp: thread_ok_def intro!: apart_intervals)

lemma links_upd:
  assumes "threads_fit T" "t \<in> set T" "u \<in> set T"
  shows "sched_next (wr64 m (t + 248) v) u = (if u = t then v else sched_next m u)"
    "sched_prev (wr64 m (t + 248) v) u = sched_prev m u"
    "sched_next (wr64 m (t + 256) v) u = sched_next m u"
    "sched_prev (wr64 m (t + 256) v) u = (if u = t then v else sched_prev m u)"
proof -
  have "thread_ok t" "thread_ok u" and "t = u \<or> links_apart t u"
    using assms by (auto simp: threads_fit_def)
  then show "sched_next (wr64 m (t + 248) v) u = (if u = t then v else sched_next m u)"
    "sched_prev (wr64 m (t + 248) v) u = sched_prev m u"
    "sched_next (wr64 m (t + 256) v) u = sched_next m u"
    "sched_prev (wr64 m (t + 256) v) u = (if u = t then v else sched_prev m u)"
    using link_fields_apart [of t u] own_links_apart [of t]
    by (auto simp: sched_next_def sched_prev_def rd64_wr64_apart)
qed

lemma kmem_set_link [simp]:
  "kmem (heap (set_sched_next t v s)) = wr64 (kmem (heap s)) (t + 248) v"
  "kmem (heap (set_sched_prev t v s)) = wr64 (kmem (heap s)) (t + 256) v"
  by (simp_all add: set_sched_next_def set_sched_prev_def on_mem_def)

lemma sched_set_link [simp]:
  "ll_head (set_sched_next t v s) = ll_head s" "ll_tail (set_sched_next t v s) = ll_tail s"
  "ll_len (set_sched_next t v s) = ll_len s"
  "ll_head (set_sched_prev t v s) = ll_head s" "ll_tail (set_sched_prev t v s) = ll_tail s"
  "ll_len (set_sched_prev t v s) = ll_len s"
  by (simp_all add: set_sched_next_def set_sched_prev_def)

lemma linked_cong:
  assumes "\<And>t. t \<in> set (butlast ts) \<Longrightarrow> sched_next m' t = sched_next m t"
    and "\<And>t. t \<in> set (tl ts) \<Longrightarrow> sched_prev m' t = sched_prev m t"
  shows "linked m' ts = linked m ts"
  using assms by (induction m ts rule: linked.induct) (auto split: if_splits)

lemma linked_append:
  "linked m (xs @ ys) \<longleftrightarrow> linked m xs \<and> linked m ys
     \<and> (xs \<noteq> [] \<and> ys \<noteq> [] \<longrightarrow> sched_next m (last xs) = hd ys \<and> sched_prev m (hd ys) = last xs)"
proof (induction xs)
  case (Cons x xs)
  then show ?case by (cases xs; cases ys) auto
qed simp

section \<open>The list implements the queue\<close>

lemma fit_append: "threads_fit (xs @ ys) \<Longrightarrow> threads_fit xs \<and> threads_fit ys"
  by (auto simp: threads_fit_def)

lemma fit_perm: "threads_fit xs \<Longrightarrow> set ys = set xs \<Longrightarrow> distinct ys \<Longrightarrow> threads_fit ys"
  by (auto simp: threads_fit_def)

lemma fit_length:
  assumes "threads_fit ts"
  shows "length ts < 18446744073709551616"
proof -
  have "set ts \<subset> (UNIV :: addr set)" using assms by (auto simp: threads_fit_def thread_ok_def)
  then have "card (set ts) < card (UNIV :: addr set)" by (intro psubset_card_mono) auto
  moreover have "card (UNIV :: addr set) = 18446744073709551616" by (simp add: card_word)
  ultimately show ?thesis using assms distinct_card [of ts] by (simp add: threads_fit_def)
qed

lemma len_cases:
  assumes "threads_fit ts"
  shows "(of_nat (length ts) :: u64) = 0 \<longleftrightarrow> ts = []" "(of_nat (length ts) :: u64) = 1 \<longleftrightarrow> (\<exists>t. ts = [t])"
  using of_nat_u64_inj [OF fit_length [OF assms], of 0] of_nat_u64_inj [OF fit_length [OF assms], of 1]
  by (auto simp: length_Suc_conv)

lemma holds_valid:
  assumes "rr_holds s ts"
  shows "validate_ll s = Done ()"
proof -
  have fit: "threads_fit ts" and len: "ll_len s = of_nat (length ts)"
    and ht: "ll_head s = (if ts = [] then NULL else hd ts)" "ll_tail s = (if ts = [] then NULL else last ts)"
    using assms by (simp_all add: rr_holds_def)
  show ?thesis
  proof (cases "ts = []")
    case True
    then show ?thesis using len ht by (simp add: validate_ll_def)
  next
    case False
    then have "hd ts \<noteq> NULL" "last ts \<noteq> NULL"
      using fit hd_in_set [OF False] last_in_set [OF False] by (auto simp: threads_fit_def thread_ok_def)
    moreover have "ll_len s \<noteq> 0" using len len_cases(1) [OF fit] False by simp
    moreover have "ll_len s = 1" if "hd ts = last ts"
    proof -
      obtain t us where t: "ts = t # us" using False by (cases ts) auto
      have "us = []" using that fit t by (auto simp: threads_fit_def split: if_splits)
      then show ?thesis using len t by simp
    qed
    ultimately show ?thesis using ht False unfolding validate_ll_def by auto
  qed
qed

lemma rr_admit_queue:
  assumes h: "rr_holds s ts" and fit: "threads_fit (ts @ [t])"
  shows "\<exists>s'. rr_admit t s = Done s' \<and> rr_holds s' (ts @ [t])"
proof (cases "ts = []")
  case True
  then show ?thesis
    using h fit by (simp add: rr_admit_def holds_valid [OF h] Let_def) (simp add: rr_holds_def)
next
  case False
  let ?m = "kmem (heap s)" and ?l = "last ts"
  have l: "ll_tail s = ?l" "?l \<in> set (ts @ [t])" using h False by (auto simp: rr_holds_def)
  define m' where "m' = wr64 (wr64 ?m (?l + 248) t) (t + 256) ?l"
  have n: "sched_next m' u = (if u = ?l then t else sched_next ?m u)"
    and p: "sched_prev m' u = (if u = t then ?l else sched_prev ?m u)" if "u \<in> set (ts @ [t])" for u
    unfolding m'_def using links_upd [OF fit l(2) that] links_upd [OF fit _ that, of t] by auto
  have d: "distinct (ts @ [t])" using fit by (simp add: threads_fit_def)
  have "linked m' ts = linked ?m ts"
  proof (rule linked_cong)
    fix u assume u: "u \<in> set (butlast ts)"
    have "u \<noteq> ?l" using u d False append_butlast_last_id [OF False] by (metis distinct_append not_distinct_conv_prefix)
    then show "sched_next m' u = sched_next ?m u" using n in_set_butlastD [OF u] by simp
  next
    fix u assume "u \<in> set (tl ts)"
    then have "u \<in> set ts" by (rule list.set_sel(2) [OF False])
    then show "sched_prev m' u = sched_prev ?m u" using p d by auto
  qed
  then have "linked m' (ts @ [t])" using h n p l False by (simp add: linked_append rr_holds_def)
  moreover have "ll_len s \<noteq> 0" "ll_head s = hd ts" "ll_len s = of_nat (length ts)"
    using h False len_cases [of ts] by (auto simp: rr_holds_def)
  ultimately show ?thesis
    using fit False by (simp add: rr_admit_def holds_valid [OF h] Let_def) (simp add: rr_holds_def l m'_def)
qed

lemma last_not_butlast: "distinct ts \<Longrightarrow> u \<in> set (butlast ts) \<Longrightarrow> u \<noteq> last ts"
  by (induction ts) (auto split: if_splits)

lemma hd_not_tl: "distinct ts \<Longrightarrow> u \<in> set (tl ts) \<Longrightarrow> u \<noteq> hd ts"
  by (cases ts) auto

lemma rr_next_queue:
  assumes h: "rr_holds s (t # ts)"
  shows "\<exists>s'. rr_next s = Done (t, s') \<and> rr_holds s' (ts @ [t])"
proof (cases "ts = []")
  case True
  then show ?thesis using h by (simp add: rr_next_def holds_valid [OF h]) (simp add: rr_holds_def)
next
  case False
  then obtain u us where ts: "ts = u # us" by (cases ts) auto
  let ?m = "kmem (heap s)" and ?l = "last ts"
  have fit: "threads_fit (t # ts)" and lk: "linked ?m (t # ts)" and len: "ll_len s = of_nat (length (t # ts))"
    and hd: "ll_head s = t" and tl: "ll_tail s = ?l" and nx: "next_of s t = u"
    using h False ts by (auto simp: rr_holds_def)
  have d: "distinct ts" "t \<notin> set ts" using fit by (auto simp: threads_fit_def)
  have l: "?l \<in> set (t # ts)" and u: "u \<in> set (t # ts)" and tm: "t \<in> set (t # ts)" and lt: "?l \<noteq> t"
    using False d ts by auto
  define m' where "m' = wr64 (wr64 (wr64 (wr64 ?m (u + 256) NULL) (?l + 248) t) (t + 256) ?l) (t + 248) NULL"
  have n: "sched_next m' x = (if x = t then NULL else if x = ?l then t else sched_next ?m x)"
    and p: "sched_prev m' x = (if x = t then ?l else if x = u then NULL else sched_prev ?m x)"
    if x: "x \<in> set (t # ts)" for x
    unfolding m'_def links_upd [OF fit tm x] links_upd [OF fit l x] links_upd [OF fit u x] by simp_all
  have "linked m' ts = linked ?m ts"
  proof (rule linked_cong)
    fix x assume "x \<in> set (butlast ts)"
    then have "x \<in> set (t # ts)" "x \<noteq> t" "x \<noteq> ?l" using d last_not_butlast in_set_butlastD by fastforce+
    then show "sched_next m' x = sched_next ?m x" using n by simp
  next
    fix x assume "x \<in> set (List.tl ts)"
    then have "x \<in> set (t # ts)" "x \<noteq> t" "x \<noteq> u" using d hd_not_tl [of ts x] ts by auto
    then show "sched_prev m' x = sched_prev ?m x" using p by simp
  qed
  moreover have "linked ?m ts" using lk ts by simp
  ultimately have "linked m' (ts @ [t])" using False n [OF l] p [OF tm] lt by (simp add: linked_append)
  moreover have "threads_fit (ts @ [t])" using fit by (rule fit_perm) (use d in auto)
  moreover have "ll_len s \<noteq> 0" "ll_len s \<noteq> 1"
    using len_cases [OF fit] False len by auto
  moreover have "List.hd ts = u" using ts by simp
  ultimately show ?thesis
    using hd tl nx len False
    by (simp add: rr_next_def holds_valid [OF h] Let_def) (simp add: rr_holds_def m'_def)
qed

lemma rr_remove_queue:
  assumes h: "rr_holds s ts" and v: "v \<in> set ts"
  shows "\<exists>s'. rr_remove v s = Done s' \<and> rr_holds s' (remove1 v ts)"
proof -
  let ?m = "kmem (heap s)"
  have fit: "threads_fit ts" and lk: "linked ?m ts" and len: "ll_len s = of_nat (length ts)"
    and hd: "ll_head s = hd ts" and tl: "ll_tail s = last ts"
    using h v by (auto simp: rr_holds_def)
  obtain xs ys where ts: "ts = xs @ v # ys" "v \<notin> set xs" using v by (meson split_list_first)
  have d: "distinct (xs @ v # ys)" using fit ts by (simp add: threads_fit_def)
  have rm: "remove1 v ts = xs @ ys" using ts by (simp add: remove1_append)
  have fit': "threads_fit (xs @ ys)" using fit ts by (auto simp: threads_fit_def)
  have len': "ll_len s - 1 = of_nat (length (xs @ ys))" using len ts by simp
  note c = len_cases [OF fit] and va = holds_valid [OF h]
  have lks: "linked ?m xs" "linked ?m (v # ys)" using lk ts by (simp_all add: linked_append)
  have nv: "ll_len s \<noteq> 0" using c len v by auto
  have upd: "sched_next (wr64 (wr64 m (v + 248) a) (v + 256) b) x = sched_next m x"
    "sched_prev (wr64 (wr64 m (v + 248) a) (v + 256) b) x = sched_prev m x" if "x \<in> set (xs @ ys)" for m x a b
    using links_upd [OF fit v, of x] that ts d by auto
  show ?thesis
  proof (cases "xs = [] \<and> ys = []")
    case True
    then have "ll_len s = 1" using len ts by simp
    then show ?thesis unfolding rm using True by (simp add: rr_remove_def va Let_def rr_holds_def threads_fit_def)
  next
    case False
    then have n1: "ll_len s \<noteq> 1" using c len ts by (auto simp: append_eq_Cons_conv)
    consider (head) "xs = []" "ys \<noteq> []" | (tail) "xs \<noteq> []" "ys = []" | (mid) "xs \<noteq> []" "ys \<noteq> []"
      using False by blast
    then show ?thesis
    proof cases
      case head
      then obtain u us where ys: "ys = u # us" by (cases ys) auto
      have vh: "v = ll_head s" and nx: "next_of s v = u" using hd ts head lks ys by auto
      have u: "u \<in> set ts" using ts ys by simp
      define m' where "m' = wr64 (wr64 (wr64 ?m (u + 256) NULL) (v + 248) NULL) (v + 256) NULL"
      have "linked m' ys = linked ?m ys"
      proof (rule linked_cong)
        fix x assume "x \<in> set (butlast ys)"
        then have x: "x \<in> set (xs @ ys)" "x \<in> set ts" using in_set_butlastD ts by fastforce+
        show "sched_next m' x = sched_next ?m x"
          unfolding m'_def upd [OF x(1)] using links_upd [OF fit u x(2)] by simp
      next
        fix x assume a: "x \<in> set (List.tl ys)"
        then have x: "x \<in> set (xs @ ys)" "x \<in> set ts" "x \<noteq> u" using ys ts d by auto
        then show "sched_prev m' x = sched_prev ?m x"
          unfolding m'_def upd [OF x(1)] using links_upd [OF fit u x(2)] by simp
      qed
      then have "linked m' ys" using lks ys by simp
      then show ?thesis
        using vh nx nv n1 len' head fit' tl ts ys unfolding rm
        by (simp add: rr_remove_def va Let_def) (simp add: rr_holds_def m'_def)
    next
      case tail
      let ?p = "last xs"
      have pv: "prev_of s v = ?p" using lk ts tail by (simp add: linked_append)
      have vt: "v = ll_tail s" "v \<noteq> ll_head s" using tl hd ts tail by auto
      have p: "?p \<in> set ts" using ts tail by simp
      define m' where "m' = wr64 (wr64 (wr64 ?m (?p + 248) NULL) (v + 248) NULL) (v + 256) NULL"
      have "linked m' xs = linked ?m xs"
      proof (rule linked_cong)
        fix x assume a: "x \<in> set (butlast xs)"
        then have x: "x \<in> set (xs @ ys)" "x \<in> set ts" using in_set_butlastD ts by fastforce+
        have "x \<noteq> ?p" using last_not_butlast [OF _ a] d by simp
        then show "sched_next m' x = sched_next ?m x"
          unfolding m'_def upd [OF x(1)] using links_upd [OF fit p x(2)] by simp
      next
        fix x assume "x \<in> set (List.tl xs)"
        then have x: "x \<in> set (xs @ ys)" "x \<in> set ts" using list.set_sel(2) [OF tail(1)] ts by auto
        show "sched_prev m' x = sched_prev ?m x"
          unfolding m'_def upd [OF x(1)] using links_upd [OF fit p x(2)] by simp
      qed
      then have "linked m' xs" using lks by simp
      then show ?thesis
        using vt pv nv n1 len' tail fit' hd ts unfolding rm
        by (simp add: rr_remove_def va Let_def) (simp add: rr_holds_def m'_def)
    next
      case mid
      let ?p = "last xs" and ?n = "List.hd ys"
      have e: "v \<noteq> ll_tail s" "v \<noteq> ll_head s" using tl hd ts mid d by auto
      have pv: "prev_of s v = ?p" and nx: "next_of s v = ?n"
        using lk ts mid by (cases ys; simp add: linked_append)+
      have p: "?p \<in> set ts" "?p \<in> set (xs @ ys)" and n: "?n \<in> set ts" "?n \<in> set (xs @ ys)"
        using ts mid by auto
      have prev': "sched_prev (wr64 ?m (?p + 248) ?n) v = ?p" and next': "sched_next (wr64 ?m (?p + 248) ?n) v = ?n"
        using links_upd [OF fit p(1) v, of ?m ?n] pv nx ts mid d last_in_set [OF mid(1)] by auto
      define m' where "m' = wr64 (wr64 (wr64 (wr64 ?m (?p + 248) ?n) (?n + 256) ?p) (v + 248) NULL) (v + 256) NULL"
      have nm: "sched_next m' x = (if x = ?p then ?n else sched_next ?m x)"
        and pm: "sched_prev m' x = (if x = ?n then ?p else sched_prev ?m x)" if x: "x \<in> set (xs @ ys)" for x
      proof -
        have x': "x \<in> set ts" using x ts by auto
        show "sched_next m' x = (if x = ?p then ?n else sched_next ?m x)"
          "sched_prev m' x = (if x = ?n then ?p else sched_prev ?m x)"
          unfolding m'_def upd [OF x] links_upd [OF fit n(1) x'] links_upd [OF fit p(1) x'] by simp_all
      qed
      have "linked m' xs = linked ?m xs"
      proof (rule linked_cong)
        fix x assume a: "x \<in> set (butlast xs)"
        have "x \<noteq> ?p" using last_not_butlast [OF _ a] d by simp
        then show "sched_next m' x = sched_next ?m x" using nm [of x] in_set_butlastD [OF a] by simp
      next
        fix x assume "x \<in> set (List.tl xs)"
        then have x: "x \<in> set xs" using list.set_sel(2) [OF mid(1)] by auto
        then have "x \<noteq> ?n" using d hd_in_set [OF mid(2)] by auto
        then show "sched_prev m' x = sched_prev ?m x" using pm [of x] x by simp
      qed
      moreover have "linked m' ys = linked ?m ys"
      proof (rule linked_cong)
        fix x assume "x \<in> set (butlast ys)"
        then have x: "x \<in> set ys" by (rule in_set_butlastD)
        then have "x \<noteq> ?p" using d last_in_set [OF mid(1)] by auto
        then show "sched_next m' x = sched_next ?m x" using nm [of x] x by simp
      next
        fix x assume a: "x \<in> set (List.tl ys)"
        have "x \<noteq> ?n" using hd_not_tl [OF _ a] d by simp
        then show "sched_prev m' x = sched_prev ?m x" using pm [of x] list.set_sel(2) [OF mid(2) a] by simp
      qed
      moreover have "linked ?m ys" using lks by (cases ys) auto
      ultimately have "linked m' (xs @ ys)" using lks nm [OF p(2)] pm [OF n(2)] by (simp add: linked_append)
      then show ?thesis
        using e pv nx prev' next' nv n1 len' mid fit' hd tl ts unfolding rm
        by (simp add: rr_remove_def va Let_def) (simp add: rr_holds_def m'_def)
    qed
  qed
qed

lemma rr_next_empty: "rr_holds s [] \<Longrightarrow> rr_next s = Done (NULL, s)"
  by (simp add: rr_next_def holds_valid) (simp add: rr_holds_def)

interpretation rr: scheduler rr_admit rr_remove rr_next rr_holds threads_fit NULL
  by unfold_locales (auto intro: rr_admit_queue rr_remove_queue rr_next_queue rr_next_empty)

end
