(* ===== verification/Proc.thy ===== *)
theory Proc imports Sched KmallocProps begin

text \<open>
  Kernel threads (lib/kproc.c): the thread structures in kernel memory, the active scheduler as a
  tuple of operations (\<open>struct scheduler\<close> of lib/kproc.h), and the operations of the tasking
  system. No context switch is modelled because the code performs none yet.
\<close>

section \<open>Schedulers and state\<close>

text \<open>\<open>struct scheduler\<close>: a null \<open>init\<close> or \<open>shutdown\<close> is \<open>None\<close>.\<close>

record 's sched_ops =
  init_op :: "('s \<Rightarrow> 's res) option"
  shutdown_op :: "('s \<Rightarrow> 's res) option"
  admit_op :: "addr \<Rightarrow> 's \<Rightarrow> 's res"
  remove_op :: "addr \<Rightarrow> 's \<Rightarrow> 's res"
  next_op :: "'s \<Rightarrow> (addr \<times> 's) res"

text \<open>The non-null values of a \<open>scheduler\<close> pointer: the default one, or another structure.\<close>

datatype sched_ref = RR_SCHEDULER | SCHEDULER_AT addr

record 'b proc = "'b sched" +
  main_kthread :: addr
  curr_kthread :: addr
  next_kthread :: addr
  active_sched :: "sched_ref option"
  pid_cnt :: u32
  setup_flag :: bool

definition rr_sched_struct :: "'b proc sched_ops" where
  "rr_sched_struct = \<lparr>init_op = None, shutdown_op = None, admit_op = rr_admit, remove_op = rr_remove, next_op = rr_next\<rparr>"

primrec sched_struct :: "(addr \<Rightarrow> 'b proc sched_ops) \<Rightarrow> sched_ref \<Rightarrow> 'b proc sched_ops" where
  "sched_struct others RR_SCHEDULER = rr_sched_struct"
| "sched_struct others (SCHEDULER_AT a) = others a"

text \<open>A call through \<open>active_sched\<close>; a null pointer has no operations.\<close>

definition with_sched :: "(addr \<Rightarrow> 'b proc sched_ops) \<Rightarrow> ('b proc sched_ops \<Rightarrow> 'b proc \<Rightarrow> 'a res) \<Rightarrow> 'b proc \<Rightarrow> 'a res" where
  "with_sched others f s = (case active_sched s of None \<Rightarrow> Halt ''NULL scheduler''
     | Some r \<Rightarrow> f (sched_struct others r) s)"

section \<open>Thread structures\<close>

text \<open>The layout of \<open>struct threadinfo_st\<close>: \<open>pid\<close> 0, \<open>stack\<close> 8, \<open>stacksize\<close> 16, \<open>state\<close> 32 (aligned to 16;
  \<open>rdi\<close> 64, \<open>rbp\<close> 192, \<open>rsp\<close> 200), \<open>status\<close> 224, four pointers from 232, 272 bytes in all.\<close>

definition set_field64 :: "u64 \<Rightarrow> addr \<Rightarrow> u64 \<Rightarrow> 'b proc \<Rightarrow> 'b proc" where
  "set_field64 offs t v s = s\<lparr>heap := on_mem (\<lambda>m. wr64 m (t + offs) v) (heap s)\<rparr>"

definition set_field32 :: "u64 \<Rightarrow> addr \<Rightarrow> u32 \<Rightarrow> 'b proc \<Rightarrow> 'b proc" where
  "set_field32 offs t v s = s\<lparr>heap := on_mem (\<lambda>m. wr32 m (t + offs) v) (heap s)\<rparr>"

definition t_pid :: "mem \<Rightarrow> addr \<Rightarrow> u32" where "t_pid m t = rd32 m t"
definition t_stack :: "mem \<Rightarrow> addr \<Rightarrow> addr" where "t_stack m t = rd64 m (t + 8)"
definition t_stacksize :: "mem \<Rightarrow> addr \<Rightarrow> u64" where "t_stacksize m t = rd64 m (t + 16)"
definition t_status :: "mem \<Rightarrow> addr \<Rightarrow> u32" where "t_status m t = rd32 m (t + 224)"

definition PROC_STACK_SIZE :: u64 where "PROC_STACK_SIZE = 0x1000"
definition PROC_LIVE :: u32 where "PROC_LIVE = 0"

definition SET_TERM_STAT :: "u32 \<Rightarrow> u32 \<Rightarrow> u32" where
  "SET_TERM_STAT a b = push_bit 8 a OR (b AND (push_bit 8 1 - 1))"

text \<open>\<open>sizeof( kthread )\<close> is the size of a pointer, as \<open>kthread\<close> is the pointer type.\<close>

definition sizeof_kthread :: u64 where "sizeof_kthread = 8"

definition p_kmalloc :: "nat \<Rightarrow> 'b brk_fn \<Rightarrow> u64 \<Rightarrow> 'b proc \<Rightarrow> (addr \<times> 'b proc) res" where
  "p_kmalloc fuel brk sz s = res_bind (kmalloc fuel brk sz (heap s)) (\<lambda>(p, h). Done (p, s\<lparr>heap := h\<rparr>))"

definition p_kfree :: "nat \<Rightarrow> 'b brk_fn \<Rightarrow> addr \<Rightarrow> 'b proc \<Rightarrow> 'b proc res" where
  "p_kfree fuel brk p s = res_bind (kfree fuel brk p (heap s)) (\<lambda>h. Done (s\<lparr>heap := h\<rparr>))"

section \<open>Operations\<close>

text \<open>The transfer loop of \<open>PROC_set_scheduler\<close>, from the thread \<open>th\<close> on.\<close>

primrec transfer :: "nat \<Rightarrow> 'b proc sched_ops \<Rightarrow> 'b proc sched_ops \<Rightarrow> addr \<Rightarrow> 'b proc \<Rightarrow> 'b proc res" where
  "transfer 0 old new th s = NoFuel"
| "transfer (Suc fuel) old new th s =
     (if th = NULL then Done s
      else res_bind (admit_op new th s) (\<lambda>s.
           res_bind (remove_op old th s) (\<lambda>s.
           res_bind (next_op old s) (\<lambda>(th, s). transfer fuel old new th s))))"

definition run_opt :: "('s \<Rightarrow> 's res) option \<Rightarrow> 's \<Rightarrow> 's res" where
  "run_opt f s = (case f of None \<Rightarrow> Done s | Some f \<Rightarrow> f s)"

definition PROC_set_scheduler ::
    "nat \<Rightarrow> (addr \<Rightarrow> 'b proc sched_ops) \<Rightarrow> sched_ref option \<Rightarrow> 'b proc \<Rightarrow> 'b proc res" where
  "PROC_set_scheduler fuel others r s =
     (case (active_sched s, r) of
        (Some old, Some new) \<Rightarrow>
          let o_ops = sched_struct others old; n_ops = sched_struct others new in
          res_bind (if curr_kthread s \<noteq> NULL then admit_op n_ops (curr_kthread s) s else Done s) (\<lambda>s.
          res_bind (next_op o_ops s) (\<lambda>(th, s).
          res_bind (transfer fuel o_ops n_ops th s) (\<lambda>s.
          res_bind (run_opt (shutdown_op o_ops) s) (\<lambda>s.
          run_opt (init_op n_ops) (s\<lparr>active_sched := Some new\<rparr>)))))
      | _ \<Rightarrow>
          let new = (case r of None \<Rightarrow> RR_SCHEDULER | Some new \<Rightarrow> new) in
          run_opt (init_op (sched_struct others new)) (s\<lparr>active_sched := Some new\<rparr>))"

definition PROC_init :: "nat \<Rightarrow> 'b brk_fn \<Rightarrow> (addr \<Rightarrow> 'b proc sched_ops) \<Rightarrow> 'b proc \<Rightarrow> 'b proc res" where
  "PROC_init fuel brk others s =
     (if setup_flag s then Done s
      else res_bind (p_kmalloc fuel brk sizeof_kthread s) (\<lambda>(t, s).
        let s = s\<lparr>main_kthread := t\<rparr>;
            s = set_field32 0 t 0 s;
            s = set_field32 224 t (SET_TERM_STAT 0 PROC_LIVE) s;
            s = set_field64 8 t NULL s;
            s = set_field64 16 t 0 s;
            s = s\<lparr>curr_kthread := t\<rparr>
        in res_bind (if active_sched s = None then PROC_set_scheduler fuel others None s else Done s) (\<lambda>s.
           Done (s\<lparr>setup_flag := True\<rparr>))))"

definition PROC_run :: "nat \<Rightarrow> 'b brk_fn \<Rightarrow> (addr \<Rightarrow> 'b proc sched_ops) \<Rightarrow> 'b proc \<Rightarrow> 'b proc res" where
  "PROC_run fuel brk others s =
     res_bind (PROC_init fuel brk others s) (\<lambda>s.
     res_bind (with_sched others next_op s) (\<lambda>(t, s).
     let s = s\<lparr>curr_kthread := t\<rparr> in
     if t = NULL then Done s
     else let s = set_field32 224 t (SET_TERM_STAT 0 PROC_LIVE) s
          in with_sched others (\<lambda>ops. admit_op ops t) s))"

definition PROC_create_kthread :: "nat \<Rightarrow> 'b brk_fn \<Rightarrow> u64 \<Rightarrow> u64 \<Rightarrow> 'b proc \<Rightarrow> (addr \<times> 'b proc) res" where
  "PROC_create_kthread fuel brk entry_point arg s =
     res_bind (p_kmalloc fuel brk sizeof_kthread s) (\<lambda>(t, s).
     let s = s\<lparr>pid_cnt := pid_cnt s + 1\<rparr>;
         s = set_field32 0 t (pid_cnt s) s;
         s = set_field32 224 t (SET_TERM_STAT 0 PROC_LIVE) s
     in res_bind (p_kmalloc fuel brk PROC_STACK_SIZE s) (\<lambda>(st, s).
     let s = set_field64 8 t st s;
         s = set_field64 16 t PROC_STACK_SIZE s;
         s = set_field64 200 t (t_stack (kmem (heap s)) t) s;
         s = set_field64 192 t (t_stack (kmem (heap s)) t) s;
         s = set_field64 64 t arg s;
         s = set_field64 8 (t_stack (kmem (heap s)) t) entry_point s
     in Done (t, s)))"

definition PROC_get_active_kthread :: "'b proc \<Rightarrow> addr" where "PROC_get_active_kthread s = curr_kthread s"

definition PROC_reschedule :: "(addr \<Rightarrow> 'b proc sched_ops) \<Rightarrow> 'b proc \<Rightarrow> 'b proc res" where
  "PROC_reschedule others s =
     res_bind (with_sched others next_op s) (\<lambda>(t, s). Done (s\<lparr>curr_kthread := t\<rparr>))"

definition yield :: "(addr \<Rightarrow> 'b proc sched_ops) \<Rightarrow> 'b proc \<Rightarrow> 'b proc res" where
  "yield others s = res_bind (with_sched others next_op s) (\<lambda>(t, s). Done (s\<lparr>curr_kthread := t\<rparr>))"

definition kexit :: "nat \<Rightarrow> 'b brk_fn \<Rightarrow> (addr \<Rightarrow> 'b proc sched_ops) \<Rightarrow> 'b proc \<Rightarrow> 'b proc res" where
  "kexit fuel brk others s =
     res_bind (p_kfree fuel brk (t_stack (kmem (heap s)) (curr_kthread s)) s) (\<lambda>s.
     res_bind (p_kfree fuel brk (curr_kthread s) s) (\<lambda>s.
     res_bind (with_sched others next_op s) (\<lambda>(t, s). Done (s\<lparr>curr_kthread := t\<rparr>))))"

end
