(* ===== verification/ProcProps.thy ===== *)
theory ProcProps imports Proc begin

text \<open>
  The properties of the round-robin scheduler (lib/ksched.c) and of the tasking system
  (lib/kproc.c) on top of it and of the kernel heap.
\<close>

section \<open>The scheduler\<close>

text \<open>C12: on the queue its linked list represents, \<open>rr_admit\<close> appends a thread that is not in it,
  \<open>rr_remove\<close> deletes one that is, and \<open>rr_next\<close> returns the first and moves it to the back (or
  returns \<open>NULL\<close> when there is none).\<close>

theorem rr_refines_queue:
  assumes "rr_holds s ts"
  shows "(threads_fit (ts @ [t]) \<longrightarrow> (\<exists>s'. rr_admit t s = Done s' \<and> rr_holds s' (ts @ [t])))
     \<and> (t \<in> set ts \<longrightarrow> (\<exists>s'. rr_remove t s = Done s' \<and> rr_holds s' (remove1 t ts)))
     \<and> (case ts of [] \<Rightarrow> rr_next s = Done (NULL, s)
        | u # us \<Rightarrow> \<exists>s'. rr_next s = Done (u, s') \<and> rr_holds s' (us @ [u]))"
  using rr.admit_law [OF assms, of t] rr.remove_law [OF assms, of t] rr.next_law [of s "hd ts" "tl ts"] rr.next_none [of s] assms
  by (cases ts) simp_all

text \<open>C23: round robin: as many calls of \<open>rr_next\<close> as there are threads select each thread once,
  in the order of the queue, and leave the queue as it was.\<close>

theorem rr_round_robin:
  assumes "rr_holds s ts"
  shows "\<exists>s'. serve rr_next (length ts) s = Done (ts, s') \<and> rr_holds s' ts"
  using assms by (rule rr.serve_round)

text \<open>Removing a thread from a pool it is not in: a pool of one is emptied.\<close>

lemma rr_remove_stranger:
  assumes "rr_holds s [t]"
  shows "\<exists>s'. rr_remove v s = Done s' \<and> rr_holds s' []"
  using assms holds_valid [OF assms] by (simp add: rr_remove_def Let_def rr_holds_def threads_fit_def)

section \<open>Running threads\<close>

lemma with_rr: "active_sched s = Some RR_SCHEDULER \<Longrightarrow> with_sched others f s = f rr_sched_struct s"
  by (simp add: with_sched_def)

lemma set_field_simps [simp]:
  "active_sched (set_field32 i t v s) = active_sched s" "ll_head (set_field32 i t v s) = ll_head s"
  "ll_tail (set_field32 i t v s) = ll_tail s" "ll_len (set_field32 i t v s) = ll_len s"
  "setup_flag (set_field32 i t v s) = setup_flag s" "curr_kthread (set_field32 i t v s) = curr_kthread s"
  "kmem (heap (set_field32 i t v s)) = wr32 (kmem (heap s)) (t + i) v"
  "active_sched (set_field64 i t w s) = active_sched s" "ll_head (set_field64 i t w s) = ll_head s"
  "ll_tail (set_field64 i t w s) = ll_tail s" "ll_len (set_field64 i t w s) = ll_len s"
  "setup_flag (set_field64 i t w s) = setup_flag s" "curr_kthread (set_field64 i t w s) = curr_kthread s"
  "kmem (heap (set_field64 i t w s)) = wr64 (kmem (heap s)) (t + i) w"
  "main_kthread (set_field32 i t v s) = main_kthread s" "main_kthread (set_field64 i t w s) = main_kthread s"
  by (simp_all add: set_field32_def set_field64_def)

text \<open>C31: \<open>PROC_run\<close> admits the thread it selected although it is still in the pool: with a single
  thread the list is then inconsistent, and the next call of \<open>PROC_run\<close> halts the machine.\<close>

theorem proc_run_twice_halts:
  assumes h: "rr_holds s [t]" and st: "setup_flag s" "active_sched s = Some RR_SCHEDULER"
  shows "\<exists>s1. PROC_run fuel brk others s = Done s1 \<and> curr_kthread s1 = t
     \<and> PROC_run fuel brk others s1 = Halt ''Linked list containing a single node does not have a length of 1!''"
proof -
  let ?s = "set_field32 224 t (SET_TERM_STAT 0 PROC_LIVE) (s\<lparr>curr_kthread := t\<rparr>)"
  let ?s1 = "((set_sched_prev t t (set_sched_next t t ?s))\<lparr>ll_tail := t\<rparr>)\<lparr>ll_len := 2\<rparr>"
  have l: "ll_head s = t" "ll_tail s = t" "ll_len s = 1" "t \<noteq> NULL"
    using h by (auto simp: rr_holds_def threads_fit_def thread_ok_def)
  have i: "PROC_init fuel brk others s' = Done s'" if "setup_flag s'" for s'
    using that by (simp add: PROC_init_def)
  have n: "rr_next s = Done (t, s)" using l holds_valid [OF h] by (simp add: rr_next_def)
  have a: "rr_admit t ?s = Done ?s1" using l by (simp add: rr_admit_def validate_ll_def Let_def)
  have "PROC_run fuel brk others s = Done ?s1"
    using st l n a by (simp add: PROC_run_def i with_rr rr_sched_struct_def Let_def)
  moreover have "curr_kthread ?s1 = t" "setup_flag ?s1" "active_sched ?s1 = Some RR_SCHEDULER"
    using st by (simp_all add: set_sched_next_def set_sched_prev_def)
  moreover have "rr_next ?s1 = Halt ''Linked list containing a single node does not have a length of 1!''"
    using l by (simp add: rr_next_def validate_ll_def)
  ultimately show ?thesis
    by (intro exI [of _ ?s1]) (simp add: PROC_run_def [of _ _ _ ?s1] i with_rr rr_sched_struct_def)
qed

text \<open>C30: \<open>PROC_init\<close> allocates the size of a pointer for the main thread and writes the whole
  structure: its stack size lands on the \<open>ptr\<close> field of the header of the next block, which
  was valid before.\<close>

theorem proc_init_clobbers_heap:
  assumes heap: "heap_at (heap s) bs hi" and pk: "pick 16 bs = Some a" and big: "(a, n, True) \<in> set bs" "64 \<le> n"
    and fuel: "length bs \<le> fuel" and st: "\<not> setup_flag s" "active_sched s = None"
  shows "\<exists>h1 bs1 k s'. kmalloc fuel brk 8 (heap s) = Done (a + 32, h1) \<and> heap_at h1 bs1 hi \<and> (a + 48, k, True) \<in> set bs1
     \<and> PROC_init fuel brk others s = Done s' \<and> main_kthread s' = a + 32 \<and> h_ptr (kmem (heap s')) (a + 48) = NULL"
proof -
  have r: "round16 (max 1 (unat (8 :: u64))) = 16" by (simp add: round16_def)
  obtain h1 xs m ys where k: "kmalloc fuel brk 8 (heap s) = Done (a + 32, h1)" "bs = xs @ (a, m, True) # ys"
    "heap_at h1 (xs @ taken a m 16 ys) hi" "m = 16 \<or> ys = []"
    using kmalloc_pick [OF heap, of 8 a fuel brk] pk fuel unfolding r by auto
  have "m = n"
    using spaced_disjoint [of _ hi bs a m True a n True] heap big k(2) by (fastforce simp: heap_at_def)
  then have bl: "(a + 48, n - 48, True) \<in> set (xs @ taken a m 16 ys)" using k(4) big by (simp add: taken_def)
  define s1 where "s1 = set_field64 16 (a + 32) 0 (set_field64 8 (a + 32) NULL (set_field32 224 (a + 32) (SET_TERM_STAT 0 PROC_LIVE)
      (set_field32 0 (a + 32) 0 (s\<lparr>heap := h1, main_kthread := a + 32\<rparr>))))"
  have "PROC_init fuel brk others s = Done (s1\<lparr>curr_kthread := a + 32, active_sched := Some RR_SCHEDULER, setup_flag := True\<rparr>)"
    using st k(1) by (simp add: PROC_init_def p_kmalloc_def sizeof_kthread_def s1_def Let_def PROC_set_scheduler_def
        run_opt_def rr_sched_struct_def)
  moreover have "h_ptr (kmem (heap s1)) (a + 48) = NULL"
    by (simp add: s1_def h_ptr_def add.assoc)
  moreover have "main_kthread s1 = a + 32" by (simp add: s1_def)
  ultimately show ?thesis using k(1,3) bl by fastforce
qed

section \<open>Leaving a thread\<close>

lemma length_freed: "length (freed xs a n ys) \<le> length xs + 1 + length ys"
proof -
  have j: "length (join_next x zs) \<le> Suc (length zs)" for x zs
    by (cases "(x, zs)" rule: join_next.cases) auto
  show ?thesis
    using j [of "(a, n, True)" ys] j [of "last xs" "join_next (a, n, True) ys"]
    by (cases xs) (auto simp: freed_def Let_def)
qed

lemma kfree_in_use:
  assumes heap: "heap_at s bs hi" and b: "(a, n, False) \<in> in_use bs" and n: "0 < n" and fuel: "length bs \<le> fuel"
    and brk: "brk 0 (brk_state s) = Done (tp, b')" "\<not> tp - 48 < a + 32"
  shows "\<exists>s' bs'. kfree fuel brk (a + 32) s = Done s' \<and> heap_at s' bs' hi \<and> in_use bs' = in_use bs - {(a, n, False)}
     \<and> length bs' \<le> length bs \<and> brk_state s' = b'"
proof -
  obtain xs ys where bs: "bs = xs @ (a, n, False) # ys"
    using b split_list by (fastforce simp: in_use_def)
  have sp: "spaced (unat (kernel_heap_head s)) hi (xs @ (a, n, False) # ys)"
    using heap bs by (simp add: heap_at_def)
  have "length xs < fuel" using fuel bs by simp
  then obtain s' where "kfree fuel brk (a + 32) s = Done s'" "heap_at s' (freed xs a n ys) hi" "brk_state s' = b'"
    using kfree_step [of s xs a n False ys hi fuel brk, OF _ n _ brk] heap unfolding bs by blast
  moreover have "in_use (freed xs a n ys) = in_use bs - {(a, n, False)}"
    unfolding in_use_freed bs by (rule in_use_remove [OF sp])
  ultimately show ?thesis using length_freed [of xs a n ys] bs
    by (intro exI [of _ s'] exI [of _ "freed xs a n ys"]) auto
qed

text \<open>\<open>kexit\<close> frees the stack and the structure of the current thread but leaves it in the
  pool: with a single thread the thread it then selects is the one it has just freed.\<close>

theorem kexit_selects_freed_thread:
  assumes heap: "heap_at (heap s) bs hi" and fuel: "length bs \<le> fuel"
    and th: "(a, n, False) \<in> in_use bs" "0 < n" and sk: "(b, k, False) \<in> in_use bs" "0 < k" "a \<noteq> b"
    and brk: "brk 0 (brk_state (heap s)) = Done (tp, brk_state (heap s))" "\<not> tp - 48 < a + 32" "\<not> tp - 48 < b + 32"
    and cur: "curr_kthread s = a + 32" "t_stack (kmem (heap s)) (a + 32) = b + 32"
    and pool: "rr_holds s [a + 32]" "active_sched s = Some RR_SCHEDULER"
  shows "\<exists>s' bs'. kexit fuel brk others s = Done s' \<and> curr_kthread s' = a + 32 \<and> heap_at (heap s') bs' hi
     \<and> in_use bs' = in_use bs - {(a, n, False), (b, k, False)}"
proof -
  obtain h1 bs1 where h1: "kfree fuel brk (b + 32) (heap s) = Done h1" "heap_at h1 bs1 hi"
    "in_use bs1 = in_use bs - {(b, k, False)}" "length bs1 \<le> length bs" "brk_state h1 = brk_state (heap s)"
    using kfree_in_use [of "heap s" bs hi b k fuel brk, OF heap sk(1,2) fuel brk(1,3)] by blast
  have th1: "(a, n, False) \<in> in_use bs1" and f1: "length bs1 \<le> fuel" using h1 th sk fuel by auto
  obtain h2 bs2 where h2: "kfree fuel brk (a + 32) h1 = Done h2" "heap_at h2 bs2 hi"
    "in_use bs2 = in_use bs1 - {(a, n, False)}"
    using kfree_in_use [of h1 bs1 hi a n fuel brk tp, OF h1(2) th1 th(2) f1 _ brk(2)] brk(1) unfolding h1(5) by blast
  let ?s = "s\<lparr>heap := h2\<rparr>"
  have p: "rr_holds ?s [a + 32]" using pool by (simp add: rr_holds_def)
  have "rr_next ?s = Done (a + 32, ?s)" using p holds_valid [OF p] by (simp add: rr_next_def rr_holds_def)
  then have "kexit fuel brk others s = Done (?s\<lparr>curr_kthread := a + 32\<rparr>)"
    using cur h1(1) h2(1) pool(2) by (simp add: kexit_def p_kfree_def with_rr rr_sched_struct_def)
  then show ?thesis using h2 h1 by (intro exI [of _ "?s\<lparr>curr_kthread := a + 32\<rparr>"] exI [of _ bs2]) auto
qed

section \<open>Witnesses\<close>

text \<open>A pool of the threads at 0x1000 and 0x2000, and a pool of one.\<close>

definition two_threads :: "unit proc" where
  "two_threads = \<lparr>heap = \<lparr>kmem = wr64 (wr64 (\<lambda>_. 0) (0x1000 + 248) 0x2000) (0x2000 + 256) 0x1000,
      kernel_heap_head = NULL, brk_state = (), kerrno = 0, heap_log = []\<rparr>,
     ll_head = 0x1000, ll_tail = 0x2000, ll_len = 2, main_kthread = NULL, curr_kthread = NULL, next_kthread = NULL,
     active_sched = Some RR_SCHEDULER, pid_cnt = 2, setup_flag = True\<rparr>"

lemma two_threads_hold: "rr_holds two_threads [0x1000, 0x2000]"
proof -
  have ap: "links_apart 0x1000 0x2000" "links_apart 0x2000 0x1000"
    unfolding links_apart_def by (rule apart_intervals; simp)+
  then have fit: "threads_fit [0x1000, 0x2000]" by (simp add: threads_fit_def thread_ok_def)
  let ?m = "wr64 (wr64 (\<lambda>_. 0) (0x1000 + 248) 0x2000) (0x2000 + 256) 0x1000"
  have m: "0x1000 \<in> set [0x1000, 0x2000 :: addr]" "0x2000 \<in> set [0x1000, 0x2000 :: addr]" by simp_all
  have "sched_next ?m 0x1000 = 0x2000" "sched_prev ?m 0x2000 = 0x1000"
    unfolding links_upd [OF fit m(2,1)] links_upd [OF fit m(1,1)] links_upd [OF fit m(2,2)] by simp_all
  then have "linked ?m [0x1000, 0x2000]" unfolding linked.simps by blast
  then show ?thesis using fit unfolding rr_holds_def two_threads_def by simp
qed

theorem rr_refines_queue_witness:
  "(\<exists>s'. rr_remove 0x1000 two_threads = Done s' \<and> rr_holds s' [0x2000])
   \<and> (\<exists>s'. rr_next two_threads = Done (0x1000, s') \<and> rr_holds s' [0x2000, 0x1000])"
  using rr_refines_queue [OF two_threads_hold, of "0x1000"] by simp

theorem rr_round_robin_witness:
  "\<exists>s'. serve rr_next 2 two_threads = Done ([0x1000, 0x2000], s') \<and> rr_holds s' [0x1000, 0x2000]"
proof -
  have "length [0x1000, 0x2000 :: addr] = 2" by simp
  then show ?thesis using rr_round_robin [OF two_threads_hold] by (simp only:)
qed

definition one_thread :: "unit proc" where
  "one_thread = two_threads\<lparr>ll_tail := 0x1000, ll_len := 1\<rparr>"

theorem proc_run_twice_halts_witness:
  "\<exists>s1. PROC_run 0 (\<lambda>_ b. Done (0, b)) (\<lambda>_. rr_sched_struct) one_thread = Done s1 \<and> curr_kthread s1 = 0x1000"
proof -
  have "rr_holds one_thread [0x1000]"
    by (simp add: one_thread_def two_threads_def rr_holds_def threads_fit_def thread_ok_def)
  moreover have "setup_flag one_thread" "active_sched one_thread = Some RR_SCHEDULER"
    by (simp_all add: one_thread_def two_threads_def)
  ultimately show ?thesis
    using proc_run_twice_halts [of one_thread "0x1000" 0 "\<lambda>_ b. Done (0, b)" "\<lambda>_. rr_sched_struct"] by blast
qed

definition boot_proc :: "mmu proc" where
  "boot_proc = \<lparr>heap = sample_heap, ll_head = NULL, ll_tail = NULL, ll_len = 0, main_kthread = NULL, curr_kthread = NULL,
     next_kthread = NULL, active_sched = None, pid_cnt = 0, setup_flag = False\<rparr>"

theorem proc_init_clobbers_heap_witness:
  "\<exists>s'. PROC_init 1 kbrk (\<lambda>_. rr_sched_struct) boot_proc = Done s' \<and> h_ptr (kmem (heap s')) 0x10000000030 = NULL"
proof -
  have h: "heap_at (heap boot_proc) [(0x10000000000, 4096, True)] 0x10000001020"
    using sample_heap_at by (simp add: boot_proc_def)
  show ?thesis
    using proc_init_clobbers_heap [OF h, of "0x10000000000" 4096 1 kbrk "\<lambda>_. rr_sched_struct"] by (auto simp: boot_proc_def)
qed

text \<open>A heap whose two blocks hold a thread and its stack.\<close>

definition thread_mem :: mem where
  "thread_mem = set_prev 0x10000000140 0x10000000000 (set_next 0x10000000140 NULL (set_free 0x10000000140 False
     (set_size 0x10000000140 4096 (set_ptr 0x10000000140 0x10000000160
       (set_prev 0x10000000000 NULL (set_next 0x10000000000 0x10000000140 (set_free 0x10000000000 False
         (set_size 0x10000000000 288 (set_ptr 0x10000000000 0x10000000020
           (wr64 (\<lambda>_. 0) (0x10000000020 + 8) 0x10000000160))))))))))"

definition exiting :: "unit proc" where
  "exiting = \<lparr>heap = \<lparr>kmem = thread_mem, kernel_heap_head = 0x10000000000, brk_state = (), kerrno = 0, heap_log = []\<rparr>,
     ll_head = 0x10000000020, ll_tail = 0x10000000020, ll_len = 1, main_kthread = NULL, curr_kthread = 0x10000000020,
     next_kthread = NULL, active_sched = Some RR_SCHEDULER, pid_cnt = 1, setup_flag = True\<rparr>"

lemma exiting_heap: "heap_at (heap exiting) [(0x10000000000, 288, False), (0x10000000140, 4096, False)] 0x10000001160"
  and exiting_stack: "t_stack (kmem (heap exiting)) 0x10000000020 = 0x10000000160"
proof -
  have ok: "hdr_ok 0x10000000000" "hdr_ok 0x10000000140" by (simp_all add: hdr_ok_def)
  have ap: "hdr_apart 0x10000000000 0x10000000140" by (rule hdr_apartI [OF ok]) simp
  show "heap_at (heap exiting) [(0x10000000000, 288, False), (0x10000000140, 4096, False)] 0x10000001160"
    by (simp add: heap_at_def exiting_def thread_mem_def hdr_def field_same [OF ok(1)] field_same [OF ok(2)] field_other [OF ap])
  have "thread_mem x = wr64 (\<lambda>_. 0) (0x10000000020 + 8) 0x10000000160 x" if x: "in_region x (0x10000000020 + 8) 8" for x
  proof -
    have o: "\<not> in_region x 0x10000000000 32" "\<not> in_region x 0x10000000140 32"
      using x in_region_unat [of "0x10000000020 + 8" 8 x] in_region_unat [of "0x10000000000" 32 x]
        in_region_unat [of "0x10000000140" 32 x] by auto
    show ?thesis unfolding thread_mem_def by (simp add: set_outside [OF ok(1) o(1)] set_outside [OF ok(2) o(2)])
  qed
  then have "rd64 thread_mem (0x10000000020 + 8) = 0x10000000160" using rd64_cong rd64_wr64_same by metis
  then show "t_stack (kmem (heap exiting)) 0x10000000020 = 0x10000000160" by (simp add: t_stack_def exiting_def)
qed

theorem kexit_selects_freed_thread_witness:
  "\<exists>s' bs'. kexit 2 (\<lambda>_ b. Done (0x10000002000, b)) (\<lambda>_. rr_sched_struct) exiting = Done s'
     \<and> curr_kthread s' = 0x10000000020 \<and> heap_at (heap s') bs' 0x10000001160 \<and> in_use bs' = {}"
proof -
  have p: "rr_holds exiting [0x10000000000 + 32]"
    by (simp add: exiting_def rr_holds_def threads_fit_def thread_ok_def)
  show ?thesis
    using kexit_selects_freed_thread [OF exiting_heap, of 2 "0x10000000000" 288 "0x10000000140" 4096 "\<lambda>_ b. Done (0x10000002000, b)"
        "0x10000002000" "\<lambda>_. rr_sched_struct"] p exiting_stack
    by (auto simp: exiting_def)
qed

end
