(* ===== verification/VirtSpace.thy ===== *)
theory VirtSpace imports BootProps begin

text \<open>
  The memory manager of src/drivers/mmu\_driver.c as a transition system: from the state its set-up
  leaves, its operations and the writes of their callers in any order. Every page frame has one
  owner: the allocator, the page tables, one virtual page above the identity map, or the client
  that took it from \<open>MMU_pf_alloc\<close>. Of the memory that is in use a step changes only what it
  writes to.
\<close>

section \<open>Owners\<close>

text \<open>The 513 pages that \<open>MMU_init\<close> maps to the frames of the same address; and the frame in the
  entry of a page, \<open>NULL\<close> if it has none.\<close>

definition identity_page :: "addr \<Rightarrow> bool" where
  "identity_page w \<longleftrightarrow> (\<exists>j \<le> 512. same_page w (4096 * of_nat j))"

definition frame_of :: "mmu \<Rightarrow> addr \<Rightarrow> addr" where
  "frame_of s w = READ_FRAME_ADDR (leaf s w)"

definition frames_owned :: "mmu \<Rightarrow> addr list \<Rightarrow> addr set \<Rightarrow> bool" where
  "frames_owned s xs cs \<longleftrightarrow> mmu_inv s xs \<and> (\<forall>f \<in> cs. data_frame s xs f)
     \<and> (\<forall>w. \<not> identity_page w \<longrightarrow> frame_of s w \<noteq> NULL \<longrightarrow> data_frame s xs (frame_of s w) \<and> frame_of s w \<notin> cs)
     \<and> (\<forall>v w. \<not> identity_page v \<longrightarrow> \<not> identity_page w \<longrightarrow> frame_of s v \<noteq> NULL \<longrightarrow> frame_of s v = frame_of s w
          \<longrightarrow> same_page v w)
     \<and> (\<forall>w. \<not> identity_page w \<longrightarrow> pte_present (leaf s w) \<longrightarrow> frame_of s w \<noteq> NULL)"

lemma identity_page_cong: "same_page v w \<Longrightarrow> identity_page v = identity_page w"
  by (simp add: identity_page_def same_page_def)

lemma same_page_sym: "same_page v w \<Longrightarrow> same_page w v"
  by (simp add: same_page_def)

lemma same_page_trans: "same_page u v \<Longrightarrow> same_page v w \<Longrightarrow> same_page u w"
  by (simp add: same_page_def)

lemma frame_of_cong: "same_page v w \<Longrightarrow> frame_of s v = frame_of s w"
  unfolding frame_of_def by (rule arg_cong [OF leaf_cong_same_page])

lemma READ_FRAME_ADDR_0 [simp]: "READ_FRAME_ADDR 0 = NULL"
  by (simp add: READ_FRAME_ADDR_def)

text \<open>An operation that gives no page a frame and takes none keeps the owners.\<close>

lemma owned_keep:
  assumes own: "frames_owned s xs cs" and inv: "mmu_inv t ys" and kept: "frames_stay s xs t ys"
    and frames: "\<And>w. frame_of t w = frame_of s w"
    and present: "\<And>w. pte_present (leaf t w) \<Longrightarrow> pte_present (leaf s w)"
  shows "frames_owned t ys cs"
  using own inv kept present unfolding frames_owned_def frames_stay_def frames by blast

text \<open>A page gets a frame the allocator held.\<close>

lemma owned_page:
  assumes own: "frames_owned s xs cs" and inv: "mmu_inv t ys" and kept: "frames_stay s xs t ys"
    and x: "x \<in> set xs" "data_frame t ys x"
    and frames: "\<And>w. frame_of t w = (if same_page w c then x else frame_of s w)"
    and present: "\<And>w. pte_present (leaf t w) \<Longrightarrow> same_page w c \<or> pte_present (leaf s w)"
  shows "frames_owned t ys cs"
  unfolding frames_owned_def
proof (intro conjI ballI allI impI)
  have nz: "x \<noteq> NULL" using x(2) by (simp add: data_frame_def good_frame_def)
  have new: "frame_of s w \<noteq> x" if "\<not> identity_page w" for w
    using own that x(1) nz unfolding frames_owned_def data_frame_def by metis
  show "mmu_inv t ys" by (rule inv)
  show "data_frame t ys f" if "f \<in> cs" for f using own kept that by (simp add: frames_owned_def frames_stay_def)
  fix w assume w: "\<not> identity_page w"
  show "data_frame t ys (frame_of t w)" if "frame_of t w \<noteq> NULL"
    using own kept x(2) w that by (auto simp: frames_owned_def frames_stay_def frames)
  have "x \<notin> cs" using own x(1) by (auto simp: frames_owned_def data_frame_def)
  then show "frame_of t w \<notin> cs" if "frame_of t w \<noteq> NULL"
    using own w that by (auto simp: frames_owned_def frames)
  show "frame_of t w \<noteq> NULL" if "pte_present (leaf t w)"
    using own w nz present [OF that] by (auto simp: frames_owned_def frames)
  fix v assume v: "\<not> identity_page v" "frame_of t v \<noteq> NULL" "frame_of t v = frame_of t w"
  show "same_page v w"
  proof (cases "same_page v c \<or> same_page w c")
    case True
    then have "same_page v c" "same_page w c" using v w new [of v] new [of w] by (auto simp: frames split: if_splits)
    then show ?thesis by (simp add: same_page_def)
  next
    case False
    then show ?thesis using v w own by (simp add: frames frames_owned_def)
  qed
qed

text \<open>A page gives its frame back.\<close>

lemma owned_release:
  assumes own: "frames_owned s xs cs" and inv: "mmu_inv t (frame_of s p # xs)"
    and p: "\<not> identity_page p" "frame_of s p \<noteq> NULL"
    and kept: "\<And>g. data_frame s xs g \<Longrightarrow> g \<noteq> frame_of s p \<Longrightarrow> data_frame t (frame_of s p # xs) g"
    and frames: "\<And>w. frame_of t w = (if same_page w p then NULL else frame_of s w)"
    and present: "\<And>w. pte_present (leaf t w) \<Longrightarrow> \<not> same_page w p \<and> pte_present (leaf s w)"
  shows "frames_owned t (frame_of s p # xs) cs"
  unfolding frames_owned_def
proof (intro conjI ballI allI impI)
  have other: "frame_of s w \<noteq> frame_of s p" if "\<not> identity_page w" "\<not> same_page w p" for w
    using own p that unfolding frames_owned_def by metis
  have "frame_of s p \<notin> cs" using own p by (simp add: frames_owned_def)
  then show "data_frame t (frame_of s p # xs) f" if "f \<in> cs" for f
    using own that by (intro kept) (auto simp: frames_owned_def)
  show "mmu_inv t (frame_of s p # xs)" by (rule inv)
  fix w assume w: "\<not> identity_page w"
  show "data_frame t (frame_of s p # xs) (frame_of t w)" "frame_of t w \<notin> cs" if "frame_of t w \<noteq> NULL"
    using own w that kept other [OF w] by (auto simp: frames_owned_def frames split: if_splits)
  show "frame_of t w \<noteq> NULL" if "pte_present (leaf t w)"
    using own w present [OF that] by (auto simp: frames_owned_def frames)
  fix v assume "\<not> identity_page v" "frame_of t v \<noteq> NULL" "frame_of t v = frame_of t w"
  then show "same_page v w" using own w by (auto simp: frames_owned_def frames split: if_splits)
qed

section \<open>The operations\<close>

text \<open>What most operations leave: every page keeps its frame, and every frame that is neither a table
  nor held by the allocator keeps what it holds.\<close>

definition frames_stable :: "mmu \<Rightarrow> addr list \<Rightarrow> mmu \<Rightarrow> addr list \<Rightarrow> bool" where
  "frames_stable s xs t ys \<longleftrightarrow> frames_kept s xs t ys \<and> (\<forall>w. frame_of t w = frame_of s w)"

lemma frames_stable_refl [simp]: "frames_stable s xs s xs"
  by (simp add: frames_stable_def)

lemma frames_stable_trans: "frames_stable s xs t ys \<Longrightarrow> frames_stable t ys u zs \<Longrightarrow> frames_stable s xs u zs"
  unfolding frames_stable_def using frames_kept_trans by metis

lemma owned_alloc_page:
  assumes own: "frames_owned s xs cs" and run: "MMU_alloc_page region s = Done (va, t)"
  shows "\<exists>ys. frames_owned t ys cs \<and> frames_stable s xs t ys"
proof -
  have inv: "mmu_inv s xs" using own by (simp add: frames_owned_def)
  have al: "page_aligned (virt_addr_bank s region)"
    using run by (auto simp: MMU_alloc_page_def get_pt_entry_def CHECK_PAGE_ALIGNED_def PAGE_SIZE_def page_aligned_def
        Let_def split: if_splits)
  from MMU_alloc_page_cases [OF inv al] run obtain n where i: "mmu_inv t (drop n xs)" and k: "frames_kept s xs t (drop n xs)"
    and l: "\<forall>w. leaf t w = (if same_page w (virt_addr_bank s region)
                              then demand_entry (leaf s (virt_addr_bank s region)) else leaf s w)"
    by auto
  have fr: "frame_of t w = frame_of s w" and pr: "pte_present (leaf t w) \<Longrightarrow> pte_present (leaf s w)" for w
    using l leaf_cong_same_page [of w "virt_addr_bank s region" s] by (auto simp: frame_of_def split: if_splits)
  have "frames_owned t (drop n xs) cs" by (rule owned_keep [OF own i frames_kept_stay [OF k] fr pr])
  then show ?thesis using k fr unfolding frames_stable_def by blast
qed

lemma owned_alloc_pages:
  "alloc_pages_loop n region s = Done t \<Longrightarrow> frames_owned s xs cs \<Longrightarrow>
   \<exists>ys. frames_owned t ys cs \<and> frames_stable s xs t ys"
proof (induction n arbitrary: s xs)
  case (Suc n)
  obtain va u where u: "MMU_alloc_page region s = Done (va, u)" "alloc_pages_loop n region u = Done t"
    using Suc.prems(1) by auto
  then show ?case using Suc.IH owned_alloc_page [OF Suc.prems(2) u(1)] frames_stable_trans by meson
qed (auto intro: frames_stable_refl)

lemma owned_fault:
  assumes own: "frames_owned s xs cs" and run: "page_fault_irq err cr2 s = Done t"
  shows "\<exists>ys. frames_owned t ys cs \<and> frames_kept s xs t ys \<and> (\<forall>w. pte_present (leaf s w) \<longrightarrow> frame_of t w = frame_of s w)"
proof -
  have inv: "mmu_inv s xs" using own by (simp add: frames_owned_def)
  note dem = page_fault_irq_recovers [OF inv run]
  from page_fault_irq_demand_cases [OF inv dem, of err] run
  obtain n where n: "n < length xs" "mmu_inv t (drop (Suc n) xs)" "frames_kept s xs t (drop (Suc n) xs)"
    and x: "data_frame t (drop (Suc n) xs) (xs ! n)"
    and l: "\<forall>w. leaf t w = (if same_page w cr2 then mapped_entry (xs ! n) else leaf s w)"
    by auto
  have "READ_FRAME_ADDR (xs ! n) = xs ! n" using x by (simp add: data_frame_def good_frame_def)
  then have fr: "frame_of t w = (if same_page w cr2 then xs ! n else frame_of s w)"
    and pr: "pte_present (leaf t w) \<Longrightarrow> same_page w cr2 \<or> pte_present (leaf s w)" for w
    using l by (auto simp: frame_of_def split: if_splits)
  have "frames_owned t (drop (Suc n) xs) cs"
    by (rule owned_page [OF own n(2) frames_kept_stay [OF n(3)] nth_mem [OF n(1)] x fr pr])
  moreover have "\<not> same_page w cr2" if "pte_present (leaf s w)" for w
    using dem(1) that leaf_cong_same_page [of w cr2 s] by auto
  ultimately show ?thesis using n(3) fr by auto
qed

lemma owned_free_page:
  assumes own: "frames_owned s xs cs" and run: "MMU_free_page page s = Done t" and high: "\<not> identity_page page"
  shows "\<exists>ys. frames_owned t ys cs \<and> (\<forall>w. frame_of t w = (if same_page w page then NULL else frame_of s w))
     \<and> (\<forall>g. data_frame s xs g \<longrightarrow> g \<noteq> frame_of s page \<longrightarrow> data_frame t ys g \<and> frame_unchanged s t g)"
proof -
  have inv: "mmu_inv s xs" using own by (simp add: frames_owned_def)
  note f = MMU_free_page_frame [OF inv run, folded frame_of_def]
  have df: "data_frame s xs (frame_of s page)" using own high f(2) by (simp add: frames_owned_def)
  from MMU_free_page_mapped [OF inv f(1) frame_of_def [symmetric] df] run
  have i: "mmu_inv t (frame_of s page # xs)" and l: "\<forall>w. leaf t w = (if same_page w page then 0 else leaf s w)"
    and k: "\<forall>g. data_frame s xs g \<longrightarrow> g \<noteq> frame_of s page \<longrightarrow>
              data_frame t (frame_of s page # xs) g \<and> frame_unchanged s t g"
    by auto
  have "frames_owned t (frame_of s page # xs) cs"
    by (rule owned_release [OF own i high f(2)]) (use l k in \<open>auto simp: frame_of_def split: if_splits\<close>)
  then show ?thesis using k l by (intro exI [of _ "frame_of s page # xs"]) (simp add: frame_of_def)
qed

lemma owned_free_pages:
  "MMU_free_pages n page s = Done t \<Longrightarrow> \<forall>i < n. \<not> identity_page (page + PAGE_SIZE * of_nat i) \<Longrightarrow>
   frames_owned s xs cs \<Longrightarrow>
   \<exists>ys. frames_owned t ys cs \<and> (\<forall>w. frame_of t w = NULL \<or> frame_of t w = frame_of s w)
     \<and> (\<forall>g. data_frame s xs g \<longrightarrow> (\<forall>w. \<not> identity_page w \<longrightarrow> frame_of s w = g \<longrightarrow> frame_of t w = g)
           \<longrightarrow> frame_unchanged s t g)"
proof (induction n arbitrary: page s xs)
  case 0
  then show ?case by auto
next
  case (Suc n)
  obtain u where u: "MMU_free_page page s = Done u" "MMU_free_pages n (page + PAGE_SIZE) u = Done t"
    using Suc.prems(1) by auto
  have high: "\<not> identity_page page" using Suc.prems(2) [rule_format, of 0] by simp
  from owned_free_page [OF Suc.prems(3) u(1) high]
  obtain ys where ys: "frames_owned u ys cs" and fu: "\<forall>w. frame_of u w = (if same_page w page then NULL else frame_of s w)"
    and k: "\<forall>g. data_frame s xs g \<longrightarrow> g \<noteq> frame_of s page \<longrightarrow> data_frame u ys g \<and> frame_unchanged s u g"
    by blast
  have "\<forall>i < n. \<not> identity_page (page + PAGE_SIZE + PAGE_SIZE * of_nat i)"
    using Suc.prems(2) by (auto simp: algebra_simps dest: spec [of _ "Suc _"])
  from Suc.IH [OF u(2) this ys] obtain zs where zs: "frames_owned t zs cs"
    and ft: "\<forall>w. frame_of t w = NULL \<or> frame_of t w = frame_of u w"
    and kt: "\<forall>g. data_frame u ys g \<longrightarrow> (\<forall>w. \<not> identity_page w \<longrightarrow> frame_of u w = g \<longrightarrow> frame_of t w = g)
           \<longrightarrow> frame_unchanged u t g"
    by blast
  have "frame_unchanged s t g" if g: "data_frame s xs g"
    and same: "\<forall>w. \<not> identity_page w \<longrightarrow> frame_of s w = g \<longrightarrow> frame_of t w = g" for g
  proof -
    have nz: "g \<noteq> NULL" using g by (simp add: data_frame_def good_frame_def)
    have "frame_of u page = NULL" using fu by simp
    then have "frame_of t page = NULL" using ft by metis
    then have "g \<noteq> frame_of s page" using same high nz by auto
    then have "data_frame u ys g" "frame_unchanged s u g" using k g by auto
    moreover have "\<forall>w. \<not> identity_page w \<longrightarrow> frame_of u w = g \<longrightarrow> frame_of t w = g" using same fu nz by auto
    ultimately show ?thesis using kt frame_unchanged_trans by blast
  qed
  moreover have "frame_of t w = NULL \<or> frame_of t w = frame_of s w" for w using ft fu by metis
  ultimately show ?case using zs by blast
qed

lemma owned_translate:
  assumes own: "frames_owned s xs cs" and run: "virt_to_phys va s = Done (p, t)"
  shows "\<exists>ys. frames_owned t ys cs \<and> frames_stable s xs t ys"
proof -
  have inv: "mmu_inv s xs" using own by (simp add: frames_owned_def)
  have al: "page_aligned va"
    using run by (auto simp: virt_to_phys_def get_pt_entry_def CHECK_PAGE_ALIGNED_def PAGE_SIZE_def page_aligned_def split: if_splits)
  from virt_to_phys_cases [OF inv al] run obtain n where i: "mmu_inv t (drop n xs)" and l: "leaf t = leaf s"
    and k: "frames_kept s xs t (drop n xs)"
    by auto
  have "frames_owned t (drop n xs) cs"
    by (rule owned_keep [OF own i frames_kept_stay [OF k]]) (simp_all add: frame_of_def l)
  then show ?thesis using k l unfolding frames_stable_def frame_of_def by auto
qed

text \<open>A client takes a frame, and gives one of its frames back.\<close>

lemma owned_pf_alloc:
  assumes own: "frames_owned s xs cs" and run: "MMU_pf_alloc s = Done (f, t)"
  shows "\<exists>ys. frames_owned t ys (insert f cs) \<and> frames_stable s xs t ys"
proof -
  have inv: "mmu_inv s xs" and held: "frames_held s xs" and tok: "tables_ok (pmem s) (pml4 s) xs"
    using own by (auto simp: frames_owned_def mmu_inv_def)
  from MMU_pf_alloc_cases [OF held] run obtain ys where xs: "xs = f # ys" and h: "frames_held t ys"
    and same: "pmem t = pmem s" "pml4 t = pml4 s"
    by auto
  have f: "good_frame f" "f \<notin> set ys" using pf.holds_good [OF held, of f] pf.holds_distinct [OF held] xs by auto
  have k: "frames_kept s xs t ys" by (simp add: frames_kept_def frames_stay_def data_frame_def same xs)
  have "data_frame t ys f" using f tables_okD(2) [OF tok, of _ f] by (auto simp: data_frame_def same xs)
  moreover have "mmu_inv t ys" using h tok unfolding mmu_inv_def tables_ok_def xs same by auto
  moreover have fr: "frame_of t w = frame_of s w" for w by (simp add: frame_of_def leaf_cong [OF same])
  moreover have "\<not> data_frame s xs f" by (simp add: data_frame_def xs)
  moreover have "leaf t = leaf s" by (rule leaf_cong [OF same])
  ultimately have "frames_owned t ys (insert f cs)"
    using own frames_kept_stay [OF k] unfolding frames_owned_def frames_stay_def by auto
  then show ?thesis using k fr unfolding frames_stable_def by blast
qed

lemma owned_pf_free:
  assumes own: "frames_owned s xs cs" and f: "f \<in> cs" and run: "MMU_pf_free f s = Done t"
  shows "\<exists>ys. frames_owned t ys (cs - {f}) \<and> (\<forall>w. frame_of t w = frame_of s w)
     \<and> (\<forall>g. data_frame s xs g \<longrightarrow> g \<noteq> f \<longrightarrow> frame_unchanged s t g)"
proof -
  have inv: "mmu_inv s xs" and df: "data_frame s xs f" using own f by (auto simp: frames_owned_def)
  from MMU_pf_free_data [OF inv df] run have t: "mmu_inv t (f # xs)" "leaf t = leaf s"
    and D: "\<forall>g. data_frame s xs g \<longrightarrow> g \<noteq> f \<longrightarrow> data_frame t (f # xs) g \<and> frame_unchanged s t g"
    by auto
  have fr: "frame_of t w = frame_of s w" for w by (simp add: frame_of_def t)
  have "frames_owned t (f # xs) (cs - {f})"
    using own t D f fr unfolding frames_owned_def by auto
  then show ?thesis using D fr by blast
qed

text \<open>Writing to a frame of one's own.\<close>

lemma owned_write:
  assumes own: "frames_owned s xs cs" and df: "data_frame s xs f" and a: "a - f < PAGE_SIZE"
  shows "frames_owned (s\<lparr>pmem := (pmem s)(a := v)\<rparr>) xs cs"
proof -
  have inv: "mmu_inv s xs" using own by (simp add: frames_owned_def)
  note w = data_write [OF inv df a, where v = v]
  show ?thesis by (rule owned_keep [OF own w(2,4)]) (simp_all add: frame_of_def w(3))
qed

section \<open>The memory manager in use\<close>

text \<open>\<open>cs\<close> are the frames clients hold. A word is written through a mapped page, as the hardware
  translates it, or through the physical address of a client's frame.\<close>

definition store :: "addr \<Rightarrow> u64 \<Rightarrow> mmu \<Rightarrow> mmu" where
  "store va v s = s\<lparr>pmem := (pmem s)(frame_of s va + GET_PHYS_PAGE_INDEX va := v)\<rparr>"

definition load :: "mmu \<Rightarrow> addr \<Rightarrow> u64" where
  "load s va = pmem s (frame_of s va + GET_PHYS_PAGE_INDEX va)"

inductive mem_op :: "mmu \<Rightarrow> addr set \<Rightarrow> mmu \<Rightarrow> addr set \<Rightarrow> bool" where
  pf_alloc: "MMU_pf_alloc s = Done (f, t) \<Longrightarrow> mem_op s cs t (insert f cs)"
| pf_free: "f \<in> cs \<Longrightarrow> MMU_pf_free f s = Done t \<Longrightarrow> mem_op s cs t (cs - {f})"
| alloc: "MMU_alloc_page region s = Done (va, t) \<Longrightarrow> mem_op s cs t cs"
| allocs: "MMU_alloc_pages n region s = Done (va, t) \<Longrightarrow> mem_op s cs t cs"
| free: "\<not> identity_page page \<Longrightarrow> MMU_free_page page s = Done t \<Longrightarrow> mem_op s cs t cs"
| frees: "\<forall>i < n. \<not> identity_page (page + PAGE_SIZE * of_nat i) \<Longrightarrow> MMU_free_pages n page s = Done t
     \<Longrightarrow> mem_op s cs t cs"
| kbreak: "kbrk inc s = Done (p, t) \<Longrightarrow> mem_op s cs t cs"
| sbreak: "sbrk inc s = Done (p, t) \<Longrightarrow> mem_op s cs t cs"
| fault: "page_fault_irq err cr2 s = Done t \<Longrightarrow> mem_op s cs t cs"
| translate: "virt_to_phys va s = Done (p, t) \<Longrightarrow> mem_op s cs t cs"

inductive mem_step :: "mmu \<Rightarrow> addr set \<Rightarrow> mmu \<Rightarrow> addr set \<Rightarrow> bool" where
  operate: "mem_op s cs t cs' \<Longrightarrow> mem_step s cs t cs'"
| write_page: "\<not> identity_page va \<Longrightarrow> pte_present (leaf s va) \<Longrightarrow> mem_step s cs (store va v s) cs"
| write_frame: "f \<in> cs \<Longrightarrow> off < PAGE_SIZE \<Longrightarrow> mem_step s cs (s\<lparr>pmem := (pmem s)(f + off := v)\<rparr>) cs"

lemmas mem_steps = mem_step.operate [OF mem_op.alloc] mem_step.operate [OF mem_op.fault]

text \<open>A run from a state, and the states reached from the one the set-up leaves.\<close>

inductive mem_run :: "mmu \<Rightarrow> mmu \<Rightarrow> addr set \<Rightarrow> bool" for s0 :: mmu where
  start_run: "mem_run s0 s0 {}"
| step_run: "mem_run s0 s cs \<Longrightarrow> mem_step s cs t cs' \<Longrightarrow> mem_run s0 t cs'"

definition mem_reachable :: "mmu \<Rightarrow> addr set \<Rightarrow> bool" where
  "mem_reachable s cs \<longleftrightarrow> (\<exists>s0 xs s1. frames_held s0 xs \<and> setup_tables s0 = Done s1 \<and> mem_run s1 s cs)"

lemma mem_reachable_set_up: "frames_held s0 xs \<Longrightarrow> setup_tables s0 = Done s1 \<Longrightarrow> mem_reachable s1 {}"
  unfolding mem_reachable_def using start_run by blast

lemma mem_reachable_step:
  assumes "mem_reachable s cs" and "mem_step s cs t cs'"
  shows "mem_reachable t cs'"
proof -
  obtain s0 xs s1 where "frames_held s0 xs" "setup_tables s0 = Done s1" "mem_run s1 s cs"
    using assms(1) unfolding mem_reachable_def by (elim exE conjE)
  moreover have "mem_run s1 t cs'" using calculation(3) assms(2) by (rule step_run)
  ultimately show ?thesis unfolding mem_reachable_def by (intro exI conjI)
qed

lemma page_offset_less: "GET_PHYS_PAGE_INDEX va < PAGE_SIZE"
proof -
  have "va AND 0xFFF \<le> 0xFFF" by (rule word_and_le1)
  then show ?thesis by (simp add: GET_PHYS_PAGE_INDEX_def PAGE_SIZE_def word_le_nat_alt word_less_nat_alt)
qed

lemma write_data:
  assumes own: "frames_owned s xs cs" and df: "data_frame s xs f" and off: "off < PAGE_SIZE"
  shows "frames_owned (s\<lparr>pmem := (pmem s)(f + off := v)\<rparr>) xs cs"
  by (rule owned_write [OF own df]) (use off in simp)

lemma store_leaf:
  assumes own: "frames_owned s xs cs" and v: "\<not> identity_page v" "pte_present (leaf s v)"
  shows "leaf (store v x s) = leaf s"
proof -
  have "mmu_inv s xs" "data_frame s xs (frame_of s v)" using own v by (simp_all add: frames_owned_def)
  then show ?thesis using data_write(3) [of s xs "frame_of s v"] page_offset_less [of v] by (simp add: store_def)
qed

text \<open>An operation keeps the owners; a page in use that it does not free keeps its frame; and so does
  what a frame holds that it does not take or free.\<close>

definition op_effect :: "mmu \<Rightarrow> addr list \<Rightarrow> addr set \<Rightarrow> mmu \<Rightarrow> addr set \<Rightarrow> bool" where
  "op_effect s xs cs t cs' \<longleftrightarrow> (\<exists>ys. frames_owned t ys cs')
     \<and> (\<forall>v. pte_present (leaf s v) \<longrightarrow> frame_of t v \<noteq> NULL \<longrightarrow> frame_of t v = frame_of s v)
     \<and> (\<forall>f. data_frame s xs f \<longrightarrow> (f \<in> cs \<longrightarrow> f \<in> cs') \<longrightarrow>
            (\<forall>w. \<not> identity_page w \<longrightarrow> frame_of s w = f \<longrightarrow> frame_of t w = f) \<longrightarrow> frame_unchanged s t f)"

lemma stable_effect: "frames_owned t ys cs' \<Longrightarrow> frames_stable s xs t ys \<Longrightarrow> op_effect s xs cs t cs'"
  unfolding op_effect_def frames_stable_def frames_kept_def by blast

lemma alloc_pages_effect:
  assumes "t = s \<or> alloc_pages_loop n region s = Done t" and "frames_owned s xs cs"
  shows "op_effect s xs cs t cs"
  using assms owned_alloc_pages [of n region s t xs cs] stable_effect frames_stable_refl by metis

lemma mem_op_effect:
  assumes "mem_op s cs t cs'" and own: "frames_owned s xs cs"
  shows "op_effect s xs cs t cs'"
  using assms(1)
proof (cases rule: mem_op.cases)
  case (pf_alloc f)
  then show ?thesis using owned_pf_alloc [OF own] stable_effect by blast
next
  case (pf_free g)
  then show ?thesis using owned_pf_free [OF own] unfolding op_effect_def by blast
next
  case (alloc region va)
  then show ?thesis using owned_alloc_page [OF own] stable_effect by blast
next
  case (allocs n region va)
  then have "alloc_pages_loop (unat n) region s = Done t" by (auto simp: MMU_alloc_pages_def Let_def)
  then show ?thesis using alloc_pages_effect own allocs by blast
next
  case (free page)
  from owned_free_page [OF own free(3,2)] obtain ys where ys: "frames_owned t ys cs"
    and fr: "\<forall>w. frame_of t w = (if same_page w page then NULL else frame_of s w)"
    and k: "\<forall>g. data_frame s xs g \<longrightarrow> g \<noteq> frame_of s page \<longrightarrow> data_frame t ys g \<and> frame_unchanged s t g"
    by blast
  have "f \<noteq> frame_of s page" if "data_frame s xs f" "\<forall>w. \<not> identity_page w \<longrightarrow> frame_of s w = f \<longrightarrow> frame_of t w = f" for f
    using that free(2) fr by (auto simp: data_frame_def good_frame_def)
  then show ?thesis using ys fr k free(1) unfolding op_effect_def by metis
next
  case (frees n page)
  then show ?thesis using owned_free_pages [OF _ _ own] unfolding op_effect_def by metis
next
  case (kbreak inc p)
  then have "t = s \<or> alloc_pages_loop (unat (inc div PAGE_SIZE)) MMU_VADDR_KHEAP s = Done t"
    by (auto simp: kbrk_def MMU_alloc_pages_def Let_def split: if_splits)
  then show ?thesis using alloc_pages_effect own kbreak by blast
next
  case (sbreak inc p)
  then have "t = s \<or> alloc_pages_loop (unat (inc div PAGE_SIZE)) MMU_VADDR_UHEAP s = Done t"
    by (auto simp: sbrk_def MMU_alloc_pages_def Let_def split: if_splits)
  then show ?thesis using alloc_pages_effect own sbreak by blast
next
  case (fault err cr2)
  then show ?thesis using owned_fault [OF own] unfolding op_effect_def frames_kept_def by blast
next
  case (translate va p)
  then show ?thesis using owned_translate [OF own] stable_effect by blast
qed

lemma step_owned:
  assumes "mem_step s cs t cs'" and own: "frames_owned s xs cs"
  shows "\<exists>ys. frames_owned t ys cs'"
  using assms(1)
proof (cases rule: mem_step.cases)
  case operate
  then show ?thesis using mem_op_effect [OF _ own] by (simp add: op_effect_def)
next
  case (write_page va v)
  have "data_frame s xs (frame_of s va)" using own write_page by (simp add: frames_owned_def)
  then show ?thesis
    using write_data [OF own _ page_offset_less, of "frame_of s va" va v] write_page by (auto simp: store_def)
next
  case (write_frame f off v)
  have "data_frame s xs f" using own write_frame by (simp add: frames_owned_def)
  then show ?thesis using write_data [OF own, of f off v] write_frame by auto
qed

text \<open>Frames \<open>F\<close> that nobody hands out: as if a client held them and never gave them back.\<close>

lemma op_apart:
  assumes op: "mem_op s cs t cs'" and own: "frames_owned s xs (cs \<union> F)" and apart: "cs \<inter> F = {}"
  shows "mem_op s (cs \<union> F) t (cs' \<union> F) \<and> cs' \<inter> F = {}"
proof
  have new: "f \<notin> F" if "MMU_pf_alloc s = Done (f, t)" for f
    using MMU_pf_alloc_cases [of s xs] own that by (auto simp: frames_owned_def mmu_inv_def data_frame_def)
  show "cs' \<inter> F = {}" using op apart new by (cases rule: mem_op.cases) auto
  show "mem_op s (cs \<union> F) t (cs' \<union> F)"
    using op
  proof (cases rule: mem_op.cases)
    case (pf_alloc f)
    then show ?thesis using mem_op.pf_alloc [of s f t "cs \<union> F"] by simp
  next
    case (pf_free f)
    then have "cs' \<union> F = (cs \<union> F) - {f}" using apart by blast
    then show ?thesis using mem_op.pf_free [of f "cs \<union> F" s t] pf_free by simp
  qed (auto intro: mem_op.intros)
qed

lemma step_owned_apart:
  assumes step: "mem_step s cs t cs'" and own: "frames_owned s xs (cs \<union> F)" and apart: "cs \<inter> F = {}"
  shows "(\<exists>ys. frames_owned t ys (cs' \<union> F)) \<and> cs' \<inter> F = {}"
proof -
  have "mem_step s (cs \<union> F) t (cs' \<union> F) \<and> cs' \<inter> F = {}"
    using step op_apart [OF _ own apart] apart
    by (cases rule: mem_step.cases) (auto intro: mem_step.intros)
  then show ?thesis using step_owned own by blast
qed

lemma run_owned:
  "mem_run s0 s cs \<Longrightarrow> frames_owned s0 xs F \<Longrightarrow> (\<exists>ys. frames_owned s ys (cs \<union> F)) \<and> cs \<inter> F = {}"
proof (induction rule: mem_run.induct)
  case (step_run s cs t cs')
  then show ?case using step_owned_apart by blast
qed auto

text \<open>The owners after the set-up: it gave no frame to a page above the identity map, and a frame the
  allocator did not hold before is nobody's.\<close>

lemma set_up_owned:
  assumes "frames_held s xs" and "setup_tables s = Done s'"
  shows "\<exists>ys. frames_owned s' ys {f. good_frame f \<and> f \<notin> set xs}"
proof -
  obtain c where c: "mmu_inv s' (drop c xs)" "\<forall>f. good_frame f \<longrightarrow> f \<notin> set xs \<longrightarrow> data_frame s' (drop c xs) f"
    and l: "\<forall>w. (\<forall>j \<le> 512. \<not> same_page w (4096 * of_nat j)) \<longrightarrow> leaf s' w = 0"
    using setup_tables_done [OF assms] by blast
  have "leaf s' w = 0" if "\<not> identity_page w" for w using l that by (simp add: identity_page_def)
  then have "frames_owned s' (drop c xs) {f. good_frame f \<and> f \<notin> set xs}"
    using c by (simp add: frames_owned_def frame_of_def)
  then show ?thesis by blast
qed

lemma reachable_owned:
  assumes "mem_reachable s cs"
  shows "\<exists>xs. frames_owned s xs cs"
proof -
  obtain s0 xs s1 where s1: "frames_held s0 xs" "setup_tables s0 = Done s1" "mem_run s1 s cs"
    using assms by (auto simp: mem_reachable_def)
  obtain ys where "frames_owned s1 ys {f. good_frame f \<and> f \<notin> set xs}" using set_up_owned [OF s1(1,2)] by blast
  then have "frames_owned s1 ys {}" by (simp add: frames_owned_def)
  then show ?thesis using run_owned [OF s1(3), of ys "{}"] by simp
qed

text \<open>C2: In every state the memory manager reaches from its set-up, by its operations and by writes of
  their callers in any order, a page frame has one owner: the frame of a page above the identity
  map is the frame of no other such page, it is no page table, the allocator does not hold it and
  no client has it; and no client's frame is a page table or held by the allocator.\<close>

theorem frames_have_one_owner:
  assumes "mem_reachable s cs"
  shows "\<exists>xs. frames_held s xs \<and> cs \<inter> set xs = {}
     \<and> (\<forall>p f. tpath p \<longrightarrow> tbl (pmem s) (pml4 s) p = Some f \<longrightarrow> f \<notin> set xs \<union> cs)
     \<and> (\<forall>w. \<not> identity_page w \<longrightarrow> frame_of s w \<noteq> NULL \<longrightarrow> frame_of s w \<notin> set xs \<union> cs
          \<and> (\<forall>p. tpath p \<longrightarrow> tbl (pmem s) (pml4 s) p \<noteq> Some (frame_of s w))
          \<and> (\<forall>v. \<not> identity_page v \<longrightarrow> frame_of s v = frame_of s w \<longrightarrow> same_page v w))"
proof -
  obtain xs where own: "frames_owned s xs cs" using reachable_owned [OF assms] by blast
  have held: "frames_held s xs" and tok: "tables_ok (pmem s) (pml4 s) xs"
    using own by (simp_all add: frames_owned_def mmu_inv_def)
  have C: "data_frame s xs f" if "f \<in> cs" for f using own that by (simp add: frames_owned_def)
  have P: "data_frame s xs (frame_of s w)" "frame_of s w \<notin> cs" if "\<not> identity_page w" "frame_of s w \<noteq> NULL" for w
    using own that by (simp_all add: frames_owned_def)
  have I: "same_page v w" if "\<not> identity_page w" "frame_of s w \<noteq> NULL" "\<not> identity_page v" "frame_of s v = frame_of s w" for v w
    using own that by (simp add: frames_owned_def)
  show ?thesis
  proof (intro exI [of _ xs] conjI allI impI)
    show "frames_held s xs" by (rule held)
    show "cs \<inter> set xs = {}" using C by (auto simp: data_frame_def)
    show "f \<notin> set xs \<union> cs" if "tpath p" "tbl (pmem s) (pml4 s) p = Some f" for p f
      using C [of f] tables_okD(2) [OF tok that] that by (auto simp: data_frame_def)
    fix w assume w: "\<not> identity_page w" "frame_of s w \<noteq> NULL"
    show "frame_of s w \<notin> set xs \<union> cs" using P [OF w] by (simp add: data_frame_def)
    show "tbl (pmem s) (pml4 s) p \<noteq> Some (frame_of s w)" if "tpath p" for p
      using P(1) [OF w] that by (simp add: data_frame_def)
    show "same_page v w" if "\<not> identity_page v" "frame_of s v = frame_of s w" for v by (rule I [OF w that])
  qed
qed

text \<open>C8: Memory reached through different pages is different memory: in every reachable state a store
  through a mapped page is read back there, and changes no word of another page, no frame of a
  client and no translation.\<close>

theorem pages_do_not_alias:
  assumes "mem_reachable s cs"
    and v: "\<not> identity_page v" "pte_present (leaf s v)" and w: "\<not> identity_page w" "pte_present (leaf s w)"
    and diff: "\<not> same_page v w"
  shows "load (store v x s) v = x \<and> load (store v x s) w = load s w \<and> leaf (store v x s) = leaf s
     \<and> (\<forall>f \<in> cs. \<forall>off < PAGE_SIZE. pmem (store v x s) (f + off) = pmem s (f + off))"
proof -
  obtain xs where own: "frames_owned s xs cs" using reachable_owned [OF assms(1)] by blast
  have dv: "data_frame s xs (frame_of s v)" and dw: "data_frame s xs (frame_of s w)"
    and ne: "frame_of s v \<noteq> frame_of s w" and cs: "frame_of s v \<notin> cs" "\<forall>f \<in> cs. data_frame s xs f"
    using own v w diff by (auto simp: frames_owned_def)
  have l: "leaf (store v x s) = leaf s" by (rule store_leaf [OF own v])
  have apart: "f + b \<noteq> frame_of s v + GET_PHYS_PAGE_INDEX v" if "good_frame f" "f \<noteq> frame_of s v" "b < PAGE_SIZE" for f b
    using frame_words_apart [OF that(1) _ that(3) page_offset_less] dv that(2) by (auto simp: data_frame_def)
  have "load (store v x s) w = load s w"
    using apart [OF _ ne [symmetric] page_offset_less] dw l by (simp add: load_def store_def frame_of_def data_frame_def)
  moreover have "load (store v x s) v = x" using l by (simp add: load_def store_def frame_of_def)
  moreover have "pmem (store v x s) (f + off) = pmem s (f + off)" if "f \<in> cs" "off < PAGE_SIZE" for f off
  proof -
    have "good_frame f" "f \<noteq> frame_of s v" using cs that(1) by (auto simp: data_frame_def)
    then show ?thesis using apart that(2) by (simp add: store_def)
  qed
  ultimately show ?thesis using l by blast
qed

section \<open>What a step leaves in memory\<close>

text \<open>A page in use that a step does not free keeps its frame.\<close>

lemma step_frame_of:
  assumes step: "mem_step s cs t cs'" and own: "frames_owned s xs cs"
    and v: "\<not> identity_page v" "pte_present (leaf s v)" "frame_of t v \<noteq> NULL"
  shows "frame_of t v = frame_of s v"
  using step
proof (cases rule: mem_step.cases)
  case operate
  then show ?thesis using mem_op_effect [OF _ own] v by (simp add: op_effect_def)
next
  case (write_page va x)
  then have "leaf t = leaf s" using store_leaf [OF own] by simp
  then show ?thesis by (simp add: frame_of_def)
next
  case (write_frame f off x)
  have "mmu_inv s xs" "data_frame s xs f" using own write_frame by (simp_all add: frames_owned_def)
  then have "leaf t = leaf s" using data_write(3) [of s xs f "f + off"] write_frame by simp
  then show ?thesis by (simp add: frame_of_def)
qed

text \<open>A frame that a step does not free changes only where the step writes to it.\<close>

definition writes :: "mmu \<Rightarrow> addr set \<Rightarrow> addr \<Rightarrow> addr \<Rightarrow> mmu \<Rightarrow> bool" where
  "writes s cs f off t \<longleftrightarrow> (\<exists>w x. \<not> identity_page w \<and> frame_of s w = f \<and> GET_PHYS_PAGE_INDEX w = off \<and> t = store w x s)
     \<or> (f \<in> cs \<and> (\<exists>x. t = s\<lparr>pmem := (pmem s)(f + off := x)\<rparr>))"

lemma step_unchanged:
  assumes step: "mem_step s cs t cs'" and own: "frames_owned s xs cs" and f: "data_frame s xs f"
    and kept: "f \<in> cs \<longrightarrow> f \<in> cs'" "\<forall>w. \<not> identity_page w \<longrightarrow> frame_of s w = f \<longrightarrow> frame_of t w = f"
    and off: "off < PAGE_SIZE"
  shows "pmem t (f + off) = pmem s (f + off) \<or> writes s cs f off t"
proof -
  have gf: "good_frame f" using f by (simp add: data_frame_def)
  show ?thesis
    using step
  proof (cases rule: mem_step.cases)
    case operate
    then have "frame_unchanged s t f" using mem_op_effect [OF _ own] f kept by (simp add: op_effect_def)
    then show ?thesis using off by (simp add: frame_unchanged_def)
  next
    case (write_page va x)
    show ?thesis
    proof (cases "frame_of s va = f \<and> GET_PHYS_PAGE_INDEX va = off")
      case True
      then show ?thesis using write_page unfolding writes_def by blast
    next
      case False
      have "good_frame (frame_of s va)" using own write_page by (simp add: frames_owned_def data_frame_def)
      then have "f + off \<noteq> frame_of s va + GET_PHYS_PAGE_INDEX va"
        using frame_words_apart [OF gf _ off page_offset_less] False by auto
      then show ?thesis using write_page by (simp add: store_def)
    qed
  next
    case (write_frame g o' x)
    show ?thesis
    proof (cases "g = f \<and> o' = off")
      case True
      then show ?thesis using write_frame unfolding writes_def by blast
    next
      case False
      have "good_frame g" using own write_frame by (simp add: frames_owned_def data_frame_def)
      then have "f + off \<noteq> g + o'" using frame_words_apart [OF gf _ off write_frame(4)] False by auto
      then show ?thesis using write_frame by simp
    qed
  qed
qed

text \<open>A page in use, and a frame a client keeps.\<close>

lemma page_step:
  assumes step: "mem_step s cs t cs'" and own: "frames_owned s xs cs"
    and v: "\<not> identity_page v" "pte_present (leaf s v)" "frame_of t v \<noteq> NULL"
  shows "frame_of t v = frame_of s v \<and> (load t v = load s v \<or> (\<exists>x. t = store v x s))"
proof -
  have fv: "frame_of t v = frame_of s v" by (rule step_frame_of [OF step own v])
  have nz: "frame_of s v \<noteq> NULL" using own v by (simp add: frames_owned_def)
  have dv: "data_frame s xs (frame_of s v)" "frame_of s v \<notin> cs" using own v(1) nz by (auto simp: frames_owned_def)
  have "frame_of t w = frame_of s v" if "\<not> identity_page w" "frame_of s w = frame_of s v" for w
  proof -
    have "same_page v w" using own v(1) nz that unfolding frames_owned_def by metis
    then show ?thesis using frame_of_cong fv by metis
  qed
  then have "pmem t (frame_of s v + GET_PHYS_PAGE_INDEX v) = pmem s (frame_of s v + GET_PHYS_PAGE_INDEX v)
      \<or> writes s cs (frame_of s v) (GET_PHYS_PAGE_INDEX v) t"
    using dv(2) by (intro step_unchanged [OF step own dv(1) _ _ page_offset_less]) auto
  then show ?thesis using dv(2) fv by (auto simp: load_def writes_def store_def)
qed

lemma client_step:
  assumes step: "mem_step s cs t cs'" and own: "frames_owned s xs cs" and f: "f \<in> cs \<inter> cs'" and off: "off < PAGE_SIZE"
  shows "pmem t (f + off) = pmem s (f + off) \<or> (\<exists>x. t = s\<lparr>pmem := (pmem s)(f + off := x)\<rparr>)"
proof -
  have df: "data_frame s xs f" using own f by (simp add: frames_owned_def)
  have none: "frame_of s w \<noteq> f" if "\<not> identity_page w" for w
    using own that f df by (auto simp: frames_owned_def data_frame_def good_frame_def)
  then have "pmem t (f + off) = pmem s (f + off) \<or> writes s cs f off t"
    using f by (intro step_unchanged [OF step own df _ _ off]) auto
  then show ?thesis using none unfolding writes_def by blast
qed

text \<open>A frame that nobody hands out keeps what it holds, all through a run.\<close>

lemma owned_subset: "frames_owned s xs cs \<Longrightarrow> ds \<subseteq> cs \<Longrightarrow> frames_owned s xs ds"
  unfolding frames_owned_def by blast

lemma run_unchanged:
  "mem_run s0 s cs \<Longrightarrow> frames_owned s0 xs F \<Longrightarrow> f \<in> F \<Longrightarrow> frame_unchanged s0 s f"
proof (induction rule: mem_run.induct)
  case (step_run s cs t cs')
  obtain ys where own: "frames_owned s ys (cs \<union> F)" and apart: "cs \<inter> F = {}"
    using run_owned [OF step_run.hyps(1) step_run.prems(1)] by blast
  have df: "data_frame s ys f" using own step_run.prems(2) by (simp add: frames_owned_def)
  have none: "frame_of s w \<noteq> f" if "\<not> identity_page w" for w
    using own that step_run.prems(2) df by (auto simp: frames_owned_def data_frame_def good_frame_def)
  have fc: "f \<notin> cs" using apart step_run.prems(2) by blast
  have "pmem t (f + off) = pmem s (f + off)" if "off < PAGE_SIZE" for off
    using step_unchanged [OF step_run.hyps(2) owned_subset [OF own] df _ _ that] none fc unfolding writes_def by blast
  then show ?case using step_run.IH [OF step_run.prems] by (simp add: frame_unchanged_def)
qed simp

text \<open>C4: Memory changes only by writes. In every reachable state a step of the memory manager or of its
  callers that leaves a mapped page its frame changes a word of the page only if it is a store to that
  very word; and it changes a word of a frame a client keeps only if it is a write to that word.\<close>

theorem memory_changes_by_writes_only:
  assumes "mem_reachable s cs" and step: "mem_step s cs t cs'"
  shows "(\<forall>v. \<not> identity_page v \<longrightarrow> pte_present (leaf s v) \<longrightarrow> frame_of t v \<noteq> NULL \<longrightarrow>
        frame_of t v = frame_of s v \<and> (load t v = load s v \<or> (\<exists>x. t = store v x s)))
     \<and> (\<forall>f \<in> cs \<inter> cs'. \<forall>off < PAGE_SIZE.
        pmem t (f + off) = pmem s (f + off) \<or> (\<exists>x. t = s\<lparr>pmem := (pmem s)(f + off := x)\<rparr>))"
proof -
  obtain xs where own: "frames_owned s xs cs" using reachable_owned [OF assms(1)] by blast
  have "frame_of t v = frame_of s v \<and> (load t v = load s v \<or> (\<exists>x. t = store v x s))"
    if v: "\<not> identity_page v" "pte_present (leaf s v)" "frame_of t v \<noteq> NULL" for v
    using page_step [OF step own v] .
  moreover have "pmem t (f + off) = pmem s (f + off) \<or> (\<exists>x. t = s\<lparr>pmem := (pmem s)(f + off := x)\<rparr>)"
    if f: "f \<in> cs \<inter> cs'" "off < PAGE_SIZE" for f off
    using client_step [OF step own f] .
  ultimately show ?thesis by blast
qed

section \<open>Witnesses\<close>

lemma identity_map_index: "identity_page w \<Longrightarrow> GET_PAGE_MAP_INDEX w = 0"
proof -
  assume "identity_page w"
  then obtain j where j: "j \<le> 512" "GET_PAGE_MAP_INDEX w = GET_PAGE_MAP_INDEX (4096 * of_nat j)"
    by (auto simp: identity_page_def same_page_def pt_path_def)
  have "unat (4096 * of_nat j :: u64) = 4096 * j" using j(1) by (simp add: unat_word_ariths unat_of_nat_u64)
  then have "unat (GET_PAGE_MAP_INDEX w) = 0" using j by (simp add: index_defs unat_index)
  then show "GET_PAGE_MAP_INDEX w = 0" by (simp add: unat_eq_zero)
qed

text \<open>Allocating a page of a region and touching it.\<close>

lemma reach_page:
  assumes r: "mem_reachable s cs" and inv: "mmu_inv s xs" and len: "12 \<le> length xs"
    and va: "virt_addr_bank s region = va" "page_aligned va"
  shows "\<exists>t ys. mem_reachable t cs \<and> mmu_inv t ys \<and> length xs \<le> length ys + 8 \<and> pte_present (leaf t va)
     \<and> (\<forall>w. \<not> same_page w va \<longrightarrow> leaf t w = leaf s w) \<and> (\<forall>q. q \<noteq> region \<longrightarrow> virt_addr_bank t q = virt_addr_bank s q)"
proof -
  obtain s1 n where a: "MMU_alloc_page region s = Done (va, s1)" "n \<le> 3" "mmu_inv s1 (drop n xs)"
    and l1: "\<forall>w. leaf s1 w = (if same_page w va then demand_entry (leaf s va) else leaf s w)"
    and b1: "virt_addr_bank s1 = (virt_addr_bank s)(region := va + 4096)"
    using MMU_alloc_page_ok [OF inv _ va(2) [folded va(1)]] len va(1) by auto
  have dem: "\<not> pte_present (leaf s1 va)" "pte_alloc (leaf s1 va)" using l1 by simp_all
  have "5 \<le> length (drop n xs)" using a(2) len by simp
  then obtain s2 m where b: "page_fault_irq 2 va s1 = Done s2" "m \<le> 3" "mmu_inv s2 (drop (Suc m) (drop n xs))"
    and l2: "\<forall>w. leaf s2 w = (if same_page w va then mapped_entry (drop n xs ! m) else leaf s1 w)"
    and b2: "virt_addr_bank s2 = virt_addr_bank s1"
    using page_fault_irq_demand [OF a(3) _ dem] by blast
  have "mem_reachable s2 cs"
    using mem_reachable_step [OF mem_reachable_step [OF r mem_steps(1) [OF a(1)]] mem_steps(2) [OF b(1)]] .
  moreover have "pte_present (leaf s2 va)" using l2 by simp
  moreover have "\<forall>w. \<not> same_page w va \<longrightarrow> leaf s2 w = leaf s w" using l1 l2 by simp
  moreover have "length xs \<le> length (drop (Suc m) (drop n xs)) + 8" using a(2) b(2) by simp
  ultimately show ?thesis using b(3) b1 b2 by fastforce
qed

text \<open>Two demand pages, one of the kernel's heap and one of the user's.\<close>

lemma sample_space:
  "\<exists>s. mem_reachable s {} \<and> pte_present (leaf s 0x10000000000) \<and> pte_present (leaf s 0x200000000000)"
proof -
  obtain s0 c where s0: "setup_tables big_mmu = Done s0" "mmu_inv s0
      (drop c (range_frames \<lparr>start = 0x200000, curr_frame = 0x201000, end_addr = 0xA00000\<rparr>))" "c \<le> 1539"
    and b0: "virt_addr_bank s0 = virt_addr_bank big_mmu"
    using setup_tables_ok [OF big_mmu_held] by (auto simp: big_mmu_length)
  have r0: "mem_reachable s0 {}" by (rule mem_reachable_set_up [OF big_mmu_held s0(1)])
  have bank: "virt_addr_bank s0 MMU_VADDR_KHEAP = 0x10000000000" "virt_addr_bank s0 MMU_VADDR_UHEAP = 0x200000000000"
    by (simp_all add: b0 big_mmu_def sample_mmu_def virt_addr_bank_init_def)
  have al: "page_aligned 0x10000000000" "page_aligned 0x200000000000" by (simp_all add: page_aligned_def)
  have "12 \<le> length (drop c (range_frames \<lparr>start = 0x200000, curr_frame = 0x201000, end_addr = 0xA00000\<rparr>))"
    using s0(3) by (simp add: big_mmu_length)
  from reach_page [OF r0 s0(2) this bank(1) al(1)]
  obtain s1 ys where s1: "mem_reachable s1 {}" "mmu_inv s1 ys" "pte_present (leaf s1 0x10000000000)"
    and len: "500 \<le> length ys" and b1: "\<forall>q. q \<noteq> MMU_VADDR_KHEAP \<longrightarrow> virt_addr_bank s1 q = virt_addr_bank s0 q"
    using s0(3) by (auto simp: big_mmu_length)
  have "virt_addr_bank s1 MMU_VADDR_UHEAP = 0x200000000000" using b1 bank(2) by simp
  from reach_page [OF s1(1,2) _ this al(2)] len
  obtain s2 where s2: "mem_reachable s2 {}" "pte_present (leaf s2 0x200000000000)"
    and l: "\<forall>w. \<not> same_page w 0x200000000000 \<longrightarrow> leaf s2 w = leaf s1 w"
    by auto
  have "\<not> same_page 0x10000000000 0x200000000000" by (simp add: same_page_def pt_path_def index_defs)
  then show ?thesis using s1(3) s2 l by (intro exI [of _ s2]) simp
qed

lemma sample_high: "\<not> identity_page 0x10000000000" "\<not> identity_page 0x200000000000"
  using identity_map_index [of "0x10000000000"] identity_map_index [of "0x200000000000"]
  by (auto simp: GET_PAGE_MAP_INDEX_def)

theorem frames_have_one_owner_witness:
  "\<exists>s xs. mem_reachable s {} \<and> frames_held s xs \<and> frame_of s 0x10000000000 \<noteq> NULL
     \<and> frame_of s 0x10000000000 \<notin> set xs"
proof -
  obtain s where s: "mem_reachable s {}" "pte_present (leaf s 0x10000000000)" using sample_space by blast
  obtain ys where "frames_owned s ys {}" using reachable_owned [OF s(1)] by blast
  then have f: "frame_of s 0x10000000000 \<noteq> NULL" using s(2) sample_high(1) by (simp add: frames_owned_def)
  from frames_have_one_owner [OF s(1)] sample_high(1) f
  obtain xs where "frames_held s xs" "frame_of s 0x10000000000 \<notin> set xs \<union> {}"
    by (elim exE conjE) (rule that, assumption, elim allE [of _ "0x10000000000"], simp)
  with s f show ?thesis by (intro exI [of _ s] exI [of _ xs]) simp
qed

theorem pages_do_not_alias_witness:
  "\<exists>s. mem_reachable s {} \<and> load (store 0x10000000000 7 s) 0x10000000000 = 7
     \<and> load (store 0x10000000000 7 s) 0x200000000008 = load s 0x200000000008"
proof -
  obtain s where s: "mem_reachable s {}" "pte_present (leaf s 0x10000000000)" "pte_present (leaf s 0x200000000000)"
    using sample_space by blast
  have sp: "same_page 0x200000000008 0x200000000000" by (simp add: same_page_def pt_path_def index_defs)
  have w: "\<not> identity_page 0x200000000008" "pte_present (leaf s 0x200000000008)"
    using s(3) sample_high(2) by (simp_all only: identity_page_cong [OF sp] leaf_cong_same_page [OF sp] not_False_eq_True)
  have ns: "\<not> same_page 0x10000000000 0x200000000008" by (simp add: same_page_def pt_path_def index_defs)
  show ?thesis
    using pages_do_not_alias [OF s(1) sample_high(1) s(2) w ns, of 7] s(1) by (intro exI [of _ s] conjI) (elim conjE, assumption)+
qed

theorem memory_changes_by_writes_only_witness:
  "\<exists>s t. mem_reachable s {} \<and> mem_step s {} t {} \<and> t = store 0x10000000000 7 s
     \<and> frame_of t 0x200000000000 = frame_of s 0x200000000000"
proof -
  obtain s where s: "mem_reachable s {}" "pte_present (leaf s 0x10000000000)" "pte_present (leaf s 0x200000000000)"
    using sample_space by blast
  define t where "t = store 0x10000000000 7 s"
  have step: "mem_step s {} t {}" unfolding t_def by (rule mem_step.write_page [OF sample_high(1) s(2)])
  obtain xs where own: "frames_owned s xs {}" using reachable_owned [OF s(1)] by blast
  have "frame_of t 0x200000000000 \<noteq> NULL"
    using store_leaf [OF own sample_high(1) s(2)] own sample_high(2) s(3) by (simp add: t_def frame_of_def frames_owned_def)
  with memory_changes_by_writes_only [OF s(1) step] sample_high(2) s(3)
  have "frame_of t 0x200000000000 = frame_of s 0x200000000000" by blast
  then show ?thesis using s(1) step t_def by blast
qed

end
