(* ===== verification/MemTests.thy ===== *)
theory MemTests imports VirtSpace begin

text \<open>
  The memory tests of src/boot/kernel\_main.c, whose calls in \<open>kernel_main\<close> are commented out:
  \<open>test_page\<close>, \<open>test_pf\<close>, \<open>test_alloc_all\<close>, \<open>test_virt_pages\<close>. A page is accessed at its virtual
  address: an access to a page that is not present runs the page-fault handler first.
\<close>

section \<open>The tests\<close>

definition touch :: "addr \<Rightarrow> mmu \<Rightarrow> mmu res" where
  "touch va s = (if pte_present (leaf s va) then Done s else page_fault_irq 2 va s)"

definition test_pattern :: "addr \<Rightarrow> u8" where
  "test_pattern page = ucast ((drop_bit 12 page + 0xA5) AND 0xFF)"

text \<open>\<open>memset\<close> of a page, by 64-bit words, and byte \<open>j\<close> of a page.\<close>

definition fill_page :: "addr \<Rightarrow> u8 \<Rightarrow> mmu \<Rightarrow> mmu" where
  "fill_page pf b s = s\<lparr>pmem := (\<lambda>a. if a - pf < PAGE_SIZE then rd64 (\<lambda>_. b) 0 else pmem s a)\<rparr>"

definition page_byte :: "addr \<Rightarrow> nat \<Rightarrow> mmu \<Rightarrow> u8" where
  "page_byte pf j s = ucast (drop_bit (8 * (j mod 8)) (pmem s (pf + 8 * of_nat (j div 8))))"

definition test_page :: "addr \<Rightarrow> mmu \<Rightarrow> mmu res" where
  "test_page page s =
     res_bind (touch page s) (\<lambda>s.
     let s = fill_page (frame_of s page) (test_pattern page) s in
     if list_all (\<lambda>j. page_byte (frame_of s page) j s = test_pattern page) [0..<4096]
     then Done s else Halt ''Memory test failed!'')"

primrec test_pf_loop :: "nat \<Rightarrow> nat \<Rightarrow> mmu \<Rightarrow> (addr list \<times> mmu) res" where
  "test_pf_loop 0 i s = Done ([], s)"
| "test_pf_loop (Suc n) i s =
     res_bind (MMU_pf_alloc s) (\<lambda>(f, s).
     res_bind (test_page f (mmu_say (OS_INFO ''Page %d: %p'' [of_nat i, f]) s)) (\<lambda>s.
     res_bind (test_pf_loop n (Suc i) s) (\<lambda>(fs, s). Done (f # fs, s))))"

primrec free_frames :: "addr list \<Rightarrow> mmu \<Rightarrow> mmu res" where
  "free_frames [] s = Done s"
| "free_frames (f # fs) s = res_bind (MMU_pf_free f s) (free_frames fs)"

definition test_pf :: "mmu \<Rightarrow> mmu res" where
  "test_pf s =
     (let s = mmu_say (OS_INFO ''Allocating %d pages...'' [10]) (mmu_say (OS_INFO ''Testing memory manager...'' []) s) in
     res_bind (test_pf_loop 10 0 s) (\<lambda>(page_frames, s).
     res_bind (free_frames (take 5 page_frames) (mmu_say (OS_INFO ''Freeing %d pages...'' [5]) s)) (\<lambda>s.
     res_bind (MMU_pf_alloc s) (\<lambda>(f, s).
     res_bind (test_page f (mmu_say (OS_INFO ''Page %d: %p'' [4, f]) s)) (\<lambda>s.
     res_bind (free_frames (drop 4 (page_frames[4 := f])) (mmu_say (OS_INFO ''Freeing %d pages...'' [5]) s)) (\<lambda>s.
     Done (mmu_say (OS_INFO ''Memory manager test is complete.'' []) s)))))))"

text \<open>\<open>while ( MMU_pf_alloc() != NULL );\<close>\<close>

primrec test_alloc_all :: "nat \<Rightarrow> mmu \<Rightarrow> mmu res" where
  "test_alloc_all 0 s = NoFuel"
| "test_alloc_all (Suc fuel) s =
     res_bind (MMU_pf_alloc s) (\<lambda>(f, s). if f \<noteq> NULL then test_alloc_all fuel s else Done s)"

primrec test_virt_loop :: "nat \<Rightarrow> mmu \<Rightarrow> (addr list \<times> mmu) res" where
  "test_virt_loop 0 s = Done ([], s)"
| "test_virt_loop (Suc n) s =
     res_bind (MMU_alloc_page MMU_VADDR_UHEAP s) (\<lambda>(p, s).
     res_bind (test_page p s) (\<lambda>s.
     res_bind (test_virt_loop n s) (\<lambda>(ps, s). Done (p # ps, s))))"

primrec free_each :: "addr list \<Rightarrow> mmu \<Rightarrow> mmu res" where
  "free_each [] s = Done s"
| "free_each (p # ps) s = res_bind (MMU_free_page p s) (free_each ps)"

definition test_virt_pages :: "mmu \<Rightarrow> mmu res" where
  "test_virt_pages s =
     (let s = mmu_say (OS_INFO ''Allocating %d virtual addresses...'' [0x100])
                (mmu_say (OS_INFO ''Testing virtual memory...'' []) s) in
     res_bind (test_virt_loop 0x100 s) (\<lambda>(page_frames, s).
     res_bind (free_each page_frames (mmu_say (OS_INFO ''Freeing %d pages...'' [0x100]) s)) (\<lambda>s.
     Done (mmu_say (OS_INFO ''Virtual memory test is complete!'' []) s))))"

section \<open>A page that is filled reads back\<close>

lemma rd_le_byte: "k < n \<Longrightarrow> n \<le> 8 \<Longrightarrow> ucast (drop_bit (8 * k) (rd_le n m a)) = m (a + of_nat k)"
proof (induction n arbitrary: a k)
  case (Suc n)
  show ?case
  proof (cases k)
    case 0
    show ?thesis unfolding 0
      by (rule bit_eqI) (auto simp: bit_unsigned_iff bit_or_iff bit_push_bit_iff dest: bit_imp_le_length)
  next
    case (Suc j)
    have "ucast (drop_bit (8 * k) (rd_le (Suc n) m a)) = (ucast (drop_bit (8 * j) (rd_le n m (a + 1))) :: u8)"
      by (rule bit_eqI) (use Suc Suc.prems in \<open>auto simp: bit_unsigned_iff bit_or_iff bit_push_bit_iff bit_drop_bit_eq
          dest: bit_imp_le_length\<close>)
    also have "\<dots> = m (a + 1 + of_nat j)" using Suc.IH [of j "a + 1"] Suc Suc.prems by simp
    finally show ?thesis using Suc by (simp add: add.assoc)
  qed
qed simp

lemma page_byte_fill:
  assumes "good_frame pf" and "j < 4096"
  shows "page_byte pf j (fill_page pf b s) = b"
proof -
  have j: "j div 8 < 512" using assms(2) by (simp add: less_mult_imp_div_less)
  then have "(of_nat (j div 8) :: u64) < 512" by (simp add: word_less_nat_alt unat_of_nat_u64)
  then have "pf + 8 * of_nat (j div 8) - pf < PAGE_SIZE"
    using entry_in_page [OF assms(1,1)] by (simp add: PAGE_SIZE_def)
  then show ?thesis
    using rd_le_byte [of "j mod 8" 8 "\<lambda>_. b" 0] by (simp add: page_byte_def fill_page_def rd64_def)
qed

lemma test_page_ok:
  assumes inv: "mmu_inv s xs" and pres: "pte_present (leaf s p)" and df: "data_frame s xs (frame_of s p)"
  shows "\<exists>t. test_page p s = Done t \<and> mmu_inv t xs \<and> leaf t = leaf s \<and> frames_stay s xs t xs
     \<and> virt_addr_bank t = virt_addr_bank s \<and> pml4 t = pml4 s"
proof -
  let ?t = "fill_page (frame_of s p) (test_pattern p) s"
  have w: "mmu_inv ?t xs" "leaf ?t = leaf s" "frames_stay s xs ?t xs"
    unfolding fill_page_def by (rule data_fill [OF inv df], simp)+
  have "good_frame (frame_of s p)" using df by (simp add: data_frame_def)
  then have "list_all (\<lambda>j. page_byte (frame_of ?t p) j ?t = test_pattern p) [0..<4096]"
    using page_byte_fill w(2) by (simp add: list_all_iff frame_of_def)
  then have "test_page p s = Done ?t" using pres by (simp add: test_page_def touch_def Let_def)
  then show ?thesis using w by (intro exI [of _ ?t]) (simp add: fill_page_def)
qed

section \<open>All frames\<close>

text \<open>The loop that allocates every frame never leaves by its condition: the allocator halts first.\<close>

theorem alloc_all_halts:
  assumes "frames_held s xs" and "length xs < fuel"
  shows "halts (test_alloc_all fuel s)"
  using assms
proof (induction fuel arbitrary: s xs)
  case (Suc fuel)
  from MMU_pf_alloc_cases [OF Suc.prems(1)] show ?case
  proof (elim disjE exE conjE)
    fix x ys t
    assume xs: "xs = x # ys" and t: "MMU_pf_alloc s = Done (x, t)" "frames_held t ys"
    have "x \<noteq> NULL" using pf.holds_good [OF Suc.prems(1), of x] xs by (simp add: good_frame_def)
    then show ?thesis using Suc.IH [OF t(2)] Suc.prems(2) xs t(1) by simp
  qed simp
qed simp

section \<open>Ten page frames\<close>

lemma data_frame_say [simp]: "data_frame (mmu_say k s) xs f = data_frame s xs f"
  by (simp add: data_frame_def)

lemma pf_alloc_frame:
  assumes inv: "mmu_inv s (x # ys)" and ys: "ys \<noteq> []"
  shows "\<exists>t. MMU_pf_alloc s = Done (x, t) \<and> mmu_inv t ys \<and> leaf t = leaf s \<and> frames_stay s (x # ys) t ys \<and> data_frame t ys x"
proof -
  have held: "frames_held s (x # ys)" and tok: "tables_ok (pmem s) (pml4 s) (x # ys)" using inv by (auto simp: mmu_inv_def)
  have "\<not> length (x # ys) \<le> 1" using ys by simp
  with MMU_pf_alloc_cases [OF held] obtain t where t: "MMU_pf_alloc s = Done (x, t)" "frames_held t ys"
    and same: "pmem t = pmem s" "pml4 t = pml4 s"
    by auto
  have "good_frame x" "x \<notin> set ys" using pf.holds_good [OF held, of x] pf.holds_distinct [OF held] by auto
  then have "data_frame t ys x" using tables_okD(2) [OF tok, of _ x] by (auto simp: data_frame_def same)
  moreover have "mmu_inv t ys" using t(2) tok unfolding mmu_inv_def tables_ok_def same by auto
  ultimately show ?thesis using t(1) leaf_cong [OF same] by (simp add: frames_stay_def data_frame_def same)
qed

text \<open>A frame that the identity map covers, tested at its own address.\<close>

lemma test_frame:
  assumes inv: "mmu_inv s ys" and df: "data_frame s ys f" and l: "leaf s f = mapped_entry f"
  shows "\<exists>t. test_page f s = Done t \<and> mmu_inv t ys \<and> leaf t = leaf s \<and> frames_stay s ys t ys"
proof -
  have "frame_of s f = f" using df l by (simp add: frame_of_def data_frame_def good_frame_def)
  then show ?thesis using test_page_ok [OF inv, of f] df l by auto
qed

lemma test_pf_loop_ok:
  "mmu_inv s xs \<Longrightarrow> n < length xs \<Longrightarrow> \<forall>f \<in> set (take n xs). leaf s f = mapped_entry f \<Longrightarrow>
   \<exists>t. test_pf_loop n i s = Done (take n xs, t) \<and> mmu_inv t (drop n xs) \<and> leaf t = leaf s
     \<and> frames_stay s xs t (drop n xs) \<and> (\<forall>f \<in> set (take n xs). data_frame t (drop n xs) f)"
proof (induction n arbitrary: s xs i)
  case (Suc n)
  obtain x ys where xs: "xs = x # ys" using Suc.prems(2) by (cases xs) auto
  have ys: "ys \<noteq> []" "n < length ys" using Suc.prems(2) xs by auto
  obtain s1 where a: "MMU_pf_alloc s = Done (x, s1)" "mmu_inv s1 ys" "leaf s1 = leaf s" "frames_stay s xs s1 ys" "data_frame s1 ys x"
    using pf_alloc_frame [OF Suc.prems(1) [unfolded xs] ys(1)] unfolding xs by blast
  let ?k = "OS_INFO ''Page %d: %p'' [of_nat i, x]"
  obtain s2 where b: "test_page x (mmu_say ?k s1) = Done s2" "mmu_inv s2 ys" "leaf s2 = leaf s" "frames_stay s1 ys s2 ys"
    using test_frame [of "mmu_say ?k s1" ys x] a Suc.prems(3) xs by (auto simp: frames_stay_def)
  have "\<forall>f \<in> set (take n ys). leaf s2 f = mapped_entry f" using Suc.prems(3) b(3) xs by simp
  from Suc.IH [OF b(2) ys(2) this, of "Suc i"]
  obtain t where c: "test_pf_loop n (Suc i) s2 = Done (take n ys, t)" "mmu_inv t (drop n ys)" "leaf t = leaf s"
    "frames_stay s2 ys t (drop n ys)" "\<forall>f \<in> set (take n ys). data_frame t (drop n ys) f"
    using b(3) by auto
  have "data_frame t (drop n ys) x" using a(5) b(4) c(4) by (simp add: frames_stay_def)
  moreover have "frames_stay s xs t (drop n ys)" using frames_stay_trans [OF frames_stay_trans [OF a(4) b(4)] c(4)] .
  ultimately show ?case using a(1) b(1) c by (simp add: xs)
qed simp

lemma free_frames_ok:
  "mmu_inv s ys \<Longrightarrow> distinct fs \<Longrightarrow> \<forall>f \<in> set fs. data_frame s ys f \<Longrightarrow>
   \<exists>t. free_frames fs s = Done t \<and> mmu_inv t (rev fs @ ys) \<and> leaf t = leaf s
     \<and> (\<forall>g. data_frame s ys g \<longrightarrow> g \<notin> set fs \<longrightarrow> data_frame t (rev fs @ ys) g)"
proof (induction fs arbitrary: s ys)
  case (Cons f fs)
  obtain u where u: "MMU_pf_free f s = Done u" "mmu_inv u (f # ys)" "leaf u = leaf s"
    and k: "\<forall>g. data_frame s ys g \<longrightarrow> g \<noteq> f \<longrightarrow> data_frame u (f # ys) g"
    using MMU_pf_free_data [OF Cons.prems(1), of f] Cons.prems(3) by auto
  have "\<forall>g \<in> set fs. data_frame u (f # ys) g" using k Cons.prems(2,3) by auto
  from Cons.IH [OF u(2) _ this] Cons.prems(2) obtain t where "free_frames fs u = Done t" "mmu_inv t (rev fs @ f # ys)"
    "leaf t = leaf u" "\<forall>g. data_frame u (f # ys) g \<longrightarrow> g \<notin> set fs \<longrightarrow> data_frame t (rev fs @ f # ys) g"
    by auto
  then show ?case using u k by (intro exI [of _ t]) simp
qed simp

text \<open>The test passes on frames the identity map covers, and leaves the allocator with the frames it
  had, the tested ones in reverse order.\<close>

theorem test_pf_passes:
  assumes inv: "mmu_inv s xs" and len: "10 < length xs" and id: "\<forall>f \<in> set (take 10 xs). leaf s f = mapped_entry f"
  shows "\<exists>t. test_pf s = Done t \<and> mmu_inv t (rev (take 10 xs) @ drop 10 xs) \<and> leaf t = leaf s"
proof -
  define fs where "fs = take 10 xs"
  have fs: "length fs = 10" "distinct fs"
    using len inv pf.holds_distinct by (auto simp: fs_def mmu_inv_def)
  let ?s = "mmu_say (OS_INFO ''Allocating %d pages...'' [10]) (mmu_say (OS_INFO ''Testing memory manager...'' []) s)"
  obtain s1 where a: "test_pf_loop 10 0 ?s = Done (fs, s1)" "mmu_inv s1 (drop 10 xs)" "leaf s1 = leaf s"
    and d1: "\<forall>f \<in> set fs. data_frame s1 (drop 10 xs) f"
    using test_pf_loop_ok [of ?s xs 10 0] inv len id by (auto simp: fs_def)
  let ?s1 = "mmu_say (OS_INFO ''Freeing %d pages...'' [5]) s1"
  have "set (take 5 fs) \<subseteq> set fs" by (rule set_take_subset)
  then obtain s2 where b: "free_frames (take 5 fs) ?s1 = Done s2" "mmu_inv s2 (rev (take 5 fs) @ drop 10 xs)" "leaf s2 = leaf s"
    and d2: "\<forall>g. data_frame s1 (drop 10 xs) g \<longrightarrow> g \<notin> set (take 5 fs) \<longrightarrow> data_frame s2 (rev (take 5 fs) @ drop 10 xs) g"
    using free_frames_ok [of ?s1 "drop 10 xs" "take 5 fs"] a(2,3) d1 fs(2) by auto
  have split: "take 5 fs = take 4 fs @ [fs ! 4]" using fs(1) take_Suc_conv_app_nth [of 4 fs] by simp
  let ?f = "fs ! 4" and ?ys = "rev (take 4 fs) @ drop 10 xs"
  have ys: "rev (take 5 fs) @ drop 10 xs = ?f # ?ys" by (simp add: split)
  obtain s3 where c: "MMU_pf_alloc s2 = Done (?f, s3)" "mmu_inv s3 ?ys" "leaf s3 = leaf s" "data_frame s3 ?ys ?f"
    and k3: "frames_stay s2 (?f # ?ys) s3 ?ys"
    using pf_alloc_frame [of s2 ?f ?ys] b(2,3) len unfolding ys by auto
  have mem: "?f \<in> set fs" using fs(1) by simp
  let ?s3 = "mmu_say (OS_INFO ''Page %d: %p'' [4, ?f]) s3"
  have "leaf ?s3 ?f = mapped_entry ?f" using c(3) id mem by (simp add: fs_def)
  then obtain s4 where d: "test_page ?f ?s3 = Done s4" "mmu_inv s4 ?ys" "leaf s4 = leaf s" "frames_stay s3 ?ys s4 ?ys"
    using test_frame [of ?s3 ?ys ?f] c by (auto simp: frames_stay_def)
  let ?s4 = "mmu_say (OS_INFO ''Freeing %d pages...'' [5]) s4"
  have dist: "set (take 5 fs) \<inter> set (drop 5 fs) = {}" using fs(2) by (simp add: set_take_disj_set_drop_if_distinct)
  have d4: "data_frame s4 ?ys g" if "g \<in> set (drop 4 fs)" for g
  proof (cases "g = ?f")
    case True
    then show ?thesis using c(4) d(4) by (simp add: frames_stay_def)
  next
    case False
    have "drop 4 fs = ?f # drop 5 fs" using fs(1) Cons_nth_drop_Suc [of 4 fs] by simp
    then have g: "g \<in> set (drop 5 fs)" using that False by simp
    then have "g \<in> set fs" "g \<notin> set (take 5 fs)" using dist in_set_dropD by fastforce+
    then have "data_frame s2 (?f # ?ys) g" using d1 d2 unfolding ys by blast
    then show ?thesis using k3 d(4) by (simp add: frames_stay_def)
  qed
  obtain s5 where e: "free_frames (drop 4 fs) ?s4 = Done s5" "mmu_inv s5 (rev (drop 4 fs) @ ?ys)" "leaf s5 = leaf s"
    using free_frames_ok [of ?s4 ?ys "drop 4 fs"] d(2,3) d4 fs(2) by auto
  have "rev fs = rev (drop 4 fs) @ rev (take 4 fs)" using rev_append [of "take 4 fs" "drop 4 fs"] by simp
  then have "mmu_inv s5 (rev fs @ drop 10 xs)" using e(2) by simp
  moreover have "fs[4 := ?f] = fs" by simp
  ultimately show ?thesis
    using a(1) b(1) c(1) d(1) e(1,3) by (simp add: test_pf_def Let_def fs_def [symmetric])
qed

section \<open>256 virtual pages\<close>

text \<open>Pages less than \<open>2\<^sup>36\<close> pages apart have entries of their own.\<close>

lemma same_page_number_eq:
  assumes "same_page a b"
  shows "unat a div 4096 mod 68719476736 = unat b div 4096 mod 68719476736"
proof -
  have four: "q mod 68719476736 = 512 * (512 * (512 * (q div 512 div 512 div 512 mod 512) + q div 512 div 512 mod 512)
      + q div 512 mod 512) + q mod 512" for q :: nat
    using mod_mult2_eq [of q 512 134217728] mod_mult2_eq [of "q div 512" 512 262144] mod_mult2_eq [of "q div 512 div 512" 512 512]
    by simp
  have d: "x div 2097152 = x div 4096 div 512" "x div 1073741824 = x div 4096 div 512 div 512"
    "x div 549755813888 = x div 4096 div 512 div 512 div 512" for x :: nat
    by (simp_all flip: div_mult2_eq)
  have "unat a div 4096 mod 512 = unat b div 4096 mod 512" "unat a div 2097152 mod 512 = unat b div 2097152 mod 512"
    "unat a div 1073741824 mod 512 = unat b div 1073741824 mod 512" "unat a div 549755813888 mod 512 = unat b div 549755813888 mod 512"
    using assms unat_index [of 12] unat_index [of 21] unat_index [of 30] unat_index [of 39]
    by (auto simp: same_page_def pt_path_def index_defs dest: arg_cong [where f = unat])
  then show ?thesis by (simp add: four d)
qed

lemma pages_apart:
  assumes al: "page_aligned b" and ij: "i < 68719476736" "j < 68719476736" and sp: "same_page (b + 4096 * of_nat i) (b + 4096 * of_nat j)"
  shows "i = j"
proof -
  obtain k where k: "unat b = 4096 * k" using al by (auto simp: page_aligned_dvd)
  have "unat (b + 4096 * of_nat n) div 4096 mod 68719476736 = (k + n) mod 68719476736" if n: "n < 68719476736" for n
  proof -
    have "unat (4096 * of_nat n :: u64) = 4096 * n" using n by (simp add: unat_word_ariths unat_of_nat_u64)
    then have "unat (b + 4096 * of_nat n) = (4096 * (k + n)) mod (4096 * 4503599627370496)"
      using k by (simp add: unat_word_ariths)
    then have "unat (b + 4096 * of_nat n) = 4096 * ((k + n) mod 4503599627370496)" by (simp only: mult_mod_right)
    then have "unat (b + 4096 * of_nat n) div 4096 = (k + n) mod 4503599627370496" by simp
    then show ?thesis by (simp add: mod_mod_cancel)
  qed
  then have "(k + i) mod 68719476736 = (k + j) mod 68719476736" using same_page_number_eq [OF sp] ij by metis
  then obtain p q where "k + i + 68719476736 * p = k + j + 68719476736 * q" unfolding nat_mod_eq_iff by blast
  then have "(i + 68719476736 * p) mod 68719476736 = (j + 68719476736 * q) mod 68719476736" by simp
  then show "i = j" using ij by simp
qed

text \<open>One page: allocated, filled and checked.\<close>

lemma virt_page_ok:
  assumes inv: "mmu_inv s xs" and len: "8 \<le> length xs" and al: "page_aligned (virt_addr_bank s region)"
  shows "\<exists>s1 t f k. MMU_alloc_page region s = Done (virt_addr_bank s region, s1)
     \<and> test_page (virt_addr_bank s region) s1 = Done t \<and> k \<le> 7 \<and> mmu_inv t (drop k xs) \<and> f \<in> set xs
     \<and> data_frame t (drop k xs) f \<and> frames_stay s xs t (drop k xs)
     \<and> (\<forall>w. leaf t w = (if same_page w (virt_addr_bank s region) then mapped_entry f else leaf s w))
     \<and> virt_addr_bank t = (virt_addr_bank s)(region := virt_addr_bank s region + 4096)"
proof -
  let ?va = "virt_addr_bank s region"
  obtain s1 n where a: "MMU_alloc_page region s = Done (?va, s1)" "n \<le> 3" "mmu_inv s1 (drop n xs)"
    and l1: "\<forall>w. leaf s1 w = (if same_page w ?va then demand_entry (leaf s ?va) else leaf s w)"
    and b1: "virt_addr_bank s1 = (virt_addr_bank s)(region := ?va + 4096)" and k1: "frames_kept s xs s1 (drop n xs)"
    using MMU_alloc_page_ok [OF inv _ al] len by auto
  have dem: "\<not> pte_present (leaf s1 ?va)" "pte_alloc (leaf s1 ?va)" using l1 by simp_all
  have "5 \<le> length (drop n xs)" using a(2) len by simp
  then obtain s2 m where b: "page_fault_irq 2 ?va s1 = Done s2" "m \<le> 3" "m < length (drop n xs)" "mmu_inv s2 (drop (Suc m) (drop n xs))"
    and l2: "\<forall>w. leaf s2 w = (if same_page w ?va then mapped_entry (drop n xs ! m) else leaf s1 w)"
    and b2: "virt_addr_bank s2 = virt_addr_bank s1"
    and df: "data_frame s2 (drop (Suc m) (drop n xs)) (drop n xs ! m)" and k2: "frames_kept s1 (drop n xs) s2 (drop (Suc m) (drop n xs))"
    using page_fault_irq_demand_cases [OF a(3) dem, of 2] by auto
  define f where "f = drop n xs ! m"
  have f: "f \<in> set xs" using nth_mem [OF b(3)] in_set_dropD unfolding f_def by fast
  have fr: "frame_of s2 ?va = f" using l2 df by (simp add: frame_of_def f_def data_frame_def good_frame_def)
  have d: "drop (Suc m) (drop n xs) = drop (Suc m + n) xs" by (simp add: add.commute)
  have pres: "pte_present (leaf s2 ?va)" using l2 by simp
  obtain t where c: "test_page ?va s2 = Done t" "mmu_inv t (drop (Suc m + n) xs)" "leaf t = leaf s2"
    "frames_stay s2 (drop (Suc m + n) xs) t (drop (Suc m + n) xs)" "virt_addr_bank t = virt_addr_bank s2"
    using test_page_ok [OF b(4) pres] df fr unfolding f_def d by auto
  have "test_page ?va s1 = Done t" using c(1) b(1) dem(1) pres by (simp add: test_page_def touch_def)
  moreover have "data_frame t (drop (Suc m + n) xs) f" using df c(4) unfolding f_def d frames_stay_def by blast
  moreover have "frames_stay s xs t (drop (Suc m + n) xs)"
    using frames_stay_trans [OF frames_kept_stay [OF frames_kept_trans [OF k1 k2]] c(4) [folded d]] unfolding d .
  moreover have "\<forall>w. leaf t w = (if same_page w ?va then mapped_entry f else leaf s w)" using l1 l2 c(3) by (simp add: f_def)
  moreover have "Suc m + n \<le> 7" using a(2) b(2) by simp
  ultimately show ?thesis using a(1) c(2,5) b1 b2 f by (intro exI [of _ s1] exI [of _ t] exI [of _ f] exI [of _ "Suc m + n"]) simp
qed

lemma test_virt_loop_ok:
  "mmu_inv s xs \<Longrightarrow> 7 * n < length xs \<Longrightarrow> n < 68719476736 \<Longrightarrow> virt_addr_bank s MMU_VADDR_UHEAP = b \<Longrightarrow> page_aligned b \<Longrightarrow>
   \<exists>t fs k. test_virt_loop n s = Done (map (\<lambda>i. b + 4096 * of_nat i) [0..<n], t) \<and> k \<le> 7 * n \<and> mmu_inv t (drop k xs)
     \<and> length fs = n \<and> distinct fs \<and> set fs \<subseteq> set xs \<and> (\<forall>f \<in> set fs. data_frame t (drop k xs) f)
     \<and> (\<forall>i < n. leaf t (b + 4096 * of_nat i) = mapped_entry (fs ! i))
     \<and> (\<forall>w. (\<forall>i < n. \<not> same_page w (b + 4096 * of_nat i)) \<longrightarrow> leaf t w = leaf s w) \<and> frames_stay s xs t (drop k xs)"
proof (induction n arbitrary: s xs b)
  case 0
  then show ?case by (intro exI [of _ s] exI [of _ "[]"] exI [of _ 0]) simp
next
  case (Suc n)
  have al: "page_aligned (virt_addr_bank s MMU_VADDR_UHEAP)" and len: "8 \<le> length xs" using Suc.prems by simp_all
  obtain s1 u f k where a: "MMU_alloc_page MMU_VADDR_UHEAP s = Done (b, s1)" "test_page b s1 = Done u" "k \<le> 7"
    "mmu_inv u (drop k xs)" "f \<in> set xs" "data_frame u (drop k xs) f" "frames_stay s xs u (drop k xs)"
    and l: "\<forall>w. leaf u w = (if same_page w b then mapped_entry f else leaf s w)"
    and bank: "virt_addr_bank u MMU_VADDR_UHEAP = b + 4096"
    using virt_page_ok [OF Suc.prems(1) len al] unfolding Suc.prems(4) by auto
  have "7 * n < length (drop k xs)" using a(3) Suc.prems(2) by simp
  moreover have "page_aligned (b + 4096)" using Suc.prems(5) by (simp add: page_aligned_add_4096)
  ultimately obtain t fs j where c: "test_virt_loop n u = Done (map (\<lambda>i. b + 4096 + 4096 * of_nat i) [0..<n], t)" "j \<le> 7 * n"
    "mmu_inv t (drop j (drop k xs))" "length fs = n" "distinct fs" "set fs \<subseteq> set (drop k xs)"
    "\<forall>f \<in> set fs. data_frame t (drop j (drop k xs)) f"
    "\<forall>i < n. leaf t (b + 4096 + 4096 * of_nat i) = mapped_entry (fs ! i)"
    "\<forall>w. (\<forall>i < n. \<not> same_page w (b + 4096 + 4096 * of_nat i)) \<longrightarrow> leaf t w = leaf u w"
    "frames_stay u (drop k xs) t (drop j (drop k xs))"
    using Suc.IH [OF a(4) _ _ bank] Suc.prems(3) by auto
  have next_page: "b + 4096 + 4096 * of_nat i = b + 4096 * of_nat (Suc i)" for i by (simp add: algebra_simps)
  have d: "drop j (drop k xs) = drop (j + k) xs" by simp
  have other: "\<not> same_page b (b + 4096 * of_nat (Suc i))" if "i < n" for i
    using pages_apart [OF Suc.prems(5), of 0 "Suc i"] Suc.prems(3) that by auto
  have "leaf t b = mapped_entry f" using c(9) other l unfolding next_page by simp
  then have leafs: "leaf t (b + 4096 * of_nat i) = mapped_entry ((f # fs) ! i)" if "i < Suc n" for i
    using c(8) that unfolding next_page by (cases i) simp_all
  have rest: "leaf t w = leaf s w" if "\<forall>i < Suc n. \<not> same_page w (b + 4096 * of_nat i)" for w
  proof -
    have "leaf t w = leaf u w" using c(9) that unfolding next_page by (metis Suc_less_eq)
    moreover have "\<not> same_page w b" using that [rule_format, of 0] by simp
    ultimately show ?thesis using l by simp
  qed
  have "f \<notin> set fs" using a(6) c(6) by (auto simp: data_frame_def)
  moreover have "data_frame t (drop (j + k) xs) f" using a(6) c(10) unfolding d frames_stay_def by blast
  moreover have "set fs \<subseteq> set xs" using c(6) in_set_dropD by fast
  moreover have "map (\<lambda>i. b + 4096 * of_nat i) [0..<Suc n] = b # map (\<lambda>i. b + 4096 + 4096 * of_nat i) [0..<n]"
    unfolding next_page by (simp only: map_upt_Suc) simp
  moreover have "frames_stay s xs t (drop (j + k) xs)" using frames_stay_trans [OF a(7) c(10)] unfolding d .
  ultimately show ?case
    using a c(1-5,7) leafs rest d
    by (intro exI [of _ t] exI [of _ "f # fs"] exI [of _ "j + k"]) (simp del: upt_Suc)
qed

lemma free_each_ok:
  "length ps = length fs \<Longrightarrow> mmu_inv s ys \<Longrightarrow> distinct fs \<Longrightarrow> list_all page_aligned ps \<Longrightarrow>
   \<forall>i < length ps. \<forall>j < length ps. same_page (ps ! i) (ps ! j) \<longrightarrow> i = j \<Longrightarrow>
   \<forall>i < length ps. leaf s (ps ! i) = mapped_entry (fs ! i) \<Longrightarrow> \<forall>f \<in> set fs. data_frame s ys f \<Longrightarrow>
   \<exists>t. free_each ps s = Done t \<and> mmu_inv t (rev fs @ ys)
     \<and> (\<forall>w. leaf t w = (if \<exists>p \<in> set ps. same_page w p then 0 else leaf s w))"
proof (induction ps fs arbitrary: s ys rule: list_induct2)
  case (Cons p ps f fs)
  have df: "data_frame s ys f" and al: "page_aligned p" using Cons.prems by simp_all
  have "READ_FRAME_ADDR (leaf s p) = f"
    using Cons.prems(5) [rule_format, of 0] df by (simp add: data_frame_def good_frame_def)
  then obtain u where u: "MMU_free_page p s = Done u" "mmu_inv u (f # ys)"
    and l: "\<forall>w. leaf u w = (if same_page w p then 0 else leaf s w)"
    and k: "\<forall>g. data_frame s ys g \<longrightarrow> g \<noteq> f \<longrightarrow> data_frame u (f # ys) g"
    using MMU_free_page_mapped [OF Cons.prems(1) al _ df] by blast
  have "leaf u (ps ! i) = mapped_entry (fs ! i)" if i: "i < length ps" for i
  proof -
    have "\<not> same_page (ps ! i) p" using Cons.prems(4) [rule_format, of "Suc i" 0] i by auto
    then show ?thesis using l Cons.prems(5) [rule_format, of "Suc i"] i by simp
  qed
  moreover have "\<forall>i < length ps. \<forall>j < length ps. same_page (ps ! i) (ps ! j) \<longrightarrow> i = j"
    using Cons.prems(4) by (metis Suc_inject Suc_less_eq length_Cons nth_Cons_Suc)
  moreover have "\<forall>g \<in> set fs. data_frame u (f # ys) g" using k Cons.prems(2,6) by auto
  ultimately obtain t where "free_each ps u = Done t" "mmu_inv t (rev fs @ f # ys)"
    "\<forall>w. leaf t w = (if \<exists>p \<in> set ps. same_page w p then 0 else leaf u w)"
    using Cons.IH [OF u(2)] Cons.prems(2,3) by auto
  then show ?case using u(1) l by (intro exI [of _ t]) auto
qed simp

text \<open>The test of the virtual memory passes where the user's heap region starts on a page and the
  allocator holds frames for its pages and their tables; the 256 pages are unmapped again, all
  other translations are as before, and only frames for new tables are gone. As everywhere in the model of the memory
  manager every frame can be accessed at its physical address, which the kernel's tables grant for the first 2 MiB only
  (\<open>frames_above_2MiB_unreachable\<close>).\<close>

theorem test_virt_pages_passes:
  assumes inv: "mmu_inv s xs" and len: "1793 \<le> length xs" and b: "virt_addr_bank s MMU_VADDR_UHEAP = b" "page_aligned b"
  shows "\<exists>t ys. test_virt_pages s = Done t \<and> mmu_inv t ys \<and> length xs \<le> length ys + 1536
     \<and> (\<forall>w. leaf t w = (if \<exists>i < 256. same_page w (b + 4096 * of_nat i) then 0 else leaf s w))"
proof -
  let ?s = "mmu_say (OS_INFO ''Allocating %d virtual addresses...'' [0x100]) (mmu_say (OS_INFO ''Testing virtual memory...'' []) s)"
  let ?ps = "map (\<lambda>i. b + 4096 * of_nat i) [0..<256]"
  have pre: "mmu_inv ?s xs" "7 * 256 < length xs" "(256 :: nat) < 68719476736" "virt_addr_bank ?s MMU_VADDR_UHEAP = b"
    using inv len b by simp_all
  obtain u fs k where a: "test_virt_loop 256 ?s = Done (?ps, u)" "k \<le> 1792" "mmu_inv u (drop k xs)" "length fs = 256" "distinct fs"
    "\<forall>f \<in> set fs. data_frame u (drop k xs) f" "\<forall>i < 256. leaf u (b + 4096 * of_nat i) = mapped_entry (fs ! i)"
    "\<forall>w. (\<forall>i < 256. \<not> same_page w (b + 4096 * of_nat i)) \<longrightarrow> leaf u w = leaf s w"
    using test_virt_loop_ok [OF pre b(2)] by auto
  have al: "page_aligned (b + 4096 * of_nat i)" for i
  proof (induction i)
    case (Suc i)
    have "b + 4096 * of_nat (Suc i) = b + 4096 * of_nat i + 4096" by (simp add: algebra_simps)
    then show ?case using Suc page_aligned_add_4096 by metis
  qed (use b(2) in simp)
  let ?u = "mmu_say (OS_INFO ''Freeing %d pages...'' [0x100]) u"
  have "\<exists>t. free_each ?ps ?u = Done t \<and> mmu_inv t (rev fs @ drop k xs)
     \<and> (\<forall>w. leaf t w = (if \<exists>p \<in> set ?ps. same_page w p then 0 else leaf ?u w))"
  proof (rule free_each_ok)
    show "list_all page_aligned ?ps" using al by (simp add: list_all_iff)
    show "\<forall>i < length ?ps. \<forall>j < length ?ps. same_page (?ps ! i) (?ps ! j) \<longrightarrow> i = j" using pages_apart [OF b(2)] by simp
  qed (use a in simp_all)
  then obtain t where t: "free_each ?ps ?u = Done t" "mmu_inv t (rev fs @ drop k xs)"
    and l: "\<forall>w. leaf t w = (if \<exists>p \<in> set ?ps. same_page w p then 0 else leaf u w)"
    by auto
  have "leaf t w = (if \<exists>i < 256. same_page w (b + 4096 * of_nat i) then 0 else leaf s w)" for w
    using l a(8) by auto
  moreover have "length xs \<le> length (rev fs @ drop k xs) + 1536" using a(2,4) len by simp
  ultimately show ?thesis
    using a(1) t by (intro exI [of _ "mmu_say (OS_INFO ''Virtual memory test is complete!'' []) t"] exI [of _ "rev fs @ drop k xs"])
      (simp add: test_virt_pages_def Let_def)
qed

theorem test_virt_pages_passes_witness:
  "\<exists>t. test_virt_pages big_mmu = Done t \<and> leaf t 0x200000000000 = 0"
proof -
  have b: "virt_addr_bank big_mmu MMU_VADDR_UHEAP = 0x200000000000" "page_aligned 0x200000000000"
    by (simp_all add: big_mmu_def sample_mmu_def virt_addr_bank_init_def page_aligned_def)
  from test_virt_pages_passes [OF big_mmu_inv _ b] obtain t where t: "test_virt_pages big_mmu = Done t"
    and l: "\<forall>w. leaf t w = (if \<exists>i < 256. same_page w (0x200000000000 + 4096 * of_nat i) then 0 else leaf big_mmu w)"
    by (auto simp: big_mmu_length)
  have "\<exists>i < 256 :: nat. same_page 0x200000000000 (0x200000000000 + 4096 * of_nat i)" by (rule exI [of _ 0]) simp
  then show ?thesis using t l by auto
qed

end
