(* ===== verification/IrqProps.thy ===== *)
theory IrqProps imports Irq begin

text \<open>
  The interrupt controllers as the 8259 data sheet describes them, the effect of the code of
  src/ISR/pic.c on their mask registers, and the properties of the interrupt handling of
  src/ISR/irq\_handler.c and src/drivers/timer\_driver.c.
\<close>

section \<open>The 8259 behind the ports\<close>

text \<open>One controller after a history of port accesses: how many initialisation words it still
  expects on its data port, and its interrupt mask register. A command with bit 4 set is ICW1:
  it clears the mask and starts the sequence ICW2, ICW3, ICW4.\<close>

fun pic_step :: "u16 \<Rightarrow> u16 \<Rightarrow> u16 \<Rightarrow> u8 \<Rightarrow> nat \<times> u8 \<Rightarrow> nat \<times> u8" where
  "pic_step cmd data p v (k, m) =
     (if p = cmd then (if v AND 0x10 \<noteq> 0 then (3, 0) else (k, m))
      else if p = data then (if k > 0 then (k - 1, m) else (0, v))
      else (k, m))"

fun pic8259 :: "u16 \<Rightarrow> u16 \<Rightarrow> u8 \<Rightarrow> io_event list \<Rightarrow> nat \<times> u8" where
  "pic8259 cmd data m0 [] = (0, m0)"
| "pic8259 cmd data m0 (In p v # tr) = pic8259 cmd data m0 tr"
| "pic8259 cmd data m0 (Out p v # tr) = pic_step cmd data p v (pic8259 cmd data m0 tr)"
| "pic8259 cmd data m0 (_ # tr) = pic8259 cmd data m0 tr"

definition pic1 :: "u8 \<Rightarrow> 'a machine_scheme \<Rightarrow> nat \<times> u8" where
  "pic1 m s = pic8259 PIC1_COMMAND PIC1_DATA m (trace s)"
definition pic2 :: "u8 \<Rightarrow> 'a machine_scheme \<Rightarrow> nat \<times> u8" where
  "pic2 m s = pic8259 PIC2_COMMAND PIC2_DATA m (trace s)"

text \<open>What the code relies on: a read of a data port returns the controller's mask.\<close>

definition pic_pair :: "device \<Rightarrow> u8 \<Rightarrow> u8 \<Rightarrow> bool" where
  "pic_pair dev m1 m2 \<longleftrightarrow>
     (\<forall>tr. dev tr PIC1_DATA = snd (pic8259 PIC1_COMMAND PIC1_DATA m1 tr)
         \<and> dev tr PIC2_DATA = snd (pic8259 PIC2_COMMAND PIC2_DATA m2 tr))"

lemma pic_pairD:
  "pic_pair dev m1 m2 \<Longrightarrow> dev (trace s) PIC1_DATA = snd (pic1 m1 s)"
  "pic_pair dev m1 m2 \<Longrightarrow> dev (trace s) PIC2_DATA = snd (pic2 m2 s)"
  by (simp_all add: pic_pair_def pic1_def pic2_def)

lemma pic1_outb [simp]: "pic1 m (outb p v s) = pic_step PIC1_COMMAND PIC1_DATA p v (pic1 m s)"
  by (simp add: pic1_def)

lemma pic2_outb [simp]: "pic2 m (outb p v s) = pic_step PIC2_COMMAND PIC2_DATA p v (pic2 m s)"
  by (simp add: pic2_def)

lemma pic_step_idle:
  "fst (pic1 m s) = 0 \<Longrightarrow> pic_step PIC1_COMMAND PIC1_DATA PIC1_DATA v (pic1 m s) = (0, v)"
  "p \<noteq> cmd \<Longrightarrow> p \<noteq> data \<Longrightarrow> pic_step cmd data p v st = st"
  by (cases "pic1 m s", simp add: pic_ports) (cases st, simp)

lemma pic_in_say [simp]:
  "pic1 m (snd (inb dev p s)) = pic1 m s" "pic1 m (say k s) = pic1 m s"
  "pic2 m (snd (inb dev p s)) = pic2 m s" "pic2 m (say k s) = pic2 m s"
  by (simp_all add: pic1_def pic2_def)

lemma port_neq [simp]:
  "PIC1_COMMAND \<noteq> PIC1_DATA" "PIC1_COMMAND \<noteq> PIC2_COMMAND" "PIC1_COMMAND \<noteq> PIC2_DATA"
  "PIC1_DATA \<noteq> PIC1_COMMAND" "PIC1_DATA \<noteq> PIC2_COMMAND" "PIC1_DATA \<noteq> PIC2_DATA"
  "PIC2_COMMAND \<noteq> PIC1_COMMAND" "PIC2_COMMAND \<noteq> PIC1_DATA" "PIC2_COMMAND \<noteq> PIC2_DATA"
  "PIC2_DATA \<noteq> PIC1_COMMAND" "PIC2_DATA \<noteq> PIC1_DATA" "PIC2_DATA \<noteq> PIC2_COMMAND"
  "0x80 \<noteq> PIC1_COMMAND" "0x80 \<noteq> PIC1_DATA" "0x80 \<noteq> PIC2_COMMAND" "0x80 \<noteq> PIC2_DATA"
  by (simp_all add: pic_ports)

section \<open>The mask functions\<close>

lemma u8_or_bit:
  fixes v :: u8
  shows "(ucast (ucast v OR push_bit n (1 :: u32)) :: u8) = (if n < 8 then set_bit n v else v)"
  by (rule bit_eqI)
     (auto simp: bit_unsigned_iff bit_or_iff bit_exp_iff bit_set_bit_iff
       dest: bit_imp_le_length)

lemma u8_and_not_bit:
  fixes v :: u8
  shows "(ucast (ucast v AND NOT (push_bit n (1 :: u32))) :: u8) = (if n < 8 then unset_bit n v else v)"
  by (rule bit_eqI)
     (auto simp: bit_unsigned_iff bit_and_iff bit_not_iff bit_exp_iff bit_unset_bit_iff
       dest: bit_imp_le_length)

lemma pic_line:
  assumes "IS_PIC_IRQ irq"
  shows "pic_port_and_line irq = (PIC1_DATA, irq - 32)"
  using assms by (auto simp: pic_port_and_line_def Let_def IS_PIC_IRQ_def irq_numbers)

lemma PIC_set_mask_eq:
  assumes "pic_pair dev m1 m2" "IS_PIC_IRQ irq"
  shows "PIC_set_mask dev irq s =
     (0, outb PIC1_DATA (if irq < 40 then set_bit (irq - 32) (snd (pic1 m1 s)) else snd (pic1 m1 s))
           (snd (inb dev PIC1_DATA s)))"
  using assms(2) pic_pairD(1) [OF assms(1), of s] u8_or_bit [of "snd (pic1 m1 s)" "irq - 32"]
  by (simp add: PIC_set_mask_def pic_line inb_def Let_def IS_PIC_IRQ_def irq_numbers)

lemma PIC_clear_mask_eq:
  assumes "pic_pair dev m1 m2" "IS_PIC_IRQ irq"
  shows "PIC_clear_mask dev irq s =
     (0, outb PIC1_DATA (if irq < 40 then unset_bit (irq - 32) (snd (pic1 m1 s)) else snd (pic1 m1 s))
           (snd (inb dev PIC1_DATA s)))"
  using assms(2) pic_pairD(1) [OF assms(1), of s] u8_and_not_bit [of "snd (pic1 m1 s)" "irq - 32"]
  by (simp add: PIC_clear_mask_def pic_line inb_def Let_def IS_PIC_IRQ_def irq_numbers)

lemma PIC_get_mask_eq:
  assumes "pic_pair dev m1 m2" "IS_PIC_IRQ irq"
  shows "fst (PIC_get_mask dev irq s) =
     (if irq < 40 \<and> bit (snd (pic1 m1 s)) (irq - 32) then 1 else 0)"
proof -
  have e: "(ucast (ucast v AND push_bit n (1 :: u32)) :: u8) = (if n < 8 \<and> bit v n then 2 ^ n else 0)"
    for v :: u8 and n
  proof (rule bit_eqI)
    fix k assume "possible_bit TYPE(8 word) k"
    then have "k < 8" by simp
    then show "bit (ucast (ucast v AND push_bit n (1 :: u32)) :: u8) k
        = bit (if n < 8 \<and> bit v n then 2 ^ n else 0 :: u8) k"
      by (cases "n = k") (auto simp: bit_unsigned_iff bit_and_iff bit_exp_iff)
  qed
  have p: "(2 :: u8) ^ n > 0" if "n < 8" for n
  proof -
    have "(2 :: u8) ^ n \<noteq> 0" using that by simp
    then show ?thesis by (simp add: word_greater_zero_iff)
  qed
  show ?thesis
    using assms(2) pic_pairD(1) [OF assms(1), of s] e [of "snd (pic1 m1 s)" "irq - 32"] p [of "irq - 32"]
    by (simp add: PIC_get_mask_def pic_line inb_def Let_def) (auto simp: IS_PIC_IRQ_def irq_numbers)
qed

lemma fold_set_mask:
  assumes "pic_pair dev m1 m2" "fst (pic1 m1 s) = 0" "fst (pic2 m2 s) = 0" "\<forall>i \<in> set irqs. IS_PIC_IRQ i"
  shows "pic1 m1 (fold (\<lambda>i s. snd (PIC_set_mask dev i s)) irqs s) =
           (0, fold (\<lambda>i m. if i < 40 then set_bit (i - 32) m else m) irqs (snd (pic1 m1 s)))
         \<and> pic2 m2 (fold (\<lambda>i s. snd (PIC_set_mask dev i s)) irqs s) = pic2 m2 s"
  using assms(2-)
proof (induction irqs arbitrary: s)
  case Nil
  then show ?case by (simp add: prod_eq_iff)
next
  case (Cons i irqs)
  then show ?case
    using Cons.IH [of "snd (PIC_set_mask dev i s)"] PIC_set_mask_eq [OF assms(1), of i s]
    by (simp add: pic_step_idle)
qed

lemma PIC_remap_masks:
  assumes "pic_pair dev m1 m2" "pic1 m1 s = (0, a1)" "pic2 m2 s = (0, a2)"
  shows "pic1 m1 (PIC_remap dev o1 o2 s) = (0, a1) \<and> pic2 m2 (PIC_remap dev o1 o2 s) = (0, a2)"
proof -
  obtain s1 where s1: "inb dev PIC1_DATA s = (a1, s1)" "pic1 m1 s1 = (0, a1)" "pic2 m2 s1 = (0, a2)"
    using pic_pairD(1) [OF assms(1), of s] assms(2,3) pic_in_say(1,3) [of _ dev PIC1_DATA s]
    by (metis fst_inb prod.collapse snd_conv)
  obtain s2 where s2: "inb dev PIC2_DATA s1 = (a2, s2)" "pic1 m1 s2 = (0, a1)" "pic2 m2 s2 = (0, a2)"
    using pic_pairD(2) [OF assms(1), of s1] s1(2,3) pic_in_say(1,3) [of _ dev PIC2_DATA s1]
    by (metis fst_inb prod.collapse snd_conv)
  show ?thesis by (simp add: PIC_remap_def s1(1) s2 io_wait_def Let_def)
qed

section \<open>Properties: interrupt masks\<close>

text \<open>On the first controller (vectors 32 to 39) setting, clearing and reading a mask do what
  their names say: one bit of the mask register changes, or is read, and nothing else.\<close>

theorem pic_mask_controller:
  assumes "pic_pair dev m1 m2" and "pic1 m1 s = (0, v)" and "32 \<le> irq" "irq < 40"
  shows "fst (PIC_set_mask dev irq s) = 0
    \<and> pic1 m1 (snd (PIC_set_mask dev irq s)) = (0, set_bit (irq - 32) v)
    \<and> pic1 m1 (snd (PIC_clear_mask dev irq s)) = (0, unset_bit (irq - 32) v)
    \<and> pic2 m2 (snd (PIC_set_mask dev irq s)) = pic2 m2 s
    \<and> pic2 m2 (snd (PIC_clear_mask dev irq s)) = pic2 m2 s
    \<and> fst (PIC_get_mask dev irq s) = (if bit v (irq - 32) then 1 else 0)"
proof -
  have i: "IS_PIC_IRQ irq" using assms(3,4) by (simp add: IS_PIC_IRQ_def irq_numbers)
  show ?thesis
    using PIC_set_mask_eq [OF assms(1) i, of s] PIC_clear_mask_eq [OF assms(1) i, of s]
      PIC_get_mask_eq [OF assms(1) i, of s] assms(2,4)
    by (simp add: pic_step_idle)
qed

text \<open>A concrete pair of controllers and machine for the witnesses.\<close>

definition sample_dev :: device where
  "sample_dev tr p = (if p = PIC1_DATA then snd (pic8259 PIC1_COMMAND PIC1_DATA 0xB8 tr)
     else if p = PIC2_DATA then snd (pic8259 PIC2_COMMAND PIC2_DATA 0x8E tr) else 0)"

definition sample_machine :: machine where
  "sample_machine = \<lparr>trace = [], klog = [], if_flag = False\<rparr>"

lemma sample_pair: "pic_pair sample_dev 0xB8 0x8E"
  by (simp add: pic_pair_def sample_dev_def)

lemma sample_pics: "pic1 0xB8 sample_machine = (0, 0xB8)" "pic2 0x8E sample_machine = (0, 0x8E)"
  by (simp_all add: pic1_def pic2_def sample_machine_def)

theorem pic_mask_controller_witness:
  "pic1 0xB8 (snd (PIC_set_mask sample_dev 32 sample_machine)) = (0, 0xB9)"
  using pic_mask_controller [OF sample_pair sample_pics(1), of 32]
  by (simp add: set_bit_eq_or)

text \<open>On the second controller (vectors 40 to 47) the mask functions report success and do
  nothing: setting and clearing leave both masks as they were, and every line reads as not
  masked.\<close>

theorem pic_mask_peripheral_ignored:
  assumes "pic_pair dev m1 m2" and "pic1 m1 s = (0, v)" and "40 \<le> irq" "irq < 48"
  shows "fst (PIC_set_mask dev irq s) = 0 \<and> fst (PIC_clear_mask dev irq s) = 0
    \<and> pic1 m1 (snd (PIC_set_mask dev irq s)) = pic1 m1 s \<and> pic2 m2 (snd (PIC_set_mask dev irq s)) = pic2 m2 s
    \<and> pic1 m1 (snd (PIC_clear_mask dev irq s)) = pic1 m1 s \<and> pic2 m2 (snd (PIC_clear_mask dev irq s)) = pic2 m2 s
    \<and> fst (PIC_get_mask dev irq s) = 0"
proof -
  have i: "IS_PIC_IRQ irq" using assms(3,4) by (simp add: IS_PIC_IRQ_def irq_numbers)
  show ?thesis
    using PIC_set_mask_eq [OF assms(1) i, of s] PIC_clear_mask_eq [OF assms(1) i, of s]
      PIC_get_mask_eq [OF assms(1) i, of s] assms(2,3)
    by (simp add: pic_step_idle)
qed

theorem pic_mask_peripheral_ignored_witness:
  "pic2 0x8E (snd (PIC_set_mask sample_dev 44 sample_machine)) = (0, 0x8E)"
  using pic_mask_peripheral_ignored [OF sample_pair sample_pics(1), of 44] sample_pics(2) by simp

text \<open>Initialising the controllers masks every line of the first one, and leaves the mask of
  the second as the firmware left it, although all of them are meant to be masked.\<close>

lemma PIC_init_masks:
  assumes "pic_pair dev m1 m2" and "pic1 m1 s = (0, a1)" "pic2 m2 s = (0, a2)"
  shows "pic1 m1 (PIC_init dev s) = (0, 0xFF) \<and> pic2 m2 (PIC_init dev s) = (0, a2)"
proof -
  let ?t = "PIC_remap dev PIC1_OFFSET PIC2_OFFSET s"
  have r: "pic1 m1 ?t = (0, a1)" "pic2 m2 ?t = (0, a2)" using PIC_remap_masks [OF assms] by simp_all
  have l: "[PIC1_MIN_IRQ..<PIC2_MAX_IRQ] = [32, 33, 34, 35, 36, 37, 38, 39, 40, 41, 42, 43, 44, 45, 46]"
    by (simp add: irq_numbers upt_rec numeral_eq_Suc)
  have v: "\<forall>i \<in> set [32, 33, 34, 35, 36, 37, 38, 39, 40, 41, 42, 43, 44, 45, 46]. IS_PIC_IRQ i"
    by (simp add: IS_PIC_IRQ_def irq_numbers)
  have m: "fold (\<lambda>i m. if i < 40 then set_bit (i - 32) m else m)
      [32, 33, 34, 35, 36, 37, 38, 39, 40, 41, 42, 43, 44, 45, 46] a = (0xFF :: u8)" for a
  proof (rule bit_eqI)
    fix n assume "possible_bit TYPE(8 word) n"
    then have "n < 8" by simp
    then have "n \<in> {0, 1, 2, 3, 4, 5, 6, 7}" by auto
    moreover have "bit (0xFF :: u8) n" using \<open>n < 8\<close> bit_mask_iff [of 8 n, where 'a = u8]
      by (simp add: mask_eq_exp_minus_1)
    ultimately show "bit (fold (\<lambda>i m. if i < 40 then set_bit (i - 32) m else m)
      [32, 33, 34, 35, 36, 37, 38, 39, 40, 41, 42, 43, 44, 45, 46] a) n = bit (0xFF :: u8) n"
      by (auto simp: bit_set_bit_iff)
  qed
  show ?thesis
    using fold_set_mask [OF assms(1) _ _ v, of ?t] r m by (simp only: PIC_init_def l fst_conv snd_conv simp_thms)
qed

section \<open>Properties: dispatch and end of interrupt\<close>

lemma PIC_send_EOI_trace:
  "trace (PIC_send_EOI irq s) =
     (if IS_PIC_IRQ irq then (if irq < 40 then [Out PIC1_COMMAND 0x20]
                              else [Out PIC1_COMMAND 0x20, Out PIC2_COMMAND 0x20]) else []) @ trace s"
  by (auto simp: PIC_send_EOI_def IS_PIC_IRQ_def irq_numbers)

text \<open>C27: an interrupt with a registered handler runs that handler with its registered argument
  and then acknowledges it: one end of interrupt to the first controller for vectors 32 to 39,
  one to each for 40 to 47, none for exceptions.\<close>

theorem interrupt_runs_handler_and_acknowledges:
  assumes "irq < length (irq_handler_table s)" and "IS_VALID_IRQ irq \<or> IS_EXCEPTION irq"
    and "s1 = snd (if IS_EXCEPTION irq then IRQ_set_exception_handler irq (Some h) arg s
                   else IRQ_set_handler irq (Some h) arg s)"
    and "run h irq error arg s1 = Done s2"
  shows "\<exists>s3. interrupt_handler run irq error s1 = Done s3
           \<and> trace s3 = (if 32 \<le> irq \<and> irq < 40 then [Out PIC1_COMMAND 0x20]
                 else if 40 \<le> irq \<and> irq < 48 then [Out PIC1_COMMAND 0x20, Out PIC2_COMMAND 0x20]
                 else []) @ trace s2"
proof -
  have "irq_handler_table s1 ! irq = \<lparr>handler = Some h, handler_arg = arg\<rparr>"
    using assms(1-3)
    by (auto simp: IRQ_set_exception_handler_def IRQ_set_handler_def set_table_def)
  then show ?thesis
    using assms(4) PIC_send_EOI_trace [of irq s2]
    by (auto simp: interrupt_handler_def IS_PIC_IRQ_def irq_numbers)
qed

definition sample_irq :: irq_state where
  "sample_irq = \<lparr>trace = [], klog = [], if_flag = False,
     irq_handler_table = replicate 48 \<lparr>handler = None, handler_arg = 0\<rparr>,
     IRQ_status_prev = DISABLED, IRQ_status_curr = DISABLED\<rparr>"

theorem interrupt_runs_handler_and_acknowledges_witness:
  "\<exists>s3. interrupt_handler (\<lambda>h irq e a s. Done (say (OS_INFO ''tick'' [a]) s)) 44 0
       (snd (IRQ_set_handler 44 (Some (other_handler 1)) 7 sample_irq)) = Done s3
     \<and> trace s3 = [Out PIC1_COMMAND 0x20, Out PIC2_COMMAND 0x20]"
  using interrupt_runs_handler_and_acknowledges
    [of 44 sample_irq "snd (IRQ_set_handler 44 (Some (other_handler 1)) 7 sample_irq)"
      "other_handler 1" 7 "\<lambda>h irq e a s. Done (say (OS_INFO ''tick'' [a]) s)" 0 ]
  by (simp add: sample_irq_def IS_EXCEPTION_def IS_VALID_IRQ_def IS_PIC_IRQ_def irq_numbers
      IRQ_set_handler_def set_table_def)

text \<open>An interrupt of the controllers without a handler is reported and never acknowledged:
  nothing at all is written to a port.\<close>

theorem unhandled_irq_not_acknowledged:
  assumes "handler (irq_handler_table s ! irq) = None" and "IS_VALID_IRQ irq"
  shows "\<exists>s1. interrupt_handler run irq error s = Done s1 \<and> trace s1 = trace s"
  using assms by (simp add: interrupt_handler_def print_irq_def IS_VALID_IRQ_def Let_def)

theorem unhandled_irq_not_acknowledged_witness:
  "\<exists>s1. interrupt_handler (\<lambda>h irq e a s. NoFuel) 33 0 sample_irq = Done s1 \<and> trace s1 = []"
  using unhandled_irq_not_acknowledged [of sample_irq 33]
  by (simp add: sample_irq_def IS_EXCEPTION_def IS_VALID_IRQ_def IS_PIC_IRQ_def irq_numbers)

text \<open>An exception without a handler halts; it never returns to the code it interrupted.\<close>

theorem unhandled_exception_halts:
  assumes "handler (irq_handler_table s ! irq) = None" and "IS_EXCEPTION irq"
  shows "interrupt_handler run irq error s = Halt ''HLT''"
  using assms by (simp add: interrupt_handler_def exception_handler_def Let_def)

theorem unhandled_exception_halts_witness:
  "interrupt_handler (\<lambda>h irq e a s. NoFuel) 13 8 sample_irq = Halt ''HLT''"
  by (rule unhandled_exception_halts) (simp_all add: sample_irq_def IS_EXCEPTION_def)

text \<open>The timer interrupt is acknowledged twice, once by \<open>timer_isr\<close> and once by the
  dispatcher that called it.\<close>

theorem timer_interrupt_acknowledged_twice:
  assumes "32 < length (irq_handler_table s)"
  shows "\<exists>s1. interrupt_handler (\<lambda>h irq e a s. Done (timer_isr s)) 32 0 (timer_init dev True s) = Done s1
           \<and> trace s1 = [Out PIC1_COMMAND 0x20, Out PIC1_COMMAND 0x20] @ trace (timer_init dev True s)"
proof -
  have t: "irq_handler_table (timer_init dev True s) ! 32 = \<lparr>handler = Some timer_isr_fn, handler_arg = 0\<rparr>"
    using assms by (simp add: timer_init_def IRQ_set_handler_def IS_VALID_IRQ_def IS_PIC_IRQ_def
        IS_EXCEPTION_def irq_numbers set_table_def PIC_clear_mask_def pic_port_and_line_def inb_def
        outb_def Let_def)
  have e: "timer_enabled (timer_init dev True s)" by (simp add: timer_init_def Let_def)
  show ?thesis
    using e by (simp add: interrupt_handler_def t timer_isr_def PIC_send_EOI_trace IS_PIC_IRQ_def irq_numbers)
qed

definition sample_timer :: timer_state where
  "sample_timer = irq_state.extend sample_irq \<lparr>timer_enabled = False\<rparr>"

theorem timer_interrupt_acknowledged_twice_witness:
  "\<exists>s1. interrupt_handler (\<lambda>h irq e a s. Done (timer_isr s)) 32 0 (timer_init sample_dev True sample_timer)
     = Done s1"
  using timer_interrupt_acknowledged_twice [of sample_timer sample_dev]
  by (auto simp: sample_timer_def sample_irq_def irq_state.defs)

section \<open>Properties: the interrupt state\<close>

text \<open>The states the three functions lead to from the start of the kernel.\<close>

inductive irq_reachable :: "irq_state \<Rightarrow> bool" where
  start: "IRQ_status_curr s = DISABLED \<Longrightarrow> irq_reachable s"
| enable: "irq_reachable s \<Longrightarrow> irq_reachable (IRQ_enable s)"
| disable: "irq_reachable s \<Longrightarrow> irq_reachable (IRQ_disable s)"
| reenable: "irq_reachable s \<Longrightarrow> irq_reachable (IRQ_reenable s)"

lemma irq_reachable_inv: "irq_reachable s \<Longrightarrow> IRQ_status_curr s = ENABLED \<Longrightarrow> \<not> if_flag s"
  by (induction rule: irq_reachable.induct)
     (auto simp: IRQ_enable_def IRQ_disable_def IRQ_reenable_def asm_cli_def asm_sti_def Let_def
       split: if_splits)

text \<open>whenever the kernel believes that interrupts are enabled the processor has them
  disabled, in every state the three functions can reach: \<open>IRQ_enable\<close> executes \<open>cli\<close>.\<close>

theorem enabled_means_flag_clear:
  assumes "irq_reachable s" and "IRQs_are_enabled s = 1"
  shows "\<not> if_flag s"
  using assms irq_reachable_inv by (auto simp: IRQs_are_enabled_def split: IRQ_status_t.splits)

theorem enabled_means_flag_clear_witness:
  "\<not> if_flag (IRQ_reenable (IRQ_disable (IRQ_enable sample_irq)))"
proof (rule enabled_means_flag_clear)
  have "irq_reachable sample_irq" by (rule irq_reachable.start) (simp add: sample_irq_def)
  then show "irq_reachable (IRQ_reenable (IRQ_disable (IRQ_enable sample_irq)))"
    by (blast intro: irq_reachable.intros(2-4))
qed (simp add: sample_irq_def IRQs_are_enabled_def IRQ_enable_def IRQ_disable_def IRQ_reenable_def
      asm_cli_def asm_sti_def Let_def)

text \<open>A single disable and reenable pair restores the state, a nested one does not: after two
  disables one or two reenables leave interrupts disabled, whatever they were before.\<close>

theorem nested_disable_loses_enable:
  "IRQ_status_curr (IRQ_reenable (IRQ_disable s)) = IRQ_status_curr s
   \<and> IRQ_status_curr (IRQ_reenable (IRQ_disable (IRQ_disable s))) = DISABLED
   \<and> IRQ_status_curr (IRQ_reenable (IRQ_reenable (IRQ_disable (IRQ_disable s)))) = DISABLED"
  by (cases "IRQ_status_curr s")
     (simp_all add: IRQ_reenable_def IRQ_disable_def IRQ_enable_def asm_cli_def asm_sti_def Let_def)

section \<open>Properties: the binary semaphore\<close>

text \<open>C35: two threads are never in the critical section of the same semaphore at once, whatever
  the interleaving of their test-and-set attempts and unlocks.\<close>

theorem semaphore_mutual_exclusion:
  assumes "sem_reachable s" and "in_critical s i" and "in_critical s j"
  shows "i = j"
  using sem_reachable_inv [OF assms(1)] assms(2,3) by (auto simp: sem_inv_def)

theorem semaphore_mutual_exclusion_witness:
  "\<exists>s. sem_reachable s \<and> in_critical s 3 \<and> \<not> in_critical s 4"
proof -
  have r: "sem_reachable (lock_try 4 (lock_try 3 sem_init))"
    by (intro sem_next [OF sem_next [OF sem_start try_lock] try_lock])
       (simp_all add: sem_init_def lock_try_def atomic_test_and_set_def)
  have c: "in_critical (lock_try 4 (lock_try 3 sem_init)) 3"
    by (simp add: sem_init_def lock_try_def atomic_test_and_set_def)
  show ?thesis using r c semaphore_mutual_exclusion [OF r c, of 4] by auto
qed

end
