(* ===== verification/Serial.thy ===== *)
theory Serial imports Irq begin

text \<open>
  src/drivers/serial\_io\_driver.c: the transmit FIFO of the serial port, a ring of 16 bytes, its
  producer \<open>prod_add\<close>, its consumer \<open>cons_get\<close>, the hand-over \<open>hw_write\<close> to the UART, and the
  set-up of the port. There is one FIFO, \<open>serial_tx\<close>: the pointers \<open>prod\<close> and \<open>cons\<close> into its
  buffer are indices.
\<close>

section \<open>State\<close>

definition SERIAL_PORT :: u16 where "SERIAL_PORT = 0x3F8"
definition SERIAL_IRQ :: nat where "SERIAL_IRQ = 36"
definition SERIAL_BUFF_SIZE :: nat where "SERIAL_BUFF_SIZE = 16"

record serial_fifo_t =
  buff :: "u8 list"
  prod_idx :: nat
  cons_idx :: nat
  count :: u32
  idle_flag :: bool

record serial_state = timer_state +
  serial_tx :: serial_fifo_t

definition IS_EMPTY :: "serial_fifo_t \<Rightarrow> bool" where "IS_EMPTY f \<longleftrightarrow> count f = 0"
definition IS_FULL :: "serial_fifo_t \<Rightarrow> bool" where "IS_FULL f \<longleftrightarrow> unat (count f) = SERIAL_BUFF_SIZE"

definition IS_TX_IRQ :: "u8 \<Rightarrow> bool" where "IS_TX_IRQ iir \<longleftrightarrow> iir AND 0xE = 0x2"
definition IS_LINE_IRQ :: "u8 \<Rightarrow> bool" where "IS_LINE_IRQ iir \<longleftrightarrow> iir AND 0xE = 0x6"

abbreviation on_tx :: "(serial_fifo_t \<Rightarrow> serial_fifo_t) \<Rightarrow> 'a serial_state_scheme \<Rightarrow> 'a serial_state_scheme" where
  "on_tx f s \<equiv> s\<lparr>serial_tx := f (serial_tx s)\<rparr>"

section \<open>The ring\<close>

text \<open>The part of \<open>prod_add\<close> between the test for space and the test for the first byte.\<close>

definition fifo_put :: "u8 \<Rightarrow> serial_fifo_t \<Rightarrow> serial_fifo_t" where
  "fifo_put d f =
     (let f = f\<lparr>buff := (buff f)[prod_idx f := d], prod_idx := prod_idx f + 1\<rparr>;
          f = f\<lparr>count := count f + 1\<rparr>
      in if prod_idx f \<ge> SERIAL_BUFF_SIZE then f\<lparr>prod_idx := 0\<rparr> else f)"

text \<open>The part of \<open>cons_get\<close> between the two calls that guard it.\<close>

definition fifo_get :: "serial_fifo_t \<Rightarrow> u8 \<times> serial_fifo_t" where
  "fifo_get f =
     (let d = buff f ! cons_idx f;
          f = f\<lparr>cons_idx := cons_idx f + 1\<rparr>;
          f = f\<lparr>count := count f - 1\<rparr>;
          f = (if cons_idx f \<ge> SERIAL_BUFF_SIZE then f\<lparr>cons_idx := 0\<rparr> else f)
      in (d, if IS_EMPTY f then f\<lparr>idle_flag := True\<rparr> else f))"

definition serial_fifo_init :: "serial_fifo_t \<Rightarrow> serial_fifo_t" where
  "serial_fifo_init f =
     f\<lparr>buff := replicate SERIAL_BUFF_SIZE 0, prod_idx := 0, cons_idx := 0, idle_flag := True, count := 0\<rparr>"

section \<open>Consumer and producer\<close>

definition cons_get :: "'a serial_state_scheme \<Rightarrow> u8 option \<times> 'a serial_state_scheme" where
  "cons_get s =
     (if IS_EMPTY (serial_tx s) then (None, s)
      else let s = IRQ_disable s;
               (d, f) = fifo_get (serial_tx s);
               s = s\<lparr>serial_tx := f\<rparr>
           in (Some d, IRQ_reenable s))"

definition hw_write :: "device \<Rightarrow> 'a serial_state_scheme \<Rightarrow> 'a serial_state_scheme" where
  "hw_write dev s =
     (if idle_flag (serial_tx s) then
        let s = on_tx (idle_flag_update (\<lambda>_. False)) s in
        case cons_get s of
          (Some d, s) \<Rightarrow> outb SERIAL_PORT d s
        | (None, s) \<Rightarrow> s
      else
        let (v, s) = inb dev (SERIAL_PORT + 5) s in
        if v AND 0x20 = 0x20 then on_tx (idle_flag_update (\<lambda>_. True)) s else s)"

definition prod_add :: "device \<Rightarrow> u8 \<Rightarrow> 'a serial_state_scheme \<Rightarrow> int \<times> 'a serial_state_scheme" where
  "prod_add dev d s =
     (let s = IRQ_disable s;
          (ret, s) = (if \<not> IS_FULL (serial_tx s)
             then let s = on_tx (fifo_put d) s
                  in (0, if count (serial_tx s) = 1 then hw_write dev s else s)
             else (-1, s))
      in (ret, IRQ_reenable s))"

definition serial_tx_irq_handler :: "device \<Rightarrow> 'a serial_state_scheme \<Rightarrow> 'a serial_state_scheme" where
  "serial_tx_irq_handler dev s =
     (let s = say (OS_INFO ''Serial TX IRQ!'' []) s;
          (iir, s) = inb dev (SERIAL_PORT + 2) s
      in if IS_TX_IRQ iir then
           let (_, s) = inb dev SERIAL_PORT s;
               s = on_tx (idle_flag_update (\<lambda>_. True)) s
           in hw_write dev s
         else if IS_LINE_IRQ iir then snd (inb dev (SERIAL_PORT + 5) s)
         else say (OS_INFO ''Serial TX IRQ: Unknown interrupt, IIR: 0x%X'' [ucast iir]) s)"

text \<open>\<open>serial_write\<close> stops at the first byte the FIFO has no space for and returns how many it took.
  The null check of the C code is for a null pointer, which a list of bytes is not.\<close>

primrec serial_write :: "device \<Rightarrow> u8 list \<Rightarrow> 'a serial_state_scheme \<Rightarrow> nat \<times> 'a serial_state_scheme" where
  "serial_write dev [] s = (0, s)"
| "serial_write dev (b # bs) s =
     (case prod_add dev b s of (ret, s) \<Rightarrow>
        if ret \<noteq> 0 then (0, s)
        else case serial_write dev bs s of (n, s) \<Rightarrow> (Suc n, s))"

definition serial_print :: "device \<Rightarrow> u8 list \<Rightarrow> 'a serial_state_scheme \<Rightarrow> 'a serial_state_scheme" where
  "serial_print dev str s = snd (serial_write dev str s)"

section \<open>Set-up\<close>

datatype driver_status_t = SUCCESS | FAILURE

text \<open>The values written are those the macros of the source compute: the divisor of 115200 baud
  is 1, the line has 8 data bits, one stop bit and no parity (3), the FIFOs are enabled and
  cleared (7), loopback is bit 4 of the modem register (0x1F, then 0x0F), and the transmit,
  line and modem interrupts are enabled (0x0E).\<close>

definition serial_driver_init :: "device \<Rightarrow> 'a serial_state_scheme \<Rightarrow> driver_status_t \<times> 'a serial_state_scheme" where
  "serial_driver_init dev s =
     (let s = on_tx serial_fifo_init s;
          s = outb (SERIAL_PORT + 1) 0x00 s;
          s = outb (SERIAL_PORT + 3) 0x80 s;
          s = outb (SERIAL_PORT + 0) 0x01 s;
          s = outb (SERIAL_PORT + 1) 0x00 s;
          s = outb (SERIAL_PORT + 3) 0x03 s;
          s = outb (SERIAL_PORT + 2) 0x07 s;
          s = outb (SERIAL_PORT + 4) 0x1F s;
          s = outb (SERIAL_PORT + 0) 0xAE s;
          (v, s) = inb dev (SERIAL_PORT + 0) s
      in if v \<noteq> 0xAE
         then (FAILURE, say (OS_ERROR ''Serial COM%u is faulty, did not pass self test!'' [1]) s)
         else
           let s = outb (SERIAL_PORT + 4) 0x0F s;
               s = outb (SERIAL_PORT + 1) 0x0E s;
               (r, s) = IRQ_set_handler SERIAL_IRQ (Some serial_tx_irq_handler_fn) 0 s
           in if r \<noteq> 0
              then (FAILURE, say (OS_ERROR ''Failed to install the serial TX IRQ handler!'' []) s)
              else let (_, s) = PIC_clear_mask dev SERIAL_IRQ s in (SUCCESS, s))"

section \<open>A bounded FIFO\<close>

text \<open>
  What a bounded FIFO promises: \<open>queue\<close> is what it holds, \<open>ok\<close> its invariant. The lemmas say that
  any sequence of puts and gets hands on the bytes in order, without loss or duplication.
\<close>

datatype 'a fifo_op = Put 'a | Get

text \<open>A run returns the bytes accepted, the bytes handed out and the final state. A put on a full
  FIFO and a get on an empty one do nothing; \<open>is_full\<close> and \<open>is_empty\<close> are the tests of the code.\<close>

fun fifo_run :: "('a \<Rightarrow> 's \<Rightarrow> 's) \<Rightarrow> ('s \<Rightarrow> 'a \<times> 's) \<Rightarrow> ('s \<Rightarrow> bool) \<Rightarrow> ('s \<Rightarrow> bool) \<Rightarrow> 'a fifo_op list \<Rightarrow> 's
    \<Rightarrow> 'a list \<times> 'a list \<times> 's" where
  "fifo_run put get is_full is_empty [] f = ([], [], f)"
| "fifo_run put get is_full is_empty (Put d # ops) f =
     (if is_full f then fifo_run put get is_full is_empty ops f
      else let (ins, outs, f') = fifo_run put get is_full is_empty ops (put d f) in (d # ins, outs, f'))"
| "fifo_run put get is_full is_empty (Get # ops) f =
     (if is_empty f then fifo_run put get is_full is_empty ops f
      else let (ins, outs, f') = fifo_run put get is_full is_empty ops (snd (get f)) in (ins, fst (get f) # outs, f'))"

locale bounded_fifo =
  fixes put :: "'a \<Rightarrow> 's \<Rightarrow> 's" and get :: "'s \<Rightarrow> 'a \<times> 's" and is_full :: "'s \<Rightarrow> bool" and is_empty :: "'s \<Rightarrow> bool"
    and queue :: "'s \<Rightarrow> 'a list" and ok :: "'s \<Rightarrow> bool" and cap :: nat
  assumes queue_cap: "ok f \<Longrightarrow> length (queue f) \<le> cap"
    and full_law: "ok f \<Longrightarrow> is_full f \<longleftrightarrow> length (queue f) = cap"
    and empty_law: "ok f \<Longrightarrow> is_empty f \<longleftrightarrow> queue f = []"
    and put_law: "ok f \<Longrightarrow> length (queue f) < cap \<Longrightarrow> ok (put d f) \<and> queue (put d f) = queue f @ [d]"
    and get_law: "ok f \<Longrightarrow> queue f = d # ds \<Longrightarrow> ok (snd (get f)) \<and> fst (get f) = d \<and> queue (snd (get f)) = ds"
begin

lemma run_in_order:
  "ok f \<Longrightarrow> fifo_run put get is_full is_empty ops f = (ins, outs, f') \<Longrightarrow> ok f' \<and> queue f @ ins = outs @ queue f'"
proof (induction ops arbitrary: f ins outs f')
  case (Cons x ops)
  show ?case
  proof (cases x)
    case (Put d)
    obtain i o' g where r: "fifo_run put get is_full is_empty ops (put d f) = (i, o', g)"
      by (cases "fifo_run put get is_full is_empty ops (put d f)")
    have "\<not> is_full f \<longleftrightarrow> length (queue f) < cap" using full_law queue_cap Cons.prems(1) by (simp add: order_less_le)
    then show ?thesis
      using Cons.IH [of f ins outs f'] Cons.IH [of "put d f" i o' g] Cons.prems r put_law [of f d] Put
      by (cases "is_full f") auto
  next
    case Get
    obtain i o' g where r: "fifo_run put get is_full is_empty ops (snd (get f)) = (i, o', g)"
      by (cases "fifo_run put get is_full is_empty ops (snd (get f))")
    show ?thesis
      using Cons.IH [of f ins outs f'] Cons.IH [of "snd (get f)" i o' g] Cons.prems r get_law [of f] empty_law [of f] Get
      by (cases "queue f") auto
  qed
qed simp

end

text \<open>The contents of the ring, in the order they were put.\<close>

definition fifo_queue :: "serial_fifo_t \<Rightarrow> u8 list" where
  "fifo_queue f = map (\<lambda>i. buff f ! ((cons_idx f + i) mod SERIAL_BUFF_SIZE)) [0..<unat (count f)]"

definition fifo_ok :: "serial_fifo_t \<Rightarrow> bool" where
  "fifo_ok f \<longleftrightarrow> length (buff f) = SERIAL_BUFF_SIZE \<and> cons_idx f < SERIAL_BUFF_SIZE \<and> unat (count f) \<le> SERIAL_BUFF_SIZE
     \<and> prod_idx f = (cons_idx f + unat (count f)) mod SERIAL_BUFF_SIZE"

lemma wrap_idx: "p < 16 \<Longrightarrow> (if 15 \<le> p then 0 else p + 1) = Suc p mod (16 :: nat)"
  by (cases "p = 15") auto

lemma mod_twice: "x < 32 \<Longrightarrow> x mod 16 = (if x < 16 then x else x - (16 :: nat))"
  by (simp add: mod_if)

lemma fifo_put_queue:
  assumes ok: "fifo_ok f" and room: "length (fifo_queue f) < SERIAL_BUFF_SIZE"
  shows "fifo_ok (fifo_put d f) \<and> fifo_queue (fifo_put d f) = fifo_queue f @ [d]"
proof -
  let ?n = "unat (count f)" and ?c = "cons_idx f" and ?p = "prod_idx f"
  have n: "?n < 16" using room by (simp add: fifo_queue_def SERIAL_BUFF_SIZE_def)
  have c: "?c < 16" and p: "?p = (?c + ?n) mod 16" and l: "length (buff f) = 16"
    using ok by (auto simp: fifo_ok_def SERIAL_BUFF_SIZE_def)
  have p16: "?p < 16" using p by simp
  have n1: "unat (count f + 1) = ?n + 1" using n by (subst unat_add_nowrap) simp_all
  have f': "fifo_put d f = f\<lparr>buff := (buff f)[?p := d], prod_idx := (?p + 1) mod 16, count := count f + 1\<rparr>"
    using wrap_idx [OF p16] p16 by (cases "?p = 15") (simp_all add: fifo_put_def Let_def SERIAL_BUFF_SIZE_def)
  have ne: "?p \<noteq> (?c + i) mod 16" if "i < ?n" for i
  proof
    assume "?p = (?c + i) mod 16"
    then have "(?c + i) mod 16 = (?c + ?n) mod 16" using p by simp
    then show False using that n c mod_twice [of "?c + i"] mod_twice [of "?c + ?n"] by (auto split: if_splits)
  qed
  have "fifo_queue (fifo_put d f) = map (\<lambda>i. buff f ! ((?c + i) mod 16)) [0..<?n] @ [d]"
    using l p16 ne by (simp add: fifo_queue_def f' n1 SERIAL_BUFF_SIZE_def p [symmetric])
  moreover have "fifo_ok (fifo_put d f)"
    using ok n n1 p by (simp add: fifo_ok_def f' SERIAL_BUFF_SIZE_def mod_Suc_eq)
  ultimately show ?thesis by (simp add: fifo_queue_def SERIAL_BUFF_SIZE_def)
qed

lemma fifo_get_fields:
  "buff (snd (fifo_get f)) = buff f" "prod_idx (snd (fifo_get f)) = prod_idx f" "count (snd (fifo_get f)) = count f - 1"
  "cons_idx (snd (fifo_get f)) = (if 15 \<le> cons_idx f then 0 else cons_idx f + 1)" "fst (fifo_get f) = buff f ! cons_idx f"
  by (auto simp: fifo_get_def Let_def SERIAL_BUFF_SIZE_def)

lemma fifo_get_queue:
  assumes ok: "fifo_ok f" and q: "fifo_queue f = d # ds"
  shows "fifo_ok (snd (fifo_get f)) \<and> fst (fifo_get f) = d \<and> fifo_queue (snd (fifo_get f)) = ds"
proof -
  let ?n = "unat (count f)" and ?c = "cons_idx f"
  obtain k where k: "?n = Suc k" using q by (cases ?n) (auto simp: fifo_queue_def)
  have n1: "unat (count f - 1) = k" using k by (subst unat_sub_nowrap) simp_all
  have c: "?c < 16" using ok by (simp add: fifo_ok_def SERIAL_BUFF_SIZE_def)
  note g = fifo_get_fields [of f, unfolded wrap_idx [OF c]]
  have "[0..<?n] = 0 # map Suc [0..<k]" unfolding k by (simp add: upt_conv_Cons map_Suc_upt del: upt_Suc)
  then have "d = buff f ! ?c" "ds = map (\<lambda>i. buff f ! ((?c + Suc i) mod 16)) [0..<k]"
    using q c by (auto simp: fifo_queue_def SERIAL_BUFF_SIZE_def o_def)
  moreover have "(Suc ?c mod 16 + i) mod 16 = (?c + Suc i) mod 16" for i by (simp add: mod_add_left_eq)
  ultimately have "fifo_queue (snd (fifo_get f)) = ds" "fst (fifo_get f) = d"
    by (simp_all add: fifo_queue_def g n1 SERIAL_BUFF_SIZE_def)
  moreover have "fifo_ok (snd (fifo_get f))"
    using ok k by (simp add: fifo_ok_def g n1 SERIAL_BUFF_SIZE_def mod_add_left_eq)
  ultimately show ?thesis by simp
qed

lemma fifo_queue_cap: "fifo_ok f \<Longrightarrow> length (fifo_queue f) \<le> SERIAL_BUFF_SIZE"
  by (simp add: fifo_queue_def fifo_ok_def)

lemma is_full_queue: "fifo_ok f \<Longrightarrow> IS_FULL f \<longleftrightarrow> length (fifo_queue f) = SERIAL_BUFF_SIZE"
  by (simp add: IS_FULL_def fifo_queue_def)

lemma is_empty_queue: "IS_EMPTY f \<longleftrightarrow> fifo_queue f = []"
  by (simp add: IS_EMPTY_def fifo_queue_def word_unat_eq_iff)

interpretation tx: bounded_fifo fifo_put fifo_get IS_FULL IS_EMPTY fifo_queue fifo_ok SERIAL_BUFF_SIZE
  by unfold_locales (auto simp: fifo_queue_cap is_full_queue is_empty_queue fifo_put_queue fifo_get_queue)

lemma fifo_init_ok: "fifo_ok (serial_fifo_init f)" "fifo_queue (serial_fifo_init f) = []"
  by (simp_all add: fifo_ok_def serial_fifo_init_def fifo_queue_def SERIAL_BUFF_SIZE_def)

end
