(* ===== verification/SerialProps.thy ===== *)
theory SerialProps imports Serial begin

text \<open>
  The properties of the serial driver (src/drivers/serial\_io\_driver.c): the ring hands bytes on in
  order, what the producer does on every branch, what a write sends, and the set-up.
\<close>

lemma irq_keeps [simp]:
  "serial_tx (IRQ_disable s) = serial_tx s" "trace (IRQ_disable s) = trace s"
  "serial_tx (IRQ_reenable s) = serial_tx s" "trace (IRQ_reenable s) = trace s"
  "IRQ_status_curr (IRQ_disable s) = DISABLED" "IRQ_status_prev (IRQ_disable s) = IRQ_status_curr s"
  by (simp_all add: IRQ_disable_def IRQ_reenable_def IRQ_enable_def asm_sti_def asm_cli_def Let_def)

lemma irq_tx [simp]:
  "IRQ_status_curr (on_tx g s) = IRQ_status_curr s" "IRQ_status_prev (on_tx g s) = IRQ_status_prev s"
  "IRQ_status_curr (outb p v s) = IRQ_status_curr s" "IRQ_status_prev (outb p v s) = IRQ_status_prev s"
  "serial_tx (outb p v s) = serial_tx s" "trace (outb p v s) = Out p v # trace s"
  by (simp_all add: outb_def)

lemma count_put: "count (fifo_put d f) = count f + 1"
  by (simp add: fifo_put_def Let_def)

lemma idle_put: "idle_flag (fifo_put d f) = idle_flag f"
  by (simp add: fifo_put_def Let_def)

lemma fifo_ok_idle [simp]: "fifo_ok (idle_flag_update g f) = fifo_ok f" "fifo_queue (idle_flag_update g f) = fifo_queue f"
  by (simp_all add: fifo_ok_def fifo_queue_def)

lemma first_byte: "fifo_ok f \<Longrightarrow> count f + 1 = 1 \<longleftrightarrow> fifo_queue f = []"
  by (simp add: is_empty_queue [symmetric] IS_EMPTY_def)

text \<open>Every operation on the ring keeps its invariant.\<close>

lemma cons_get_ok: "fifo_ok (serial_tx s) \<Longrightarrow> fifo_ok (serial_tx (snd (cons_get s)))"
proof -
  assume ok: "fifo_ok (serial_tx s)"
  show "fifo_ok (serial_tx (snd (cons_get s)))"
  proof (cases "fifo_queue (serial_tx s)")
    case (Cons d ds)
    then show ?thesis
      using fifo_get_queue [OF ok Cons] by (simp add: cons_get_def is_empty_queue Let_def case_prod_unfold)
  qed (simp add: cons_get_def is_empty_queue ok)
qed

lemma hw_write_ok:
  assumes "fifo_ok (serial_tx s)"
  shows "fifo_ok (serial_tx (hw_write dev s))"
proof -
  let ?s = "on_tx (idle_flag_update (\<lambda>_. False)) s"
  obtain r t where g: "cons_get ?s = (r, t)" by (cases "cons_get ?s")
  have "fifo_ok (serial_tx t)" using cons_get_ok [of ?s] assms g by simp
  then show ?thesis
    using assms g by (auto simp: hw_write_def inb_def Let_def split: option.split)
qed

lemma prod_add_ok:
  assumes ok: "fifo_ok (serial_tx s)"
  shows "fifo_ok (serial_tx (snd (prod_add dev d s)))"
proof (cases "IS_FULL (serial_tx s)")
  case False
  then have "length (fifo_queue (serial_tx s)) < SERIAL_BUFF_SIZE"
    using fifo_queue_cap [OF ok] ok by (auto simp: is_full_queue)
  then have "fifo_ok (fifo_put d (serial_tx s))" using fifo_put_queue [OF ok] by blast
  then show ?thesis using False by (simp add: prod_add_def hw_write_ok Let_def)
qed (simp add: prod_add_def ok)

text \<open>The hand-over of the first byte, when the transmitter is idle.\<close>

lemma hw_write_first:
  assumes "fifo_ok (serial_tx s)" "fifo_queue (serial_tx s) = [d]" "idle_flag (serial_tx s)"
  shows "\<exists>f s'. hw_write dev s = s' \<and> serial_tx s' = f \<and> fifo_ok f \<and> fifo_queue f = [] \<and> idle_flag f
     \<and> trace s' = Out SERIAL_PORT d # trace s
     \<and> (IRQ_status_curr s = DISABLED \<longrightarrow> IRQ_status_curr s' = DISABLED \<and> IRQ_status_prev s' = DISABLED \<and> if_flag s' = if_flag s)"
proof -
  let ?f = "serial_tx s\<lparr>idle_flag := False\<rparr>"
  have ok: "fifo_ok ?f" "fifo_queue ?f = [d]" using assms by (simp_all add: fifo_ok_def fifo_queue_def)
  have ne: "\<not> IS_EMPTY ?f" using ok by (simp add: is_empty_queue)
  obtain e g where g: "fifo_get ?f = (e, g)" by (cases "fifo_get ?f")
  have gl: "fifo_ok g" "e = d" "fifo_queue g = []" using fifo_get_queue [OF ok(1), of d "[]"] ok(2) g by auto
  have "count g = 0" using gl(3) by (simp add: is_empty_queue [symmetric] IS_EMPTY_def)
  then have idle: "idle_flag g"
    using g by (auto simp: fifo_get_def Let_def IS_EMPTY_def split: if_splits)
  show ?thesis
    using assms(3) ne g gl idle
    by (simp add: hw_write_def cons_get_def Let_def IRQ_reenable_def IRQ_enable_def IRQ_disable_def asm_cli_def asm_sti_def outb_def)
qed

text \<open>C16: any sequence of puts and gets on the ring keeps its invariant and hands the bytes on in
  order: what it held and what it took are what it gave and what it still holds.\<close>

theorem serial_ring_in_order:
  assumes "fifo_ok f" and "fifo_run fifo_put fifo_get IS_FULL IS_EMPTY ops f = (ins, outs, f')"
  shows "fifo_ok f' \<and> fifo_queue f @ ins = outs @ fifo_queue f'"
  using assms by (rule tx.run_in_order)

text \<open>\<open>prod_add\<close> on each branch: a full ring refuses the byte and stays as it is; a byte behind
  others is queued; a byte into an empty ring goes straight to the UART when the transmitter is
  idle, and is queued after a poll of the line status otherwise.\<close>

theorem prod_add_branches:
  assumes ok: "fifo_ok (serial_tx s)" and run: "prod_add dev d s = (ret, s')"
  shows "if length (fifo_queue (serial_tx s)) = SERIAL_BUFF_SIZE
           then ret = -1 \<and> serial_tx s' = serial_tx s \<and> trace s' = trace s
         else ret = 0 \<and> fifo_ok (serial_tx s')
           \<and> (if fifo_queue (serial_tx s) \<noteq> []
                then fifo_queue (serial_tx s') = fifo_queue (serial_tx s) @ [d] \<and> trace s' = trace s
              else if idle_flag (serial_tx s)
                then fifo_queue (serial_tx s') = [] \<and> idle_flag (serial_tx s') \<and> trace s' = Out SERIAL_PORT d # trace s
              else fifo_queue (serial_tx s') = [d]
                \<and> trace s' = In (SERIAL_PORT + 5) (dev (trace s) (SERIAL_PORT + 5)) # trace s)"
proof (cases "length (fifo_queue (serial_tx s)) = SERIAL_BUFF_SIZE")
  case True
  then show ?thesis using run ok by (auto simp: prod_add_def Let_def is_full_queue)
next
  case False
  then have room: "length (fifo_queue (serial_tx s)) < SERIAL_BUFF_SIZE" and nf: "\<not> IS_FULL (serial_tx s)"
    using fifo_queue_cap [OF ok] ok by (auto simp: is_full_queue)
  let ?s1 = "on_tx (fifo_put d) (IRQ_disable s)"
  have put: "fifo_ok (serial_tx ?s1)" "fifo_queue (serial_tx ?s1) = fifo_queue (serial_tx s) @ [d]"
    "trace ?s1 = trace s" "idle_flag (serial_tx ?s1) = idle_flag (serial_tx s)"
    using fifo_put_queue [OF ok room, of d] by (simp_all add: idle_put)
  have r: "ret = 0" "s' = IRQ_reenable (if fifo_queue (serial_tx s) = [] then hw_write dev ?s1 else ?s1)"
    using run nf first_byte [OF ok] by (auto simp: prod_add_def Let_def count_put)
  show ?thesis
  proof (cases "fifo_queue (serial_tx s) = [] \<and> idle_flag (serial_tx s)")
    case True
    then show ?thesis using r False put hw_write_first [OF put(1), of d dev] by auto
  next
    case ni: False
    show ?thesis
      using r False put ni by (auto simp: hw_write_def inb_def Let_def)
  qed
qed

lemma prod_add_idle:
  assumes "fifo_ok (serial_tx s)" "fifo_queue (serial_tx s) = []" "idle_flag (serial_tx s)"
  shows "\<exists>s'. prod_add dev d s = (0, s') \<and> fifo_ok (serial_tx s') \<and> fifo_queue (serial_tx s') = [] \<and> idle_flag (serial_tx s')
     \<and> trace s' = Out SERIAL_PORT d # trace s \<and> IRQ_status_curr s' = DISABLED
     \<and> if_flag s' = (IRQ_status_curr s = ENABLED \<or> if_flag s)"
proof -
  let ?s1 = "on_tx (fifo_put d) (IRQ_disable s)"
  have nf: "\<not> IS_FULL (serial_tx s)" using assms by (simp add: is_full_queue SERIAL_BUFF_SIZE_def)
  have put: "fifo_ok (serial_tx ?s1)" "fifo_queue (serial_tx ?s1) = [d]" "idle_flag (serial_tx ?s1)"
    using fifo_put_queue [OF assms(1), of d] assms by (simp_all add: SERIAL_BUFF_SIZE_def idle_put)
  have "prod_add dev d s = (0, IRQ_reenable (hw_write dev ?s1))"
    using nf first_byte [OF assms(1)] assms by (simp add: prod_add_def Let_def count_put)
  moreover have "if_flag ?s1 = (IRQ_status_curr s = ENABLED \<or> if_flag s)"
    by (simp add: IRQ_disable_def asm_sti_def)
  ultimately show ?thesis using hw_write_first [OF put, of dev] by (auto simp: IRQ_reenable_def)
qed

text \<open>C37: from an empty ring and an idle transmitter, \<open>serial_write\<close> sends the whole text to the
  data port at once and in order, without ever looking at the line status; and it leaves
  interrupts disabled in the kernel's record, whatever they were before, because the nested
  disable of the consumer makes the outer re-enable ineffective.\<close>

theorem serial_write_sends:
  assumes "fifo_ok (serial_tx s)" "fifo_queue (serial_tx s) = []" "idle_flag (serial_tx s)"
  shows "\<exists>s'. serial_write dev bs s = (length bs, s') \<and> fifo_queue (serial_tx s') = [] \<and> idle_flag (serial_tx s')
     \<and> trace s' = map (Out SERIAL_PORT) (rev bs) @ trace s \<and> (bs \<noteq> [] \<longrightarrow> IRQ_status_curr s' = DISABLED)"
  using assms
proof (induction bs arbitrary: s)
  case (Cons b bs)
  obtain s1 where s1: "prod_add dev b s = (0, s1)" "fifo_ok (serial_tx s1)" "fifo_queue (serial_tx s1) = []"
    "idle_flag (serial_tx s1)" "trace s1 = Out SERIAL_PORT b # trace s" "IRQ_status_curr s1 = DISABLED"
    using prod_add_idle [OF Cons.prems, of dev b] by blast
  obtain s' where s': "serial_write dev bs s1 = (length bs, s')" "fifo_queue (serial_tx s') = []" "idle_flag (serial_tx s')"
    "trace s' = map (Out SERIAL_PORT) (rev bs) @ trace s1" "bs \<noteq> [] \<longrightarrow> IRQ_status_curr s' = DISABLED"
    using Cons.IH [OF s1(2-4)] by blast
  then show ?case using s1 by (cases bs) auto
qed simp

text \<open>The port accesses of the set-up up to the read of the looped-back byte, newest first.\<close>

definition self_test_trace :: "io_event list" where
  "self_test_trace = [Out 0x3F8 0xAE, Out 0x3FC 0x1F, Out 0x3FA 0x07, Out 0x3FB 0x03, Out 0x3F9 0x00, Out 0x3F8 0x01,
     Out 0x3FB 0x80, Out 0x3F9 0x00]"

lemma PIC_clear_mask_keeps [simp]:
  "irq_handler_table (snd (PIC_clear_mask dev irq s)) = irq_handler_table (s :: 'a serial_state_scheme)"
  "serial_tx (snd (PIC_clear_mask dev irq s)) = serial_tx s"
  by (simp_all add: PIC_clear_mask_def inb_def outb_def say_def Let_def split: prod.split)

text \<open>The set-up succeeds exactly when the UART, in loopback mode, gives the test byte back;
  then the ring is empty, the transmitter idle and the handler of the serial interrupt is
  installed, and otherwise the handler table is as it was.\<close>

theorem serial_init_self_test:
  assumes tbl: "length (irq_handler_table s) = IDT_MAX_IRQ"
  shows "(if dev (self_test_trace @ trace s) 0x3F8 = 0xAE
     then fst (serial_driver_init dev s) = SUCCESS
       \<and> irq_handler_table (snd (serial_driver_init dev s)) ! SERIAL_IRQ = \<lparr>handler = Some serial_tx_irq_handler_fn, handler_arg = 0\<rparr>
       \<and> fifo_ok (serial_tx (snd (serial_driver_init dev s))) \<and> fifo_queue (serial_tx (snd (serial_driver_init dev s))) = []
       \<and> idle_flag (serial_tx (snd (serial_driver_init dev s)))
     else fst (serial_driver_init dev s) = FAILURE
       \<and> irq_handler_table (snd (serial_driver_init dev s)) = irq_handler_table s)"
proof -
  have idx: "SERIAL_IRQ < length (irq_handler_table s)" using tbl by (simp add: irq_numbers SERIAL_IRQ_def)
  have valid: "IS_VALID_IRQ SERIAL_IRQ"
    by (simp add: IS_VALID_IRQ_def IS_PIC_IRQ_def IS_EXCEPTION_def irq_numbers SERIAL_IRQ_def)
  show ?thesis
    using idx valid fifo_init_ok [of "serial_tx s"]
    by (simp add: serial_driver_init_def self_test_trace_def inb_def outb_def say_def Let_def SERIAL_PORT_def
        IRQ_set_handler_def set_table_def case_prod_unfold serial_fifo_init_def)
qed

section \<open>Witnesses\<close>

text \<open>A driver state with an empty ring and interrupts recorded as enabled, and one with a ring that
  wraps around.\<close>

definition idle_serial :: serial_state where
  "idle_serial = \<lparr>trace = [], klog = [], if_flag = False, irq_handler_table = replicate 48 \<lparr>handler = None, handler_arg = 0\<rparr>,
     IRQ_status_prev = DISABLED, IRQ_status_curr = ENABLED, timer_enabled = False,
     serial_tx = serial_fifo_init \<lparr>buff = [], prod_idx = 0, cons_idx = 0, count = 0, idle_flag = False\<rparr>\<rparr>"

definition wrapped_fifo :: serial_fifo_t where
  "wrapped_fifo = \<lparr>buff = replicate 14 0 @ [1, 2], prod_idx = 0, cons_idx = 14, count = 2, idle_flag = False\<rparr>"

lemma wrapped_ok: "fifo_ok wrapped_fifo" "fifo_queue wrapped_fifo = [1, 2]"
  by (simp_all add: fifo_ok_def fifo_queue_def wrapped_fifo_def SERIAL_BUFF_SIZE_def upt_rec nth_append)

theorem serial_ring_in_order_witness:
  "\<exists>f'. fifo_run fifo_put fifo_get IS_FULL IS_EMPTY [Put 3, Get, Get] wrapped_fifo = ([3], [1, 2], f')
     \<and> fifo_queue f' = [3]"
proof -
  obtain ins outs f' where r: "fifo_run fifo_put fifo_get IS_FULL IS_EMPTY [Put 3, Get, Get] wrapped_fifo = (ins, outs, f')"
    by (cases "fifo_run fifo_put fifo_get IS_FULL IS_EMPTY [Put 3, Get, Get] wrapped_fifo")
  have q: "fifo_queue (fifo_put 3 wrapped_fifo) = [1, 2, 3]" and ok: "fifo_ok (fifo_put 3 wrapped_fifo)"
    using fifo_put_queue [OF wrapped_ok(1), of 3] by (simp_all add: wrapped_ok SERIAL_BUFF_SIZE_def)
  have g: "fst (fifo_get (fifo_put 3 wrapped_fifo)) = 1" "fifo_queue (snd (fifo_get (fifo_put 3 wrapped_fifo))) = [2, 3]"
    "fifo_ok (snd (fifo_get (fifo_put 3 wrapped_fifo)))" using fifo_get_queue [OF ok q] by auto
  have g2: "fst (fifo_get (snd (fifo_get (fifo_put 3 wrapped_fifo)))) = 2" using fifo_get_queue [OF g(3,2)] by auto
  have tests: "\<not> IS_FULL wrapped_fifo" "\<not> IS_EMPTY (fifo_put 3 wrapped_fifo)" "\<not> IS_EMPTY (snd (fifo_get (fifo_put 3 wrapped_fifo)))"
    using q g(2) by (simp_all add: is_full_queue is_empty_queue wrapped_ok SERIAL_BUFF_SIZE_def)
  have "ins = [3] \<and> outs = [1, 2]" using r g(1) g2 tests by (auto split: prod.splits)
  then show ?thesis using serial_ring_in_order [OF wrapped_ok(1) r] r by (auto simp: wrapped_ok)
qed

theorem prod_add_branches_witness:
  "\<exists>s'. prod_add (\<lambda>_ _. 0) 65 idle_serial = (0, s') \<and> trace s' = [Out SERIAL_PORT 65]"
proof -
  obtain r s' where run: "prod_add (\<lambda>_ _. 0) 65 idle_serial = (r, s')" by (cases "prod_add (\<lambda>_ _. 0) 65 idle_serial")
  have ok: "fifo_ok (serial_tx idle_serial)" "fifo_queue (serial_tx idle_serial) = []" "idle_flag (serial_tx idle_serial)"
    by (simp_all add: idle_serial_def fifo_init_ok) (simp add: serial_fifo_init_def)
  show ?thesis using prod_add_branches [OF ok(1) run] run ok by (simp add: SERIAL_BUFF_SIZE_def idle_serial_def)
qed

theorem serial_write_sends_witness:
  "\<exists>s'. serial_write (\<lambda>_ _. 0) [72, 105] idle_serial = (2, s') \<and> trace s' = [Out SERIAL_PORT 105, Out SERIAL_PORT 72]
     \<and> IRQ_status_curr idle_serial = ENABLED \<and> IRQ_status_curr s' = DISABLED"
proof -
  have ok: "fifo_ok (serial_tx idle_serial)" "fifo_queue (serial_tx idle_serial) = []" "idle_flag (serial_tx idle_serial)"
    by (simp_all add: idle_serial_def fifo_init_ok) (simp add: serial_fifo_init_def)
  show ?thesis using serial_write_sends [OF ok, of "\<lambda>_ _. 0" "[72, 105]"] by (auto simp: idle_serial_def)
qed

theorem serial_init_self_test_witness:
  "fst (serial_driver_init (\<lambda>_ _. 0xAE) idle_serial) = SUCCESS"
proof -
  have "length (irq_handler_table idle_serial) = IDT_MAX_IRQ" by (simp add: idle_serial_def irq_numbers)
  then show ?thesis using serial_init_self_test [of idle_serial "\<lambda>_ _. 0xAE"] by simp
qed

end
