(* ===== verification/Vga.thy ===== *)
theory Vga imports Serial CString begin

text \<open>
  src/drivers/vga\_driver.c: the text screen of 25 rows of 80 cells at 0xB8000, two bytes each
  (character, attributes), the software cursor, scrolling, the special characters, and the
  cursor registers of the CRT controller.
\<close>

section \<open>State\<close>

definition VGA_BUFFER :: addr where "VGA_BUFFER = 0xB8000"
definition VGA_DATA_PORT_A :: u16 where "VGA_DATA_PORT_A = 0x3D4"
definition VGA_DATA_PORT_B :: u16 where "VGA_DATA_PORT_B = 0x3D5"
definition VGA_NUM_COLS :: nat where "VGA_NUM_COLS = 80"
definition VGA_NUM_ROWS :: nat where "VGA_NUM_ROWS = 25"
definition VGA_TOTAL_SIZE :: nat where "VGA_TOTAL_SIZE = VGA_NUM_COLS * VGA_NUM_ROWS"

lemmas vga_sizes = VGA_NUM_COLS_def VGA_NUM_ROWS_def VGA_TOTAL_SIZE_def

text \<open>The special characters of vga\_driver.h.\<close>

definition ESC :: u8 where "ESC = 0x1B"
definition BS :: u8 where "BS = 8"
definition DEL :: u8 where "DEL = 0x7F"
definition TAB :: u8 where "TAB = 9"
definition LF :: u8 where "LF = 10"
definition CR :: u8 where "CR = 13"

lemmas special_chars = ESC_def BS_def DEL_def TAB_def LF_def CR_def

definition VGA_CHAR_ATTR :: "u8 \<Rightarrow> u8 \<Rightarrow> u8 \<Rightarrow> u8 \<Rightarrow> u8" where
  "VGA_CHAR_ATTR blink intns bkgnd frgnd = push_bit 7 blink OR push_bit 3 intns OR push_bit 4 bkgnd OR frgnd"

definition VGA_CHAR_DEFAULT_ATTR :: u8 where "VGA_CHAR_DEFAULT_ATTR = VGA_CHAR_ATTR 0 0 0x00 0x0F"

record vga_state = serial_state +
  vga_mem :: mem
  cur_row :: u8
  cur_col :: u8

definition CONVERT_POS :: "u8 \<Rightarrow> u8 \<Rightarrow> nat" where "CONVERT_POS row col = unat row * VGA_NUM_COLS + unat col"

definition cell_addr :: "u8 \<Rightarrow> u8 \<Rightarrow> addr" where "cell_addr row col = VGA_BUFFER + of_nat (2 * CONVERT_POS row col)"

text \<open>The 16-bit store of \<open>VGA_PUTC\<close> puts the character in the low byte.\<close>

definition VGA_PUTC :: "u8 \<Rightarrow> u8 \<Rightarrow> 'a vga_state_scheme \<Rightarrow> 'a vga_state_scheme" where
  "VGA_PUTC ch attr s = (let a = cell_addr (cur_row s) (cur_col s) in s\<lparr>vga_mem := (vga_mem s)(a := ch, a + 1 := attr)\<rparr>)"

definition VGA_CLEAR_CHAR :: "'a vga_state_scheme \<Rightarrow> 'a vga_state_scheme" where
  "VGA_CLEAR_CHAR s = VGA_PUTC 0 VGA_CHAR_DEFAULT_ATTR s"

definition VGA_get_char :: "u8 \<Rightarrow> u8 \<Rightarrow> 'a vga_state_scheme \<Rightarrow> u8" where
  "VGA_get_char row col s = vga_mem s (cell_addr row col)"

section \<open>The cursor registers\<close>

definition VGA_set_cursor_pos :: "u8 \<times> u8 \<Rightarrow> 'a machine_scheme \<Rightarrow> 'a machine_scheme" where
  "VGA_set_cursor_pos p s =
     (let pos_idx = of_nat (CONVERT_POS (fst p) (snd p)) :: u16;
          s = outb VGA_DATA_PORT_A 0xF s;
          s = outb VGA_DATA_PORT_B (ucast pos_idx) s;
          s = outb VGA_DATA_PORT_A 0xE s
      in outb VGA_DATA_PORT_B (ucast (drop_bit 8 pos_idx)) s)"

definition VGA_get_cursor_pos :: "device \<Rightarrow> 'a machine_scheme \<Rightarrow> (u8 \<times> u8) \<times> 'a machine_scheme" where
  "VGA_get_cursor_pos dev s =
     (let s = outb VGA_DATA_PORT_A 0x0F s;
          (l, s) = inb dev VGA_DATA_PORT_B s;
          s = outb VGA_DATA_PORT_A 0x0E s;
          (h, s) = inb dev VGA_DATA_PORT_B s;
          pos = ucast l OR push_bit 8 (ucast h) :: u16
      in ((of_nat (unat pos div VGA_NUM_COLS), of_nat (unat pos mod VGA_NUM_COLS)), s))"

definition VGA_update_cursor :: "'a vga_state_scheme \<Rightarrow> 'a vga_state_scheme" where
  "VGA_update_cursor s = VGA_set_cursor_pos (cur_row s, cur_col s) s"

definition VGA_enable_cursor :: "device \<Rightarrow> 'a vga_state_scheme \<Rightarrow> 'a vga_state_scheme" where
  "VGA_enable_cursor dev s =
     (let s = VGA_update_cursor s;
          s = outb VGA_DATA_PORT_A 0x0A s;
          (v, s) = inb dev VGA_DATA_PORT_B s;
          s = outb VGA_DATA_PORT_B ((v AND 0xC0) OR 0x00) s;
          s = outb VGA_DATA_PORT_A 0x0B s;
          (v, s) = inb dev VGA_DATA_PORT_B s
      in outb VGA_DATA_PORT_B ((v AND 0xE0) OR of_nat VGA_NUM_ROWS) s)"

definition VGA_disable_cursor :: "'a vga_state_scheme \<Rightarrow> 'a vga_state_scheme" where
  "VGA_disable_cursor s =
     (let s = outb VGA_DATA_PORT_A 0xA s;
          s = outb VGA_DATA_PORT_B 0x20 s
      in VGA_CLEAR_CHAR s)"

definition VGA_cursor_home :: "'a vga_state_scheme \<Rightarrow> 'a vga_state_scheme" where
  "VGA_cursor_home s = VGA_update_cursor (s\<lparr>cur_row := 0, cur_col := 0\<rparr>)"

section \<open>Clearing and scrolling\<close>

definition VGA_clear :: "'a vga_state_scheme \<Rightarrow> 'a vga_state_scheme" where
  "VGA_clear s = VGA_update_cursor (s\<lparr>vga_mem := memset VGA_BUFFER 0 (of_nat (VGA_TOTAL_SIZE * 2)) (vga_mem s),
     cur_row := 0, cur_col := 0\<rparr>)"

text \<open>The casts to 16 bits lose nothing here: every value is below 4001.\<close>

definition VGA_scroll :: "u8 \<Rightarrow> 'a vga_state_scheme \<Rightarrow> 'a vga_state_scheme" where
  "VGA_scroll lines s =
     (if lines = 0 then s
      else if unat lines \<ge> VGA_NUM_ROWS then VGA_update_cursor ((VGA_clear s)\<lparr>cur_row := 0, cur_col := 0\<rparr>)
      else
        let n = unat lines;
            m = memcpy VGA_BUFFER (VGA_BUFFER + of_nat (2 * (n * VGA_NUM_COLS)))
                  (of_nat ((VGA_TOTAL_SIZE - n * VGA_NUM_COLS) * 2)) (vga_mem s);
            m = memset (VGA_BUFFER + of_nat (2 * ((VGA_NUM_ROWS - n) * VGA_NUM_COLS))) 0 (of_nat (n * VGA_NUM_COLS * 2)) m;
            s = s\<lparr>vga_mem := m\<rparr>;
            s = s\<lparr>cur_row := if cur_row s > lines then cur_row s - lines else 0\<rparr>
        in VGA_update_cursor s)"

section \<open>Characters\<close>

text \<open>\<open>do col--; while (char at cursor is null \&\& col > 0)\<close>, from a column above 0.\<close>

primrec back_loop :: "nat \<Rightarrow> 'a vga_state_scheme \<Rightarrow> nat" where
  "back_loop 0 s = 0"
| "back_loop (Suc col) s = (if VGA_get_char (cur_row s) (of_nat col) s = 0 \<and> col > 0 then back_loop col s else col)"

definition VGA_process_backspace :: "'a vga_state_scheme \<Rightarrow> 'a vga_state_scheme" where
  "VGA_process_backspace s =
     (if cur_col s = 0 \<and> cur_row s = 0 then s
      else let s = (if cur_col s = 0 then s\<lparr>cur_row := cur_row s - 1, cur_col := of_nat VGA_NUM_COLS\<rparr> else s);
               s = s\<lparr>cur_col := of_nat (back_loop (unat (cur_col s)) s)\<rparr>
           in VGA_CLEAR_CHAR s)"

function tab_stop :: "u8 \<Rightarrow> u8" where
  "tab_stop col = (if unat col mod 4 \<noteq> 0 then tab_stop (col + 1) else col)"
  by auto

termination
proof (relation "measure (\<lambda>col. (4 - unat col mod 4) mod 4)")
  fix col :: u8 assume a: "unat col mod 4 \<noteq> 0"
  have "unat (col + 1) mod 4 = (unat col + 1) mod 4" by (simp add: unat_word_ariths mod_mod_cancel)
  moreover have "(unat col + 1) mod 4 = (unat col mod 4 + 1) mod 4" by (simp add: mod_Suc_eq)
  moreover have "unat col mod 4 = 1 \<or> unat col mod 4 = 2 \<or> unat col mod 4 = 3" using a by linarith
  ultimately show "(col + 1, col) \<in> measure (\<lambda>col. (4 - unat col mod 4) mod 4)" by auto
qed simp

declare tab_stop.simps [simp del]

text \<open>The \<open>switch\<close> of \<open>VGA_display_attr_char\<close> on anything but an escape character.\<close>

definition put_char :: "u8 \<Rightarrow> u8 \<Rightarrow> 'a vga_state_scheme \<Rightarrow> 'a vga_state_scheme" where
  "put_char c attr s =
     (if c = CR then (VGA_PUTC 32 attr s)\<lparr>cur_col := 0\<rparr>
      else if c = LF then
        if cur_col s = 0 \<and> cur_row s > 0
           \<and> VGA_get_char (cur_row s - 1) (of_nat (VGA_NUM_COLS - 1)) s \<noteq> 0
           \<and> VGA_get_char (cur_row s - 1) (of_nat (VGA_NUM_COLS - 1)) s \<noteq> LF
        then s
        else (VGA_PUTC 32 attr s)\<lparr>cur_col := of_nat VGA_NUM_COLS\<rparr>
      else if c = TAB then (VGA_PUTC 32 attr s)\<lparr>cur_col := tab_stop (cur_col s)\<rparr>
      else if c = BS \<or> c = DEL then VGA_process_backspace s
      else (VGA_PUTC c attr s)\<lparr>cur_col := cur_col s + 1\<rparr>)"

text \<open>The move to the next line, and the scroll when there is none.\<close>

definition next_line :: "'a vga_state_scheme \<Rightarrow> 'a vga_state_scheme" where
  "next_line s =
     (if unat (cur_col s) \<ge> VGA_NUM_COLS then
        let s = s\<lparr>cur_col := 0, cur_row := cur_row s + 1\<rparr>
        in if unat (cur_row s) \<ge> VGA_NUM_ROWS then (VGA_scroll 1 s)\<lparr>cur_row := of_nat (VGA_NUM_ROWS - 1)\<rparr> else s
      else s)"

text \<open>
  \<open>VGA_display_attr_char\<close> and \<open>VGA_display_attr_str\<close> call each other through the escape case,
  which displays a fixed message. The message has no escape character, so the recursion is one
  level deep: the two definitions take what the escape case runs as an argument, and
  \<open>display_escape\<close> below is the recursive equation of the code.
\<close>

definition char_with :: "('a vga_state_scheme \<Rightarrow> 'a vga_state_scheme) \<Rightarrow> u8 \<Rightarrow> u8 \<Rightarrow> 'a vga_state_scheme \<Rightarrow> 'a vga_state_scheme" where
  "char_with esc attr c s =
     (let s = IRQ_disable s
      in if c = ESC then esc s else IRQ_reenable (next_line (put_char c attr s)))"

definition str_with :: "device \<Rightarrow> ('a vga_state_scheme \<Rightarrow> 'a vga_state_scheme) \<Rightarrow> u8 list \<Rightarrow> u8 \<Rightarrow> 'a vga_state_scheme \<Rightarrow> 'a vga_state_scheme" where
  "str_with dev esc str attr s = VGA_enable_cursor dev (fold (char_with esc attr) str (VGA_disable_cursor s))"

definition bytes_of :: "string \<Rightarrow> u8 list" where "bytes_of = map (\<lambda>c. of_nat (of_char c))"

definition escape_message :: "u8 list" where
  "escape_message = bytes_of ''Escape sequences are not yet supported! :('' @ [LF]"

definition VGA_display_attr_str :: "device \<Rightarrow> u8 list \<Rightarrow> u8 \<Rightarrow> 'a vga_state_scheme \<Rightarrow> 'a vga_state_scheme" where
  "VGA_display_attr_str dev = str_with dev (str_with dev (\<lambda>s. s) escape_message VGA_CHAR_DEFAULT_ATTR)"

definition VGA_display_str :: "device \<Rightarrow> u8 list \<Rightarrow> 'a vga_state_scheme \<Rightarrow> 'a vga_state_scheme" where
  "VGA_display_str dev str s = VGA_display_attr_str dev str VGA_CHAR_DEFAULT_ATTR s"

definition VGA_display_attr_char :: "device \<Rightarrow> u8 \<Rightarrow> u8 \<Rightarrow> 'a vga_state_scheme \<Rightarrow> 'a vga_state_scheme" where
  "VGA_display_attr_char dev c attr = char_with (str_with dev (\<lambda>s. s) escape_message VGA_CHAR_DEFAULT_ATTR) attr c"

text \<open>\<open>VGA_display_char\<close> passes the address of its parameter as a string: the bytes that follow it in
  memory up to a null byte are displayed too. They are the argument \<open>behind\<close>.\<close>

definition VGA_display_char :: "device \<Rightarrow> u8 list \<Rightarrow> u8 \<Rightarrow> 'a vga_state_scheme \<Rightarrow> 'a vga_state_scheme" where
  "VGA_display_char dev behind c s = VGA_display_str dev (takeWhile (\<lambda>b. b \<noteq> 0) (c # behind)) s"

definition VGA_display_attr_char_pos ::
    "device \<Rightarrow> u8 \<Rightarrow> u8 \<Rightarrow> u8 \<Rightarrow> u8 \<Rightarrow> u8 \<Rightarrow> 'a vga_state_scheme \<Rightarrow> 'a vga_state_scheme" where
  "VGA_display_attr_char_pos dev x y c fg_color bg_color s =
     (let p = (if unat x < VGA_NUM_COLS then x else of_nat (VGA_NUM_COLS - 1),
               if unat y < VGA_NUM_ROWS then y else of_nat (VGA_NUM_ROWS - 1));
          s = VGA_disable_cursor s;
          s = VGA_set_cursor_pos p s;
          s = VGA_display_attr_char dev c (VGA_CHAR_ATTR 0 0 bg_color fg_color) s
      in VGA_enable_cursor dev s)"

definition VGA_driver_init :: "device \<Rightarrow> 'a vga_state_scheme \<Rightarrow> driver_status_t \<times> 'a vga_state_scheme" where
  "VGA_driver_init dev s = (SUCCESS, VGA_enable_cursor dev (VGA_clear s))"

section \<open>The recursion of the code\<close>

lemma char_with_indep: "c \<noteq> ESC \<Longrightarrow> char_with esc attr c = char_with esc' attr c"
  by (simp add: char_with_def fun_eq_iff)

lemma str_with_indep:
  assumes "ESC \<notin> set str"
  shows "str_with dev esc str attr = str_with dev esc' str attr"
proof -
  have "fold (char_with esc attr) str s = fold (char_with esc' attr) str s" for s
  proof (rule List.fold_cong)
    fix c assume "c \<in> set str"
    then show "char_with esc attr c = char_with esc' attr c" using assms by (intro char_with_indep) auto
  qed simp_all
  then show ?thesis by (simp add: str_with_def fun_eq_iff)
qed

lemma message_plain: "ESC \<notin> set escape_message"
  by (simp add: escape_message_def bytes_of_def special_chars)

lemma display_escape:
  fixes s :: "'a vga_state_scheme"
  shows "VGA_display_attr_char dev ESC attr s = VGA_display_str dev escape_message (IRQ_disable s)"
proof -
  have "str_with dev (\<lambda>s. s :: 'a vga_state_scheme) escape_message VGA_CHAR_DEFAULT_ATTR
      = str_with dev (str_with dev (\<lambda>s. s) escape_message VGA_CHAR_DEFAULT_ATTR) escape_message VGA_CHAR_DEFAULT_ATTR"
    by (rule str_with_indep [OF message_plain])
  then show ?thesis
    by (simp add: VGA_display_attr_char_def VGA_display_str_def VGA_display_attr_str_def char_with_def)
qed

lemma display_str_chars:
  "VGA_display_attr_str dev str attr s =
     VGA_enable_cursor dev (fold (\<lambda>c. VGA_display_attr_char dev c attr) str (VGA_disable_cursor s))"
  by (simp add: VGA_display_attr_str_def str_with_def VGA_display_attr_char_def)

end
