(* ===== verification/VgaProps.thy ===== *)
theory VgaProps imports Vga SerialProps begin

text \<open>
  The properties of the screen driver (src/drivers/vga\_driver.c): the cursor and every store stay
  on the screen, scrolling shifts rows, text appears where the cursor is, and what an escape
  character does to the interrupt state.
\<close>

section \<open>Cells\<close>

definition on_screen :: "u8 \<Rightarrow> u8 \<Rightarrow> bool" where "on_screen r c \<longleftrightarrow> unat r < VGA_NUM_ROWS \<and> unat c < VGA_NUM_COLS"

definition cursor_ok :: "'a vga_state_scheme \<Rightarrow> bool" where "cursor_ok s \<longleftrightarrow> on_screen (cur_row s) (cur_col s)"

abbreviation in_screen :: "addr \<Rightarrow> bool" where "in_screen a \<equiv> in_region a VGA_BUFFER 4000"

definition spares_rest :: "'a vga_state_scheme \<Rightarrow> 'a vga_state_scheme \<Rightarrow> bool" where
  "spares_rest s s' \<longleftrightarrow> (\<forall>a. \<not> in_screen a \<longrightarrow> vga_mem s' a = vga_mem s a)"

definition cell :: "'a vga_state_scheme \<Rightarrow> u8 \<Rightarrow> u8 \<Rightarrow> u8 \<times> u8" where
  "cell s r c = (vga_mem s (cell_addr r c), vga_mem s (cell_addr r c + 1))"

lemma unat_VGA_BUFFER: "unat VGA_BUFFER = 753664"
  by (simp add: VGA_BUFFER_def)

lemma unat_buffer_offset: "n < 100000 \<Longrightarrow> unat (VGA_BUFFER + of_nat n) = 753664 + n"
proof -
  assume n: "n < 100000"
  have u: "unat (of_nat n :: u64) = n" using n by (intro unat_of_nat_u64) simp
  show ?thesis by (subst unat_add_nowrap) (use n in \<open>simp_all add: u unat_VGA_BUFFER\<close>)
qed

lemma unat_cell: "unat (cell_addr r c) = 753664 + 2 * (80 * unat r + unat c)"
  and unat_cell1: "unat (cell_addr r c + 1) = 753665 + 2 * (80 * unat r + unat c)"
proof -
  have "160 * unat r + 2 * unat c < 100000" using unat_u8_less [of r] unat_u8_less [of c] by linarith
  then have b: "2 * (unat r * 80 + unat c) < 100000" by simp
  show 1: "unat (cell_addr r c) = 753664 + 2 * (80 * unat r + unat c)"
    using unat_buffer_offset [OF b] by (simp add: cell_addr_def CONVERT_POS_def VGA_NUM_COLS_def mult.commute)
  show "unat (cell_addr r c + 1) = 753665 + 2 * (80 * unat r + unat c)"
    by (subst unat_add_nowrap) (use b in \<open>simp_all add: 1\<close>)
qed

lemma in_screen_unat: "in_screen a \<longleftrightarrow> 753664 \<le> unat a \<and> unat a < 757664"
  using in_region_unat [of VGA_BUFFER 4000 a] by (simp add: unat_VGA_BUFFER)

lemma cell_in_screen: "on_screen r c \<Longrightarrow> in_screen (cell_addr r c) \<and> in_screen (cell_addr r c + 1)"
  by (auto simp: in_screen_unat unat_cell unat_cell1 on_screen_def vga_sizes)

lemma cell_addr_inj:
  assumes "on_screen r c" "on_screen r' c'"
  shows "cell_addr r c = cell_addr r' c' \<longleftrightarrow> r = r' \<and> c = c'" "cell_addr r c \<noteq> cell_addr r' c' + 1"
    "cell_addr r c + 1 = cell_addr r' c' + 1 \<longleftrightarrow> r = r' \<and> c = c'"
proof -
  have inj: "80 * unat r + unat c = 80 * unat r' + unat c' \<longleftrightarrow> unat r = unat r' \<and> unat c = unat c'"
  proof
    assume e: "80 * unat r + unat c = 80 * unat r' + unat c'"
    have "(80 * unat r + unat c) mod 80 = unat c" "(80 * unat r' + unat c') mod 80 = unat c'"
      using assms by (simp_all add: on_screen_def vga_sizes)
    then have "unat c = unat c'" using e by simp
    then show "unat r = unat r' \<and> unat c = unat c'" using e by simp
  qed simp
  show "cell_addr r c = cell_addr r' c' \<longleftrightarrow> r = r' \<and> c = c'"
    using inj unat_cell [of r c] unat_cell [of r' c'] by (auto simp: word_unat_eq_iff)
  then show "cell_addr r c + 1 = cell_addr r' c' + 1 \<longleftrightarrow> r = r' \<and> c = c'" by simp
  have "753664 + 2 * x \<noteq> 753665 + 2 * y" for x y :: nat by presburger
  then show "cell_addr r c \<noteq> cell_addr r' c' + 1"
    by (intro addr_neq_unat) (simp only: unat_cell unat_cell1 not_False_eq_True)
qed

section \<open>What the operations leave alone\<close>

lemma port_keeps [simp]:
  "vga_mem (outb p v s) = vga_mem s" "cur_row (outb p v s) = cur_row s" "cur_col (outb p v s) = cur_col s"
  "vga_mem (snd (inb dev p s)) = vga_mem s" "cur_row (snd (inb dev p s)) = cur_row s" "cur_col (snd (inb dev p s)) = cur_col s"
  "irq_handler_table (outb p v s') = irq_handler_table s'" "IRQ_status_curr (snd (inb dev p s')) = IRQ_status_curr s'"
  "IRQ_status_prev (snd (inb dev p s')) = IRQ_status_prev s'"
  by (simp_all add: outb_def inb_def Let_def)

lemma irq_keeps_screen [simp]:
  "vga_mem (IRQ_disable s) = vga_mem s" "cur_row (IRQ_disable s) = cur_row s" "cur_col (IRQ_disable s) = cur_col s"
  "vga_mem (IRQ_reenable s) = vga_mem s" "cur_row (IRQ_reenable s) = cur_row s" "cur_col (IRQ_reenable s) = cur_col s"
  by (simp_all add: IRQ_disable_def IRQ_reenable_def IRQ_enable_def asm_sti_def asm_cli_def Let_def)

lemma cursor_keeps [simp]:
  "vga_mem (VGA_update_cursor s) = vga_mem s" "cur_row (VGA_update_cursor s) = cur_row s"
  "cur_col (VGA_update_cursor s) = cur_col s" "IRQ_status_curr (VGA_update_cursor s) = IRQ_status_curr s"
  "IRQ_status_prev (VGA_update_cursor s) = IRQ_status_prev s"
  "vga_mem (VGA_enable_cursor dev s) = vga_mem s" "cur_row (VGA_enable_cursor dev s) = cur_row s"
  "cur_col (VGA_enable_cursor dev s) = cur_col s" "IRQ_status_curr (VGA_enable_cursor dev s) = IRQ_status_curr s"
  "IRQ_status_prev (VGA_enable_cursor dev s) = IRQ_status_prev s"
  by (simp_all add: VGA_update_cursor_def VGA_set_cursor_pos_def VGA_enable_cursor_def Let_def case_prod_unfold)

lemma putc_keeps [simp]:
  "cur_row (VGA_PUTC ch a s) = cur_row s" "cur_col (VGA_PUTC ch a s) = cur_col s"
  "IRQ_status_curr (VGA_PUTC ch a s) = IRQ_status_curr s" "IRQ_status_prev (VGA_PUTC ch a s) = IRQ_status_prev s"
  by (simp_all add: VGA_PUTC_def Let_def)

lemma disable_cursor_keeps [simp]:
  "cur_row (VGA_disable_cursor s) = cur_row s" "cur_col (VGA_disable_cursor s) = cur_col s"
  "IRQ_status_curr (VGA_disable_cursor s) = IRQ_status_curr s"
  by (simp_all add: VGA_disable_cursor_def VGA_CLEAR_CHAR_def Let_def)

lemma spares_trans: "spares_rest s t \<Longrightarrow> spares_rest t u \<Longrightarrow> spares_rest s u"
  by (simp add: spares_rest_def)

lemma spares_same: "vga_mem s' = vga_mem s \<Longrightarrow> spares_rest s s'"
  by (simp add: spares_rest_def)

lemma putc_spares: "cursor_ok s \<Longrightarrow> spares_rest s (VGA_PUTC ch a s)"
  using cell_in_screen [of "cur_row s" "cur_col s"] by (auto simp: spares_rest_def VGA_PUTC_def Let_def cursor_ok_def)

lemma disable_cursor_spares:
  assumes "cursor_ok s"
  shows "spares_rest s (VGA_disable_cursor s)"
proof -
  have "cursor_ok (outb p v (outb q w s))" for p v q w using assms by (simp add: cursor_ok_def)
  from putc_spares [OF this] show ?thesis by (simp add: VGA_disable_cursor_def VGA_CLEAR_CHAR_def spares_rest_def Let_def)
qed

lemma cell_putc:
  assumes "cursor_ok s" "on_screen r c"
  shows "cell (VGA_PUTC ch a s) r c = (if r = cur_row s \<and> c = cur_col s then (ch, a) else cell s r c)"
  using cell_addr_inj [OF assms(2) assms(1) [unfolded cursor_ok_def]] cell_addr_inj [OF assms(1) [unfolded cursor_ok_def] assms(2)]
  by (auto simp: cell_def VGA_PUTC_def Let_def)

section \<open>Scrolling\<close>

lemma scroll_mem:
  assumes n: "0 < unat lines" "unat lines < 25"
  shows "vga_mem (VGA_scroll lines s) a =
    (if in_region a VGA_BUFFER (4000 - 160 * unat lines) then vga_mem s (a + of_nat (160 * unat lines))
     else if in_screen a then 0 else vga_mem s a)"
proof -
  let ?n = "unat lines"
  have nz: "lines \<noteq> 0" using n by auto
  have lt: "160 * ?n < 4000" using n by simp
  have ul: "unat (of_nat (4000 - 160 * ?n) :: u64) = 4000 - 160 * ?n" "unat (of_nat (160 * ?n) :: u64) = 160 * ?n"
    by (rule unat_of_nat_u64, use lt in simp)+
  have us: "unat (VGA_BUFFER + of_nat (160 * ?n)) = 753664 + 160 * ?n"
    "unat (VGA_BUFFER + of_nat (4000 - 160 * ?n)) = 753664 + (4000 - 160 * ?n)"
    by (rule unat_buffer_offset, use lt in simp)+
  define m where "m = memcpy VGA_BUFFER (VGA_BUFFER + of_nat (160 * ?n)) (of_nat (4000 - 160 * ?n)) (vga_mem s)"
  have shift: "VGA_BUFFER + k + (x - VGA_BUFFER) = x + k" for k x by simp
  have m: "m x = (if in_region x VGA_BUFFER (4000 - 160 * ?n) then vga_mem s (x + of_nat (160 * ?n)) else vga_mem s x)" for x
  proof -
    have "m x = (if in_region x VGA_BUFFER (unat (of_nat (4000 - 160 * ?n) :: u64))
        then vga_mem s (VGA_BUFFER + of_nat (160 * ?n) + (x - VGA_BUFFER)) else vga_mem s x)"
      unfolding m_def by (rule memcpy_apply; unfold ul us unat_VGA_BUFFER; use lt in linarith)
    then show ?thesis unfolding ul shift .
  qed
  have e: "2 * (?n * 80) = 160 * ?n" "(2000 - ?n * 80) * 2 = 4000 - 160 * ?n" "2 * ((25 - ?n) * 80) = 4000 - 160 * ?n"
    "?n * 80 * 2 = 160 * ?n" by simp_all
  have "vga_mem (VGA_scroll lines s) = memset (VGA_BUFFER + of_nat (4000 - 160 * ?n)) 0 (of_nat (160 * ?n)) m"
    using nz n(2) unfolding VGA_scroll_def vga_sizes m_def Let_def e by (simp add: e del: of_nat_mult of_nat_diff)
  then have "vga_mem (VGA_scroll lines s) a = (if in_region a (VGA_BUFFER + of_nat (4000 - 160 * ?n)) (160 * ?n) then 0 else m a)"
    by (simp only: memset_apply ul unsigned_0)
  moreover have "in_region a (VGA_BUFFER + of_nat (4000 - 160 * ?n)) (160 * ?n) \<longleftrightarrow>
      in_screen a \<and> \<not> in_region a VGA_BUFFER (4000 - 160 * ?n)"
    using lt in_region_unat [of "VGA_BUFFER + of_nat (4000 - 160 * ?n)" "160 * ?n" a]
      in_region_unat [of VGA_BUFFER "4000 - 160 * ?n" a] unfolding in_screen_unat us unat_VGA_BUFFER by auto
  moreover have "in_region a VGA_BUFFER (4000 - 160 * ?n) \<Longrightarrow> in_screen a"
    using in_region_unat [of VGA_BUFFER "4000 - 160 * ?n" a] unfolding in_screen_unat unat_VGA_BUFFER by auto
  ultimately show ?thesis unfolding m by auto
qed

lemma scroll_spares: "unat lines < 25 \<Longrightarrow> spares_rest s (VGA_scroll lines s)"
proof (cases "lines = 0")
  case False
  assume "unat lines < 25"
  moreover have "0 < unat lines" using False unat_gt_0 by blast
  ultimately show ?thesis
    using in_region_unat [of VGA_BUFFER "4000 - 160 * unat lines"]
    by (auto simp: spares_rest_def scroll_mem in_screen_unat unat_VGA_BUFFER)
qed (simp add: VGA_scroll_def spares_same)

section \<open>The cursor stays on the screen\<close>

text \<open>Between \<open>put_char\<close> and \<open>next_line\<close> the column may be one past the last.\<close>

definition cursor_half :: "'a vga_state_scheme \<Rightarrow> bool" where
  "cursor_half s \<longleftrightarrow> unat (cur_row s) < 25 \<and> unat (cur_col s) \<le> 80"

lemma cursor_ok_unat: "cursor_ok s \<longleftrightarrow> unat (cur_row s) < 25 \<and> unat (cur_col s) < 80"
  by (simp add: cursor_ok_def on_screen_def vga_sizes)

lemma unat_u8_of_nat: "n < 256 \<Longrightarrow> unat (of_nat n :: u8) = n"
  by (simp add: unat_of_nat take_bit_nat_eq_self)

lemma back_loop_less: "0 < n \<Longrightarrow> back_loop n s < n"
proof (induction n)
  case (Suc n)
  then show ?case by (cases n) (auto simp: less_Suc_eq)
qed simp

lemma tab_stop_le: "unat c \<le> 80 \<Longrightarrow> unat (tab_stop c) \<le> 80"
proof (induction c rule: tab_stop.induct)
  case (1 col)
  show ?case
  proof (cases "unat col mod 4 = 0")
    case True
    then show ?thesis using 1(2) by (subst tab_stop.simps) simp
  next
    case False
    then have "unat col \<noteq> 80" by auto
    then have "unat (col + 1) \<le> 80" using 1(2) by (subst unat_add_nowrap) simp_all
    then show ?thesis using 1(1) False by (subst tab_stop.simps) simp
  qed
qed

lemma backspace_ok:
  assumes "cursor_ok s"
  shows "cursor_ok (VGA_process_backspace s)" "spares_rest s (VGA_process_backspace s)"
proof -
  define s1 where "s1 = (if cur_col s = 0 then s\<lparr>cur_row := cur_row s - 1, cur_col := of_nat VGA_NUM_COLS\<rparr> else s)"
  define s2 where "s2 = s1\<lparr>cur_col := of_nat (back_loop (unat (cur_col s1)) s1)\<rparr>"
  have bs: "VGA_process_backspace s = (if cur_col s = 0 \<and> cur_row s = 0 then s else VGA_CLEAR_CHAR s2)"
    by (simp add: VGA_process_backspace_def s1_def s2_def Let_def)
  have m: "vga_mem s2 = vga_mem s" by (simp add: s2_def s1_def)
  have ok2: "cursor_ok s2" if nz: "\<not> (cur_col s = 0 \<and> cur_row s = 0)"
  proof -
    have pos: "0 < unat (cur_col s1)" "unat (cur_col s1) \<le> 80"
      using assms unat_gt_0 [of "cur_col s"] by (auto simp: s1_def vga_sizes cursor_ok_unat)
    have "unat (cur_row s1) < 25"
    proof (cases "cur_col s = 0")
      case True
      then have "0 < unat (cur_row s)" using nz unat_gt_0 by blast
      then have "unat (cur_row s - 1) = unat (cur_row s) - 1" by (subst unat_sub_nowrap) simp_all
      then show ?thesis using assms True by (simp add: s1_def cursor_ok_unat)
    qed (use assms in \<open>simp add: s1_def cursor_ok_unat\<close>)
    moreover have "back_loop (unat (cur_col s1)) s1 < 80" using back_loop_less [OF pos(1), of s1] pos(2) by simp
    ultimately show ?thesis by (simp add: s2_def cursor_ok_unat unat_u8_of_nat)
  qed
  show "cursor_ok (VGA_process_backspace s)" using ok2 assms by (auto simp: bs VGA_CLEAR_CHAR_def cursor_ok_def)
  have "spares_rest s s2" using m by (rule spares_same)
  then show "spares_rest s (VGA_process_backspace s)"
    using spares_trans [OF _ putc_spares [OF ok2]] by (auto simp: bs VGA_CLEAR_CHAR_def spares_same)
qed

lemma put_char_ok:
  assumes "cursor_ok s"
  shows "cursor_half (put_char c attr s)" "spares_rest s (put_char c attr s)"
proof -
  have t: "unat (tab_stop (cur_col s)) \<le> 80" using assms by (intro tab_stop_le) (simp add: cursor_ok_unat)
  have i: "unat (cur_col s + 1) \<le> 80" using assms by (subst unat_add_nowrap) (simp_all add: cursor_ok_unat)
  show "cursor_half (put_char c attr s)"
    using assms backspace_ok(1) [OF assms] t i by (auto simp: put_char_def cursor_half_def cursor_ok_unat vga_sizes)
  have upd: "spares_rest s ((VGA_PUTC ch a s)\<lparr>cur_col := v\<rparr>)" for ch a v
    using putc_spares [OF assms] by (simp add: spares_rest_def)
  show "spares_rest s (put_char c attr s)"
    using upd backspace_ok(2) [OF assms] by (auto simp: put_char_def spares_same)
qed

lemma next_line_ok:
  assumes "cursor_half s"
  shows "cursor_ok (next_line s)" "spares_rest s (next_line s)"
proof -
  have r: "unat (cur_row s + 1) = unat (cur_row s) + 1"
    using assms by (subst unat_add_nowrap) (simp_all add: cursor_half_def)
  have c: "cur_col (VGA_scroll 1 s') = cur_col s'" for s' :: "'a vga_state_scheme"
    by (simp add: VGA_scroll_def vga_sizes Let_def)
  show "cursor_ok (next_line s)"
    using assms r by (auto simp: next_line_def Let_def cursor_half_def cursor_ok_unat vga_sizes c)
  have "spares_rest s ((VGA_scroll 1 (s\<lparr>cur_col := 0, cur_row := cur_row s + 1\<rparr>))\<lparr>cur_row := v\<rparr>)" for v
    using scroll_spares [of 1 "s\<lparr>cur_col := 0, cur_row := cur_row s + 1\<rparr>"] by (simp add: spares_rest_def)
  then show "spares_rest s (next_line s)" by (simp add: next_line_def Let_def spares_same)
qed

lemma char_with_ok:
  assumes "cursor_ok s" and esc: "\<And>s. cursor_ok s \<Longrightarrow> cursor_ok (esc s) \<and> spares_rest s (esc s)"
  shows "cursor_ok (char_with esc attr c s) \<and> spares_rest s (char_with esc attr c s)"
proof -
  let ?s = "IRQ_disable s"
  have ok: "cursor_ok ?s" and sp: "spares_rest s ?s" using assms(1) by (simp_all add: cursor_ok_def spares_same)
  have "cursor_ok (IRQ_reenable t) = cursor_ok t" "spares_rest u (IRQ_reenable t) = spares_rest u t" for t u :: "'a vga_state_scheme"
    by (simp_all add: cursor_ok_def spares_rest_def)
  moreover have "cursor_ok (next_line (put_char c attr ?s))"
    by (rule next_line_ok(1) [OF put_char_ok(1) [OF ok]])
  moreover have "spares_rest s (next_line (put_char c attr ?s))"
    by (rule spares_trans [OF sp spares_trans [OF put_char_ok(2) [OF ok] next_line_ok(2) [OF put_char_ok(1) [OF ok]]]])
  moreover have "spares_rest s (esc ?s)" using spares_trans [OF sp] esc [OF ok] by blast
  ultimately show ?thesis using esc [OF ok] by (simp add: char_with_def Let_def)
qed

lemma str_with_ok:
  assumes "cursor_ok s" and esc: "\<And>s. cursor_ok s \<Longrightarrow> cursor_ok (esc s) \<and> spares_rest s (esc s)"
  shows "cursor_ok (str_with dev esc str attr s) \<and> spares_rest s (str_with dev esc str attr s)"
proof -
  have "cursor_ok (fold (char_with esc attr) str t) \<and> spares_rest t (fold (char_with esc attr) str t)" if "cursor_ok t" for t
    using that
  proof (induction str arbitrary: t)
    case (Cons c str)
    have "cursor_ok (char_with esc attr c t)" "spares_rest t (char_with esc attr c t)"
      using char_with_ok [OF Cons.prems esc] by auto
    then show ?case using Cons.IH [of "char_with esc attr c t"] spares_trans by auto
  qed (simp add: spares_same)
  moreover have "cursor_ok (VGA_disable_cursor s)" using assms(1) by (simp add: cursor_ok_def)
  moreover have "spares_rest s (VGA_disable_cursor s)" by (rule disable_cursor_spares [OF assms(1)])
  ultimately show ?thesis using spares_trans by (auto simp: str_with_def cursor_ok_def spares_rest_def)
qed

text \<open>The message displayed for an escape character.\<close>

lemma message_ok:
  "cursor_ok s \<Longrightarrow> cursor_ok (str_with dev (\<lambda>s. s) escape_message VGA_CHAR_DEFAULT_ATTR s)
     \<and> spares_rest s (str_with dev (\<lambda>s. s) escape_message VGA_CHAR_DEFAULT_ATTR s)"
  by (rule str_with_ok) (simp_all add: spares_same)

lemma display_ok:
  assumes "cursor_ok s"
  shows "cursor_ok (VGA_display_attr_str dev str attr s) \<and> spares_rest s (VGA_display_attr_str dev str attr s)"
  unfolding VGA_display_attr_str_def using assms message_ok by (rule str_with_ok)

text \<open>C17: whatever bytes are displayed, control characters included, the cursor ends within the 25
  rows and 80 columns and no byte outside the 4000 bytes of the screen is written.\<close>

theorem vga_stays_on_screen:
  assumes "cursor_ok s"
  shows "cursor_ok (VGA_display_attr_str dev str attr s)
     \<and> (\<forall>a. \<not> in_screen a \<longrightarrow> vga_mem (VGA_display_attr_str dev str attr s) a = vga_mem s a)"
  using display_ok [OF assms, of dev str attr] by (simp add: spares_rest_def)

section \<open>Scrolling and text\<close>

text \<open>Scrolling by fewer lines than the screen has moves every row up by that many and clears
  the rows at the bottom.\<close>

theorem vga_scroll_shifts:
  assumes n: "0 < unat lines" "unat lines < VGA_NUM_ROWS" and rc: "on_screen r c"
  shows "cell (VGA_scroll lines s) r c = (if unat r + unat lines < VGA_NUM_ROWS then cell s (r + lines) c else (0, 0))"
proof -
  have n': "unat lines < 25" using n(2) by (simp add: vga_sizes)
  let ?k = "160 * unat lines"
  have in_top: "in_region a VGA_BUFFER (4000 - ?k) \<longleftrightarrow> 753664 \<le> unat a \<and> unat a < 757664 - ?k" for a
    using in_region_unat [of VGA_BUFFER "4000 - ?k" a] n' by (auto simp: unat_VGA_BUFFER)
  have b: "unat r < 25" "unat c < 80" using rc by (simp_all add: on_screen_def vga_sizes)
  have top: "in_region (cell_addr r c) VGA_BUFFER (4000 - ?k) \<longleftrightarrow> unat r + unat lines < 25"
    "in_region (cell_addr r c + 1) VGA_BUFFER (4000 - ?k) \<longleftrightarrow> unat r + unat lines < 25"
    unfolding in_top unat_cell unat_cell1 using b n' by auto
  have ins: "in_screen (cell_addr r c)" "in_screen (cell_addr r c + 1)" using cell_in_screen [OF rc] by auto
  have "cell_addr (r + lines) c = cell_addr r c + of_nat ?k" if "unat r + unat lines < 25"
  proof -
    have "unat (r + lines) = unat r + unat lines" using that by (subst unat_add_nowrap) simp_all
    then have "2 * CONVERT_POS (r + lines) c = 2 * CONVERT_POS r c + ?k" by (simp add: CONVERT_POS_def vga_sizes)
    then show ?thesis by (simp only: cell_addr_def of_nat_add add.assoc)
  qed
  then show ?thesis
    unfolding cell_def scroll_mem [OF n(1) n'] top using ins by (simp add: vga_sizes add.assoc add.commute add.left_commute)
qed

definition regular :: "u8 \<Rightarrow> bool" where
  "regular c \<longleftrightarrow> c \<noteq> CR \<and> c \<noteq> LF \<and> c \<noteq> TAB \<and> c \<noteq> BS \<and> c \<noteq> DEL \<and> c \<noteq> ESC"

lemma char_regular:
  assumes "cursor_ok s" "regular c" "unat (cur_col s) + 1 < 80"
  shows "cur_row (char_with esc attr c s) = cur_row s" "cur_col (char_with esc attr c s) = cur_col s + 1"
    "vga_mem (char_with esc attr c s) = vga_mem (VGA_PUTC c attr s)"
proof -
  have u: "unat (cur_col s + 1) = unat (cur_col s) + 1" using assms(3) by (subst unat_add_nowrap) simp_all
  have p: "put_char c attr (IRQ_disable s) = (VGA_PUTC c attr (IRQ_disable s))\<lparr>cur_col := cur_col s + 1\<rparr>"
    using assms(2) by (simp add: put_char_def regular_def)
  have n: "next_line (put_char c attr (IRQ_disable s)) = put_char c attr (IRQ_disable s)"
    using assms(3) u unfolding p by (simp add: next_line_def vga_sizes)
  have m: "vga_mem (VGA_PUTC c attr (IRQ_disable s)) = vga_mem (VGA_PUTC c attr s)" by (simp add: VGA_PUTC_def Let_def)
  show "cur_row (char_with esc attr c s) = cur_row s" "cur_col (char_with esc attr c s) = cur_col s + 1"
    "vga_mem (char_with esc attr c s) = vga_mem (VGA_PUTC c attr s)"
    using assms(2) m by (simp_all add: char_with_def Let_def n) (simp_all add: p regular_def)
qed

lemma fold_regular:
  assumes "cursor_ok s" "\<forall>c \<in> set str. regular c" "unat (cur_col s) + length str < 80"
  shows "cursor_ok (fold (char_with esc attr) str s)
     \<and> cur_row (fold (char_with esc attr) str s) = cur_row s
     \<and> unat (cur_col (fold (char_with esc attr) str s)) = unat (cur_col s) + length str
     \<and> (\<forall>r c. on_screen r c \<longrightarrow> cell (fold (char_with esc attr) str s) r c =
          (if r = cur_row s \<and> unat (cur_col s) \<le> unat c \<and> unat c < unat (cur_col s) + length str
           then (str ! (unat c - unat (cur_col s)), attr) else cell s r c))"
  using assms
proof (induction str arbitrary: s)
  case (Cons x str)
  let ?s = "char_with esc attr x s"
  have r: "regular x" "unat (cur_col s) + 1 < 80 \<or> str = []" using Cons.prems by auto
  have lt: "unat (cur_col s) + 1 < 80" using Cons.prems(3) by simp
  note cr = char_regular [OF Cons.prems(1) r(1) lt, of esc attr]
  have u: "unat (cur_col s + 1) = unat (cur_col s) + 1" using lt by (subst unat_add_nowrap) simp_all
  have ok: "cursor_ok ?s" using Cons.prems(1) lt by (simp add: cursor_ok_unat cr u)
  have ce: "cell ?s r c = (if r = cur_row s \<and> c = cur_col s then (x, attr) else cell s r c)" if "on_screen r c" for r c
    using cell_putc [OF Cons.prems(1) that, of x attr] by (simp add: cell_def cr(3))
  have IH: "cursor_ok (fold (char_with esc attr) str ?s) \<and> cur_row (fold (char_with esc attr) str ?s) = cur_row ?s
     \<and> unat (cur_col (fold (char_with esc attr) str ?s)) = unat (cur_col ?s) + length str
     \<and> (\<forall>r c. on_screen r c \<longrightarrow> cell (fold (char_with esc attr) str ?s) r c =
          (if r = cur_row ?s \<and> unat (cur_col ?s) \<le> unat c \<and> unat c < unat (cur_col ?s) + length str
           then (str ! (unat c - unat (cur_col ?s)), attr) else cell ?s r c))"
    by (rule Cons.IH [OF ok]) (use Cons.prems in \<open>auto simp: cr u\<close>)
  have eq: "c = cur_col s \<longleftrightarrow> unat c = unat (cur_col s)" for c by (simp add: word_unat_eq_iff)
  show ?case
    using IH unfolding fold_simps cr(1,2) u
    by (auto simp: ce eq nth_Cons' split: if_splits)
qed auto

lemma display_in_place:
  assumes ok: "cursor_ok s" and str: "\<forall>c \<in> set str. regular c" "str \<noteq> []" "unat (cur_col s) + length str < VGA_NUM_COLS"
  shows "cur_row (VGA_display_attr_str dev str attr s) = cur_row s
     \<and> unat (cur_col (VGA_display_attr_str dev str attr s)) = unat (cur_col s) + length str
     \<and> (\<forall>r c. on_screen r c \<longrightarrow> cell (VGA_display_attr_str dev str attr s) r c =
          (if r = cur_row s \<and> unat (cur_col s) \<le> unat c \<and> unat c < unat (cur_col s) + length str
           then (str ! (unat c - unat (cur_col s)), attr) else cell s r c))"
proof -
  let ?d = "VGA_disable_cursor s" and ?esc = "str_with dev (\<lambda>s. s) escape_message VGA_CHAR_DEFAULT_ATTR :: 'a vga_state_scheme \<Rightarrow> 'a vga_state_scheme"
  have okd: "cursor_ok ?d" using ok by (simp add: cursor_ok_def)
  have cd: "cell ?d r c = (if r = cur_row s \<and> c = cur_col s then (0, VGA_CHAR_DEFAULT_ATTR) else cell s r c)"
    if "on_screen r c" for r c
  proof -
    have ok2: "cursor_ok (outb p v (outb q w s))" for p v q w using ok by (simp add: cursor_ok_def)
    show ?thesis using cell_putc [OF ok2 that] by (simp add: VGA_disable_cursor_def VGA_CLEAR_CHAR_def Let_def cell_def)
  qed
  have f: "unat (cur_col ?d) + length str < 80" using str(3) by (simp add: vga_sizes)
  note fr = fold_regular [OF okd str(1) f, of ?esc attr]
  have e: "cell (VGA_display_attr_str dev str attr s) r c = cell (fold (char_with ?esc attr) str ?d) r c" for r c
    by (simp add: VGA_display_attr_str_def str_with_def cell_def)
  have pos: "0 < length str" using str(2) by simp
  show ?thesis
    using fr pos unfolding e by (auto simp: VGA_display_attr_str_def str_with_def cd word_unat_eq_iff)
qed

text \<open>Text without control characters that fits on the rest of the line appears, with its
  attributes, in the cells from the cursor on; every other cell is as it was, and the cursor is
  behind the text.\<close>

theorem vga_text_in_place:
  assumes ok: "cursor_ok s" and str: "\<forall>c \<in> set str. regular c" "str \<noteq> []" "unat (cur_col s) + length str < VGA_NUM_COLS"
  shows "cur_row (VGA_display_attr_str dev str attr s) = cur_row s
     \<and> unat (cur_col (VGA_display_attr_str dev str attr s)) = unat (cur_col s) + length str
     \<and> (\<forall>r c. on_screen r c \<longrightarrow> cell (VGA_display_attr_str dev str attr s) r c =
          (if r = cur_row s \<and> unat (cur_col s) \<le> unat c \<and> unat c < unat (cur_col s) + length str
           then (str ! (unat c - unat (cur_col s)), attr) else cell s r c))"
  using assms by (rule display_in_place)

section \<open>Interrupts\<close>

lemma irq_status_clear [simp]:
  "IRQ_status_curr (VGA_clear s) = IRQ_status_curr s" "IRQ_status_prev (VGA_clear s) = IRQ_status_prev s"
  by (simp_all add: VGA_clear_def)

lemma irq_status_scroll [simp]:
  "IRQ_status_curr (VGA_scroll n s) = IRQ_status_curr s" "IRQ_status_prev (VGA_scroll n s) = IRQ_status_prev s"
  by (simp_all add: VGA_scroll_def Let_def)

lemma irq_status_put [simp]:
  "IRQ_status_curr (put_char c a s) = IRQ_status_curr s" "IRQ_status_prev (put_char c a s) = IRQ_status_prev s"
  "IRQ_status_curr (next_line s) = IRQ_status_curr s" "IRQ_status_prev (next_line s) = IRQ_status_prev s"
  by (simp_all add: put_char_def VGA_process_backspace_def VGA_CLEAR_CHAR_def next_line_def Let_def)

lemma irq_flag_screen [simp]:
  "if_flag (VGA_disable_cursor s) = if_flag s" "if_flag (VGA_enable_cursor dev s) = if_flag s"
  "if_flag (put_char c a s) = if_flag s" "if_flag (next_line s) = if_flag s"
  by (simp_all add: VGA_disable_cursor_def VGA_enable_cursor_def VGA_update_cursor_def VGA_set_cursor_pos_def
      VGA_CLEAR_CHAR_def VGA_PUTC_def put_char_def VGA_process_backspace_def next_line_def VGA_scroll_def VGA_clear_def
      Let_def case_prod_unfold)

lemma char_with_status:
  assumes "c \<noteq> ESC" shows "IRQ_status_curr (char_with esc attr c s) = IRQ_status_curr s"
  using assms by (cases "IRQ_status_curr s") (simp_all add: char_with_def Let_def IRQ_reenable_def IRQ_enable_def asm_cli_def)

lemma fold_status: "ESC \<notin> set str \<Longrightarrow> IRQ_status_curr (fold (char_with esc attr) str s) = IRQ_status_curr s"
  by (induction str arbitrary: s) (auto simp: char_with_status)

text \<open>Displaying a character keeps the recorded interrupt status, except that an escape
  character leaves interrupts disabled: its case returns without the re-enable.\<close>

theorem vga_escape_loses_enable:
  "IRQ_status_curr (VGA_display_attr_char dev c attr s) = (if c = ESC then DISABLED else IRQ_status_curr s)"
proof (cases "c = ESC")
  case True
  have "IRQ_status_curr (str_with dev (\<lambda>s. s) escape_message VGA_CHAR_DEFAULT_ATTR (IRQ_disable s)) = DISABLED"
    by (simp add: str_with_def fold_status message_plain)
  then show ?thesis using True by (simp add: VGA_display_attr_char_def char_with_def)
qed (simp add: VGA_display_attr_char_def char_with_status)

section \<open>Witnesses\<close>

definition blank_screen :: vga_state where
  "blank_screen = serial_state.extend idle_serial \<lparr>vga_mem = (\<lambda>_. 0), cur_row = 24, cur_col = 70\<rparr>"

lemma blank_cursor: "cur_row blank_screen = 24" "cur_col blank_screen = 70" "cursor_ok blank_screen"
  "IRQ_status_curr blank_screen = ENABLED"
  by (simp_all add: blank_screen_def serial_state.defs cursor_ok_unat idle_serial_def)

theorem vga_stays_on_screen_witness: "cursor_ok (VGA_display_attr_str (\<lambda>_ _. 0) [65, LF, TAB, BS, ESC] 0x0F blank_screen)"
  using vga_stays_on_screen [OF blank_cursor(3)] by blast

theorem vga_scroll_shifts_witness: "cell (VGA_scroll 2 blank_screen) 3 10 = cell blank_screen 5 10"
  using vga_scroll_shifts [of 2 3 10 blank_screen] by (simp add: vga_sizes on_screen_def)

theorem vga_text_in_place_witness:
  "cell (VGA_display_attr_str (\<lambda>_ _. 0) [72, 105] 0x0F blank_screen) 24 71 = (105, 0x0F)"
proof -
  have "on_screen 24 71" by (simp add: on_screen_def vga_sizes)
  then show ?thesis
    using vga_text_in_place [OF blank_cursor(3), of "[72, 105]" "\<lambda>_ _. 0" "0x0F"]
    by (simp add: blank_cursor regular_def special_chars vga_sizes)
qed

end
