(* ===== verification/Printk.thy ===== *)
theory Printk imports Vga begin

text \<open>
  lib/printk.c: the kernel's formatted output. The output buffer is the list of the bytes up to
  its terminator: the code only appends to it with \<open>strncat\<close> after clearing it, and
  \<open>strncat_char\<close> of CString says that this appends to the string in memory. A variable argument
  is a 64-bit register or stack slot, or a string. Each time the code hands the buffer to the
  screen and the serial port, the buffer is added to \<open>flushed\<close> and cleared.
\<close>

section \<open>Buffer and arguments\<close>

datatype va_value = VArg u64 | VStr "u8 list"

record printk_state =
  obuf :: "u8 list"
  flushed :: "u8 list list"
  olog :: "kmsg list"
  va_list :: "va_value list"

datatype num_base = BASE_8 | BASE_10 | BASE_16

primrec base_of :: "num_base \<Rightarrow> u64" where
  "base_of BASE_8 = 8" | "base_of BASE_10 = 10" | "base_of BASE_16 = 16"

definition LOWERCASE :: u8 where "LOWERCASE = 32"
definition UPPERCASE :: u8 where "UPPERCASE = 0"

text \<open>\<open>strlen\<close> of the string from offset \<open>offs\<close> of the buffer.\<close>

definition buf_len :: "nat \<Rightarrow> printk_state \<Rightarrow> nat" where
  "buf_len offs st = min (length (drop offs (obuf st))) (unat MAX_STR_LEN)"

definition format_char :: "u8 \<Rightarrow> printk_state \<Rightarrow> printk_state" where
  "format_char c st = (if c = 0 then st else st\<lparr>obuf := obuf st @ [c]\<rparr>)"

definition buf_overflow :: "printk_state \<Rightarrow> printk_state" where
  "buf_overflow st = st\<lparr>olog := OS_ERROR ''String buffer overflow!'' [] # olog st\<rparr>"

definition format_str :: "u8 list \<Rightarrow> printk_state \<Rightarrow> printk_state" where
  "format_str xs st =
     (if buf_len 0 st = unat MAX_STR_LEN - 1 then buf_overflow st
      else st\<lparr>obuf := obuf st @ take (unat MAX_STR_LEN) xs\<rparr>)"

section \<open>Numbers\<close>

text \<open>\<open>offs\<close> is what was added to the pointer \<open>str\<close>.\<close>

function format_llu_base_n :: "nat \<Rightarrow> u64 \<Rightarrow> num_base \<Rightarrow> u8 \<Rightarrow> u16 \<Rightarrow> printk_state \<Rightarrow> printk_state" where
  "format_llu_base_n offs n base text_case num_len st =
     (if buf_len offs st = unat MAX_STR_LEN - 1 then buf_overflow st
      else
        let st = (if n div base_of base \<noteq> 0
                  then format_llu_base_n offs (n div base_of base) base text_case (if num_len > 0 then num_len - 1 else 0) st
                  else if num_len > 0 then (format_char 48 ^^ (unat num_len - 1)) st
                  else st);
            digit_d = ucast (n mod base_of base) :: u8
        in if digit_d < 10 then format_char (digit_d + 48) st
           else format_char (digit_d - 10 + 65 + text_case) st)"
  by pat_completeness auto

termination
proof (relation "measure (\<lambda>(offs, n, base, text_case, num_len, st). unat n)")
  fix offs :: nat and n :: u64 and base and text_case :: u8 and num_len :: u16 and st :: printk_state
  assume "n div base_of base \<noteq> 0"
  then have "n \<noteq> 0" by auto
  then have "0 < unat n" using unat_gt_0 by blast
  moreover have "1 < unat (base_of base)" by (cases base) simp_all
  ultimately have "unat n div unat (base_of base) < unat n" by (intro div_less_dividend) auto
  then have "unat (n div base_of base) < unat n" by (simp add: unat_div)
  then show "((offs, n div base_of base, base, text_case, if 0 < num_len then num_len - 1 else 0, st), offs, n, base, text_case, num_len, st)
      \<in> measure (\<lambda>(offs, n, base, text_case, num_len, st). unat n)" by simp
qed simp

declare format_llu_base_n.simps [simp del]

text \<open>\<open>-n\<close> of the most negative number overflows, which C leaves undefined; it is taken to wrap, as the
  instruction does that the compiler emits.\<close>

definition format_ll_base_n :: "u64 \<Rightarrow> num_base \<Rightarrow> u8 \<Rightarrow> u16 \<Rightarrow> printk_state \<Rightarrow> printk_state" where
  "format_ll_base_n n base text_case num_len st =
     (if sint n < 0 then format_llu_base_n 1 (- n) base text_case num_len (format_char 45 st)
      else format_llu_base_n 0 n base text_case num_len st)"

text \<open>The macro \<open>format_ptr\<close>.\<close>

definition format_ptr :: "u64 \<Rightarrow> u8 \<Rightarrow> printk_state \<Rightarrow> printk_state" where
  "format_ptr n text_case st = format_llu_base_n 0 n BASE_16 text_case 8 (format_str (bytes_of ''0x'') st)"

section \<open>Format specifiers\<close>

text \<open>\<open>va_arg\<close> takes the next argument; past the last one, or with a string where a number is read,
  the behaviour of the C code is undefined, and the model stops.\<close>

definition va_num :: "printk_state \<Rightarrow> (u64 \<times> printk_state) res" where
  "va_num st = (case va_list st of VArg v # vs \<Rightarrow> Done (v, st\<lparr>va_list := vs\<rparr>) | _ \<Rightarrow> Halt ''va_arg'')"

definition va_str :: "printk_state \<Rightarrow> (u8 list \<times> printk_state) res" where
  "va_str st = (case va_list st of VStr xs # vs \<Rightarrow> Done (xs, st\<lparr>va_list := vs\<rparr>) | _ \<Rightarrow> Halt ''va_arg'')"

text \<open>The \<open>type\<close> of \<open>parse_specifier\<close>: an \<open>int\<close> is the low half of the slot, sign- or zero-extended.\<close>

datatype va_type = VA_int | VA_long

definition va_signed :: "va_type \<Rightarrow> u64 \<Rightarrow> u64" where
  "va_signed t v = (case t of VA_int \<Rightarrow> scast (ucast v :: u32) | VA_long \<Rightarrow> v)"

definition va_unsigned :: "va_type \<Rightarrow> u64 \<Rightarrow> u64" where
  "va_unsigned t v = (case t of VA_int \<Rightarrow> ucast (ucast v :: u32) | VA_long \<Rightarrow> v)"

abbreviation ch :: "char \<Rightarrow> u8" where "ch c \<equiv> of_nat (of_char c)"

definition parse_specifier :: "u8 \<Rightarrow> va_type \<Rightarrow> printk_state \<Rightarrow> printk_state res" where
  "parse_specifier sp t st =
     (if sp = ch CHR ''d'' \<or> sp = ch CHR ''i'' then
        res_bind (va_num st) (\<lambda>(v, st). Done (format_ll_base_n (va_signed t v) BASE_10 LOWERCASE 0 st))
      else if sp = ch CHR ''u'' then
        res_bind (va_num st) (\<lambda>(v, st). Done (format_llu_base_n 0 (va_unsigned t v) BASE_10 LOWERCASE 0 st))
      else if sp = ch CHR ''x'' then
        res_bind (va_num st) (\<lambda>(v, st). Done (format_llu_base_n 0 (va_unsigned t v) BASE_16 LOWERCASE 0 st))
      else if sp = ch CHR ''X'' then
        res_bind (va_num st) (\<lambda>(v, st). Done (format_llu_base_n 0 (va_unsigned t v) BASE_16 UPPERCASE 0 st))
      else if sp = ch CHR ''o'' then
        res_bind (va_num st) (\<lambda>(v, st). Done (format_llu_base_n 0 (va_unsigned t v) BASE_8 LOWERCASE 0 st))
      else Done (format_char sp (format_char 37 st)))"

definition print_clear_buff :: "printk_state \<Rightarrow> printk_state" where
  "print_clear_buff st = st\<lparr>flushed := obuf st # flushed st, obuf := []\<rparr>"

text \<open>\<open>fmt[i]\<close>; at and behind the terminator it is null.\<close>

definition fmt_at :: "u8 list \<Rightarrow> nat \<Rightarrow> u8" where "fmt_at fmt i = (if i < length fmt then fmt ! i else 0)"

text \<open>The \<open>switch\<close> on what follows a percent sign at \<open>i\<close>, and the index after it.\<close>

definition conversion :: "u8 list \<Rightarrow> nat \<Rightarrow> printk_state \<Rightarrow> (nat \<times> printk_state) res" where
  "conversion fmt i st =
     (let c = fmt_at fmt (i + 1) in
      if c = ch CHR ''%'' then Done (i + 2, format_char 37 st)
      else if c = ch CHR ''c'' then res_bind (va_num st) (\<lambda>(v, st). Done (i + 2, format_char (ucast v) st))
      else if c = ch CHR ''s'' then res_bind (va_str st) (\<lambda>(xs, st). Done (i + 2, format_str xs st))
      else if c = ch CHR ''p'' then res_bind (va_num st) (\<lambda>(v, st). Done (i + 2, format_ptr v LOWERCASE st))
      else if c = ch CHR ''l'' then
        if fmt_at fmt (i + 2) = ch CHR ''l''
        then res_bind (parse_specifier (fmt_at fmt (i + 3)) VA_long st) (\<lambda>st. Done (i + 4, st))
        else res_bind (parse_specifier (fmt_at fmt (i + 2)) VA_long st) (\<lambda>st. Done (i + 3, st))
      else if c = ch CHR ''q'' then res_bind (parse_specifier (fmt_at fmt (i + 2)) VA_long st) (\<lambda>st. Done (i + 3, st))
      else if c = ch CHR ''h'' then res_bind (parse_specifier (fmt_at fmt (i + 2)) VA_int st) (\<lambda>st. Done (i + 3, st))
      else res_bind (parse_specifier c VA_int st) (\<lambda>st. Done (i + 2, st)))"

definition OUTPUT_LEN :: nat where "OUTPUT_LEN = 1024"

definition printk_step :: "u8 list \<Rightarrow> nat \<Rightarrow> printk_state \<Rightarrow> (nat \<times> printk_state) res" where
  "printk_step fmt i st =
     (let st = (if buf_len 0 st \<ge> OUTPUT_LEN - 32 then print_clear_buff st else st)
      in if fmt_at fmt i = 37 then conversion fmt i st else Done (i + 1, format_char (fmt_at fmt i) st))"

text \<open>The loop, for the rest of the format from index \<open>i\<close> up to \<open>n\<close>: every step moves on by at least one.\<close>

primrec printk_loop :: "nat \<Rightarrow> u8 list \<Rightarrow> nat \<Rightarrow> nat \<Rightarrow> printk_state \<Rightarrow> printk_state res" where
  "printk_loop 0 fmt n i st = (if i < n then NoFuel else Done st)"
| "printk_loop (Suc k) fmt n i st =
     (if i < n then res_bind (printk_step fmt i st) (\<lambda>(i, st). printk_loop k fmt n i st) else Done st)"

text \<open>\<open>strlen\<close> counts at most \<open>MAX_STR_LEN\<close> characters of the format.\<close>

definition fmt_len :: "u8 list \<Rightarrow> nat" where "fmt_len fmt = min (length fmt) (unat MAX_STR_LEN)"

definition printk_chunks :: "u8 list \<Rightarrow> va_value list \<Rightarrow> u8 list list res" where
  "printk_chunks fmt args =
     res_bind (printk_loop (fmt_len fmt) fmt (fmt_len fmt) 0 \<lparr>obuf = [], flushed = [], olog = [], va_list = args\<rparr>) (\<lambda>st.
       Done (rev (flushed (print_clear_buff st))))"

text \<open>\<open>print_VGA\<close> and \<open>print_UART\<close> for each buffer handed on.\<close>

definition console_out :: "device \<Rightarrow> u8 list \<Rightarrow> 'a vga_state_scheme \<Rightarrow> 'a vga_state_scheme" where
  "console_out dev chunk s = (let s = VGA_display_str dev chunk s in snd (serial_write dev chunk s))"

definition printk :: "device \<Rightarrow> u8 list \<Rightarrow> va_value list \<Rightarrow> 'a vga_state_scheme \<Rightarrow> 'a vga_state_scheme res" where
  "printk dev fmt args s = res_bind (printk_chunks fmt args) (\<lambda>cs. Done (fold (console_out dev) cs s))"

section \<open>Numbers as text\<close>

text \<open>The reference: the digits of \<open>n\<close> in base \<open>b\<close>, padded with zeros to at least \<open>len\<close>.\<close>

definition digit_char :: "u8 \<Rightarrow> nat \<Rightarrow> u8" where
  "digit_char text_case d = (if d < 10 then of_nat (d + 48) else of_nat (d + 55) + text_case)"

function num_text :: "nat \<Rightarrow> u8 \<Rightarrow> nat \<Rightarrow> nat \<Rightarrow> u8 list" where
  "num_text b tc n len =
     (if 1 < b \<and> n div b \<noteq> 0 then num_text b tc (n div b) (len - 1) else replicate (len - 1) 48) @ [digit_char tc (n mod b)]"
  by pat_completeness auto

termination
proof (relation "measure (\<lambda>(b, tc, n, len). n)")
  fix b n :: nat and tc :: u8 and len :: nat
  assume "1 < b \<and> n div b \<noteq> 0"
  then have "1 < b" and "0 < n" by (auto intro: gr0I)
  then show "((b, tc, n div b, len - 1), b, tc, n, len) \<in> measure (\<lambda>(b, tc, n, len). n)" by simp
qed simp

declare num_text.simps [simp del]

end
