(* ===== verification/PrintkProps.thy ===== *)
theory PrintkProps imports Printk begin

text \<open>
  What lib/printk.c prints. \<open>conv_text\<close> and \<open>render\<close> say it without a buffer: the text of one
  conversion and of a whole format. The buffered code agrees with them, wherever it hands the
  buffer on, as long as no string argument is longer than the room the code keeps free; numbers
  read back as the value printed.
\<close>

section \<open>Digits\<close>

lemma unat_base: "unat (base_of b) \<le> 16" "1 < unat (base_of b)"
  by (cases b; simp)+

definition is_case :: "u8 \<Rightarrow> bool" where "is_case tc \<longleftrightarrow> tc = LOWERCASE \<or> tc = UPPERCASE"

lemma digit_cases: "d < (16 :: nat) \<Longrightarrow>
    d = 0 \<or> d = 1 \<or> d = 2 \<or> d = 3 \<or> d = 4 \<or> d = 5 \<or> d = 6 \<or> d = 7 \<or> d = 8 \<or> d = 9 \<or> d = 10 \<or> d = 11
    \<or> d = 12 \<or> d = 13 \<or> d = 14 \<or> d = 15"
  by arith

text \<open>The reader of a digit, and of a numeral.\<close>

definition digit_val :: "u8 \<Rightarrow> nat" where
  "digit_val c = (if c < 58 then unat c - 48 else if c < 71 then unat c - 55 else unat c - 87)"

lemma digit_char_nonzero: "d < 16 \<Longrightarrow> is_case tc \<Longrightarrow> digit_char tc d \<noteq> 0"
  by (drule digit_cases) (auto simp: digit_char_def is_case_def LOWERCASE_def UPPERCASE_def)

lemma digit_val_char: "d < 16 \<Longrightarrow> is_case tc \<Longrightarrow> digit_val (digit_char tc d) = d"
  by (drule digit_cases) (auto simp: digit_char_def digit_val_def is_case_def LOWERCASE_def UPPERCASE_def)

lemma digit_char_not_minus: "d < 16 \<Longrightarrow> is_case tc \<Longrightarrow> digit_char tc d \<noteq> 45"
  by (drule digit_cases) (auto simp: digit_char_def is_case_def LOWERCASE_def UPPERCASE_def)

text \<open>The digit as the code computes it, in eight bits.\<close>

lemma code_digit:
  assumes "d < 16"
  shows "(if (of_nat d :: u8) < 10 then of_nat d + 48 else of_nat d - 10 + 65 + tc) = digit_char tc d"
  using digit_cases [OF assms] by (elim disjE) (simp_all add: digit_char_def)

lemma unat_digit:
  "(ucast (n mod base_of b) :: u8) = of_nat (unat n mod unat (base_of b))"
proof -
  have "(ucast (n mod base_of b) :: u8) = of_nat (unat (n mod base_of b))"
    by simp
  then show ?thesis by (simp only: unat_mod)
qed

lemma format_char_app: "c \<noteq> 0 \<Longrightarrow> format_char c st = st\<lparr>obuf := obuf st @ [c]\<rparr>"
  by (simp add: format_char_def)

lemma format_zeros: "(format_char 48 ^^ k) st = st\<lparr>obuf := obuf st @ replicate k 48\<rparr>"
  by (induction k) (simp_all add: format_char_def replicate_append_same)

lemma unat_pred_len: "unat (if 0 < num_len then num_len - 1 else 0 :: u16) = unat num_len - 1"
proof (cases "num_len = 0")
  case False
  then have "unat (1 :: u16) \<le> unat num_len" by (simp add: Suc_le_eq unat_gt_0)
  from unat_sub_nowrap [OF this] False show ?thesis by (simp add: word_gt_0)
qed simp

lemma format_llu_text:
  assumes "buf_len offs st \<noteq> 65535" and "is_case tc"
  shows "format_llu_base_n offs n base tc num_len st =
    st\<lparr>obuf := obuf st @ num_text (unat (base_of base)) tc (unat n) (unat num_len)\<rparr>"
  using assms
proof (induction offs n base tc num_len st rule: format_llu_base_n.induct)
  case (1 offs n base tc num_len st)
  let ?b = "unat (base_of base)" and ?d = "unat n mod unat (base_of base)"
  have d: "?d < 16" using unat_base [of base] mod_less_divisor [of ?b "unat n"] by linarith
  have len: "buf_len offs st \<noteq> unat MAX_STR_LEN - 1" using 1(2) by (simp add: MAX_STR_LEN_def)
  have nz: "n div base_of base \<noteq> 0 \<longleftrightarrow> unat n div ?b \<noteq> 0"
    by (metis unat_div unat_eq_zero)
  have prefix: "(if n div base_of base \<noteq> 0
      then format_llu_base_n offs (n div base_of base) base tc (if 0 < num_len then num_len - 1 else 0) st
      else if 0 < num_len then (format_char 48 ^^ (unat num_len - 1)) st else st) =
    st\<lparr>obuf := obuf st @ (if unat n div ?b \<noteq> 0 then num_text ?b tc (unat n div ?b) (unat num_len - 1)
                             else replicate (unat num_len - 1) 48)\<rparr>"
  proof (cases "n div base_of base \<noteq> 0")
    case True
    from 1(1) [OF len True] 1(2,3) have "format_llu_base_n offs (n div base_of base) base tc
        (if 0 < num_len then num_len - 1 else 0) st =
      st\<lparr>obuf := obuf st @ num_text ?b tc (unat n div ?b) (unat num_len - 1)\<rparr>"
      by (simp only: unat_pred_len unat_div simp_thms)
    with True nz show ?thesis by simp
  next
    case False
    then show ?thesis using nz by (auto simp: format_zeros word_gt_0)
  qed
  have digit: "(if (ucast (n mod base_of base) :: u8) < 10 then format_char (ucast (n mod base_of base) + 48) s
      else format_char (ucast (n mod base_of base) - 10 + 65 + tc) s) =
    s\<lparr>obuf := obuf s @ [digit_char tc ?d]\<rparr>" for s
    unfolding unat_digit
    by (subst if_distrib [of "\<lambda>c. format_char c s", symmetric])
      (simp only: code_digit [OF d] format_char_app [OF digit_char_nonzero [OF d 1(3)]])
  have "num_text ?b tc (unat n) (unat num_len) =
    (if unat n div ?b \<noteq> 0 then num_text ?b tc (unat n div ?b) (unat num_len - 1) else replicate (unat num_len - 1) 48) @ [digit_char tc ?d]"
    using unat_base(2) [of base] by (subst num_text.simps) simp
  then show ?case
    by (subst format_llu_base_n.simps) (simp only: Let_def if_not_P [OF len] prefix digit, simp)
qed

text \<open>A number reads back as its value, and takes no more digits than its size allows.\<close>

definition read_num :: "nat \<Rightarrow> u8 list \<Rightarrow> nat" where
  "read_num b ds = foldl (\<lambda>a c. a * b + digit_val c) 0 ds"

definition read_int :: "u8 list \<Rightarrow> int" where
  "read_int ds = (case ds of c # cs \<Rightarrow> if c = 45 then - int (read_num 10 cs) else int (read_num 10 ds) | [] \<Rightarrow> 0)"

lemma read_num_snoc: "read_num b (ds @ [c]) = read_num b ds * b + digit_val c"
  by (simp add: read_num_def)

lemma read_zeros: "read_num b (replicate k 48) = 0"
  by (induction k) (simp_all add: read_num_def digit_val_def)

lemma read_num_text:
  assumes "1 < b" and "b \<le> 16" and "is_case tc"
  shows "read_num b (num_text b tc n len) = n"
  using assms
proof (induction b tc n len rule: num_text.induct)
  case (1 b tc n len)
  then have "n mod b < 16" using mod_less_divisor [of b n] by linarith
  with 1 show ?case
    by (subst num_text.simps) (auto simp: read_num_snoc read_zeros digit_val_char div_eq_0_iff)
qed

lemma num_text_digits:
  assumes "1 < b" and "b \<le> 16" and "is_case tc"
  shows "num_text b tc n len \<noteq> [] \<and> 45 \<notin> set (num_text b tc n len)"
  using assms
proof (induction b tc n len rule: num_text.induct)
  case (1 b tc n len)
  then have "n mod b < 16" using mod_less_divisor [of b n] by linarith
  with 1 show ?case
    by (subst (1 2) num_text.simps) (auto dest: digit_char_not_minus)
qed

lemma num_text_length:
  assumes "n < b ^ k" and "0 < k" and "len \<le> k"
  shows "length (num_text b tc n len) \<le> k"
  using assms
proof (induction b tc n len arbitrary: k rule: num_text.induct)
  case (1 b tc n len)
  show ?case
  proof (cases "1 < b \<and> n div b \<noteq> 0")
    case True
    have k: "k = Suc (k - 1)" using 1(3) by simp
    have "n < b ^ (k - 1) * b" using 1(2) by (subst (asm) k) (simp add: mult.commute)
    then have lt: "n div b < b ^ (k - 1)" using True by (simp add: less_mult_imp_div_less)
    have "0 < k - 1" using lt True by (cases "k - 1") simp_all
    then have "length (num_text b tc (n div b) (len - 1)) \<le> k - 1"
      using 1(1) [OF True lt] 1(4) by simp
    then show ?thesis using True k by (subst num_text.simps) simp
  next
    case False
    then show ?thesis using 1(3,4) by (subst num_text.simps) auto
  qed
qed

lemma num_text_room:
  fixes n :: u64
  assumes "len \<le> 16"
  shows "length (num_text (unat (base_of base)) tc (unat n) len) \<le> 22"
proof -
  have "unat n < unat (base_of base) ^ 22"
    by (rule less_le_trans [OF unat_u64_less]) (cases base; simp)
  then show ?thesis by (rule num_text_length) (use assms in simp_all)
qed

section \<open>The text of a format\<close>

definition shown :: "u8 \<Rightarrow> u8 list" where "shown c = (if c = 0 then [] else [c])"

definition signed_text :: "u64 \<Rightarrow> u8 list" where
  "signed_text n = (if sint n < 0 then 45 # num_text 10 LOWERCASE (unat (- n)) 0 else num_text 10 LOWERCASE (unat n) 0)"

definition pointer_text :: "u64 \<Rightarrow> u8 list" where
  "pointer_text n = bytes_of ''0x'' @ num_text 16 LOWERCASE (unat n) 8"

definition num_arg :: "(u64 \<Rightarrow> u8 list) \<Rightarrow> va_value list \<Rightarrow> (u8 list \<times> va_value list) res" where
  "num_arg f vs = (case vs of VArg v # vs \<Rightarrow> Done (f v, vs) | _ \<Rightarrow> Halt ''va_arg'')"

definition str_arg :: "va_value list \<Rightarrow> (u8 list \<times> va_value list) res" where
  "str_arg vs = (case vs of VStr xs # vs \<Rightarrow> Done (xs, vs) | _ \<Rightarrow> Halt ''va_arg'')"

definition spec_text :: "u8 \<Rightarrow> va_type \<Rightarrow> va_value list \<Rightarrow> (u8 list \<times> va_value list) res" where
  "spec_text sp t vs =
     (if sp = ch CHR ''d'' \<or> sp = ch CHR ''i'' then num_arg (\<lambda>v. signed_text (va_signed t v)) vs
      else if sp = ch CHR ''u'' then num_arg (\<lambda>v. num_text 10 LOWERCASE (unat (va_unsigned t v)) 0) vs
      else if sp = ch CHR ''x'' then num_arg (\<lambda>v. num_text 16 LOWERCASE (unat (va_unsigned t v)) 0) vs
      else if sp = ch CHR ''X'' then num_arg (\<lambda>v. num_text 16 UPPERCASE (unat (va_unsigned t v)) 0) vs
      else if sp = ch CHR ''o'' then num_arg (\<lambda>v. num_text 8 LOWERCASE (unat (va_unsigned t v)) 0) vs
      else Done (37 # shown sp, vs))"

text \<open>What follows a percent sign: how many characters the conversion takes, its text, and the
  arguments left.\<close>

definition first :: "u8 list \<Rightarrow> u8" where "first cs = (case cs of [] \<Rightarrow> 0 | c # _ \<Rightarrow> c)"

definition directive :: "u8 list \<Rightarrow> va_value list \<Rightarrow> nat \<times> (u8 list \<times> va_value list) res" where
  "directive cs vs =
     (let c = first cs; c1 = first (drop 1 cs); c2 = first (drop 2 cs) in
      if c = ch CHR ''%'' then (1, Done ([37], vs))
      else if c = ch CHR ''c'' then (1, num_arg (\<lambda>v. shown (ucast v)) vs)
      else if c = ch CHR ''s'' then (1, str_arg vs)
      else if c = ch CHR ''p'' then (1, num_arg pointer_text vs)
      else if c = ch CHR ''l'' \<and> c1 = ch CHR ''l'' then (3, spec_text c2 VA_long vs)
      else if c = ch CHR ''l'' \<or> c = ch CHR ''q'' then (2, spec_text c1 VA_long vs)
      else if c = ch CHR ''h'' then (2, spec_text c1 VA_int vs)
      else (1, spec_text c VA_int vs))"

fun render :: "u8 list \<Rightarrow> va_value list \<Rightarrow> u8 list res" where
  "render [] vs = Done []"
| "render (c # cs) vs =
     (if c = 37
      then (case directive cs vs of (n, r) \<Rightarrow>
        res_bind r (\<lambda>(t, vs). res_bind (render (drop n cs) vs) (\<lambda>ts. Done (t @ ts))))
      else res_bind (render cs vs) (\<lambda>ts. Done (shown c @ ts)))"

declare render.simps [simp del]

text \<open>What the steps do to the buffer: they append, and take arguments.\<close>

definition app :: "printk_state \<Rightarrow> (u8 list \<times> va_value list) res \<Rightarrow> printk_state res" where
  "app st r = res_bind r (\<lambda>(t, vs). Done (st\<lparr>obuf := obuf st @ t, va_list := vs\<rparr>))"

definition short :: "u8 list \<Rightarrow> bool" where "short xs \<longleftrightarrow> length xs < 32"

definition short_args :: "va_value list \<Rightarrow> bool" where
  "short_args vs \<longleftrightarrow> (\<forall>v \<in> set vs. case v of VArg _ \<Rightarrow> True | VStr xs \<Rightarrow> short xs)"

lemma case_cases [simp]: "is_case LOWERCASE" "is_case UPPERCASE"
  by (simp_all add: is_case_def)

lemma buf_len_small: "length (obuf st) < 65535 \<Longrightarrow> buf_len offs st \<noteq> 65535"
  by (simp add: buf_len_def)

lemma num_arg_va: "res_bind (va_num st) (\<lambda>(v, st). Done (g v st)) = app st (num_arg f (va_list st))"
  if "\<And>v vs. va_list st = VArg v # vs \<Longrightarrow> g v (st\<lparr>va_list := vs\<rparr>) = st\<lparr>obuf := obuf st @ f v, va_list := vs\<rparr>"
  using that by (auto simp: va_num_def num_arg_def app_def split: list.split va_value.split)

lemma format_signed_text:
  assumes "length (obuf st) < 65534"
  shows "format_ll_base_n n BASE_10 LOWERCASE 0 st = st\<lparr>obuf := obuf st @ signed_text n\<rparr>"
  using assms by (simp add: format_ll_base_n_def signed_text_def format_llu_text buf_len_small format_char_def)

lemma parse_specifier_text:
  assumes "length (obuf st) < 65534"
  shows "parse_specifier sp t st = app st (spec_text sp t (va_list st))"
proof -
  have fits: "buf_len 0 (st\<lparr>va_list := vs\<rparr>) \<noteq> 65535" for vs
    by (rule buf_len_small) (use assms in simp)
  show ?thesis
    unfolding parse_specifier_def spec_text_def
    by (simp add: assms format_signed_text format_llu_text fits if_distrib [of "app st"]
        num_arg_va [where st = st, OF _] cong: if_cong)
      (simp add: app_def format_char_def shown_def)
qed

lemma fmt_at_first: "fmt_at fmt i = first (drop i fmt)"
  by (auto simp: fmt_at_def first_def Cons_nth_drop_Suc [symmetric] split: list.split)

lemma first_drop: "first (drop n (drop i fmt)) = fmt_at fmt (n + i)"
  by (simp add: fmt_at_first)

lemma format_ptr_text:
  assumes "length (obuf st) < 65500"
  shows "format_ptr v LOWERCASE st = st\<lparr>obuf := obuf st @ pointer_text v\<rparr>"
proof -
  have "format_str (bytes_of ''0x'') st = st\<lparr>obuf := obuf st @ bytes_of ''0x''\<rparr>"
    using assms by (simp add: format_str_def buf_len_def MAX_STR_LEN_def bytes_of_def)
  moreover have "buf_len 0 (st\<lparr>obuf := obuf st @ bytes_of ''0x''\<rparr>) \<noteq> 65535"
    by (rule buf_len_small) (use assms in \<open>simp add: bytes_of_def\<close>)
  ultimately show ?thesis by (simp add: format_ptr_def format_llu_text pointer_text_def)
qed

lemma format_str_text:
  assumes "length (obuf st) < 65500" and "short xs"
  shows "format_str xs st = st\<lparr>obuf := obuf st @ xs\<rparr>"
  using assms by (simp add: format_str_def buf_len_def MAX_STR_LEN_def short_def)

lemma conversion_text:
  assumes len: "length (obuf st) < 65500" and args: "short_args (va_list st)"
  shows "conversion fmt i st =
    (case directive (drop (i + 1) fmt) (va_list st) of (n, r) \<Rightarrow> res_bind (app st r) (\<lambda>st. Done (i + 1 + n, st)))"
proof -
  have char: "res_bind (va_num st) (\<lambda>(v, st). Done (i + 2, format_char (ucast v) st)) =
      res_bind (app st (num_arg (\<lambda>v. shown (ucast v)) (va_list st))) (\<lambda>st. Done (i + 2, st))"
    by (auto simp: va_num_def num_arg_def app_def format_char_def shown_def split: list.split va_value.split)
  have str: "res_bind (va_str st) (\<lambda>(xs, st). Done (i + 2, format_str xs st)) =
      res_bind (app st (str_arg (va_list st))) (\<lambda>st. Done (i + 2, st))"
    using args len
    by (auto simp: va_str_def str_arg_def app_def short_args_def format_str_text split: list.split va_value.split)
  have ptr: "res_bind (va_num st) (\<lambda>(v, st). Done (i + 2, format_ptr v LOWERCASE st)) =
      res_bind (app st (num_arg pointer_text (va_list st))) (\<lambda>st. Done (i + 2, st))"
    using len by (auto simp: va_num_def num_arg_def app_def format_ptr_text split: list.split va_value.split)
  have firsts: "first (drop (i + 1) fmt) = fmt_at fmt (i + 1)" "first (drop 1 (drop (i + 1) fmt)) = fmt_at fmt (i + 2)"
    "first (drop 2 (drop (i + 1) fmt)) = fmt_at fmt (i + 3)"
    by (simp_all add: fmt_at_first numeral_eq_Suc)
  have len': "length (obuf st) < 65534" using len by simp
  have steps: "i + 1 + 1 = i + 2" "i + 1 + 2 = i + 3" "i + 1 + 3 = i + 4" by simp_all
  show ?thesis
    unfolding conversion_def directive_def Let_def firsts char str ptr parse_specifier_text [OF len']
    by (simp add: steps app_def format_char_def del: add_Suc_right add_2_eq_Suc' One_nat_def)
qed

text \<open>A conversion never takes more room than the code keeps free.\<close>

lemma num_arg_short:
  assumes "num_arg f vs = Done (t, vs')" and "short_args vs" and "\<And>v. length (f v) < 32"
  shows "length t < 32 \<and> short_args vs'"
  using assms by (auto simp: num_arg_def short_args_def split: list.splits va_value.splits)

lemma num_lengths:
  fixes n :: u64
  shows "length (num_text 10 tc (unat n) 0) < 31" "length (num_text 16 tc (unat n) 0) < 32"
    "length (num_text 16 tc (unat n) 8) < 30" "length (num_text 8 tc (unat n) 0) < 32"
  using num_text_room [of 0 BASE_10 tc n] num_text_room [of 0 BASE_16 tc n] num_text_room [of 8 BASE_16 tc n]
    num_text_room [of 0 BASE_8 tc n]
  by simp_all

lemma text_lengths:
  "length (signed_text n) < 32" "length (pointer_text n) < 32" "length (shown c) < 32" "length (shown c) < 31"
  using num_lengths(1) [of LOWERCASE n] num_lengths(1) [of LOWERCASE "- n"] num_lengths(3) [of LOWERCASE n]
  by (simp_all add: signed_text_def pointer_text_def shown_def bytes_of_def)

lemma spec_short:
  assumes "spec_text sp t vs = Done (x, vs')" and "short_args vs"
  shows "length x < 32 \<and> short_args vs'"
  using assms unfolding spec_text_def
  by (auto split: if_splits simp: shown_def intro!: text_lengths num_lengths less_SucI [OF num_lengths(1), simplified]
      elim!: num_arg_short)

lemma directive_short:
  assumes "directive cs vs = (n, Done (x, vs'))" and "short_args vs"
  shows "length x < 32 \<and> short_args vs'"
proof -
  have str: "str_arg vs = Done (x, vs') \<Longrightarrow> ?thesis"
    using assms(2) by (auto simp: str_arg_def short_args_def short_def split: list.splits va_value.splits)
  show ?thesis
    using assms unfolding directive_def Let_def
    by (auto split: if_splits dest: str spec_short num_arg_short [OF _ _ text_lengths(2)] num_arg_short [OF _ _ text_lengths(3)])
qed

section \<open>The loop\<close>

definition all_text :: "printk_state \<Rightarrow> u8 list" where "all_text st = concat (rev (flushed st)) @ obuf st"

definition fits :: "printk_state \<Rightarrow> bool" where
  "fits st \<longleftrightarrow> length (obuf st) < OUTPUT_LEN \<and> (\<forall>c \<in> set (flushed st). length c < OUTPUT_LEN) \<and> short_args (va_list st)"

definition make_room :: "printk_state \<Rightarrow> printk_state" where
  "make_room st = (if buf_len 0 st \<ge> OUTPUT_LEN - 32 then print_clear_buff st else st)"

lemma make_room:
  assumes "fits st"
  shows "length (obuf (make_room st)) < 992" "fits (make_room st)" "all_text (make_room st) = all_text st"
    "va_list (make_room st) = va_list st"
  using assms
  by (auto simp: make_room_def fits_def OUTPUT_LEN_def buf_len_def MAX_STR_LEN_def print_clear_buff_def all_text_def)

lemma drop_step: "i < length fmt \<Longrightarrow> drop i fmt = fmt_at fmt i # drop (i + 1) fmt"
  by (simp add: fmt_at_def Cons_nth_drop_Suc)

text \<open>A step prints the first piece of \<open>render\<close>, moves on, and leaves a buffer that fits.\<close>

lemma fits_append:
  assumes "fits st" and "length (obuf st) < 992" and "length t < 32" and "short_args vs"
  shows "fits (st\<lparr>obuf := obuf st @ t, va_list := vs\<rparr>)"
  using assms by (simp add: fits_def OUTPUT_LEN_def)

lemma step_cases:
  assumes "fits st" and "i < length fmt"
  shows "(\<exists>i' t vs. printk_step fmt i st = Done (i', (make_room st)\<lparr>obuf := obuf (make_room st) @ t, va_list := vs\<rparr>)
            \<and> i < i' \<and> length t < 32 \<and> short_args vs
            \<and> render (drop i fmt) (va_list st) = res_bind (render (drop i' fmt) vs) (\<lambda>ts. Done (t @ ts)))
       \<or> (\<exists>e. printk_step fmt i st = Halt e \<and> render (drop i fmt) (va_list st) = Halt e)
       \<or> (printk_step fmt i st = NoFuel \<and> render (drop i fmt) (va_list st) = NoFuel)"
proof (cases "fmt_at fmt i = 37")
  case True
  let ?s = "make_room st"
  obtain n r where d: "directive (drop (i + 1) fmt) (va_list st) = (n, r)" by (cases "directive (drop (i + 1) fmt) (va_list st)")
  have len: "length (obuf ?s) < 65500" and args: "short_args (va_list ?s)"
    using make_room [OF assms(1)] by (simp_all add: fits_def)
  have step: "printk_step fmt i st = res_bind (app ?s r) (\<lambda>st. Done (i + 1 + n, st))"
    using True conversion_text [OF len args, of fmt i] d make_room(4) [OF assms(1)]
    by (simp add: printk_step_def make_room_def Let_def)
  have rend: "render (drop i fmt) (va_list st) =
      res_bind r (\<lambda>(t, vs). res_bind (render (drop (i + 1 + n) fmt) vs) (\<lambda>ts. Done (t @ ts)))"
    using True d by (simp add: drop_step [OF assms(2)] render.simps ac_simps)
  show ?thesis
  proof (cases r)
    case (Done p)
    obtain t vs where p: "p = (t, vs)" by (cases p)
    have "length t < 32 \<and> short_args vs"
      using directive_short [of _ "va_list st" n t vs] d Done p assms(1) by (simp add: fits_def)
    with Done p show ?thesis
      by (intro disjI1 exI [of _ "i + 1 + n"] exI [of _ t] exI [of _ vs]) (simp add: step rend app_def)
  qed (simp_all add: step rend app_def)
next
  case False
  let ?s = "make_room st" and ?c = "fmt_at fmt i"
  have "printk_step fmt i st = Done (i + 1, ?s\<lparr>obuf := obuf ?s @ shown ?c, va_list := va_list ?s\<rparr>)"
    using False by (simp add: printk_step_def make_room_def Let_def format_char_def shown_def)
  moreover have "render (drop i fmt) (va_list st) = res_bind (render (drop (i + 1) fmt) (va_list st)) (\<lambda>ts. Done (shown ?c @ ts))"
    using False by (simp add: drop_step [OF assms(2)] render.simps)
  ultimately show ?thesis
    using assms(1) text_lengths(3) [of ?c] make_room(4) [OF assms(1)]
    by (intro disjI1 exI [of _ "i + 1"] exI [of _ "shown ?c"] exI [of _ "va_list ?s"]) (simp add: fits_def)
qed

lemma loop_text:
  assumes "fits st" and "length fmt - i \<le> k"
  shows "res_bind (printk_loop k fmt (length fmt) i st) (\<lambda>st'. Done (all_text st')) =
      res_bind (render (drop i fmt) (va_list st)) (\<lambda>t. Done (all_text st @ t))"
  using assms
proof (induction k arbitrary: i st)
  case 0
  then show ?case by (simp add: render.simps)
next
  case (Suc k)
  show ?case
  proof (cases "i < length fmt")
    case True
    consider i' t vs where "printk_step fmt i st = Done (i', (make_room st)\<lparr>obuf := obuf (make_room st) @ t, va_list := vs\<rparr>)"
        "i < i'" "length t < 32" "short_args vs"
        "render (drop i fmt) (va_list st) = res_bind (render (drop i' fmt) vs) (\<lambda>ts. Done (t @ ts))"
      | e where "printk_step fmt i st = Halt e" "render (drop i fmt) (va_list st) = Halt e"
      | "printk_step fmt i st = NoFuel" "render (drop i fmt) (va_list st) = NoFuel"
      using step_cases [OF Suc.prems(1) True] by blast
    then show ?thesis
    proof cases
      case 1
      let ?s = "(make_room st)\<lparr>obuf := obuf (make_room st) @ t, va_list := vs\<rparr>"
      note room = make_room [OF Suc.prems(1)]
      have f: "fits ?s" by (rule fits_append [OF room(2,1) 1(3,4)])
      have k: "length fmt - i' \<le> k" using 1(2) Suc.prems(2) True by linarith
      have "all_text ?s = all_text st @ t" using room(3) by (simp add: all_text_def)
      with Suc.IH [OF f k] True 1(1,5) show ?thesis by (simp add: res_bind_assoc)
    qed (simp_all add: True)
  qed (simp add: render.simps Suc.prems(1))
qed

text \<open>The buffer holds what the loop writes, however much of the format it reads.\<close>

lemma loop_fits:
  "printk_loop k fmt n i st = Done st' \<Longrightarrow> fits st \<Longrightarrow> n \<le> length fmt \<Longrightarrow> fits st'"
proof (induction k arbitrary: i st)
  case 0
  then show ?case by (simp split: if_splits)
next
  case (Suc k)
  show ?case
  proof (cases "i < n")
    case True
    then have i: "i < length fmt" using Suc.prems(3) by simp
    consider i' t vs where "printk_step fmt i st = Done (i', (make_room st)\<lparr>obuf := obuf (make_room st) @ t, va_list := vs\<rparr>)"
        "length t < 32" "short_args vs"
      | e where "printk_step fmt i st = Halt e" | "printk_step fmt i st = NoFuel"
      using step_cases [OF Suc.prems(2) i] by blast
    then show ?thesis
    proof cases
      case 1
      note room = make_room [OF Suc.prems(2)]
      show ?thesis
        by (rule Suc.IH [OF _ fits_append [OF room(2,1) 1(2,3)] Suc.prems(3)]) (use Suc.prems(1) True 1(1) in simp)
    qed (use Suc.prems(1) True in simp_all)
  qed (use Suc.prems in simp)
qed

lemma start_fits: "short_args args \<Longrightarrow> fits \<lparr>obuf = [], flushed = [], olog = [], va_list = args\<rparr>"
  by (simp add: fits_def OUTPUT_LEN_def)

lemma sint_u64: "sint (v :: u64) = uint v - (if bit v 63 then 18446744073709551616 else 0)"
proof -
  have "sint v = signed_take_bit 63 (uint v)" by (simp add: sint_uint)
  also have "\<dots> = take_bit 64 (uint v) - 18446744073709551616 * of_bool (bit (uint v) 63)"
    using signed_take_bit_eq_take_bit_minus [of 63 "uint v"] by (simp add: numeral_eq_Suc)
  also have "take_bit 64 (uint v) = uint v" using uint_lt2p [of v] by (intro take_bit_int_eq_self) simp_all
  finally show ?thesis by (simp add: bit_uint_iff)
qed

lemma uint_u64_bounds: "0 \<le> uint (v :: u64)" "uint v < 18446744073709551616"
  using uint_lt2p [of v] by simp_all

lemma sint_nonneg: "0 \<le> sint (v :: u64) \<Longrightarrow> int (unat v) = sint v"
  using sint_u64 [of v] uint_u64_bounds [of v] by (simp split: if_splits)

lemma sint_negative:
  assumes "sint (v :: u64) < 0"
  shows "int (unat (- v)) = - sint v"
proof -
  have nz: "v \<noteq> 0" using assms by auto
  have "uint v = sint v + 18446744073709551616"
    using assms sint_u64 [of v] uint_u64_bounds [of v] by (auto split: if_splits)
  then have "int (unat v) = sint v + 18446744073709551616" by simp
  then show ?thesis using unat_uminus [OF nz] unat_u64_less [of v] by linarith
qed

lemma read_signed_text: "read_int (signed_text v) = sint v"
proof (cases "sint v < 0")
  case True
  have "read_num 10 (num_text 10 LOWERCASE (unat (- v)) 0) = unat (- v)" by (rule read_num_text) simp_all
  then show ?thesis using True sint_negative [OF True] by (simp only: read_int_def signed_text_def if_True list.case simp_thms minus_minus)
next
  case False
  let ?t = "num_text 10 LOWERCASE (unat v) 0"
  obtain c cs where t: "?t = c # cs" and c: "c \<noteq> 45"
    using num_text_digits [of 10 LOWERCASE "unat v" 0] by (cases ?t) auto
  have "read_num 10 ?t = unat v" by (rule read_num_text) simp_all
  then have "int (read_num 10 (c # cs)) = sint v" using False sint_nonneg [of v] t by (simp only: not_less)
  then show ?thesis using False c t by (simp add: read_int_def signed_text_def)
qed

section \<open>Properties\<close>

text \<open>C15: What printk hands to the console, in however many pieces, is the text of the format: every
  ordinary character as it is and every conversion by its argument, with nothing lost or repeated
  where the 1024-byte buffer is flushed in between, and it stops exactly where an argument is
  missing. This for string arguments of at most 31 bytes, the room printk keeps free (longer ones may overrun the
  buffer), and formats of at most 65536 bytes, as far as \<open>strlen\<close> counts.\<close>

theorem printk_prints_format:
  assumes "short_args args" and "length fmt \<le> unat MAX_STR_LEN"
  shows "res_bind (printk_chunks fmt args) (\<lambda>cs. Done (concat cs)) = render fmt args"
proof -
  let ?s0 = "\<lparr>obuf = [], flushed = [], olog = [], va_list = args\<rparr>"
  have "res_bind (printk_chunks fmt args) (\<lambda>cs. Done (concat cs)) =
      res_bind (printk_loop (length fmt) fmt (length fmt) 0 ?s0) (\<lambda>st. Done (all_text st))"
    using assms(2) by (simp add: printk_chunks_def fmt_len_def res_bind_assoc print_clear_buff_def all_text_def)
  also have "\<dots> = res_bind (render fmt args) (\<lambda>t. Done t)"
    using loop_text [OF start_fits [OF assms(1)], of fmt 0 "length fmt"] by (simp add: all_text_def)
  finally show ?thesis by simp
qed

theorem printk_prints_format_witness:
  "res_bind (printk_chunks (bytes_of ''pid %d: %s'') [VArg 7, VStr (bytes_of ''ok'')]) (\<lambda>cs. Done (concat cs)) =
    render (bytes_of ''pid %d: %s'') [VArg 7, VStr (bytes_of ''ok'')]"
  by (rule printk_prints_format) (simp_all add: short_args_def short_def bytes_of_def MAX_STR_LEN_def)

text \<open>C28: No text that printk hands on, with its terminator, is longer than the 1024 bytes of its
  buffer, whatever the format, when no string argument is longer than 31 bytes.\<close>

theorem printk_buffer_bound:
  assumes "short_args args" and "printk_chunks fmt args = Done cs" and "c \<in> set cs"
  shows "length c + 1 \<le> OUTPUT_LEN"
proof -
  obtain st where st: "printk_loop (fmt_len fmt) fmt (fmt_len fmt) 0 \<lparr>obuf = [], flushed = [], olog = [], va_list = args\<rparr> = Done st"
    and cs: "cs = rev (flushed (print_clear_buff st))"
    using assms(2) by (auto simp: printk_chunks_def)
  have "fits st" by (rule loop_fits [OF st start_fits [OF assms(1)]]) (simp add: fmt_len_def)
  with cs assms(3) show ?thesis by (auto simp: print_clear_buff_def fits_def)
qed

theorem printk_buffer_bound_witness: "length (bytes_of ''1f'') + 1 \<le> OUTPUT_LEN"
proof (rule printk_buffer_bound [of "[VArg 31]" "bytes_of ''%x''" "[bytes_of ''1f'']"])
  have run: "parse_specifier (ch CHR ''x'') VA_int st = app st (spec_text (ch CHR ''x'') VA_int (va_list st))"
    if "obuf st = []" for st
    by (rule parse_specifier_text) (simp add: that)
  have val: "spec_text (ch CHR ''x'') VA_int [VArg 31] = Done (bytes_of ''1f'', [])"
    by (simp add: spec_text_def num_arg_def va_unsigned_def num_text.simps digit_char_def LOWERCASE_def bytes_of_def)
  show "printk_chunks (bytes_of ''%x'') [VArg 31] = Done [bytes_of ''1f'']"
    using run val
    by (simp add: printk_chunks_def fmt_len_def MAX_STR_LEN_def printk_step_def conversion_def bytes_of_def fmt_at_def app_def print_clear_buff_def
        buf_len_def OUTPUT_LEN_def)
qed (simp_all add: short_args_def)

text \<open>C29: A number printed with %ld is one piece of text that reads back, sign and all, as the
  number, for every 64-bit value, the most negative included.\<close>

theorem printk_number_roundtrip:
  "\<exists>t. printk_chunks (bytes_of ''%ld'') [VArg v] = Done [t] \<and> read_int t = sint v"
proof (intro exI conjI)
  have run: "parse_specifier (ch CHR ''d'') VA_long st = app st (spec_text (ch CHR ''d'') VA_long (va_list st))"
    if "obuf st = []" for st
    by (rule parse_specifier_text) (simp add: that)
  show "printk_chunks (bytes_of ''%ld'') [VArg v] = Done [signed_text v]"
    using run
    by (simp add: printk_chunks_def fmt_len_def MAX_STR_LEN_def printk_step_def conversion_def bytes_of_def fmt_at_def app_def print_clear_buff_def
        buf_len_def OUTPUT_LEN_def spec_text_def num_arg_def va_signed_def)
  show "read_int (signed_text v) = sint v" by (rule read_signed_text)
qed

end
