(* ===== verification/Keyboard.thy ===== *)
theory Keyboard imports Vga begin

text \<open>
  src/drivers/ps2\_keyboard\_driver.c: the PS/2 controller's command and data ports, polling, the
  set-up of the controller and of the scan code set, the four character tables, the state machine
  \<open>process_scan_code\<close> that turns scan codes into characters, and the two ways they are read: the
  interrupt handler and \<open>polling_keyboard_get_char\<close>.
\<close>

section \<open>Ports and polling\<close>

definition IO_WAIT_LEN :: nat where "IO_WAIT_LEN = 100"
definition STATUS_REGISTER_ADDR :: u16 where "STATUS_REGISTER_ADDR = 0x64"
definition COMMAND_REGISTER_ADDR :: u16 where "COMMAND_REGISTER_ADDR = 0x64"
definition DATA_PORT_ADDR :: u16 where "DATA_PORT_ADDR = 0x60"

lemmas kbd_ports = STATUS_REGISTER_ADDR_def COMMAND_REGISTER_ADDR_def DATA_PORT_ADDR_def

definition OUTPUT_BUFF_IS_EMPTY :: "u8 \<Rightarrow> bool" where "OUTPUT_BUFF_IS_EMPTY reg \<longleftrightarrow> reg AND 1 = 0"
definition INPUT_BUFF_IS_FULL :: "u8 \<Rightarrow> bool" where "INPUT_BUFF_IS_FULL reg \<longleftrightarrow> reg AND 2 \<noteq> 0"

definition status_register_read :: "device \<Rightarrow> 'a machine_scheme \<Rightarrow> u8 \<times> 'a machine_scheme" where
  "status_register_read dev s = inb dev STATUS_REGISTER_ADDR s"

definition data_port_read :: "device \<Rightarrow> 'a machine_scheme \<Rightarrow> u8 \<times> 'a machine_scheme" where
  "data_port_read dev s = inb dev DATA_PORT_ADDR s"

definition data_port_write :: "u8 \<Rightarrow> 'a machine_scheme \<Rightarrow> 'a machine_scheme" where
  "data_port_write byte s = outb DATA_PORT_ADDR byte s"

definition command_register_cmd :: "u8 \<Rightarrow> 'a machine_scheme \<Rightarrow> 'a machine_scheme" where
  "command_register_cmd command s = io_wait_n IO_WAIT_LEN (outb COMMAND_REGISTER_ADDR command s)"

definition command_register_cmd_read :: "device \<Rightarrow> u8 \<Rightarrow> 'a machine_scheme \<Rightarrow> u8 \<times> 'a machine_scheme" where
  "command_register_cmd_read dev command s = data_port_read dev (command_register_cmd command s)"

definition command_register_cmd_write :: "u8 \<Rightarrow> u8 \<Rightarrow> 'a machine_scheme \<Rightarrow> 'a machine_scheme" where
  "command_register_cmd_write command byte s = data_port_write byte (command_register_cmd command s)"

text \<open>The two polling loops, with fuel: the source does not bound them. \<open>busy\<close> is the test on the
  status register.\<close>

primrec poll :: "device \<Rightarrow> (u8 \<Rightarrow> bool) \<Rightarrow> bool \<Rightarrow> nat \<Rightarrow> 'a machine_scheme \<Rightarrow> 'a machine_scheme res" where
  "poll dev busy blocking 0 s = NoFuel"
| "poll dev busy blocking (Suc n) s =
     (let s = io_wait_n IO_WAIT_LEN s;
          (status, s) = status_register_read dev s
      in if busy status \<and> blocking then poll dev busy blocking n s else Done s)"

definition keyboard_read :: "device \<Rightarrow> nat \<Rightarrow> bool \<Rightarrow> 'a machine_scheme \<Rightarrow> (u8 \<times> 'a machine_scheme) res" where
  "keyboard_read dev fuel blocking s =
     res_bind (poll dev OUTPUT_BUFF_IS_EMPTY blocking fuel s) (\<lambda>s. Done (data_port_read dev s))"

definition keyboard_write :: "device \<Rightarrow> nat \<Rightarrow> u8 \<Rightarrow> bool \<Rightarrow> 'a machine_scheme \<Rightarrow> 'a machine_scheme res" where
  "keyboard_write dev fuel byte blocking s =
     res_bind (poll dev INPUT_BUFF_IS_FULL blocking fuel s) (\<lambda>s. Done (io_wait_n IO_WAIT_LEN (data_port_write byte s)))"

section \<open>Character tables\<close>

text \<open>The tables as bytes, in the source's rows of eight. The modifier and arrow keys stand in
  them with their own scan codes, the function keys with the letter F (0x46).\<close>

definition standard_ascii_table_LOWER :: "u8 list" where "standard_ascii_table_LOWER = [
  0, 0x1B, 0x31, 0x32, 0x33, 0x34, 0x35, 0x36,
  0x37, 0x38, 0x39, 0x30, 0x2D, 0x3D, 0x08, 0x09,
  0x71, 0x77, 0x65, 0x72, 0x74, 0x79, 0x75, 0x69,
  0x6F, 0x70, 0x5B, 0x5D, 0x0A, 0x1D, 0x61, 0x73,
  0x64, 0x66, 0x67, 0x68, 0x6A, 0x6B, 0x6C, 0x3B,
  0x27, 0x60, 0, 0x5C, 0x7A, 0x78, 0x63, 0x76,
  0x62, 0x6E, 0x6D, 0x2C, 0x2E, 0x2F, 0, 0x2A,
  0x38, 0x20, 0x3A, 0x46, 0x46, 0x46, 0x46, 0x46,
  0x46, 0x46, 0x46, 0x46, 0x46, 0, 0, 0,
  0x48, 0, 0, 0x4D, 0, 0x50, 0, 0,
  0x4B, 0, 0, 0x7F, 0, 0, 0, 0x46,
  0x46, 0, 0, 0, 0, 0, 0, 0,
  0, 0, 0, 0, 0, 0, 0, 0,
  0, 0, 0, 0, 0, 0, 0, 0,
  0, 0, 0, 0, 0, 0, 0, 0,
  0, 0, 0, 0, 0, 0, 0, 0]"

definition standard_ascii_table_UPPER :: "u8 list" where "standard_ascii_table_UPPER = [
  0, 0x1B, 0x21, 0x40, 0x23, 0x24, 0x25, 0x5E,
  0x26, 0x2A, 0x28, 0x29, 0x5F, 0x2B, 0x08, 0x09,
  0x51, 0x57, 0x45, 0x52, 0x54, 0x59, 0x55, 0x49,
  0x4F, 0x50, 0x7B, 0x7D, 0x0A, 0x1D, 0x41, 0x53,
  0x44, 0x46, 0x47, 0x48, 0x4A, 0x4B, 0x4C, 0x3A,
  0x22, 0x7E, 0, 0x7C, 0x5A, 0x58, 0x43, 0x56,
  0x42, 0x4E, 0x4D, 0x3C, 0x3E, 0x3F, 0, 0x2A,
  0x38, 0x20, 0x3A, 0x46, 0x46, 0x46, 0x46, 0x46,
  0x46, 0x46, 0x46, 0x46, 0x46, 0, 0, 0,
  0x48, 0, 0, 0x4D, 0, 0x50, 0, 0,
  0x4B, 0, 0, 0x7F, 0, 0, 0, 0x46,
  0x46, 0, 0, 0, 0, 0, 0, 0,
  0, 0, 0, 0, 0, 0, 0, 0,
  0, 0, 0, 0, 0, 0, 0, 0,
  0, 0, 0, 0, 0, 0, 0, 0,
  0, 0, 0, 0, 0, 0, 0, 0]"

definition caps_ascii_table_LOWER :: "u8 list" where "caps_ascii_table_LOWER = [
  0, 0x1B, 0x31, 0x32, 0x33, 0x34, 0x35, 0x36,
  0x37, 0x38, 0x39, 0x30, 0x2D, 0x3D, 0x08, 0x09,
  0x51, 0x57, 0x45, 0x52, 0x54, 0x59, 0x55, 0x49,
  0x4F, 0x50, 0x5B, 0x5D, 0x0A, 0x1D, 0x41, 0x53,
  0x44, 0x46, 0x47, 0x48, 0x4A, 0x4B, 0x4C, 0x3B,
  0x27, 0x60, 0, 0x5C, 0x5A, 0x58, 0x43, 0x56,
  0x42, 0x4E, 0x4D, 0x2C, 0x2E, 0x2F, 0, 0x2A,
  0x38, 0x20, 0x3A, 0x46, 0x46, 0x46, 0x46, 0x46,
  0x46, 0x46, 0x46, 0x46, 0x46, 0, 0, 0,
  0x48, 0, 0, 0x4D, 0, 0x50, 0, 0,
  0x4B, 0, 0, 0x7F, 0, 0, 0, 0x46,
  0x46, 0, 0, 0, 0, 0, 0, 0,
  0, 0, 0, 0, 0, 0, 0, 0,
  0, 0, 0, 0, 0, 0, 0, 0,
  0, 0, 0, 0, 0, 0, 0, 0,
  0, 0, 0, 0, 0, 0, 0, 0]"

definition caps_ascii_table_UPPER :: "u8 list" where "caps_ascii_table_UPPER = [
  0, 0x1B, 0x21, 0x40, 0x23, 0x24, 0x25, 0x5E,
  0x26, 0x2A, 0x28, 0x29, 0x5F, 0x2B, 0x08, 0x09,
  0x71, 0x77, 0x65, 0x72, 0x74, 0x79, 0x75, 0x69,
  0x6F, 0x70, 0x7B, 0x7D, 0x0A, 0x1D, 0x61, 0x73,
  0x64, 0x66, 0x67, 0x68, 0x6A, 0x6B, 0x6C, 0x3A,
  0x22, 0x7E, 0, 0x7C, 0x7A, 0x78, 0x63, 0x76,
  0x62, 0x6E, 0x6D, 0x3C, 0x3E, 0x3F, 0, 0x2A,
  0x38, 0x20, 0x3A, 0x46, 0x46, 0x46, 0x46, 0x46,
  0x46, 0x46, 0x46, 0x46, 0x46, 0, 0, 0,
  0x48, 0, 0, 0x4D, 0, 0x50, 0, 0,
  0x4B, 0, 0, 0x7F, 0, 0, 0, 0x46,
  0x46, 0, 0, 0, 0, 0, 0, 0,
  0, 0, 0, 0, 0, 0, 0, 0,
  0, 0, 0, 0, 0, 0, 0, 0,
  0, 0, 0, 0, 0, 0, 0, 0,
  0, 0, 0, 0, 0, 0, 0, 0]"

section \<open>Scan codes\<close>

datatype key_state_t = RELEASED | PRESSED

record kbd_state = vga_state +
  key_state :: key_state_t
  caps_state :: key_state_t
  shift_state :: key_state_t
  ctrl_state :: key_state_t
  alt_state :: key_state_t
  prev_code :: u8
  curr_code :: u8
  ascii_table_LOWER :: "u8 list"
  ascii_table_UPPER :: "u8 list"

definition ASCII_TABLE_SIZE :: nat where "ASCII_TABLE_SIZE = 128"
definition KEY_RELEASED :: u8 where "KEY_RELEASED = 0x80"
definition CAPS :: u8 where "CAPS = 0x3A"
definition LSFT :: u8 where "LSFT = 0x2A"
definition RSFT :: u8 where "RSFT = 0x36"
definition CTRL :: u8 where "CTRL = 0x1D"
definition ALT :: u8 where "ALT = 0x38"
definition UP :: u8 where "UP = 0x48"
definition DN :: u8 where "DN = 0x4B"
definition LFT :: u8 where "LFT = 0x4D"
definition RHT :: u8 where "RHT = 0x50"

lemmas scan_codes = CAPS_def LSFT_def RSFT_def CTRL_def ALT_def UP_def DN_def LFT_def RHT_def

definition NO_CHAR :: int where "NO_CHAR = -1"

definition IS_CODE_KEY_RELEASE :: "u8 \<Rightarrow> bool" where
  "IS_CODE_KEY_RELEASE code \<longleftrightarrow> code AND KEY_RELEASED \<noteq> 0"

text \<open>The two halves of \<open>process_scan_code\<close>: a key released, and a key pressed. \<open>char\<close> is signed.\<close>

definition key_released :: "u8 \<Rightarrow> 'a kbd_state_scheme \<Rightarrow> int \<times> 'a kbd_state_scheme" where
  "key_released code s =
     (let s = s\<lparr>key_state := RELEASED\<rparr>;
          k = code - KEY_RELEASED
      in (NO_CHAR,
          if k = LSFT \<or> k = RSFT then s\<lparr>shift_state := RELEASED\<rparr>
          else if k = CAPS then s\<lparr>caps_state := RELEASED,
             ascii_table_LOWER := standard_ascii_table_LOWER, ascii_table_UPPER := standard_ascii_table_UPPER\<rparr>
          else if k = CTRL then s\<lparr>ctrl_state := RELEASED\<rparr>
          else if k = ALT then s\<lparr>alt_state := RELEASED\<rparr>
          else s))"

definition key_pressed :: "u8 \<Rightarrow> 'a kbd_state_scheme \<Rightarrow> int \<times> 'a kbd_state_scheme" where
  "key_pressed code s =
     (let s = s\<lparr>key_state := PRESSED\<rparr>
      in if code = LSFT \<or> code = RSFT then (NO_CHAR, s\<lparr>shift_state := PRESSED\<rparr>)
         else if code = CAPS then (NO_CHAR, s\<lparr>caps_state := PRESSED,
             ascii_table_LOWER := caps_ascii_table_LOWER, ascii_table_UPPER := caps_ascii_table_UPPER\<rparr>)
         else if code = CTRL then (NO_CHAR, s\<lparr>ctrl_state := PRESSED\<rparr>)
         else if code = ALT then (NO_CHAR, s\<lparr>alt_state := PRESSED\<rparr>)
         else if code = UP \<or> code = DN \<or> code = LFT \<or> code = RHT then (NO_CHAR, s)
         else if unat code \<ge> ASCII_TABLE_SIZE
         then (NO_CHAR, say (OS_ERROR ''Invalid scan code? Code = 0x%X'' [ucast code]) s)
         else
           let key = (if shift_state s = PRESSED then ascii_table_UPPER s ! unat code else ascii_table_LOWER s ! unat code)
           in if key = 0 then (NO_CHAR, say (OS_INFO ''No character for scan code 0x%X'' [ucast code]) s)
              else (sint key, s))"

text \<open>The \<open>int\<close> parameter is stored in a byte.\<close>

definition process_scan_code :: "int \<Rightarrow> 'a kbd_state_scheme \<Rightarrow> int \<times> 'a kbd_state_scheme" where
  "process_scan_code scan_code s =
     (let s = s\<lparr>prev_code := curr_code s\<rparr>;
          s = s\<lparr>curr_code := word_of_int scan_code\<rparr>
      in if IS_CODE_KEY_RELEASE (curr_code s) then key_released (curr_code s) s else key_pressed (curr_code s) s)"

section \<open>Reading keys\<close>

text \<open>\<open>behind\<close> are the bytes behind the parameter of \<open>VGA_display_char\<close> (see Vga). A read that does
  not block polls once.\<close>

definition ps2_keyboard_irq_handler ::
    "device \<Rightarrow> u8 list \<Rightarrow> 'a kbd_state_scheme \<Rightarrow> 'a kbd_state_scheme res" where
  "ps2_keyboard_irq_handler dev behind s =
     res_bind (keyboard_read dev 1 False s) (\<lambda>(code, s).
       let (key, s) = process_scan_code (uint code) s
       in if key = NO_CHAR then Done s else Done (VGA_display_char dev behind (word_of_int key) s))"

primrec polling_keyboard_get_char :: "nat \<Rightarrow> device \<Rightarrow> 'a kbd_state_scheme \<Rightarrow> (u8 \<times> 'a kbd_state_scheme) res" where
  "polling_keyboard_get_char 0 dev s = NoFuel"
| "polling_keyboard_get_char (Suc n) dev s =
     res_bind (keyboard_read dev 1 False s) (\<lambda>(code, s).
       let (key, s) = process_scan_code (uint code) s
       in if key = NO_CHAR then polling_keyboard_get_char n dev s else Done (word_of_int key, s))"

section \<open>Set-up\<close>

definition KBD_CMD_GET_SET_SCAN_CODE_SET :: u8 where "KBD_CMD_GET_SET_SCAN_CODE_SET = 0xF0"
definition KBD_CMD_GET_SCAN_CODE_SET :: u8 where "KBD_CMD_GET_SCAN_CODE_SET = 0"
definition KBD_SCAN_CODE_SET_2 :: u8 where "KBD_SCAN_CODE_SET_2 = 2"
definition KBD_ACK :: u8 where "KBD_ACK = 0xFA"
definition KBD_RESEND :: u8 where "KBD_RESEND = 0xFE"
definition SCAN_CODE_SET2 :: u8 where "SCAN_CODE_SET2 = 0x41"
definition IRQ33_KEYBOARD :: nat where "IRQ33_KEYBOARD = PIC1_OFFSET + 1"

lemmas kbd_bytes = KBD_CMD_GET_SET_SCAN_CODE_SET_def KBD_CMD_GET_SCAN_CODE_SET_def KBD_SCAN_CODE_SET_2_def
  KBD_ACK_def KBD_RESEND_def SCAN_CODE_SET2_def

definition kbd_config :: "bool \<Rightarrow> u8 \<Rightarrow> u8" where
  "kbd_config irq_enable config_byte =
     (let b = config_byte OR (0x20 OR 0x04);
          b = b AND NOT (0x10 OR 0x01 OR 0x02)
      in if irq_enable then b OR 0x01 else b)"

definition port_test_message :: "u8 \<Rightarrow> string" where
  "port_test_message status =
     (if status = 1 then ''clock line stuck low'' else if status = 2 then ''clock line stuck high''
      else if status = 3 then ''data line stuck low'' else if status = 4 then ''data line stuck high''
      else ''unknown error'')"

text \<open>The controller part of \<open>ps2_keyboard_driver_init\<close>, up to the reset of port 1. The message of the
  interface test has its string argument in the place of \<open>%s\<close>.\<close>

definition kbd_controller_init :: "device \<Rightarrow> bool \<Rightarrow> 'a machine_scheme \<Rightarrow> driver_status_t \<times> 'a machine_scheme" where
  "kbd_controller_init dev irq_enable s =
     (let s = command_register_cmd 0xAD s;
          s = command_register_cmd 0xA7 s;
          (_, s) = data_port_read dev s;
          (_, s) = data_port_read dev s;
          (b, s) = command_register_cmd_read dev 0x20 s;
          config_byte = kbd_config irq_enable b;
          s = command_register_cmd_write 0x60 config_byte s;
          (status, s) = command_register_cmd_read dev 0xAA s
      in if status \<noteq> 0x55
         then (FAILURE, say (OS_ERROR ''PS/2 Controller Self Test Failed! Exit code = 0x%X'' [ucast status]) s)
         else
           let (b, s) = command_register_cmd_read dev 0x20 s;
               s = (if b \<noteq> config_byte then command_register_cmd_write 0x60 config_byte s else s);
               (status, s) = command_register_cmd_read dev 0xAB s
           in if status \<noteq> 0
              then (FAILURE, say (OS_ERROR (''PS/2 Port 1 Interface Test Failed! Exit code = 0x%X ( '' @ port_test_message status @ '' )'')
                                   [ucast status]) s)
              else
                let (status, s) = command_register_cmd_read dev 0xFF s
                in if status \<noteq> 0
                   then (FAILURE, say (OS_ERROR ''PS/2 Port 1 Reset Failed! Exit code = 0x%X'' [ucast status]) s)
                   else (SUCCESS, s))"

text \<open>\<open>while (1)\<close>: the keyboard is told to use scan code set 2 until it does not ask to send again. The
  status byte is returned too: later messages print it.\<close>

primrec kbd_set_scan_code :: "nat \<Rightarrow> nat \<Rightarrow> device \<Rightarrow> 'a machine_scheme \<Rightarrow> (driver_status_t \<times> u8 \<times> 'a machine_scheme) res" where
  "kbd_set_scan_code 0 fuel dev s = NoFuel"
| "kbd_set_scan_code (Suc n) fuel dev s =
     res_bind (keyboard_write dev fuel KBD_CMD_GET_SET_SCAN_CODE_SET True s) (\<lambda>s.
     res_bind (keyboard_write dev fuel KBD_SCAN_CODE_SET_2 True s) (\<lambda>s.
     res_bind (keyboard_read dev fuel True s) (\<lambda>(status, s).
       if status = KBD_RESEND then kbd_set_scan_code n fuel dev s
       else if status = KBD_ACK then Done (SUCCESS, status, s)
       else Done (FAILURE, status, say (OS_ERROR ''Get scan code returned 0x%X'' [ucast status]) s))))"

definition kbd_verify_scan_code :: "nat \<Rightarrow> device \<Rightarrow> u8 \<Rightarrow> 'a machine_scheme \<Rightarrow> (driver_status_t \<times> 'a machine_scheme) res" where
  "kbd_verify_scan_code fuel dev status s =
     res_bind (keyboard_write dev fuel KBD_CMD_GET_SET_SCAN_CODE_SET True s) (\<lambda>s.
     res_bind (keyboard_write dev fuel KBD_CMD_GET_SCAN_CODE_SET True s) (\<lambda>s.
     res_bind (keyboard_read dev fuel True s) (\<lambda>(reply, s).
       if reply \<noteq> KBD_ACK then Done (FAILURE, say (OS_ERROR ''Get scan code returned 0x%X'' [ucast status]) s)
       else res_bind (keyboard_read dev fuel True s) (\<lambda>(status, s).
         if status \<noteq> SCAN_CODE_SET2 then Done (FAILURE, say (OS_ERROR ''Get scan code returned 0x%X'' [ucast status]) s)
         else Done (SUCCESS, s)))))"

definition ps2_keyboard_driver_init ::
    "nat \<Rightarrow> device \<Rightarrow> bool \<Rightarrow> 'a kbd_state_scheme \<Rightarrow> (driver_status_t \<times> 'a kbd_state_scheme) res" where
  "ps2_keyboard_driver_init fuel dev irq_enable s =
     (case kbd_controller_init dev irq_enable s of
        (FAILURE, s) \<Rightarrow> Done (FAILURE, s)
      | (SUCCESS, s) \<Rightarrow>
          res_bind (kbd_set_scan_code fuel fuel dev s) (\<lambda>(r, status, s).
          if r = FAILURE then Done (FAILURE, s)
          else res_bind (kbd_verify_scan_code fuel dev status s) (\<lambda>(r, s).
          if r = FAILURE then Done (FAILURE, s)
          else
            let s = command_register_cmd 0xAE s
            in Done (SUCCESS,
                 if irq_enable
                 then let s = snd (IRQ_set_handler IRQ33_KEYBOARD (Some ps2_keyboard_irq_handler_fn) 0 s)
                      in snd (PIC_clear_mask dev IRQ33_KEYBOARD s)
                 else s))))"

section \<open>The handlers behind the function pointers\<close>

text \<open>What the dispatcher's call through the table runs. The handlers of other parts of the kernel
  (page faults, halts, those of the processes) are the argument \<open>others\<close>.\<close>

definition call_handler ::
    "device \<Rightarrow> u8 list \<Rightarrow> (irq_handler_t \<Rightarrow> nat \<Rightarrow> u32 \<Rightarrow> u64 \<Rightarrow> 'a kbd_state_scheme \<Rightarrow> 'a kbd_state_scheme res)
     \<Rightarrow> irq_handler_t \<Rightarrow> nat \<Rightarrow> u32 \<Rightarrow> u64 \<Rightarrow> 'a kbd_state_scheme \<Rightarrow> 'a kbd_state_scheme res" where
  "call_handler dev behind others h irq error arg s =
     (case h of
        timer_isr_fn \<Rightarrow> Done (timer_isr s)
      | serial_tx_irq_handler_fn \<Rightarrow> Done (serial_tx_irq_handler dev s)
      | ps2_keyboard_irq_handler_fn \<Rightarrow> ps2_keyboard_irq_handler dev behind s
      | _ \<Rightarrow> others h irq error arg s)"

end
