(* ===== verification/KeyboardProps.thy ===== *)
theory KeyboardProps imports Keyboard VgaProps begin

text \<open>
  What the keyboard driver promises: the characters depend on the history of the scan codes only
  through the last events of the shift and caps keys; a blocking read returns once the controller
  has a byte; the set-up installs the handler exactly when it succeeds; and a key press reaches
  the screen through the interrupt dispatcher.
\<close>

section \<open>Scan codes and their history\<close>

text \<open>The state that the static initialisers of the driver give.\<close>

definition kbd_reset :: "'a kbd_state_scheme \<Rightarrow> bool" where
  "kbd_reset s \<longleftrightarrow> shift_state s = RELEASED \<and> caps_state s = RELEASED
     \<and> ascii_table_LOWER s = standard_ascii_table_LOWER \<and> ascii_table_UPPER s = standard_ascii_table_UPPER"

definition type_codes :: "u8 list \<Rightarrow> 'a kbd_state_scheme \<Rightarrow> 'a kbd_state_scheme" where
  "type_codes codes s = fold (\<lambda>c s. snd (process_scan_code (uint c) s)) codes s"

text \<open>Whether the last event of one of the keys \<open>ks\<close> was a press; the history is newest first.\<close>

primrec last_down :: "u8 list \<Rightarrow> u8 list \<Rightarrow> bool" where
  "last_down ks [] = False"
| "last_down ks (c # cs) = (if c AND 0x7F \<in> set ks then \<not> IS_CODE_KEY_RELEASE c else last_down ks cs)"

definition swap_case :: "u8 \<Rightarrow> u8" where
  "swap_case c = (if 0x41 \<le> c \<and> c \<le> 0x5A then c + 32 else if 0x61 \<le> c \<and> c \<le> 0x7A then c - 32 else c)"

text \<open>The character of a code: from the standard table that the shift key selects, with the case of
  the letters of the main block swapped where \<open>caps\<close> is set.\<close>

definition key_char :: "bool \<Rightarrow> bool \<Rightarrow> u8 \<Rightarrow> int" where
  "key_char caps shift c =
     (if IS_CODE_KEY_RELEASE c \<or> c \<in> {LSFT, RSFT, CAPS, CTRL, ALT, UP, DN, LFT, RHT} then NO_CHAR
      else let k = (if shift then standard_ascii_table_UPPER else standard_ascii_table_LOWER) ! unat c;
               k = (if caps \<and> c < 0x3A then swap_case k else k)
           in if k = 0 then NO_CHAR else sint k)"

lemma and_bit_7: "(c :: u8) AND 0x80 = (if bit c 7 then 0x80 else 0)"
proof -
  have "(push_bit 7 1 :: u8) = 0x80" by simp
  then show ?thesis using and_push_bit_1 [of c 7] by simp
qed

lemma key_release_iff: "IS_CODE_KEY_RELEASE c \<longleftrightarrow> 128 \<le> unat c"
proof -
  have odd: "odd (unat c div 128) \<longleftrightarrow> 128 \<le> unat c"
  proof (cases "unat c < 128")
    case False
    then have "unat c div 128 = 1" by (intro div_nat_eqI) simp_all
    then show ?thesis using False by simp
  qed simp
  have pow: "(2 :: nat) ^ 7 = 128" by simp
  have "bit (unat c) 7 \<longleftrightarrow> 128 \<le> unat c" unfolding bit_iff_odd pow by (rule odd)
  then have "bit c 7 \<longleftrightarrow> 128 \<le> unat c" by (simp add: bit_unsigned_iff)
  then show ?thesis by (simp add: IS_CODE_KEY_RELEASE_def KEY_RELEASED_def and_bit_7)
qed

lemma unat_and_7F: "unat ((c :: u8) AND 0x7F) = unat c mod 128"
proof -
  have "c AND 0x7F = take_bit 7 c" by (simp add: take_bit_eq_mask mask_eq_exp_minus_1)
  then show ?thesis by (simp add: unsigned_take_bit_eq) (simp add: take_bit_eq_mod)
qed

lemma key_of_press: "\<not> IS_CODE_KEY_RELEASE c \<Longrightarrow> c AND 0x7F = c"
  by (simp add: word_unat_eq_iff unat_and_7F key_release_iff)

lemma key_of_release:
  assumes "IS_CODE_KEY_RELEASE c"
  shows "c AND 0x7F = c - KEY_RELEASED"
proof -
  have ge: "128 \<le> unat c" using assms by (simp add: key_release_iff)
  have "unat (c - 0x80) = unat c - 128" using ge by (subst unat_sub_nowrap) simp_all
  also have "\<dots> = (unat c - 128) mod 128"
  proof -
    have "unat c - 128 < 128" using unat_u8_less [of c] by linarith
    then show ?thesis by (rule mod_less [symmetric])
  qed
  also have "\<dots> = unat c mod 128" by (rule le_mod_geq [OF ge, symmetric])
  finally show ?thesis unfolding KEY_RELEASED_def by (simp only: word_unat_eq_iff unat_and_7F)
qed

lemma caps_table_LOWER: "caps_ascii_table_LOWER = map swap_case (take 0x3A standard_ascii_table_LOWER) @ drop 0x3A standard_ascii_table_LOWER"
  by code_simp

lemma caps_table_UPPER: "caps_ascii_table_UPPER = map swap_case (take 0x3A standard_ascii_table_UPPER) @ drop 0x3A standard_ascii_table_UPPER"
  by code_simp

lemma table_lengths: "length standard_ascii_table_LOWER = 128" "length standard_ascii_table_UPPER = 128"
  by (simp_all add: standard_ascii_table_LOWER_def standard_ascii_table_UPPER_def)

lemma caps_nth:
  assumes "i < 128"
  shows "caps_ascii_table_LOWER ! i = (if i < 0x3A then swap_case (standard_ascii_table_LOWER ! i) else standard_ascii_table_LOWER ! i)"
    "caps_ascii_table_UPPER ! i = (if i < 0x3A then swap_case (standard_ascii_table_UPPER ! i) else standard_ascii_table_UPPER ! i)"
  using assms by (simp_all add: caps_table_LOWER caps_table_UPPER nth_append table_lengths)

definition kbd_tracks :: "u8 list \<Rightarrow> 'a kbd_state_scheme \<Rightarrow> bool" where
  "kbd_tracks hist s \<longleftrightarrow>
     shift_state s = (if last_down [LSFT, RSFT] hist then PRESSED else RELEASED)
     \<and> caps_state s = (if last_down [CAPS] hist then PRESSED else RELEASED)
     \<and> ascii_table_LOWER s = (if last_down [CAPS] hist then caps_ascii_table_LOWER else standard_ascii_table_LOWER)
     \<and> ascii_table_UPPER s = (if last_down [CAPS] hist then caps_ascii_table_UPPER else standard_ascii_table_UPPER)"

lemma kbd_reset_tracks: "kbd_reset s \<Longrightarrow> kbd_tracks [] s"
  by (simp add: kbd_reset_def kbd_tracks_def)

lemma say_kbd [simp]:
  "shift_state (say k s) = shift_state s" "caps_state (say k s) = caps_state s"
  "ascii_table_LOWER (say k s) = ascii_table_LOWER s" "ascii_table_UPPER (say k s) = ascii_table_UPPER s"
  by (simp_all add: say_def)

lemma process_uint: "process_scan_code (uint c) s =
    (if IS_CODE_KEY_RELEASE c then key_released c (s\<lparr>prev_code := curr_code s, curr_code := c\<rparr>)
     else key_pressed c (s\<lparr>prev_code := curr_code s, curr_code := c\<rparr>))"
  by (simp add: process_scan_code_def)

lemma process_tracks:
  assumes "kbd_tracks hist s"
  shows "kbd_tracks (c # hist) (snd (process_scan_code (uint c) s))"
proof (cases "IS_CODE_KEY_RELEASE c")
  case True
  then show ?thesis
    using assms by (simp add: process_uint key_released_def kbd_tracks_def key_of_release Let_def scan_codes)
next
  case False
  then show ?thesis
    using assms by (simp add: process_uint key_pressed_def kbd_tracks_def key_of_press Let_def scan_codes)
      auto
qed

lemma process_char:
  fixes s :: "'a kbd_state_scheme"
  assumes "kbd_tracks hist s"
  shows "fst (process_scan_code (uint c) s) = key_char (last_down [CAPS] hist) (last_down [LSFT, RSFT] hist) c"
proof (cases "IS_CODE_KEY_RELEASE c")
  case True
  then show ?thesis by (simp add: process_uint key_released_def key_char_def Let_def)
next
  case False
  then have lt: "unat c < 128" by (simp add: key_release_iff)
  have main: "unat c < 0x3A \<longleftrightarrow> c < 0x3A" by (simp add: word_less_nat_alt)
  have le: "\<not> ASCII_TABLE_SIZE \<le> unat c" using lt by (simp add: ASCII_TABLE_SIZE_def)
  note t = assms [unfolded kbd_tracks_def]
  show ?thesis
  proof (cases "c \<in> {LSFT, RSFT, CAPS, CTRL, ALT, UP, DN, LFT, RHT}")
    case True
    then have "fst (key_pressed c s') = NO_CHAR" for s' :: "'a kbd_state_scheme"
      by (elim insertE emptyE) (simp_all add: key_pressed_def Let_def)
    then show ?thesis using True \<open>\<not> IS_CODE_KEY_RELEASE c\<close> by (simp only: process_uint key_char_def if_False simp_thms if_True)
  next
    case False
    let ?k = "if shift_state s = PRESSED then ascii_table_UPPER s ! unat c else ascii_table_LOWER s ! unat c"
    have "fst (key_pressed c (s\<lparr>prev_code := curr_code s, curr_code := c\<rparr>)) = (if ?k = 0 then NO_CHAR else sint ?k)"
      using False le by (simp add: key_pressed_def Let_def)
    moreover have "?k = (let k = (if last_down [LSFT, RSFT] hist then standard_ascii_table_UPPER else standard_ascii_table_LOWER) ! unat c
        in if last_down [CAPS] hist \<and> c < 0x3A then swap_case k else k)"
      using t by (cases "last_down [CAPS] hist"; cases "last_down [LSFT, RSFT] hist")
        (simp_all only: Let_def caps_nth [OF lt, unfolded main] if_True if_False simp_thms key_state_t.distinct)
    ultimately show ?thesis
      using False \<open>\<not> IS_CODE_KEY_RELEASE c\<close> by (simp add: process_uint key_char_def Let_def)
  qed
qed

lemma type_codes_tracks:
  assumes "kbd_tracks hist s"
  shows "kbd_tracks (rev codes @ hist) (type_codes codes s)"
  using assms
proof (induction codes arbitrary: hist s)
  case (Cons c codes)
  from Cons.IH [OF process_tracks [OF Cons.prems]] show ?case by (simp add: type_codes_def)
qed (simp add: type_codes_def)

text \<open>C19: After any sequence of scan codes, what a code gives is the character of the standard table
  that the last event of a shift key selects, shifted if it was a press of either key, with letters in the other case if the
  last event of the caps key was a press: releases, modifiers, arrows and codes without a character give none. So the release of one
  shift key ends the shift although the other is still down, and caps lock is in force only while its key is down.\<close>

theorem keyboard_follows_modifiers:
  assumes "kbd_reset s"
  shows "fst (process_scan_code (uint c) (type_codes codes s)) =
    key_char (last_down [CAPS] (rev codes)) (last_down [LSFT, RSFT] (rev codes)) c"
  using process_char [OF type_codes_tracks [OF kbd_reset_tracks [OF assms]]] by simp

section \<open>Polling\<close>

text \<open>The state after a number of polls, and whether the status read by the next one shows the
  output buffer empty.\<close>

primrec polled :: "device \<Rightarrow> nat \<Rightarrow> 'a machine_scheme \<Rightarrow> 'a machine_scheme" where
  "polled dev 0 s = s"
| "polled dev (Suc k) s = polled dev k (snd (status_register_read dev (io_wait_n IO_WAIT_LEN s)))"

definition sees_empty :: "device \<Rightarrow> 'a machine_scheme \<Rightarrow> bool" where
  "sees_empty dev s \<longleftrightarrow> OUTPUT_BUFF_IS_EMPTY (fst (status_register_read dev (io_wait_n IO_WAIT_LEN s)))"

lemma poll_step:
  "poll dev OUTPUT_BUFF_IS_EMPTY True (Suc n) s =
     (if sees_empty dev s then poll dev OUTPUT_BUFF_IS_EMPTY True n (polled dev 1 s) else Done (polled dev 1 s))"
  by (simp add: sees_empty_def Let_def case_prod_unfold)

lemma poll_returns:
  assumes "\<not> sees_empty dev (polled dev k s)" and "k < n"
  shows "\<exists>j \<le> k. \<not> sees_empty dev (polled dev j s) \<and> poll dev OUTPUT_BUFF_IS_EMPTY True n s = Done (polled dev (Suc j) s)"
  using assms
proof (induction n arbitrary: k s)
  case (Suc n)
  show ?case
  proof (cases "sees_empty dev s")
    case True
    then obtain k' where k: "k = Suc k'" using Suc.prems(1) by (cases k) auto
    have "\<not> sees_empty dev (polled dev k' (polled dev 1 s))" "k' < n" using Suc.prems k by simp_all
    from Suc.IH [OF this] obtain j where "j \<le> k'" "\<not> sees_empty dev (polled dev j (polled dev 1 s))"
      "poll dev OUTPUT_BUFF_IS_EMPTY True n (polled dev 1 s) = Done (polled dev (Suc j) (polled dev 1 s))" by blast
    then show ?thesis
      using k unfolding poll_step if_P [OF True] by (intro exI [of _ "Suc j"]) simp
  next
    case False
    then show ?thesis unfolding poll_step if_not_P [OF False] by (intro exI [of _ 0]) simp
  qed
qed simp

text \<open>A blocking keyboard read returns once the controller has a byte: if some poll finds the
  output buffer full, every larger amount of fuel gives the byte of the data port after the first
  such poll at the latest.\<close>

theorem keyboard_read_returns:
  assumes "\<not> sees_empty dev (polled dev k s)" and "k < n"
  shows "\<exists>j \<le> k. \<not> sees_empty dev (polled dev j s) \<and> keyboard_read dev n True s = Done (data_port_read dev (polled dev (Suc j) s))"
  using poll_returns [OF assms] by (auto simp: keyboard_read_def)

section \<open>Set-up\<close>

lemma port_keeps_table [simp]:
  "irq_handler_table (outb p v s) = irq_handler_table s" "irq_handler_table (snd (inb dev p s)) = irq_handler_table s"
  "irq_handler_table (say k s) = irq_handler_table s" "irq_handler_table (io_wait_n n s) = irq_handler_table s"
  by (simp_all add: outb_def inb_def say_def io_wait_n_eq Let_def)

text \<open>What every part of the set-up keeps: the handler table, and the port accesses made so far.\<close>

definition keeps :: "'a irq_state_scheme \<Rightarrow> 'a irq_state_scheme \<Rightarrow> bool" where
  "keeps s s' \<longleftrightarrow> irq_handler_table s' = irq_handler_table s \<and> set (trace s) \<subseteq> set (trace s')"

lemma keeps_refl [simp]: "keeps s s" by (simp add: keeps_def)

lemma keeps_trans: "keeps s t \<Longrightarrow> keeps t u \<Longrightarrow> keeps s u" by (auto simp: keeps_def)

lemma keeps_step [simp]:
  "keeps s t \<Longrightarrow> keeps s (outb p v t)" "keeps s t \<Longrightarrow> keeps s (snd (inb dev p t))" "keeps s t \<Longrightarrow> keeps s (say k t)"
  "keeps s t \<Longrightarrow> keeps s (io_wait_n n t)"
  by (auto simp: keeps_def)

lemma keeps_cmd [simp]:
  "keeps s t \<Longrightarrow> keeps s (command_register_cmd c t)" "keeps s t \<Longrightarrow> keeps s (snd (data_port_read dev t))"
  "keeps s t \<Longrightarrow> keeps s (snd (command_register_cmd_read dev c t))" "keeps s t \<Longrightarrow> keeps s (command_register_cmd_write c b t)"
  "keeps s t \<Longrightarrow> keeps s (snd (status_register_read dev t))" "keeps s t \<Longrightarrow> keeps s (data_port_write b t)"
  by (simp_all add: command_register_cmd_def data_port_read_def command_register_cmd_read_def command_register_cmd_write_def
      status_register_read_def data_port_write_def)

lemma keeps_controller: "keeps s (snd (kbd_controller_init dev en s))"
  by (simp add: kbd_controller_init_def Let_def case_prod_unfold)

lemma keeps_poll: "poll dev busy b n t = Done t' \<Longrightarrow> keeps s t \<Longrightarrow> keeps s t'"
  by (induction n arbitrary: t) (auto simp: Let_def case_prod_unfold split: if_splits)

lemma keeps_read: "keyboard_read dev n b t = Done (v, t') \<Longrightarrow> keeps s t \<Longrightarrow> keeps s t' \<and> In DATA_PORT_ADDR v \<in> set (trace t')"
  by (auto simp: keyboard_read_def data_port_read_def prod_eq_iff dest!: keeps_poll [where s = s])

lemma keeps_write: "keyboard_write dev n v b t = Done t' \<Longrightarrow> keeps s t \<Longrightarrow> keeps s t'"
  by (auto simp: keyboard_write_def dest!: keeps_poll [where s = s])

lemma keeps_set_scan_code:
  "kbd_set_scan_code n fuel dev t = Done (r, st, t') \<Longrightarrow> keeps s t \<Longrightarrow> keeps s t'"
proof (induction n arbitrary: t)
  case (Suc n)
  then show ?case
    by (auto split: if_splits dest!: keeps_read [where s = s] keeps_write [where s = s])
qed simp

lemma keeps_verify:
  assumes "kbd_verify_scan_code fuel dev st t = Done (r, t')" and "keeps s t"
  shows "keeps s t' \<and> (r = SUCCESS \<longrightarrow> In DATA_PORT_ADDR SCAN_CODE_SET2 \<in> set (trace t'))"
  using assms by (auto simp: kbd_verify_scan_code_def split: if_splits dest!: keeps_read [where s = s] keeps_write [where s = s])

text \<open>The set-up of the keyboard installs the interrupt handler, when asked to, exactly if it
  succeeds, and changes no other entry of the handler table; it succeeds only after the keyboard
  has answered that scan code set 2 is in use.\<close>

theorem keyboard_init_outcome:
  assumes "ps2_keyboard_driver_init fuel dev en s = Done (r, s')"
  shows "irq_handler_table s' =
      (if r = SUCCESS \<and> en then (irq_handler_table s)[IRQ33_KEYBOARD := \<lparr>handler = Some ps2_keyboard_irq_handler_fn, handler_arg = 0\<rparr>]
       else irq_handler_table s)
    \<and> (r = SUCCESS \<longrightarrow> In DATA_PORT_ADDR SCAN_CODE_SET2 \<in> set (trace s'))"
proof -
  obtain r1 s1 where c: "kbd_controller_init dev en s = (r1, s1)" by (cases "kbd_controller_init dev en s")
  have k1: "keeps s s1" using keeps_controller [of s dev en] c by simp
  show ?thesis
  proof (cases r1)
    case FAILURE
    then show ?thesis using assms(1) c k1 by (auto simp: ps2_keyboard_driver_init_def keeps_def)
  next
    case SUCCESS
    obtain r2 st s2 where s2: "kbd_set_scan_code fuel fuel dev s1 = Done (r2, st, s2)"
      using assms(1) c SUCCESS by (auto simp: ps2_keyboard_driver_init_def)
    have k2: "keeps s s2" by (rule keeps_set_scan_code [OF s2 k1])
    show ?thesis
    proof (cases r2)
      case FAILURE
      then show ?thesis using assms(1) c SUCCESS s2 k2 by (auto simp: ps2_keyboard_driver_init_def keeps_def)
    next
      case SUC2: SUCCESS
      obtain r3 s3 where s3: "kbd_verify_scan_code fuel dev st s2 = Done (r3, s3)"
        using assms(1) c SUCCESS s2 SUC2 by (auto simp: ps2_keyboard_driver_init_def)
      note k3 = keeps_verify [OF s3 k2]
      have tab: "irq_handler_table (snd (PIC_clear_mask dev n t)) = irq_handler_table t"
        "set (trace t) \<subseteq> set (trace (snd (PIC_clear_mask dev n t)))" for n and t :: "'a kbd_state_scheme"
        by (auto simp: PIC_clear_mask_def Let_def case_prod_unfold pic_port_and_line_def)
      have valid: "IS_VALID_IRQ IRQ33_KEYBOARD"
        by (simp add: IS_VALID_IRQ_def IS_PIC_IRQ_def IS_EXCEPTION_def IRQ33_KEYBOARD_def irq_numbers)
      show ?thesis
      proof (cases r3)
        case FAILURE
        then show ?thesis using assms(1) c SUCCESS s2 SUC2 s3 k3 by (auto simp: ps2_keyboard_driver_init_def keeps_def)
      next
        case SUC3: SUCCESS
        have t3: "In DATA_PORT_ADDR SCAN_CODE_SET2 \<in> set (trace s3)" "irq_handler_table s3 = irq_handler_table s"
          using k3 SUC3 by (auto simp: keeps_def)
        have k4: "irq_handler_table (command_register_cmd 0xAE s3) = irq_handler_table s3"
          "set (trace s3) \<subseteq> set (trace (command_register_cmd 0xAE s3))"
          by (auto simp: command_register_cmd_def)
        have in4: "In DATA_PORT_ADDR SCAN_CODE_SET2 \<in> set (trace (snd (PIC_clear_mask dev n
            ((command_register_cmd 0xAE s3)\<lparr>irq_handler_table := h\<rparr>))))" for n h
          using tab(2) [of "(command_register_cmd 0xAE s3)\<lparr>irq_handler_table := h\<rparr>" n] k4(2) t3(1) by auto
        show ?thesis
          using assms(1) c SUCCESS s2 SUC2 s3 SUC3 t3 k4 in4 tab(1) valid
          by (auto simp: ps2_keyboard_driver_init_def Let_def IRQ_set_handler_def set_table_def)
      qed
    qed
  qed
qed

section \<open>From the key to the screen\<close>

lemma screen_fields [simp]:
  "vga_mem (say k s) = vga_mem s" "cur_row (say k s) = cur_row s" "cur_col (say k s) = cur_col s"
  "vga_mem (io_wait_n n s) = vga_mem s" "cur_row (io_wait_n n s) = cur_row s" "cur_col (io_wait_n n s) = cur_col s"
  by (simp_all add: say_def io_wait_n_eq)

lemma keyboard_read_once: "keyboard_read dev 1 False s =
    Done (data_port_read dev (snd (status_register_read dev (io_wait_n IO_WAIT_LEN s))))"
  by (simp add: keyboard_read_def Let_def case_prod_unfold)

lemma read_keeps_screen:
  assumes "keyboard_read dev 1 False s = Done (code, s1)"
  shows "vga_mem s1 = vga_mem s" "cur_row s1 = cur_row s" "cur_col s1 = cur_col s"
proof -
  have "s1 = snd (data_port_read dev (snd (status_register_read dev (io_wait_n IO_WAIT_LEN s))))"
    using assms unfolding keyboard_read_once by (simp add: prod_eq_iff)
  then show "vga_mem s1 = vga_mem s" "cur_row s1 = cur_row s" "cur_col s1 = cur_col s"
    by (simp_all add: data_port_read_def status_register_read_def)
qed

lemma released_keeps_screen:
  "vga_mem (snd (key_released c s)) = vga_mem s" "cur_row (snd (key_released c s)) = cur_row s"
  "cur_col (snd (key_released c s)) = cur_col s"
  by (simp_all add: key_released_def Let_def if_distrib [of vga_mem] if_distrib [of cur_row] if_distrib [of cur_col] cong: if_cong)

lemma pressed_keeps_screen:
  "vga_mem (snd (key_pressed c s)) = vga_mem s" "cur_row (snd (key_pressed c s)) = cur_row s"
  "cur_col (snd (key_pressed c s)) = cur_col s"
  by (simp_all add: key_pressed_def Let_def if_distrib [of snd] if_distrib [of vga_mem] if_distrib [of cur_row]
      if_distrib [of cur_col] cong: if_cong)

lemma process_keeps_screen:
  "vga_mem (snd (process_scan_code c s)) = vga_mem s" "cur_row (snd (process_scan_code c s)) = cur_row s"
  "cur_col (snd (process_scan_code c s)) = cur_col s"
  by (simp_all add: process_scan_code_def released_keeps_screen pressed_keeps_screen Let_def)

text \<open>C24: When the keyboard's interrupt is dispatched and the code read is that of a printable
  character, the character appears at the cursor, followed by the bytes that lie behind the parameter of \<open>VGA_display_char\<close>
  in memory up to the next null byte, and the last thing done is the acknowledgement of the interrupt to the first controller. This
  where these bytes have no control characters and fit, with the character, on the rest of the line.\<close>

theorem key_press_reaches_screen:
  assumes h: "handler (irq_handler_table s ! IRQ33_KEYBOARD) = Some ps2_keyboard_irq_handler_fn"
    and rd: "keyboard_read dev 1 False s = Done (code, s1)"
    and key: "process_scan_code (uint code) s1 = (sint k, s2)" and k: "k \<noteq> 0" "sint k \<noteq> NO_CHAR" "regular k"
    and behind: "\<forall>b \<in> set (takeWhile (\<lambda>b. b \<noteq> 0) bs). regular b"
    and cur: "cursor_ok s" "unat (cur_col s) + 1 + length (takeWhile (\<lambda>b. b \<noteq> 0) bs) < VGA_NUM_COLS"
  shows "\<exists>s'. interrupt_handler (call_handler dev bs others) IRQ33_KEYBOARD e s = Done s'
    \<and> (\<forall>r c. on_screen r c \<longrightarrow> cell s' r c =
         (if r = cur_row s \<and> unat (cur_col s) \<le> unat c \<and> unat c < unat (cur_col s) + 1 + length (takeWhile (\<lambda>b. b \<noteq> 0) bs)
          then ((k # takeWhile (\<lambda>b. b \<noteq> 0) bs) ! (unat c - unat (cur_col s)), VGA_CHAR_DEFAULT_ATTR) else cell s r c))
    \<and> hd (trace s') = Out PIC1_COMMAND 0x20"
proof -
  let ?txt = "k # takeWhile (\<lambda>b. b \<noteq> 0) bs"
  have s2: "vga_mem s2 = vga_mem s" "cur_row s2 = cur_row s" "cur_col s2 = cur_col s"
    using read_keeps_screen [OF rd] process_keeps_screen [of "uint code" s1] key by simp_all
  have ok2: "cursor_ok s2" using cur(1) by (simp add: cursor_ok_def s2)
  let ?d = "VGA_display_str dev ?txt s2"
  have cells: "cell s2 = cell s" by (simp add: cell_def s2 fun_eq_iff)
  have cell: "\<forall>r c. on_screen r c \<longrightarrow> cell ?d r c =
         (if r = cur_row s \<and> unat (cur_col s) \<le> unat c \<and> unat c < unat (cur_col s) + 1 + length (takeWhile (\<lambda>b. b \<noteq> 0) bs)
          then (?txt ! (unat c - unat (cur_col s)), VGA_CHAR_DEFAULT_ATTR) else cell s r c)"
    using display_in_place [OF ok2, of ?txt dev VGA_CHAR_DEFAULT_ATTR] cur(2) k(3) behind
    by (simp add: VGA_display_str_def s2 cells)
  have run: "interrupt_handler (call_handler dev bs others) IRQ33_KEYBOARD e s = Done (PIC_send_EOI IRQ33_KEYBOARD ?d)"
    using h rd key k(1,2)
    by (simp add: interrupt_handler_def call_handler_def ps2_keyboard_irq_handler_def VGA_display_char_def
        IS_PIC_IRQ_def IRQ33_KEYBOARD_def irq_numbers)
  have "cell (PIC_send_EOI IRQ33_KEYBOARD t) = cell t \<and> hd (trace (PIC_send_EOI IRQ33_KEYBOARD t)) = Out PIC1_COMMAND 0x20"
    for t :: "'a kbd_state_scheme"
    by (simp add: PIC_send_EOI_def IRQ33_KEYBOARD_def irq_numbers cell_def fun_eq_iff)
  then show ?thesis using run cell by simp
qed

section \<open>Witnesses\<close>

definition idle_kbd :: kbd_state where
  "idle_kbd = vga_state.extend (blank_screen\<lparr>irq_handler_table :=
      (replicate IDT_MAX_IRQ \<lparr>handler = None, handler_arg = 0\<rparr>)
        [IRQ33_KEYBOARD := \<lparr>handler = Some ps2_keyboard_irq_handler_fn, handler_arg = 0\<rparr>]\<rparr>)
     \<lparr>key_state = RELEASED, caps_state = RELEASED, shift_state = RELEASED, ctrl_state = RELEASED, alt_state = RELEASED,
      prev_code = 0, curr_code = 0, ascii_table_LOWER = standard_ascii_table_LOWER, ascii_table_UPPER = standard_ascii_table_UPPER\<rparr>"

lemma idle_kbd_fields:
  "kbd_reset idle_kbd" "cur_row idle_kbd = 24" "cur_col idle_kbd = 70" "cursor_ok idle_kbd"
  by (simp_all add: idle_kbd_def kbd_reset_def vga_state.defs cursor_ok_unat blank_cursor)

theorem keyboard_follows_modifiers_witness:
  "fst (process_scan_code (uint (0x1E :: u8)) (type_codes [0x2A, 0x3A, 0xAA] idle_kbd)) = 65"
proof -
  have "key_char True False 0x1E = 65"
    by (simp add: key_char_def key_release_iff scan_codes standard_ascii_table_LOWER_def swap_case_def Let_def)
  then show ?thesis
    using keyboard_follows_modifiers [OF idle_kbd_fields(1), of "0x1E" "[0x2A, 0x3A, 0xAA]"]
    by (simp add: key_release_iff scan_codes)
qed

theorem keyboard_read_returns_witness:
  "\<exists>j \<le> 0. \<not> sees_empty (\<lambda>_ _. 1) (polled (\<lambda>_ _. 1) j idle_kbd)
     \<and> keyboard_read (\<lambda>_ _. 1) 5 True idle_kbd = Done (data_port_read (\<lambda>_ _. 1) (polled (\<lambda>_ _. 1) (Suc j) idle_kbd))"
  by (rule keyboard_read_returns) (simp_all add: sees_empty_def OUTPUT_BUFF_IS_EMPTY_def status_register_read_def)

theorem keyboard_init_outcome_witness:
  "\<exists>s'. ps2_keyboard_driver_init 1 (\<lambda>_ _. 0) True idle_kbd = Done (FAILURE, s') \<and> irq_handler_table s' = irq_handler_table idle_kbd"
proof -
  have "fst (kbd_controller_init (\<lambda>_ _. 0) True idle_kbd) = FAILURE"
    by (simp add: kbd_controller_init_def Let_def case_prod_unfold command_register_cmd_read_def data_port_read_def)
  then obtain s' where "kbd_controller_init (\<lambda>_ _. 0) True idle_kbd = (FAILURE, s')" by (metis prod.collapse)
  then have run: "ps2_keyboard_driver_init 1 (\<lambda>_ _. 0) True idle_kbd = Done (FAILURE, s')" by (simp add: ps2_keyboard_driver_init_def)
  show ?thesis using keyboard_init_outcome [OF run] run by auto
qed

theorem key_press_reaches_screen_witness:
  "\<exists>s'. interrupt_handler (call_handler (\<lambda>_ _. 0x23) [33, 0, 8] (\<lambda>_ _ _ _ s. Done s)) IRQ33_KEYBOARD 0 idle_kbd = Done s'
    \<and> cell s' 24 70 = (104, VGA_CHAR_DEFAULT_ATTR) \<and> cell s' 24 71 = (33, VGA_CHAR_DEFAULT_ATTR)
    \<and> hd (trace s') = Out PIC1_COMMAND 0x20"
proof -
  let ?dev = "\<lambda>_ _. 0x23 :: u8"
  let ?s1 = "snd (data_port_read ?dev (snd (status_register_read ?dev (io_wait_n IO_WAIT_LEN idle_kbd))))"
  have rd: "keyboard_read ?dev 1 False idle_kbd = Done (0x23, ?s1)"
    unfolding keyboard_read_once by (simp add: prod_eq_iff data_port_read_def)
  have h: "handler (irq_handler_table idle_kbd ! IRQ33_KEYBOARD) = Some ps2_keyboard_irq_handler_fn"
    by (simp add: idle_kbd_def vga_state.defs IRQ33_KEYBOARD_def irq_numbers)
  have "shift_state ?s1 = RELEASED" "ascii_table_LOWER ?s1 = standard_ascii_table_LOWER"
    by (simp_all add: data_port_read_def status_register_read_def inb_def io_wait_n_eq Let_def idle_kbd_def vga_state.defs)
  then have "fst (process_scan_code (uint (0x23 :: u8)) ?s1) = sint (104 :: u8)"
    unfolding process_uint
    by (simp add: key_release_iff key_pressed_def scan_codes ASCII_TABLE_SIZE_def standard_ascii_table_LOWER_def)
  then have key: "process_scan_code (uint (0x23 :: u8)) ?s1 = (sint (104 :: u8), snd (process_scan_code (uint (0x23 :: u8)) ?s1))"
    by (simp add: prod_eq_iff)
  have on: "on_screen 24 70" "on_screen 24 71" by (simp_all add: on_screen_def vga_sizes)
  have "sint (104 :: u8) \<noteq> NO_CHAR" "regular 104" "regular 33" "cursor_ok idle_kbd"
    by (simp_all add: idle_kbd_fields NO_CHAR_def regular_def special_chars)
  with key_press_reaches_screen [OF h rd key, of "[33, 0, 8]" "\<lambda>_ _ _ _ s. Done s" 0] on
  show ?thesis by (auto simp: idle_kbd_fields vga_sizes)
qed

end
