(* ===== verification/Descriptors.thy ===== *)
theory Descriptors imports Irq begin

text \<open>
  src/ISR/gdt.c and src/ISR/idt.c: the global descriptor table with the task state segment, and
  the interrupt descriptor table. The addresses the linker gives (\<open>\&tss\<close>, \<open>\&gdt\<close>, \<open>\&idt\<close>, the
  stacks \<open>ist1\<close> to \<open>ist4\<close>, the table of assembly stubs) are arguments; the instructions that load
  the tables into the processor are recorded in \<open>loads\<close>, newest first.
\<close>

section \<open>Tables\<close>

record gdt_entry_t =
  seg_base :: u64
  seg_limit :: u32
  access_byte :: u8
  seg_flags :: u8

record tss_t =
  rsp0 :: u64
  rsp1 :: u64
  rsp2 :: u64
  ist_ptr :: "nat \<Rightarrow> u64"
  iomap_base :: u16

record idt_entry_t =
  isr_low :: u16
  kernel_cs :: u16
  ist :: u8
  attributes :: u8
  isr_mid :: u16
  isr_high :: u32
  reserved :: u32

datatype cpu_load = LGDT u16 addr | RELOAD_SEGMENTS u16 u16 | LTR u16 | LIDT u16 addr

record tables =
  gdt :: "u8 list list"
  tss :: tss_t
  idt :: "idt_entry_t list"
  vectors :: "bool list"
  loads :: "cpu_load list"

section \<open>The global descriptor table\<close>

definition GDT_NUM_ENTRIES :: nat where "GDT_NUM_ENTRIES = 6 + 1"
definition NULL_DESC_IDX :: nat where "NULL_DESC_IDX = 0"
definition KMODE_CODE_IDX :: nat where "KMODE_CODE_IDX = 1"
definition KMODE_DATA_IDX :: nat where "KMODE_DATA_IDX = 2"
definition UMODE_CODE_IDX :: nat where "UMODE_CODE_IDX = 3"
definition UMODE_DATA_IDX :: nat where "UMODE_DATA_IDX = 4"
definition TSS_IDX :: nat where "TSS_IDX = 5"

lemmas gdt_indices = GDT_NUM_ENTRIES_def NULL_DESC_IDX_def KMODE_CODE_IDX_def KMODE_DATA_IDX_def UMODE_CODE_IDX_def
  UMODE_DATA_IDX_def TSS_IDX_def

definition GDT_ENTRY_LIMIT :: u32 where "GDT_ENTRY_LIMIT = 0xFFFFF"
definition CODE_SEG_FLAGS :: u8 where "CODE_SEG_FLAGS = 0x0A"
definition DATA_SEG_FLAGS :: u8 where "DATA_SEG_FLAGS = 0x0C"
definition KMODE_CODE_SEG_ACCESS_BYTE :: u8 where "KMODE_CODE_SEG_ACCESS_BYTE = 0x9A"
definition KMODE_DATA_SEG_ACCESS_BYTE :: u8 where "KMODE_DATA_SEG_ACCESS_BYTE = 0x92"
definition UMODE_CODE_SEG_ACCESS_BYTE :: u8 where "UMODE_CODE_SEG_ACCESS_BYTE = 0xFA"
definition UMODE_DATA_SEG_ACCESS_BYTE :: u8 where "UMODE_DATA_SEG_ACCESS_BYTE = 0xF2"
definition TASK_STATE_SEG_LIMIT :: u32 where "TASK_STATE_SEG_LIMIT = 104 - 1"
definition TASK_STATE_SEG_ACCESS_BYTE :: u8 where "TASK_STATE_SEG_ACCESS_BYTE = 0x89"
definition TASK_STATE_SEG_FLAGS :: u8 where "TASK_STATE_SEG_FLAGS = 0"

lemmas gdt_values = GDT_ENTRY_LIMIT_def CODE_SEG_FLAGS_def DATA_SEG_FLAGS_def KMODE_CODE_SEG_ACCESS_BYTE_def
  KMODE_DATA_SEG_ACCESS_BYTE_def UMODE_CODE_SEG_ACCESS_BYTE_def UMODE_DATA_SEG_ACCESS_BYTE_def
  TASK_STATE_SEG_LIMIT_def TASK_STATE_SEG_ACCESS_BYTE_def TASK_STATE_SEG_FLAGS_def

text \<open>The eight bytes of a descriptor.\<close>

definition encode_gdt_entry :: "gdt_entry_t \<Rightarrow> u8 list" where
  "encode_gdt_entry source =
     [ucast (seg_limit source AND 0xFF),
      ucast (drop_bit 8 (seg_limit source) AND 0xFF),
      ucast (seg_base source AND 0xFF),
      ucast (drop_bit 8 (seg_base source) AND 0xFF),
      ucast (drop_bit 16 (seg_base source) AND 0xFF),
      access_byte source,
      ucast ((drop_bit 16 (seg_limit source) AND 0x0F) OR (push_bit 4 (ucast (seg_flags source)) AND 0xF0)),
      ucast (drop_bit 24 (seg_base source) AND 0xFF)]"

definition put_entry :: "nat \<Rightarrow> gdt_entry_t \<Rightarrow> tables \<Rightarrow> tables" where
  "put_entry i e t = t\<lparr>gdt := (gdt t)[i := encode_gdt_entry e]\<rparr>"

text \<open>The first four bytes of the next entry are the upper half of the base; \<open>memcpy\<close> leaves the
  other four.\<close>

definition tss_init :: "addr \<Rightarrow> (nat \<Rightarrow> addr) \<Rightarrow> tables \<Rightarrow> tables" where
  "tss_init tss_addr ist_addr t =
     (let t = t\<lparr>tss := (tss t)\<lparr>rsp0 := 0, rsp1 := 0, rsp2 := 0\<rparr>\<rparr>;
          t = t\<lparr>tss := (tss t)\<lparr>ist_ptr := (ist_ptr (tss t))(1 := ist_addr 1, 2 := ist_addr 2, 3 := ist_addr 3,
                                 4 := ist_addr 4, 5 := 0, 6 := 0, 7 := 0)\<rparr>\<rparr>;
          t = t\<lparr>tss := (tss t)\<lparr>iomap_base := 0\<rparr>\<rparr>;
          e = \<lparr>seg_base = tss_addr, seg_limit = TASK_STATE_SEG_LIMIT, access_byte = TASK_STATE_SEG_ACCESS_BYTE,
               seg_flags = TASK_STATE_SEG_FLAGS\<rparr>;
          t = put_entry TSS_IDX e t;
          base_very_high = ucast (drop_bit 32 (seg_base e) AND 0xFFFFFFFF) :: u32;
          bytes = map (\<lambda>i. ucast (drop_bit (8 * i) base_very_high)) [0..<4] :: u8 list
      in t\<lparr>gdt := (gdt t)[TSS_IDX + 1 := bytes @ drop 4 (gdt t ! (TSS_IDX + 1))]\<rparr>)"

definition gdt_init :: "addr \<Rightarrow> addr \<Rightarrow> (nat \<Rightarrow> addr) \<Rightarrow> tables \<Rightarrow> tables" where
  "gdt_init gdt_addr tss_addr ist_addr t =
     (let e = \<lparr>seg_base = 0, seg_limit = 0, access_byte = 0, seg_flags = 0\<rparr>;
          t = put_entry NULL_DESC_IDX e t;
          e = \<lparr>seg_base = 0, seg_limit = GDT_ENTRY_LIMIT, access_byte = KMODE_CODE_SEG_ACCESS_BYTE, seg_flags = CODE_SEG_FLAGS\<rparr>;
          t = put_entry KMODE_CODE_IDX e t;
          e = \<lparr>seg_base = 0, seg_limit = GDT_ENTRY_LIMIT, access_byte = KMODE_DATA_SEG_ACCESS_BYTE, seg_flags = DATA_SEG_FLAGS\<rparr>;
          t = put_entry KMODE_DATA_IDX e t;
          e = \<lparr>seg_base = 0, seg_limit = GDT_ENTRY_LIMIT, access_byte = UMODE_CODE_SEG_ACCESS_BYTE, seg_flags = CODE_SEG_FLAGS\<rparr>;
          t = put_entry UMODE_CODE_IDX e t;
          e = \<lparr>seg_base = 0, seg_limit = GDT_ENTRY_LIMIT, access_byte = UMODE_DATA_SEG_ACCESS_BYTE, seg_flags = DATA_SEG_FLAGS\<rparr>;
          t = put_entry UMODE_DATA_IDX e t;
          t = tss_init tss_addr ist_addr t;
          t = t\<lparr>loads := LGDT (of_nat (8 * GDT_NUM_ENTRIES)) gdt_addr # loads t\<rparr>;
          t = t\<lparr>loads := RELOAD_SEGMENTS 0x08 0x10 # loads t\<rparr>
      in t\<lparr>loads := LTR 0x28 # loads t\<rparr>)"

section \<open>The interrupt descriptor table\<close>

definition PRESENT_FLAG :: u32 where "PRESENT_FLAG = 0x80"
definition INTERRUPT_GATE_FLAG :: u32 where "INTERRUPT_GATE_FLAG = 0x0E"
definition GP_IST :: u8 where "GP_IST = 1"
definition PF_IST :: u8 where "PF_IST = 2"
definition DF_IST :: u8 where "DF_IST = 3"

definition idt_set_descriptor :: "nat \<Rightarrow> addr \<Rightarrow> u8 \<Rightarrow> tables \<Rightarrow> tables" where
  "idt_set_descriptor irq isr_addr flags t =
     t\<lparr>idt := (idt t)[irq :=
       \<lparr>isr_low = ucast (isr_addr AND 0xFFFF), kernel_cs = 0x08, ist = 0, attributes = flags,
        isr_mid = ucast (drop_bit 16 isr_addr AND 0xFFFF), isr_high = ucast (drop_bit 32 isr_addr AND 0xFFFFFFFF),
        reserved = 0\<rparr>]\<rparr>"

definition idt_set_ist :: "nat \<Rightarrow> u8 \<Rightarrow> tables \<Rightarrow> tables" where
  "idt_set_ist irq i t = t\<lparr>idt := (idt t)[irq := (idt t ! irq)\<lparr>ist := i\<rparr>]\<rparr>"

definition idt_entry :: "(nat \<Rightarrow> addr) \<Rightarrow> nat \<Rightarrow> tables \<Rightarrow> tables" where
  "idt_entry isr_stub_table irq t =
     (let t = idt_set_descriptor irq (isr_stub_table irq) (ucast (PRESENT_FLAG OR INTERRUPT_GATE_FLAG)) t
      in t\<lparr>vectors := (vectors t)[irq := True]\<rparr>)"

definition idt_init :: "addr \<Rightarrow> (nat \<Rightarrow> addr) \<Rightarrow> tables \<Rightarrow> tables" where
  "idt_init idt_addr isr_stub_table t =
     (let t = fold (idt_entry isr_stub_table) [0..<IDT_MAX_IRQ] t;
          t = idt_set_ist 8 GP_IST t;
          t = idt_set_ist 13 DF_IST t;
          t = idt_set_ist 14 PF_IST t
      in t\<lparr>loads := LIDT (of_nat (16 * (IDT_MAX_IRQ - 1))) idt_addr # loads t\<rparr>)"

section \<open>What the processor reads\<close>

text \<open>The fields of a segment descriptor and of an interrupt gate, as the processor puts them together
  from their pieces.\<close>

definition desc_base :: "u8 list \<Rightarrow> u64" where
  "desc_base d = ucast (d ! 2) OR push_bit 8 (ucast (d ! 3)) OR push_bit 16 (ucast (d ! 4)) OR push_bit 24 (ucast (d ! 7))"

definition desc_limit :: "u8 list \<Rightarrow> u32" where
  "desc_limit d = ucast (d ! 0) OR push_bit 8 (ucast (d ! 1)) OR push_bit 16 (ucast (d ! 6) AND 0x0F)"

definition desc_flags :: "u8 list \<Rightarrow> u8" where "desc_flags d = drop_bit 4 (d ! 6)"

definition decode_gdt_entry :: "u8 list \<Rightarrow> gdt_entry_t" where
  "decode_gdt_entry d = \<lparr>seg_base = desc_base d, seg_limit = desc_limit d, access_byte = d ! 5, seg_flags = desc_flags d\<rparr>"

definition system_base :: "u8 list \<Rightarrow> u8 list \<Rightarrow> u64" where
  "system_base d d' = desc_base d OR push_bit 32 (ucast (d' ! 0) OR push_bit 8 (ucast (d' ! 1)) OR push_bit 16 (ucast (d' ! 2))
      OR push_bit 24 (ucast (d' ! 3)))"

definition gate_target :: "idt_entry_t \<Rightarrow> addr" where
  "gate_target g = ucast (isr_low g) OR push_bit 16 (ucast (isr_mid g)) OR push_bit 32 (ucast (isr_high g))"

text \<open>The processor accepts a vector when its whole gate of 16 bytes lies within the limit.\<close>

definition vector_in_limit :: "u16 \<Rightarrow> nat \<Rightarrow> bool" where
  "vector_in_limit limit v \<longleftrightarrow> 16 * v + 15 \<le> unat limit"

end
