(* ===== verification/DescriptorProps.thy ===== *)
theory DescriptorProps imports Descriptors begin

text \<open>
  The descriptor tables against the way the processor reads them: fields survive the encoding, the
  tables the kernel sets up decode to flat segments, the task state segment and the assembly stubs,
  and which vectors the limit of the interrupt table covers.
\<close>

section \<open>Bits\<close>

text \<open>The bits of one byte of a word, put back in its place.\<close>

definition byte_at :: "nat \<Rightarrow> 'a::len word \<Rightarrow> u8" where "byte_at i w = ucast (drop_bit i w AND 0xFF)"

lemma byte_at_take: "byte_at i w = ucast (take_bit 8 (drop_bit i w))"
proof -
  have m: "(0xFF :: 'a word) = mask 8" by (simp add: mask_eq_exp_minus_1)
  show ?thesis unfolding byte_at_def m take_bit_eq_mask ..
qed

lemma bit_byte_at: "bit (byte_at i (w :: 'a::len word)) n \<longleftrightarrow> n < 8 \<and> bit w (i + n)"
  using bit_imp_le_length [of w "i + n"]
  by (auto simp: byte_at_take bit_unsigned_iff bit_take_bit_iff bit_drop_bit_eq)

lemma bit_byte_back:
  "bit (push_bit i (ucast (byte_at i (w :: 'a::len word)) :: 'b::len word)) n \<longleftrightarrow> i \<le> n \<and> n < i + 8 \<and> n < LENGTH('b) \<and> bit w n"
  by (auto simp: bit_push_bit_iff bit_unsigned_iff bit_byte_at)

lemma bit_byte_back_0:
  "bit (ucast (byte_at 0 (w :: 'a::len word)) :: 'b::len word) n \<longleftrightarrow> n < 8 \<and> n < LENGTH('b) \<and> bit w n"
  using bit_byte_back [of 0 w n, where 'b = 'b] by simp

lemma bytes_32:
  fixes w :: "'a::len word"
  shows "ucast (byte_at 0 w) OR push_bit 8 (ucast (byte_at 8 w)) OR push_bit 16 (ucast (byte_at 16 w))
      OR push_bit 24 (ucast (byte_at 24 w)) = (take_bit 32 (ucast w) :: u64)"
proof (rule bit_word_eqI)
  fix n assume "n < LENGTH(64)"
  then show "bit (ucast (byte_at 0 w) OR push_bit 8 (ucast (byte_at 8 w)) OR push_bit 16 (ucast (byte_at 16 w))
      OR push_bit 24 (ucast (byte_at 24 w)) :: u64) n = bit (take_bit 32 (ucast w) :: u64) n"
    by (auto simp: bit_or_iff bit_byte_back bit_byte_at bit_take_bit_iff bit_unsigned_iff)
qed

section \<open>Segment descriptors\<close>

lemma bit_limit_high: "bit (ucast ((drop_bit 16 (l :: u32) AND 0x0F) OR (push_bit 4 (ucast (f :: u8)) AND 0xF0)) :: u8) n \<longleftrightarrow>
    n < 8 \<and> (if n < 4 then bit l (16 + n) else bit f (n - 4))"
proof -
  have m: "(0x0F :: u32) = mask 4" "(0xF0 :: u32) = push_bit 4 (mask 4)" by (simp_all add: mask_eq_exp_minus_1)
  show ?thesis
    unfolding m
    by (auto simp: bit_unsigned_iff bit_or_iff bit_and_iff bit_mask_iff bit_push_bit_iff bit_drop_bit_eq
        dest: bit_imp_le_length)
qed

lemma limit_round:
  fixes l :: u32
  shows "ucast (byte_at 0 l) OR push_bit 8 (ucast (byte_at 8 l))
      OR push_bit 16 (ucast (ucast ((drop_bit 16 l AND 0x0F) OR (push_bit 4 (ucast (f :: u8)) AND 0xF0)) :: u8) AND 0x0F) = take_bit 20 l"
proof (rule bit_word_eqI)
  fix n assume n: "n < LENGTH(32)"
  have m: "(0x0F :: u32) = mask 4" by (simp add: mask_eq_exp_minus_1)
  have low4: "bit (push_bit 16 (ucast (x :: u8) AND 0x0F :: u32)) n \<longleftrightarrow> 16 \<le> n \<and> n < 20 \<and> bit x (n - 16)" for x
    unfolding m using n by (auto simp: bit_push_bit_iff bit_and_iff bit_unsigned_iff bit_mask_iff)
  have hi: "bit (push_bit 16 (ucast (ucast ((drop_bit 16 l AND 0x0F) OR (push_bit 4 (ucast f) AND 0xF0)) :: u8) AND 0x0F :: u32)) n
      \<longleftrightarrow> 16 \<le> n \<and> n < 20 \<and> bit l n"
    unfolding low4 bit_limit_high by auto
  show "bit (ucast (byte_at 0 l) OR push_bit 8 (ucast (byte_at 8 l))
      OR push_bit 16 (ucast (ucast ((drop_bit 16 l AND 0x0F) OR (push_bit 4 (ucast f) AND 0xF0)) :: u8) AND 0x0F) :: u32) n = bit (take_bit 20 l) n"
    unfolding bit_or_iff hi bit_byte_back
    using n by (auto simp: bit_byte_at bit_take_bit_iff bit_unsigned_iff)
qed

lemma flags_round:
  "drop_bit 4 (ucast ((drop_bit 16 (l :: u32) AND 0x0F) OR (push_bit 4 (ucast (f :: u8)) AND 0xF0)) :: u8) = take_bit 4 f"
  by (rule bit_word_eqI) (auto simp: bit_drop_bit_eq bit_limit_high bit_take_bit_iff)

lemma decode_encode:
  "decode_gdt_entry (encode_gdt_entry e) =
     e\<lparr>seg_base := take_bit 32 (seg_base e), seg_limit := take_bit 20 (seg_limit e), seg_flags := take_bit 4 (seg_flags e)\<rparr>"
proof -
  have "desc_base (encode_gdt_entry e) = take_bit 32 (seg_base e)"
    using bytes_32 [of "seg_base e"] by (simp add: desc_base_def encode_gdt_entry_def byte_at_def)
  moreover have "desc_limit (encode_gdt_entry e) = take_bit 20 (seg_limit e)"
    using limit_round [of "seg_limit e" "seg_flags e"] by (simp add: desc_limit_def encode_gdt_entry_def byte_at_def)
  moreover have "desc_flags (encode_gdt_entry e) = take_bit 4 (seg_flags e)"
    by (simp add: desc_flags_def encode_gdt_entry_def flags_round)
  ultimately show ?thesis by (simp add: decode_gdt_entry_def encode_gdt_entry_def)
qed

text \<open>C20: What the processor reads from the eight bytes of an encoded descriptor is the entry: the low
  32 bits of the base, the low 20 of the limit, the access byte and the low four flags, for every
  entry.\<close>

theorem gdt_entry_roundtrip:
  "decode_gdt_entry (encode_gdt_entry e) =
     \<lparr>seg_base = take_bit 32 (seg_base e), seg_limit = take_bit 20 (seg_limit e), access_byte = access_byte e,
      seg_flags = take_bit 4 (seg_flags e)\<rparr>"
  using decode_encode [of e] by simp

section \<open>The tables after set-up\<close>

definition flat :: "u8 \<Rightarrow> u8 \<Rightarrow> gdt_entry_t" where
  "flat access fl = \<lparr>seg_base = 0, seg_limit = 0xFFFFF, access_byte = access, seg_flags = fl\<rparr>"

lemma seven:
  assumes "length xs = 7" obtains a b c d e f g where "xs = [a, b, c, d, e, f, g]"
  using assms by (auto simp: numeral_eq_Suc length_Suc_conv)

lemma upper_bytes:
  fixes w :: u64
  shows "system_base (encode_gdt_entry (e\<lparr>seg_base := w\<rparr>))
      (map (\<lambda>i. ucast (drop_bit (8 * i) (ucast (drop_bit 32 w AND 0xFFFFFFFF) :: u32))) [0..<4] @ rest) = w"
proof -
  let ?h = "ucast (drop_bit 32 w AND 0xFFFFFFFF) :: u32"
  have m: "(0xFFFFFFFF :: u64) = mask 32" by (simp add: mask_eq_exp_minus_1)
  have b: "(ucast (drop_bit i ?h) :: u8) = byte_at i ?h" for i
    by (rule bit_word_eqI) (auto simp: bit_byte_at bit_unsigned_iff bit_drop_bit_eq dest: bit_imp_le_length)
  have four: "[0..<4] = [0, 1, 2, 3 :: nat]" by (simp add: upt_rec)
  have base: "desc_base (encode_gdt_entry (e\<lparr>seg_base := w\<rparr>)) = take_bit 32 w"
    using arg_cong [OF decode_encode [of "e\<lparr>seg_base := w\<rparr>"], of seg_base] by (simp add: decode_gdt_entry_def)
  have "(ucast (byte_at 0 ?h) OR push_bit 8 (ucast (byte_at 8 ?h)) OR push_bit 16 (ucast (byte_at 16 ?h))
      OR push_bit 24 (ucast (byte_at 24 ?h)) :: u64) = take_bit 32 (ucast ?h)"
    by (rule bytes_32)
  then have "system_base (encode_gdt_entry (e\<lparr>seg_base := w\<rparr>)) (map (\<lambda>i. ucast (drop_bit (8 * i) ?h)) [0..<4] @ rest)
      = take_bit 32 w OR push_bit 32 (take_bit 32 (ucast ?h))"
    unfolding system_base_def base by (simp only: four b list.map append_Cons nth_Cons_0 nth_Cons_numeral nth_Cons_Suc
        One_nat_def mult_0_right mult_1_right) (simp add: b)
  also have "\<dots> = w"
    unfolding m
    by (rule bit_word_eqI) (auto simp: bit_or_iff bit_push_bit_iff bit_take_bit_iff bit_unsigned_iff bit_and_iff bit_mask_iff bit_drop_bit_eq)
  finally show ?thesis .
qed

lemma gdt_init_table:
  assumes "gdt t = [a, b, c, d, e, f, g]"
  shows "\<exists>tss_bytes upper. gdt (gdt_init gdt_addr tss_addr ist_addr t) =
      [encode_gdt_entry \<lparr>seg_base = 0, seg_limit = 0, access_byte = 0, seg_flags = 0\<rparr>,
       encode_gdt_entry (flat 0x9A 0x0A), encode_gdt_entry (flat 0x92 0x0C),
       encode_gdt_entry (flat 0xFA 0x0A), encode_gdt_entry (flat 0xF2 0x0C), tss_bytes, upper]
    \<and> decode_gdt_entry tss_bytes = \<lparr>seg_base = take_bit 32 tss_addr, seg_limit = 103, access_byte = 0x89, seg_flags = 0\<rparr>
    \<and> system_base tss_bytes upper = tss_addr"
proof -
  let ?e = "\<lparr>seg_base = tss_addr, seg_limit = TASK_STATE_SEG_LIMIT, access_byte = TASK_STATE_SEG_ACCESS_BYTE,
             seg_flags = TASK_STATE_SEG_FLAGS\<rparr>"
  let ?u = "map (\<lambda>i. ucast (drop_bit (8 * i) (ucast (drop_bit 32 tss_addr AND 0xFFFFFFFF) :: u32))) [0..<4] @ drop 4 g :: u8 list"
  have "gdt (gdt_init gdt_addr tss_addr ist_addr t) =
      [encode_gdt_entry \<lparr>seg_base = 0, seg_limit = 0, access_byte = 0, seg_flags = 0\<rparr>,
       encode_gdt_entry (flat 0x9A 0x0A), encode_gdt_entry (flat 0x92 0x0C),
       encode_gdt_entry (flat 0xFA 0x0A), encode_gdt_entry (flat 0xF2 0x0C), encode_gdt_entry ?e, ?u]"
    by (simp add: gdt_init_def tss_init_def put_entry_def Let_def assms gdt_indices flat_def gdt_values del: upt_rec_numeral)
  moreover have "decode_gdt_entry (encode_gdt_entry ?e) = \<lparr>seg_base = take_bit 32 tss_addr, seg_limit = 103, access_byte = 0x89, seg_flags = 0\<rparr>"
    by (simp add: decode_encode gdt_values)
  moreover have "system_base (encode_gdt_entry ?e) ?u = tss_addr"
    using upper_bytes [where e = ?e and w = tss_addr and rest = "drop 4 g"] by (simp only: gdt_entry_t.simps)
  ultimately show ?thesis by blast
qed

text \<open>After gdt_init the processor reads a null descriptor, flat 4 GiB code and data segments for
  the kernel and for user programs, and, in the two last entries, the task state segment with all
  64 bits of its address and a limit of its size less one.\<close>

theorem gdt_init_segments:
  assumes "length (gdt t) = GDT_NUM_ENTRIES"
  shows "map decode_gdt_entry (take 6 (gdt (gdt_init gdt_addr tss_addr ist_addr t))) =
      [\<lparr>seg_base = 0, seg_limit = 0, access_byte = 0, seg_flags = 0\<rparr>, flat 0x9A 0x0A, flat 0x92 0x0C, flat 0xFA 0x0A, flat 0xF2 0x0C,
       \<lparr>seg_base = take_bit 32 tss_addr, seg_limit = 103, access_byte = 0x89, seg_flags = 0\<rparr>]
    \<and> system_base (gdt (gdt_init gdt_addr tss_addr ist_addr t) ! TSS_IDX) (gdt (gdt_init gdt_addr tss_addr ist_addr t) ! (TSS_IDX + 1)) = tss_addr"
proof -
  have "length (gdt t) = 7" using assms by (simp add: GDT_NUM_ENTRIES_def)
  then obtain a b c d e f g where "gdt t = [a, b, c, d, e, f, g]" by (rule seven)
  from gdt_init_table [OF this, of gdt_addr tss_addr ist_addr] show ?thesis
    by (auto simp: decode_encode flat_def TSS_IDX_def)
qed

definition fresh_tables :: tables where
  "fresh_tables = \<lparr>gdt = replicate 7 (replicate 8 0), tss = \<lparr>rsp0 = 0, rsp1 = 0, rsp2 = 0, ist_ptr = (\<lambda>_. 0), iomap_base = 0\<rparr>,
     idt = replicate 48 \<lparr>isr_low = 0, kernel_cs = 0, ist = 0, attributes = 0, isr_mid = 0, isr_high = 0, reserved = 0\<rparr>,
     vectors = replicate 48 False, loads = []\<rparr>"

theorem gdt_init_segments_witness:
  "system_base (gdt (gdt_init 0x1000 0x123456789A (\<lambda>_. 0) fresh_tables) ! 5) (gdt (gdt_init 0x1000 0x123456789A (\<lambda>_. 0) fresh_tables) ! 6) = 0x123456789A"
  using gdt_init_segments [of fresh_tables "0x1000" "0x123456789A" "\<lambda>_. 0"]
  by (simp add: fresh_tables_def GDT_NUM_ENTRIES_def TSS_IDX_def)

section \<open>Interrupt gates\<close>

lemma gate_target_set:
  fixes a :: addr
  shows "ucast (ucast (a AND 0xFFFF) :: u16) OR push_bit 16 (ucast (ucast (drop_bit 16 a AND 0xFFFF) :: u16))
      OR push_bit 32 (ucast (ucast (drop_bit 32 a AND 0xFFFFFFFF) :: u32)) = a"
proof -
  have m: "(0xFFFF :: u64) = mask 16" "(0xFFFFFFFF :: u64) = mask 32" by (simp_all add: mask_eq_exp_minus_1)
  show ?thesis
  proof (rule bit_word_eqI)
    fix n assume "n < LENGTH(64)"
    then show "bit (ucast (ucast (a AND 0xFFFF) :: u16) OR push_bit 16 (ucast (ucast (drop_bit 16 a AND 0xFFFF) :: u16))
        OR push_bit 32 (ucast (ucast (drop_bit 32 a AND 0xFFFFFFFF) :: u32)) :: u64) n = bit a n"
      unfolding m
      by (cases "32 \<le> n") (auto simp: bit_or_iff bit_push_bit_iff bit_unsigned_iff bit_and_iff bit_mask_iff bit_drop_bit_eq)
  qed
qed

definition gate :: "addr \<Rightarrow> u8 \<Rightarrow> idt_entry_t" where
  "gate a i = \<lparr>isr_low = ucast (a AND 0xFFFF), kernel_cs = 0x08, ist = i, attributes = 0x8E,
     isr_mid = ucast (drop_bit 16 a AND 0xFFFF), isr_high = ucast (drop_bit 32 a AND 0xFFFFFFFF), reserved = 0\<rparr>"

lemma fold_idt_entry:
  "n \<le> length (idt t) \<Longrightarrow> length (idt (fold (idt_entry stub) [0..<n] t)) = length (idt t)
     \<and> (\<forall>v < n. idt (fold (idt_entry stub) [0..<n] t) ! v = gate (stub v) 0)"
proof (induction n)
  case (Suc n)
  then show ?case
    by (auto simp: idt_entry_def idt_set_descriptor_def Let_def gate_def PRESENT_FLAG_def INTERRUPT_GATE_FLAG_def
        nth_list_update less_Suc_eq)
qed simp

lemma idt_init_gates:
  assumes "length (idt t) = IDT_MAX_IRQ" and "v < IDT_MAX_IRQ"
  shows "idt (idt_init idt_addr stub t) ! v =
    gate (stub v) (if v = 8 then GP_IST else if v = 13 then DF_IST else if v = 14 then PF_IST else 0)"
proof -
  let ?f = "fold (idt_entry stub) [0..<IDT_MAX_IRQ] t"
  have f: "length (idt ?f) = IDT_MAX_IRQ" "idt ?f ! 8 = gate (stub 8) 0" "idt ?f ! 13 = gate (stub 13) 0"
      "idt ?f ! 14 = gate (stub 14) 0" "idt ?f ! v = gate (stub v) 0"
    using fold_idt_entry [of IDT_MAX_IRQ t stub] assms by (simp_all add: irq_numbers)
  have upd: "(gate a i)\<lparr>ist := j\<rparr> = gate a j" for a i j by (simp add: gate_def)
  show ?thesis
    using f assms(2) by (simp add: idt_init_def Let_def idt_set_ist_def nth_list_update upd irq_numbers)
qed

text \<open>After idt_init every vector's gate leads to its assembly stub in the kernel's code segment,
  present and as an interrupt gate; the double fault, general protection and page fault vectors run
  on the stacks 1, 3 and 2, all others on the current one.\<close>

theorem idt_init_targets:
  assumes "length (idt t) = IDT_MAX_IRQ" and "v < IDT_MAX_IRQ"
  shows "gate_target (idt (idt_init idt_addr stub t) ! v) = stub v
    \<and> kernel_cs (idt (idt_init idt_addr stub t) ! v) = 0x08 \<and> attributes (idt (idt_init idt_addr stub t) ! v) = 0x8E
    \<and> ist (idt (idt_init idt_addr stub t) ! v) = (if v = 8 then 1 else if v = 13 then 3 else if v = 14 then 2 else 0)"
  unfolding idt_init_gates [OF assms] gate_target_def
  by (simp add: gate_def gate_target_set GP_IST_def DF_IST_def PF_IST_def)

theorem idt_init_targets_witness:
  "gate_target (idt (idt_init 0x2000 (\<lambda>v. 0x100000 + of_nat v * 16) fresh_tables) ! 33) = 0x100210"
  using idt_init_targets [of fresh_tables 33 "0x2000" "\<lambda>v. 0x100000 + of_nat v * 16"]
  by (simp add: fresh_tables_def irq_numbers)

text \<open>The limit that idt_init loads covers the gates of all vectors but the last: vector 47 of the
  second controller has a gate that the processor does not accept.\<close>

theorem idt_limit_misses_last:
  "\<exists>limit. hd (loads (idt_init idt_addr stub t)) = LIDT limit idt_addr \<and> (\<forall>v. vector_in_limit limit v \<longleftrightarrow> v < IDT_MAX_IRQ - 1)"
proof (intro exI conjI)
  show "hd (loads (idt_init idt_addr stub t)) = LIDT 752 idt_addr"
    by (simp add: idt_init_def Let_def irq_numbers)
  show "\<forall>v. vector_in_limit 752 v \<longleftrightarrow> v < IDT_MAX_IRQ - 1"
    by (auto simp: vector_in_limit_def irq_numbers)
qed

end
