(* ===== verification/KernelMain.thy ===== *)
theory KernelMain imports MmuInit Keyboard Printk Descriptors Proc begin

text \<open>
  src/boot/kernel\_main.c and \<open>IRQ_init\<close> of src/ISR/irq\_handler.c: the order in which the parts of
  the kernel are set up, and the single run of the scheduler at the end. The memory manager is the
  memory that the kernel heap, and so the thread system, takes its bytes from.
\<close>

section \<open>The whole kernel\<close>

record kernel =
  devs :: kbd_state
  desc :: tables
  threads :: "mmu proc"

text \<open>The addresses and contents that the linker, the boot loader and the assembly files give.\<close>

record kernel_env =
  boot_mem :: mem
  kernel_start :: addr
  kernel_end :: addr
  gdt_address :: addr
  tss_address :: addr
  idt_address :: addr
  ist_address :: "nat \<Rightarrow> addr"
  isr_stubs :: "nat \<Rightarrow> addr"
  splash :: "u8 list"

abbreviation mem_of :: "kernel \<Rightarrow> mmu" where "mem_of k \<equiv> brk_state (heap (threads k))"

definition with_mem :: "mmu \<Rightarrow> kernel \<Rightarrow> kernel" where
  "with_mem m k = k\<lparr>threads := (threads k)\<lparr>heap := (heap (threads k))\<lparr>brk_state := m\<rparr>\<rparr>\<rparr>"

definition with_devs :: "(kbd_state \<Rightarrow> kbd_state) \<Rightarrow> kernel \<Rightarrow> kernel" where
  "with_devs f k = k\<lparr>devs := f (devs k)\<rparr>"

section \<open>Interrupts\<close>

definition IRQ_init :: "device \<Rightarrow> kernel_env \<Rightarrow> kernel \<Rightarrow> driver_status_t \<times> kernel" where
  "IRQ_init dev env k =
     (let k = with_devs IRQ_disable k;
          k = k\<lparr>desc := gdt_init (gdt_address env) (tss_address env) (ist_address env) (desc k)\<rparr>;
          k = k\<lparr>desc := idt_init (idt_address env) (isr_stubs env) (desc k)\<rparr>;
          k = with_devs (PIC_init dev) k;
          k = with_devs (timer_init dev False) k
      in (SUCCESS, k))"

section \<open>The parts, in turn\<close>

text \<open>Each part returns 0, or 1 where its driver fails.\<close>

definition VGA_init :: "device \<Rightarrow> kernel \<Rightarrow> int \<times> kernel" where
  "VGA_init dev k =
     (let (r, d) = VGA_driver_init dev (devs k); k = k\<lparr>devs := d\<rparr> in
      if r = FAILURE then (1, with_devs (say (OS_ERROR ''VGA driver initialization failed!'' [])) k)
      else let k = with_devs VGA_clear k
           in (0, with_devs (say (OS_INFO ''VGA driver initialization is complete!'' [])) k))"

definition SER_init :: "device \<Rightarrow> kernel \<Rightarrow> int \<times> kernel" where
  "SER_init dev k =
     (let (r, d) = serial_driver_init dev (devs k); k = k\<lparr>devs := d\<rparr> in
      if r = FAILURE then (1, with_devs (say (OS_ERROR ''Serial driver initialization failed!'' [])) k)
      else let k = with_devs (serial_print dev [ESC, 99]) k
           in (0, with_devs (say (OS_INFO ''Serial driver initialization is complete!'' [])) k))"

text \<open>\<open>MMU_init\<close> halts where it fails, so its status is always success.\<close>

definition MEM_init :: "nat \<Rightarrow> kernel_env \<Rightarrow> u64 \<Rightarrow> addr \<Rightarrow> kernel \<Rightarrow> (int \<times> kernel) res" where
  "MEM_init fuel env magic tags k =
     (if magic \<noteq> MULTIBOOT2_BOOTLOADER_MAGIC
      then Done (1, with_devs (say (OS_ERROR ''Invalid Multiboot2 header!'' [])) k)
      else res_bind (MMU_init fuel (boot_mem env) (kernel_start env) (kernel_end env) tags (mem_of k) (devs k)) (\<lambda>(m, d).
        let k = with_mem m (k\<lparr>devs := d\<rparr>)
        in Done (0, with_devs (say (OS_INFO ''Memory manager initialization is complete!'' [])) k)))"

definition ISR_init :: "device \<Rightarrow> kernel_env \<Rightarrow> kernel \<Rightarrow> int \<times> kernel" where
  "ISR_init dev env k =
     (let (r, k) = IRQ_init dev env k in
      if r = FAILURE then (1, with_devs (say (OS_ERROR ''ISR initialization failed!'' [])) k)
      else (0, with_devs (say (OS_INFO ''ISR initialization is complete!'' [])) k))"

definition KB_init :: "nat \<Rightarrow> device \<Rightarrow> kernel \<Rightarrow> (int \<times> kernel) res" where
  "KB_init fuel dev k =
     res_bind (ps2_keyboard_driver_init fuel dev True (devs k)) (\<lambda>(r, d).
       let k = k\<lparr>devs := d\<rparr> in
       if r = FAILURE then Done (1, with_devs (say (OS_ERROR ''Keyboard driver initialization failed!'' [])) k)
       else Done (0, with_devs (say (OS_INFO ''Keyboard driver initialization is complete!'' [])) k))"

definition splash_screen :: "device \<Rightarrow> u8 list \<Rightarrow> kbd_state \<Rightarrow> kbd_state res" where
  "splash_screen dev text s =
     fold (\<lambda>c r. res_bind r (printk dev (bytes_of ''%c'') [VArg (scast c)])) text (Done s)"

definition system_initialization :: "nat \<Rightarrow> device \<Rightarrow> kernel_env \<Rightarrow> u64 \<Rightarrow> addr \<Rightarrow> kernel \<Rightarrow> (int \<times> kernel) res" where
  "system_initialization fuel dev env magic tags k =
     (let (r, k) = VGA_init dev k in
      if r \<noteq> 0 then Done (1, k)
      else let (r, k) = SER_init dev k in
      if r \<noteq> 0 then Done (1, k)
      else res_bind (MEM_init fuel env magic tags k) (\<lambda>(r, k).
      if r \<noteq> 0 then Done (1, k)
      else let (r, k) = ISR_init dev env k in
      if r \<noteq> 0 then Done (1, k)
      else res_bind (KB_init fuel dev k) (\<lambda>(r, k).
      if r \<noteq> 0 then Done (1, k)
      else let k = with_devs (say (OS_INFO ''System initialization is complete!'' [])) k in
        res_bind (splash_screen dev (splash env) (devs k)) (\<lambda>d.
        let k = k\<lparr>devs := d\<rparr>;
            k = with_devs IRQ_enable k
        in res_bind (printk dev [LF] [] (devs k)) (\<lambda>d. Done (0, k\<lparr>devs := d\<rparr>))))))"

text \<open>\<open>kernel_main\<close> never returns; \<open>kernel_boot\<close> is its run up to the final halt.\<close>

definition kernel_boot :: "nat \<Rightarrow> device \<Rightarrow> kernel_env \<Rightarrow> (addr \<Rightarrow> mmu proc sched_ops) \<Rightarrow> u64 \<Rightarrow> addr \<Rightarrow> kernel \<Rightarrow> kernel res" where
  "kernel_boot fuel dev env others magic tags k =
     res_bind (system_initialization fuel dev env magic tags k) (\<lambda>(r, k).
     if r \<noteq> 0 then Halt ''System initialization failed!''
     else let k = with_devs (say (OS_INFO ''Testing PROC_run()...'' [])) k in
       res_bind (PROC_run fuel kbrk others (threads k)) (\<lambda>t.
       Done (with_devs (say (OS_INFO ''Done!'' [])) (k\<lparr>threads := t\<rparr>))))"

definition kernel_main :: "nat \<Rightarrow> device \<Rightarrow> kernel_env \<Rightarrow> (addr \<Rightarrow> mmu proc sched_ops) \<Rightarrow> u64 \<Rightarrow> addr \<Rightarrow> kernel \<Rightarrow> int res" where
  "kernel_main fuel dev env others magic tags k =
     res_bind (kernel_boot fuel dev env others magic tags k) (\<lambda>_. Halt ''HLT'')"

end
