(* ===== verification/Observers.thy ===== *)
theory Observers imports KernelMain IrqProps KeyboardProps begin

text \<open>
  Interfaces for facts about all output at once: what an observation of the machine must be blind to
  for the keyboard controller's set-up, the screen, the serial port and \<open>printk\<close> to leave it alone.
\<close>

section \<open>Ports\<close>

text \<open>An observation \<open>f\<close> of the machine that is blind to the port accesses other than those of the
  interrupt controllers, to messages and to the interrupt flags: the whole set-up of the keyboard
  controller leaves it alone.\<close>

definition pic_port :: "u16 \<Rightarrow> bool" where
  "pic_port p \<longleftrightarrow> p = PIC1_COMMAND \<or> p = PIC1_DATA \<or> p = PIC2_COMMAND \<or> p = PIC2_DATA"

lemma not_pic_port [simp]:
  "\<not> pic_port VGA_DATA_PORT_A" "\<not> pic_port VGA_DATA_PORT_B" "\<not> pic_port SERIAL_PORT" "\<not> pic_port (SERIAL_PORT + 1)"
  "\<not> pic_port (SERIAL_PORT + 2)" "\<not> pic_port (SERIAL_PORT + 3)" "\<not> pic_port (SERIAL_PORT + 4)"
  "\<not> pic_port 0x80" "\<not> pic_port COMMAND_REGISTER_ADDR" "\<not> pic_port DATA_PORT_ADDR"
  by (simp_all add: pic_port_def pic_ports VGA_DATA_PORT_A_def VGA_DATA_PORT_B_def SERIAL_PORT_def kbd_ports)

locale port_observer =
  fixes f :: "'a kbd_state_scheme \<Rightarrow> 'x"
  assumes obs_outb [simp]: "\<not> pic_port p \<Longrightarrow> f (outb p v s) = f s"
    and obs_inb [simp]: "f (snd (inb dev p s)) = f s"
    and obs_say [simp]: "f (say k s) = f s"
    and obs_irq [simp]: "f (IRQ_disable s) = f s" "f (IRQ_enable s) = f s"
begin

lemma obs_reenable [simp]: "f (IRQ_reenable s) = f s"
  by (simp add: IRQ_reenable_def)

lemma obs_io_wait [simp]: "f (io_wait_n n s) = f s"
  by (induction n arbitrary: s) (simp_all add: io_wait_def)

lemma obs_cmd [simp]:
  "f (command_register_cmd c s) = f s" "f (snd (data_port_read dev s)) = f s"
  "f (snd (command_register_cmd_read dev c s)) = f s" "f (command_register_cmd_write c b s) = f s"
  "f (snd (status_register_read dev s)) = f s" "f (data_port_write b s) = f s"
  by (simp_all add: command_register_cmd_def data_port_read_def command_register_cmd_read_def command_register_cmd_write_def
      status_register_read_def data_port_write_def)

lemma obs_controller: "f (snd (kbd_controller_init dev en s)) = f s"
  by (simp add: kbd_controller_init_def Let_def case_prod_unfold)

lemma obs_poll: "poll dev busy b n s = Done s' \<Longrightarrow> f s' = f s"
  by (induction n arbitrary: s) (auto simp: Let_def case_prod_unfold split: if_splits)

lemma obs_read: "keyboard_read dev n b s = Done (v, s') \<Longrightarrow> f s' = f s"
  by (auto simp: keyboard_read_def dest!: obs_poll) (metis snd_conv obs_cmd(2))

lemma obs_write: "keyboard_write dev n v b s = Done s' \<Longrightarrow> f s' = f s"
  by (auto simp: keyboard_write_def dest!: obs_poll)

lemma obs_set_scan_code: "kbd_set_scan_code n fuel dev s = Done (r, st, s') \<Longrightarrow> f s' = f s"
  by (induction n arbitrary: s) (auto split: if_splits dest!: obs_read obs_write)

lemma obs_verify: "kbd_verify_scan_code fuel dev st s = Done (r, s') \<Longrightarrow> f s' = f s"
  by (auto simp: kbd_verify_scan_code_def split: if_splits dest!: obs_read obs_write)

end

section \<open>The screen\<close>

locale console_observer = port_observer f for f :: "'a kbd_state_scheme \<Rightarrow> 'x" +
  assumes obs_vga [simp]: "f (s\<lparr>vga_mem := x\<rparr>) = f s" "f (s\<lparr>cur_row := r\<rparr>) = f s" "f (s\<lparr>cur_col := r\<rparr>) = f s"
begin

lemma obs_cursor [simp]:
  "f (VGA_set_cursor_pos p s) = f s" "f (VGA_update_cursor s) = f s" "f (VGA_enable_cursor dev s) = f s"
  by (simp_all add: VGA_set_cursor_pos_def VGA_update_cursor_def VGA_enable_cursor_def Let_def case_prod_unfold)

lemma obs_putc [simp]:
  "f (VGA_PUTC c a s) = f s" "f (VGA_CLEAR_CHAR s) = f s" "f (VGA_disable_cursor s) = f s"
  by (simp_all add: VGA_PUTC_def VGA_CLEAR_CHAR_def VGA_disable_cursor_def Let_def)

lemma obs_clear [simp]: "f (VGA_clear s) = f s" "f (VGA_scroll n s) = f s"
  by (simp_all add: VGA_clear_def VGA_scroll_def Let_def)

lemma obs_put_char [simp]: "f (put_char c a s) = f s" "f (next_line s) = f s"
  by (simp_all add: put_char_def next_line_def VGA_process_backspace_def Let_def)

lemma obs_str_with:
  assumes "\<And>s. f (esc s) = f s"
  shows "f (str_with dev esc str a s) = f s"
proof -
  have "f (char_with esc a c t) = f t" for c and t :: "'a kbd_state_scheme"
    by (simp add: char_with_def assms Let_def)
  then have "f (fold (char_with esc a) str t) = f t" for t :: "'a kbd_state_scheme"
    by (induction str arbitrary: t) simp_all
  then show ?thesis by (simp add: str_with_def)
qed

lemma obs_display [simp]: "f (VGA_display_str dev str s) = f s"
  by (simp add: VGA_display_str_def VGA_display_attr_str_def obs_str_with)

end

section \<open>The serial port\<close>

locale serial_observer = port_observer f for f :: "'a kbd_state_scheme \<Rightarrow> 'x" +
  assumes obs_tx [simp]: "f (s\<lparr>serial_tx := x\<rparr>) = f s"
begin

lemma obs_cons_get [simp]: "f (snd (cons_get s)) = f s"
  by (simp add: cons_get_def Let_def case_prod_unfold)

lemma obs_hw_write [simp]: "f (hw_write dev s) = f s"
proof -
  let ?s = "s\<lparr>serial_tx := (serial_tx s)\<lparr>idle_flag := False\<rparr>\<rparr>"
  obtain r t where g: "cons_get ?s = (r, t)" by (cases "cons_get ?s")
  have "f t = f s" using obs_cons_get [of ?s] g by simp
  then show ?thesis by (simp add: hw_write_def Let_def g case_prod_unfold split: option.split)
qed

lemma obs_prod_add [simp]: "f (snd (prod_add dev d s)) = f s"
  by (simp add: prod_add_def Let_def case_prod_unfold)

lemma obs_serial_write [simp]: "f (snd (serial_write dev bs s)) = f s"
proof (induction bs arbitrary: s)
  case (Cons b bs)
  then show ?case using obs_prod_add [of dev b s] by (auto simp: case_prod_unfold)
qed simp

lemma obs_serial_print [simp]: "f (serial_print dev bs s) = f s"
  unfolding serial_print_def by (rule obs_serial_write)

end

section \<open>printk\<close>

lemma fold_bind_stuck: "\<nexists>x. r = Done x \<Longrightarrow> \<nexists>x. fold (\<lambda>c r. res_bind r (g c)) cs r = Done x"
  by (induction cs arbitrary: r) auto

lemma fold_bind_inv:
  assumes step: "\<And>c s s'. g c s = Done s' \<Longrightarrow> P s \<Longrightarrow> P s'"
  shows "fold (\<lambda>c r. res_bind r (g c)) cs (Done s) = Done s' \<Longrightarrow> P s \<Longrightarrow> P s'"
proof (induction cs arbitrary: s)
  case (Cons c cs)
  from Cons.prems obtain t where t: "g c s = Done t"
    using fold_bind_stuck [where r = "g c s" and g = g and cs = cs] by auto
  then show ?case using Cons.IH [of t] Cons.prems step [OF t] by simp
qed simp

locale output_observer = console_observer f + serial_observer f for f :: "kbd_state \<Rightarrow> 'x"
begin

lemma obs_console [simp]: "f (console_out dev c s) = f s"
  by (simp add: console_out_def Let_def)

lemma obs_printk: "printk dev fmt args s = Done s' \<Longrightarrow> f s' = f s"
proof -
  have "f (fold (console_out dev) cs t) = f t" for cs t
    by (induction cs arbitrary: t) simp_all
  then show "printk dev fmt args s = Done s' \<Longrightarrow> f s' = f s" by (auto simp: printk_def)
qed

lemma obs_splash:
  assumes "splash_screen dev cs s = Done s'"
  shows "f s' = f s"
  by (rule fold_bind_inv [OF _ assms [unfolded splash_screen_def], where P = "\<lambda>t. f t = f s"])
    (simp_all add: obs_printk)

end

end
