(* ===== verification/KernelProps.thy ===== *)
theory KernelProps imports Observers DescriptorProps BootProps ProcProps begin

text \<open>
  What the boot sequence of src/boot/kernel\_main.c ends in: the handlers that are installed, the
  interrupt state, the lines of the first controller that are open; and that a wrong boot loader
  is refused before the kernel's tables are touched.
\<close>

section \<open>What the console leaves alone\<close>

text \<open>The handler table, and the two controllers as the port accesses leave them (\<open>m\<close>: their masks at
  power on). Console output changes none of them.\<close>

definition view :: "u8 \<times> u8 \<Rightarrow> 'a irq_state_scheme \<Rightarrow> irq_handler_entry_t list \<times> (nat \<times> u8) \<times> (nat \<times> u8)" where
  "view m s = (irq_handler_table s, pic1 (fst m) s, pic2 (snd m) s)"

lemma view_outb [simp]: "\<not> pic_port p \<Longrightarrow> view m (outb p v s) = view m s"
  by (simp add: view_def pic_port_def pic_step_idle(2))

lemma view_inb [simp]: "view m (snd (inb dev p s)) = view m s"
  by (simp add: view_def)

lemma view_say [simp]: "view m (say k s) = view m s"
  by (simp add: view_def)

lemma view_vga [simp]:
  "view m (s\<lparr>vga_mem := x\<rparr>) = view m s" "view m (s\<lparr>cur_row := r\<rparr>) = view m s" "view m (s\<lparr>cur_col := r\<rparr>) = view m s"
  by (simp_all add: view_def pic1_def pic2_def)

lemma view_serial [simp]: "view m (s\<lparr>serial_tx := f\<rparr>) = view m s" "view m (s\<lparr>timer_enabled := b\<rparr>) = view m s"
  by (simp_all add: view_def pic1_def pic2_def)

lemma view_irq [simp]:
  "view m (IRQ_disable s) = view m s" "view m (IRQ_enable s) = view m s" "view m (IRQ_reenable s) = view m s"
  by (simp_all add: view_def pic1_def pic2_def IRQ_disable_def IRQ_enable_def IRQ_reenable_def asm_cli_def asm_sti_def Let_def)

interpretation vw: output_observer "view m :: kbd_state \<Rightarrow> _" for m
  by unfold_locales simp_all

lemma serial_ports [simp]:
  "serial_tx (snd (inb dev p s)) = serial_tx s" "serial_tx (say k s) = serial_tx s"
  by (simp_all add: outb_def inb_def say_def Let_def)

section \<open>What the mask functions and the handler functions do to it\<close>

lemma table_mask [simp]:
  "irq_handler_table (snd (PIC_clear_mask dev irq s)) = irq_handler_table (s :: 'a irq_state_scheme)"
  "irq_handler_table (snd (PIC_set_mask dev irq s)) = irq_handler_table s"
  by (simp_all add: PIC_clear_mask_def PIC_set_mask_def inb_def outb_def say_def Let_def case_prod_unfold)

text \<open>Both controllers are idle (no initialisation words expected) with the masks \<open>a1\<close> and \<open>a2\<close>.\<close>

definition pics :: "u8 \<times> u8 \<Rightarrow> u8 \<Rightarrow> u8 \<Rightarrow> 'a irq_state_scheme \<Rightarrow> bool" where
  "pics m a1 a2 s \<longleftrightarrow> snd (view m s) = ((0, a1), (0, a2))"

lemma pics_mask:
  assumes "pic_pair dev (fst m) (snd m)" and "32 \<le> irq" "irq < 40" and "pics m a1 a2 s"
  shows "pics m (unset_bit (irq - 32) a1) a2 (snd (PIC_clear_mask dev irq s))"
    "pics m (set_bit (irq - 32) a1) a2 (snd (PIC_set_mask dev irq s))"
proof -
  have i: "IS_PIC_IRQ irq" using assms(2,3) by (simp add: IS_PIC_IRQ_def irq_numbers)
  show "pics m (unset_bit (irq - 32) a1) a2 (snd (PIC_clear_mask dev irq s))"
    "pics m (set_bit (irq - 32) a1) a2 (snd (PIC_set_mask dev irq s))"
    using PIC_clear_mask_eq [OF assms(1) i, of s] PIC_set_mask_eq [OF assms(1) i, of s] assms(3,4)
    by (simp_all add: pics_def view_def pic_step_idle)
qed

lemma table_of_view: "view m s = view m s' \<Longrightarrow> irq_handler_table s = irq_handler_table s'"
  by (simp add: view_def)

lemma pics_of_view: "view m s = view m s' \<Longrightarrow> pics m a1 a2 s = pics m a1 a2 s'"
  by (simp add: pics_def)

lemma pics_table [simp]: "pics m a1 a2 (s\<lparr>irq_handler_table := h\<rparr>) = pics m a1 a2 s"
  by (simp add: pics_def view_def pic1_def pic2_def)

section \<open>The parts of the boot sequence\<close>

definition entry :: "irq_handler_t \<Rightarrow> irq_handler_entry_t" where "entry h = \<lparr>handler = Some h, handler_arg = 0\<rparr>"

lemma set_handler_eq:
  "IS_VALID_IRQ irq \<Longrightarrow> IRQ_set_handler irq (Some h) 0 s = (0, s\<lparr>irq_handler_table := (irq_handler_table s)[irq := entry h]\<rparr>)"
  by (simp add: IRQ_set_handler_def set_table_def entry_def)

lemma valid_irqs: "IS_VALID_IRQ 32" "IS_VALID_IRQ IRQ33_KEYBOARD" "IS_VALID_IRQ SERIAL_IRQ"
  by (simp_all add: IS_VALID_IRQ_def IS_PIC_IRQ_def IS_EXCEPTION_def IRQ33_KEYBOARD_def SERIAL_IRQ_def irq_numbers)

lemma with_devs_fields [simp]:
  "devs (with_devs f k) = f (devs k)" "desc (with_devs f k) = desc k" "threads (with_devs f k) = threads k"
  "devs (with_mem mm k) = devs k" "desc (with_mem mm k) = desc k"
  by (simp_all add: with_devs_def with_mem_def)

lemma VGA_init_ok:
  obtains k' where "VGA_init dev k = (0, k')" "view m (devs k') = view m (devs k)" "desc k' = desc k" "threads k' = threads k"
proof -
  have "VGA_init dev k = (0, snd (VGA_init dev k)) \<and> view m (devs (snd (VGA_init dev k))) = view m (devs k)
      \<and> desc (snd (VGA_init dev k)) = desc k \<and> threads (snd (VGA_init dev k)) = threads k"
    by (simp add: VGA_init_def VGA_driver_init_def Let_def)
  then show ?thesis using that by blast
qed

lemma SER_init_tables: "desc (snd (SER_init dev k)) = desc k \<and> threads (snd (SER_init dev k)) = threads k
    \<and> (fst (SER_init dev k) = 0 \<or> fst (SER_init dev k) = 1)"
  by (simp add: SER_init_def Let_def case_prod_unfold)

lemma serial_init_view:
  fixes s :: "'a serial_state_scheme"
  assumes "serial_driver_init dev s = (SUCCESS, s')"
  obtains t where "view m t = view m s" "serial_tx t = serial_fifo_init (serial_tx s)"
    "s' = snd (PIC_clear_mask dev SERIAL_IRQ (t\<lparr>irq_handler_table := (irq_handler_table t)[SERIAL_IRQ := entry serial_tx_irq_handler_fn]\<rparr>))"
proof -
  define t where "t = outb (SERIAL_PORT + 1) 0x0E (outb (SERIAL_PORT + 4) 0x0F (snd (inb dev (SERIAL_PORT + 0)
     (outb (SERIAL_PORT + 0) 0xAE (outb (SERIAL_PORT + 4) 0x1F (outb (SERIAL_PORT + 2) 0x07 (outb (SERIAL_PORT + 3) 0x03
     (outb (SERIAL_PORT + 1) 0x00 (outb (SERIAL_PORT + 0) 0x01 (outb (SERIAL_PORT + 3) 0x80 (outb (SERIAL_PORT + 1) 0x00
     (on_tx serial_fifo_init s))))))))))))"
  have "view m t = view m s" by (simp add: t_def)
  moreover have "serial_tx t = serial_fifo_init (serial_tx s)" by (simp add: t_def)
  moreover have "s' = snd (PIC_clear_mask dev SERIAL_IRQ (t\<lparr>irq_handler_table := (irq_handler_table t)[SERIAL_IRQ := entry serial_tx_irq_handler_fn]\<rparr>))"
    using assms unfolding serial_driver_init_def Let_def case_prod_unfold set_handler_eq [OF valid_irqs(3)] t_def [symmetric]
    by (auto simp: t_def split: if_splits)
  ultimately show ?thesis by (rule that)
qed

lemma SER_init_ok:
  assumes "SER_init dev k = (0, k')"
  shows "irq_handler_table (devs k') = (irq_handler_table (devs k))[SERIAL_IRQ := entry serial_tx_irq_handler_fn]"
    "pic_pair dev (fst m) (snd m) \<Longrightarrow> pics m a1 a2 (devs k) \<Longrightarrow> pics m (unset_bit 4 a1) a2 (devs k')"
proof -
  obtain d where d: "serial_driver_init dev (devs k) = (SUCCESS, d)"
    "k' = with_devs (say (OS_INFO ''Serial driver initialization is complete!'' [])) (with_devs (serial_print dev [ESC, 99]) (k\<lparr>devs := d\<rparr>))"
    using assms by (cases "fst (serial_driver_init dev (devs k))") (auto simp: SER_init_def Let_def case_prod_unfold prod_eq_iff)
  obtain t where t: "view m t = view m (devs k)" "serial_tx t = serial_fifo_init (serial_tx (devs k))"
    "d = snd (PIC_clear_mask dev SERIAL_IRQ (t\<lparr>irq_handler_table := (irq_handler_table t)[SERIAL_IRQ := entry serial_tx_irq_handler_fn]\<rparr>))"
    by (rule serial_init_view [OF d(1)])
  have v: "view m (devs k') = view m d" by (simp add: d(2))
  show "irq_handler_table (devs k') = (irq_handler_table (devs k))[SERIAL_IRQ := entry serial_tx_irq_handler_fn]"
    using table_of_view [OF v] table_of_view [OF t(1)] by (simp add: t(3))
  assume pp: "pic_pair dev (fst m) (snd m)" and "pics m a1 a2 (devs k)"
  then have "pics m a1 a2 (t\<lparr>irq_handler_table := (irq_handler_table t)[SERIAL_IRQ := entry serial_tx_irq_handler_fn]\<rparr>)"
    using pics_of_view [OF t(1)] by simp
  from pics_mask(1) [OF pp _ _ this, of SERIAL_IRQ] show "pics m (unset_bit 4 a1) a2 (devs k')"
    unfolding pics_of_view [OF v] t(3) by (simp add: SERIAL_IRQ_def)
qed

lemma mmap_info_view:
  fixes s :: "'a irq_state_scheme"
  assumes "get_multiboot2_mmap_info fuel m a s = Done (x, s')"
  shows "view v s' = view v s"
  using assms
  by (auto simp: get_multiboot2_mmap_info_def find_multiboot2_tag_def Let_def split: if_splits)

lemma MEM_init_ok:
  assumes "MEM_init fuel env magic tags k = Done (0, k')"
  shows "irq_handler_table (devs k') = (irq_handler_table (devs k))[14 := entry page_fault_irq_fn]"
    "pics m a1 a2 (devs k) \<Longrightarrow> pics m a1 a2 (devs k')" "desc k' = desc k"
proof -
  obtain mm d where r: "MMU_init fuel (boot_mem env) (kernel_start env) (kernel_end env) tags (mem_of k) (devs k) = Done (mm, d)"
    "k' = with_devs (say (OS_INFO ''Memory manager initialization is complete!'' [])) (with_mem mm (k\<lparr>devs := d\<rparr>))"
    using assms by (auto simp: MEM_init_def Let_def split: if_splits)
  obtain mm1 d1 where a: "addr_map_init fuel (boot_mem env) (kernel_start env) (kernel_end env) tags (mem_of k) (devs k) = Done (mm1, d1)"
    "d = d1\<lparr>irq_handler_table := (irq_handler_table d1)[14 := entry page_fault_irq_fn]\<rparr>"
    using r(1) by (auto simp: MMU_init_def Let_def IRQ_set_exception_handler_def IS_EXCEPTION_def set_table_def entry_def)
  have v: "view m d1 = view m (devs k)" for m
    using a(1) by (auto simp: addr_map_init_def Let_def split: if_splits dest!: mmap_info_view [where v = m])
  have e: "view m (devs k') = view m d" for m by (simp add: r(2))
  show "irq_handler_table (devs k') = (irq_handler_table (devs k))[14 := entry page_fault_irq_fn]"
    using table_of_view [OF e] table_of_view [OF v] by (simp add: a(2))
  show "pics m a1 a2 (devs k) \<Longrightarrow> pics m a1 a2 (devs k')"
    using pics_of_view [OF v] by (simp add: pics_of_view [OF e] a(2))
  show "desc k' = desc k" by (simp add: r(2))
qed

lemma PIC_init_table: "irq_handler_table (PIC_init dev s) = irq_handler_table (s :: 'a irq_state_scheme)"
proof -
  have "irq_handler_table (fold (\<lambda>i s. snd (PIC_set_mask dev i s)) is s) = irq_handler_table s" for "is" and s :: "'a irq_state_scheme"
    by (induction "is" arbitrary: s) simp_all
  moreover have "irq_handler_table (PIC_remap dev o1 o2 s) = irq_handler_table s" for o1 o2
    by (simp add: PIC_remap_def io_wait_def outb_def inb_def Let_def)
  ultimately show ?thesis by (simp add: PIC_init_def)
qed

lemma pics_iff: "pics m a1 a2 s \<longleftrightarrow> pic1 (fst m) s = (0, a1) \<and> pic2 (snd m) s = (0, a2)"
  by (simp add: pics_def view_def)

lemma ISR_init_ok:
  obtains k' where "ISR_init dev env k = (0, k')"
    "irq_handler_table (devs k') = (irq_handler_table (devs k))[32 := entry timer_isr_fn]"
    "pic_pair dev (fst m) (snd m) \<Longrightarrow> pics m a1 a2 (devs k) \<Longrightarrow> pics m 0xFF a2 (devs k')"
    "desc k' = idt_init (idt_address env) (isr_stubs env) (gdt_init (gdt_address env) (tss_address env) (ist_address env) (desc k))"
proof -
  let ?k = "snd (ISR_init dev env k)" and ?d = "PIC_init dev (IRQ_disable (devs k))"
  let ?t = "?d\<lparr>irq_handler_table := (irq_handler_table ?d)[32 := entry timer_isr_fn]\<rparr>"
  have devs: "devs ?k = say (OS_INFO ''ISR initialization is complete!'' []) ((snd (PIC_set_mask dev 32 ?t))\<lparr>timer_enabled := False\<rparr>)"
    by (simp add: ISR_init_def IRQ_init_def Let_def timer_init_def set_handler_eq [OF valid_irqs(1)])
  have v: "view m (devs ?k) = view m (snd (PIC_set_mask dev 32 ?t))" unfolding devs by simp
  have "ISR_init dev env k = (0, ?k)" by (simp add: ISR_init_def IRQ_init_def Let_def)
  moreover have "irq_handler_table (devs ?k) = (irq_handler_table (devs k))[32 := entry timer_isr_fn]"
    using table_of_view [OF v] table_of_view [OF view_irq(1) [of m "devs k"]] by (simp add: PIC_init_table)
  moreover have "pics m 0xFF a2 (devs ?k)" if pp: "pic_pair dev (fst m) (snd m)" and "pics m a1 a2 (devs k)"
  proof -
    have "pics m a1 a2 (IRQ_disable (devs k))" using that(2) by (simp add: pics_def)
    then have "pics m 0xFF a2 ?d" using PIC_init_masks [OF pp, of "IRQ_disable (devs k)" a1 a2] by (simp add: pics_iff)
    then have "pics m 0xFF a2 ?t" by simp
    from pics_mask(2) [OF pp _ _ this, of 32] show ?thesis
      unfolding pics_of_view [OF v] by (simp add: set_bit_eq_or)
  qed
  moreover have "desc ?k = idt_init (idt_address env) (isr_stubs env) (gdt_init (gdt_address env) (tss_address env) (ist_address env) (desc k))"
    by (simp add: ISR_init_def IRQ_init_def Let_def)
  ultimately show ?thesis using that by blast
qed

lemma KB_init_ok:
  assumes "KB_init fuel dev k = Done (0, k')"
  shows "irq_handler_table (devs k') = (irq_handler_table (devs k))[IRQ33_KEYBOARD := entry ps2_keyboard_irq_handler_fn]"
    "pic_pair dev (fst m) (snd m) \<Longrightarrow> pics m a1 a2 (devs k) \<Longrightarrow> pics m (unset_bit 1 a1) a2 (devs k')"
    "desc k' = desc k"
proof -
  obtain d where d: "ps2_keyboard_driver_init fuel dev True (devs k) = Done (SUCCESS, d)"
    "k' = with_devs (say (OS_INFO ''Keyboard driver initialization is complete!'' [])) (k\<lparr>devs := d\<rparr>)"
    using assms(1) by (auto simp: KB_init_def Let_def split: if_splits driver_status_t.splits) (metis driver_status_t.exhaust)
  obtain s1 where c: "kbd_controller_init dev True (devs k) = (SUCCESS, s1)"
    using d(1) by (auto simp: ps2_keyboard_driver_init_def split: prod.splits driver_status_t.splits)
  obtain st s2 where s2: "kbd_set_scan_code fuel fuel dev s1 = Done (SUCCESS, st, s2)"
    using d(1) c by (auto simp: ps2_keyboard_driver_init_def split: if_splits) (metis driver_status_t.exhaust)
  obtain s3 where s3: "kbd_verify_scan_code fuel dev st s2 = Done (SUCCESS, s3)"
    "d = snd (PIC_clear_mask dev IRQ33_KEYBOARD (snd (IRQ_set_handler IRQ33_KEYBOARD (Some ps2_keyboard_irq_handler_fn) 0 (command_register_cmd 0xAE s3))))"
    using d(1) c s2 by (auto simp: ps2_keyboard_driver_init_def Let_def split: if_splits) (metis driver_status_t.exhaust)
  have v1: "view m s1 = view m (devs k)" for m using vw.obs_controller [of m dev True "devs k"] c by simp
  have v3: "view m (command_register_cmd 0xAE s3) = view m (devs k)" for m
    using vw.obs_verify [OF s3(1), of m] vw.obs_set_scan_code [OF s2, of m] v1 by simp
  have e: "view m (devs k') = view m d" for m by (simp add: d(2))
  show "irq_handler_table (devs k') = (irq_handler_table (devs k))[IRQ33_KEYBOARD := entry ps2_keyboard_irq_handler_fn]"
    using table_of_view [OF e] table_of_view [OF v3] by (simp add: s3(2) set_handler_eq valid_irqs)
  show "pics m (unset_bit 1 a1) a2 (devs k')" if pp: "pic_pair dev (fst m) (snd m)" and p: "pics m a1 a2 (devs k)"
  proof -
    let ?t = "(command_register_cmd 0xAE s3)\<lparr>irq_handler_table := (irq_handler_table (command_register_cmd 0xAE s3))[IRQ33_KEYBOARD := entry ps2_keyboard_irq_handler_fn]\<rparr>"
    have "pics m a1 a2 ?t" using p pics_of_view [OF v3] by simp
    from pics_mask(1) [OF pp _ _ this, of IRQ33_KEYBOARD] show ?thesis
      unfolding pics_of_view [OF e] s3(2) by (simp add: set_handler_eq valid_irqs) (simp add: IRQ33_KEYBOARD_def irq_numbers)
  qed
  show "desc k' = desc k" by (simp add: d(2))
qed

section \<open>The boot sequence\<close>

lemma boot_parts:
  assumes "system_initialization fuel dev env magic tags k = Done (0, k')"
  obtains k1 k2 k3 k4 k5 d where "VGA_init dev k = (0, k1)" "SER_init dev k1 = (0, k2)"
    "MEM_init fuel env magic tags k2 = Done (0, k3)" "ISR_init dev env k3 = (0, k4)" "KB_init fuel dev k4 = Done (0, k5)"
    "splash_screen dev (splash env) (say (OS_INFO ''System initialization is complete!'' []) (devs k5)) = Done d"
    "printk dev [LF] [] (IRQ_enable d) = Done (devs k')" "desc k' = desc k5"
proof -
  obtain r1 k1 where k1: "VGA_init dev k = (r1, k1)" by (cases "VGA_init dev k")
  have r1: "r1 = 0" using k1 by (simp add: VGA_init_def VGA_driver_init_def Let_def)
  obtain r2 k2 where k2: "SER_init dev k1 = (r2, k2)" by (cases "SER_init dev k1")
  have r2: "r2 = 0" using assms k1 r1 k2 by (auto simp: system_initialization_def split: if_splits)
  obtain r3 k3 where k3: "MEM_init fuel env magic tags k2 = Done (r3, k3)" and r3: "r3 = 0"
    using assms k1 r1 k2 r2 by (auto simp: system_initialization_def split: if_splits)
  obtain r4 k4 where k4: "ISR_init dev env k3 = (r4, k4)" by (cases "ISR_init dev env k3")
  have r4: "r4 = 0" using k4 by (simp add: ISR_init_def IRQ_init_def Let_def)
  obtain r5 k5 where k5: "KB_init fuel dev k4 = Done (r5, k5)" and r5: "r5 = 0"
    using assms k1 r1 k2 r2 k3 r3 k4 r4 by (auto simp: system_initialization_def split: if_splits)
  have "\<exists>d. splash_screen dev (splash env) (say (OS_INFO ''System initialization is complete!'' []) (devs k5)) = Done d
     \<and> printk dev [LF] [] (IRQ_enable d) = Done (devs k') \<and> desc k' = desc k5"
    using assms k1 r1 k2 r2 k3 r3 k4 r4 k5 r5 by (auto simp: system_initialization_def Let_def)
  then show ?thesis using that k1 k2 k3 k4 k5 r1 r2 r3 r4 r5 by blast
qed

lemma boot_table:
  assumes boot: "system_initialization fuel dev env magic tags k = Done (0, k')"
  shows "irq_handler_table (devs k') = (irq_handler_table (devs k))[36 := entry serial_tx_irq_handler_fn,
      14 := entry page_fault_irq_fn, 32 := entry timer_isr_fn, 33 := entry ps2_keyboard_irq_handler_fn]"
    and "desc k' = idt_init (idt_address env) (isr_stubs env) (gdt_init (gdt_address env) (tss_address env) (ist_address env) (desc k))"
proof -
  let ?m = "(0, 0) :: u8 \<times> u8"
  obtain k1 k2 k3 k4 k5 d where p: "VGA_init dev k = (0, k1)" "SER_init dev k1 = (0, k2)"
    "MEM_init fuel env magic tags k2 = Done (0, k3)" "ISR_init dev env k3 = (0, k4)" "KB_init fuel dev k4 = Done (0, k5)"
    "splash_screen dev (splash env) (say (OS_INFO ''System initialization is complete!'' []) (devs k5)) = Done d"
    "printk dev [LF] [] (IRQ_enable d) = Done (devs k')" "desc k' = desc k5"
    by (rule boot_parts [OF boot])
  have v1: "view ?m (devs k1) = view ?m (devs k)" and d1: "desc k1 = desc k"
    by (rule VGA_init_ok [of dev k ?m], use p(1) in simp)+
  note t1 = table_of_view [OF v1]
  have t2: "irq_handler_table (devs k2) = (irq_handler_table (devs k1))[SERIAL_IRQ := entry serial_tx_irq_handler_fn]" and d2: "desc k2 = desc k1"
    using SER_init_ok(1) [OF p(2)] SER_init_tables [of dev k1] p(2) by simp_all
  note m3 = MEM_init_ok [OF p(3)]
  have t4: "irq_handler_table (devs k4) = (irq_handler_table (devs k3))[32 := entry timer_isr_fn]"
    and d4: "desc k4 = idt_init (idt_address env) (isr_stubs env) (gdt_init (gdt_address env) (tss_address env) (ist_address env) (desc k3))"
    by (rule ISR_init_ok [of dev env k3 ?m], use p(4) in simp)+
  note m5 = KB_init_ok [OF p(5)]
  have "view ?m (devs k') = view ?m (devs k5)"
    using vw.obs_printk [OF p(7), of ?m] vw.obs_splash [OF p(6), of ?m] by simp
  then have t6: "irq_handler_table (devs k') = irq_handler_table (devs k5)" by (rule table_of_view)
  show "irq_handler_table (devs k') = (irq_handler_table (devs k))[36 := entry serial_tx_irq_handler_fn,
      14 := entry page_fault_irq_fn, 32 := entry timer_isr_fn, 33 := entry ps2_keyboard_irq_handler_fn]"
    by (simp add: t6 m5(1) t4 m3(1) t2 t1 SERIAL_IRQ_def IRQ33_KEYBOARD_def irq_numbers)
  show "desc k' = idt_init (idt_address env) (isr_stubs env) (gdt_init (gdt_address env) (tss_address env) (ist_address env) (desc k))"
    by (simp add: p(8) m5(3) d4 m3(3) d2 d1)
qed

lemma gdt_init_idt: "idt (gdt_init a b c t) = idt t"
  by (simp add: gdt_init_def tss_init_def put_entry_def Let_def)

text \<open>C22: When the system initialisation reports success, the handlers of page faults, the timer, the
  keyboard and the serial port are installed and every other entry of the table is as it was; and
  every gate of the interrupt table leads to its stub.\<close>

theorem boot_installs_handlers:
  assumes boot: "system_initialization fuel dev env magic tags k = Done (0, k')"
    and tbl: "length (irq_handler_table (devs k)) = IDT_MAX_IRQ" "length (idt (desc k)) = IDT_MAX_IRQ" and v: "v < IDT_MAX_IRQ"
  shows "irq_handler_table (devs k') ! v =
      (if v = 14 then entry page_fault_irq_fn else if v = 32 then entry timer_isr_fn
       else if v = 33 then entry ps2_keyboard_irq_handler_fn else if v = 36 then entry serial_tx_irq_handler_fn
       else irq_handler_table (devs k) ! v)
    \<and> gate_target (idt (desc k') ! v) = isr_stubs env v"
proof -
  have i: "length (idt (gdt_init a b c (desc k))) = IDT_MAX_IRQ" for a b c using tbl(2) by (simp add: gdt_init_idt)
  have "gate_target (idt (desc k') ! v) = isr_stubs env v"
    using idt_init_gates [OF i v] by (simp add: boot_table(2) [OF boot] gate_target_def gate_def gate_target_set)
  then show ?thesis
    using tbl(1) v by (simp add: boot_table(1) [OF boot] nth_list_update irq_numbers)
qed

text \<open>C21: After a successful system initialisation the keyboard is the only line of the first
  controller that is not masked: the serial driver's own unmasking, done before the controllers are
  initialised, is lost. The second controller keeps the mask it had at power on.\<close>

theorem boot_opens_keyboard_only:
  assumes boot: "system_initialization fuel dev env magic tags k = Done (0, k')" and pp: "pic_pair dev m1 m2"
    and idle: "pic1 m1 (devs k) = (0, a1)" "pic2 m2 (devs k) = (0, a2)"
  shows "pic1 m1 (devs k') = (0, 0xFD) \<and> pic2 m2 (devs k') = (0, a2)"
proof -
  let ?m = "(m1, m2)"
  have pp': "pic_pair dev (fst ?m) (snd ?m)" using pp by simp
  obtain k1 k2 k3 k4 k5 d where p: "VGA_init dev k = (0, k1)" "SER_init dev k1 = (0, k2)"
    "MEM_init fuel env magic tags k2 = Done (0, k3)" "ISR_init dev env k3 = (0, k4)" "KB_init fuel dev k4 = Done (0, k5)"
    "splash_screen dev (splash env) (say (OS_INFO ''System initialization is complete!'' []) (devs k5)) = Done d"
    "printk dev [LF] [] (IRQ_enable d) = Done (devs k')" "desc k' = desc k5"
    by (rule boot_parts [OF boot])
  have "view ?m (devs k1) = view ?m (devs k)"
    by (rule VGA_init_ok [of dev k ?m]) (use p(1) in simp)
  then have "pics ?m a1 a2 (devs k1) = pics ?m a1 a2 (devs k)" by (rule pics_of_view)
  then have "pics ?m a1 a2 (devs k1)" using idle by (simp add: pics_iff)
  then have "pics ?m (unset_bit 4 a1) a2 (devs k2)" by (rule SER_init_ok(2) [OF p(2) pp'])
  then have p3: "pics ?m (unset_bit 4 a1) a2 (devs k3)" by (rule MEM_init_ok(2) [OF p(3)])
  have p4: "pics ?m 0xFF a2 (devs k4)"
    by (rule ISR_init_ok [of dev env k3 ?m "unset_bit 4 a1" a2]) (use p(4) p3 pp' in simp)
  have "view ?m (devs k') = view ?m (devs k5)"
    using vw.obs_printk [OF p(7), of ?m] vw.obs_splash [OF p(6), of ?m] by simp
  from pics_of_view [OF this] have "pics ?m (unset_bit 1 0xFF) a2 (devs k')"
    using KB_init_ok(2) [OF p(5) pp' p4] by blast
  then show ?thesis by (simp add: pics_iff unset_bit_eq_and_not)
qed

text \<open>A kernel that was not started by a multiboot2 loader reports failure, and has then touched
  neither its descriptor tables nor its memory and threads.\<close>

theorem boot_refuses_magic:
  assumes "magic \<noteq> MULTIBOOT2_BOOTLOADER_MAGIC"
  shows "\<exists>k'. system_initialization fuel dev env magic tags k = Done (1, k') \<and> desc k' = desc k \<and> threads k' = threads k"
proof -
  obtain k1 where k1: "VGA_init dev k = (0, k1)" "desc k1 = desc k" "threads k1 = threads k"
    by (rule VGA_init_ok [of dev k "(0, 0)"])
  obtain r2 k2 where k2: "SER_init dev k1 = (r2, k2)" by (cases "SER_init dev k1")
  show ?thesis
    using assms k1 k2 SER_init_tables [of dev k1]
    by (auto simp: system_initialization_def MEM_init_def)
qed

section \<open>The interrupt state at the end\<close>

definition ser_idle :: "'a serial_state_scheme \<Rightarrow> bool" where
  "ser_idle s \<longleftrightarrow> fifo_ok (serial_tx s) \<and> fifo_queue (serial_tx s) = [] \<and> idle_flag (serial_tx s)"

interpretation ser: console_observer "serial_tx :: kbd_state \<Rightarrow> _"
  by unfold_locales (simp_all add: IRQ_enable_def asm_cli_def)

lemma serial_write_idle:
  assumes "ser_idle s"
  shows "ser_idle (snd (serial_write dev bs s))
    \<and> (bs \<noteq> [] \<longrightarrow> IRQ_status_curr (snd (serial_write dev bs s)) = DISABLED
         \<and> if_flag (snd (serial_write dev bs s)) = (IRQ_status_curr s = ENABLED \<or> if_flag s))"
  using assms
proof (induction bs arbitrary: s)
  case (Cons b bs)
  obtain t where t: "prod_add dev b s = (0, t)" "ser_idle t" "IRQ_status_curr t = DISABLED"
    "if_flag t = (IRQ_status_curr s = ENABLED \<or> if_flag s)"
    using prod_add_idle [of s dev b] Cons.prems by (auto simp: ser_idle_def)
  have "snd (serial_write dev (b # bs) s) = snd (serial_write dev bs t)"
    by (simp add: t(1) case_prod_unfold)
  then show ?case using Cons.IH [OF t(2)] t(2-4) by (cases "bs = []") auto
qed simp

lemma console_idle: "ser_idle s \<Longrightarrow> ser_idle (console_out dev c (s :: kbd_state))"
proof -
  assume "ser_idle s"
  then have "ser_idle (VGA_display_str dev c s)" by (simp add: ser_idle_def)
  then show ?thesis using serial_write_idle [of "VGA_display_str dev c s" dev c] by (simp add: console_out_def Let_def)
qed

lemma printk_idle: "printk dev fmt args s = Done s' \<Longrightarrow> ser_idle s \<Longrightarrow> ser_idle (s' :: kbd_state)"
proof -
  have "ser_idle t \<Longrightarrow> ser_idle (fold (console_out dev) cs t)" for cs and t :: kbd_state
    by (induction cs arbitrary: t) (simp_all add: console_idle)
  then show "printk dev fmt args s = Done s' \<Longrightarrow> ser_idle s \<Longrightarrow> ser_idle s'" by (auto simp: printk_def)
qed

lemma splash_idle: "splash_screen dev cs s = Done s' \<Longrightarrow> ser_idle s \<Longrightarrow> ser_idle s'"
  unfolding splash_screen_def by (rule fold_bind_inv) (auto intro: printk_idle)

lemma mask_serial [simp]: "serial_tx (snd (PIC_set_mask dev irq s)) = serial_tx (s :: kbd_state)"
  by (simp add: PIC_set_mask_def Let_def case_prod_unfold)

lemma remap_serial: "serial_tx (PIC_remap dev o1 o2 s) = serial_tx (s :: kbd_state)"
  by (simp add: PIC_remap_def io_wait_def Let_def case_prod_unfold)

lemma PIC_init_serial: "serial_tx (PIC_init dev s) = serial_tx (s :: kbd_state)"
proof -
  have "serial_tx (fold (\<lambda>i s. snd (PIC_set_mask dev i s)) is s) = serial_tx s" for "is" and s :: kbd_state
    by (induction "is" arbitrary: s) simp_all
  then show ?thesis by (simp add: PIC_init_def remap_serial)
qed

lemma SER_init_idle:
  assumes "SER_init dev k = (0, k')"
  shows "ser_idle (devs k')"
proof -
  obtain d where d: "serial_driver_init dev (devs k) = (SUCCESS, d)"
    "k' = with_devs (say (OS_INFO ''Serial driver initialization is complete!'' [])) (with_devs (serial_print dev [ESC, 99]) (k\<lparr>devs := d\<rparr>))"
    using assms by (cases "fst (serial_driver_init dev (devs k))") (auto simp: SER_init_def Let_def case_prod_unfold prod_eq_iff)
  obtain t where t: "serial_tx t = serial_fifo_init (serial_tx (devs k))"
    "d = snd (PIC_clear_mask dev SERIAL_IRQ (t\<lparr>irq_handler_table := (irq_handler_table t)[SERIAL_IRQ := entry serial_tx_irq_handler_fn]\<rparr>))"
    by (rule serial_init_view [OF d(1)])
  have "serial_tx d = serial_fifo_init (serial_tx (devs k))" by (simp add: t)
  then have "ser_idle d" by (simp add: ser_idle_def fifo_init_ok) (simp add: serial_fifo_init_def)
  then show ?thesis using serial_write_idle [of d dev "[ESC, 99]"] by (simp add: d(2) serial_print_def ser_idle_def del: serial_write.simps)
qed

lemma MEM_init_idle:
  assumes "MEM_init fuel env magic tags k = Done (0, k')"
  shows "serial_tx (devs k') = serial_tx (devs k)"
proof -
  have info: "get_multiboot2_mmap_info fuel m a s = Done (x, s') \<Longrightarrow> serial_tx s' = serial_tx s" for m a x and s s' :: kbd_state
    by (auto simp: get_multiboot2_mmap_info_def find_multiboot2_tag_def Let_def split: if_splits)
  show ?thesis
    using assms
    by (auto simp: MEM_init_def MMU_init_def addr_map_init_def Let_def IRQ_set_exception_handler_def set_table_def
        split: if_splits dest!: info)
qed

lemma ISR_init_idle: "serial_tx (devs (snd (ISR_init dev env k))) = serial_tx (devs k)"
  by (simp add: ISR_init_def IRQ_init_def Let_def timer_init_def set_handler_eq valid_irqs PIC_init_serial)

lemma KB_init_idle:
  assumes "KB_init fuel dev k = Done (0, k')"
  shows "serial_tx (devs k') = serial_tx (devs k)"
proof -
  have clear: "serial_tx (snd (PIC_clear_mask dev irq s)) = serial_tx s" for irq and s :: kbd_state
    by (simp add: PIC_clear_mask_def Let_def case_prod_unfold)
  show ?thesis
    using assms ser.obs_controller [of dev True "devs k"]
    by (auto simp: KB_init_def ps2_keyboard_driver_init_def Let_def set_handler_eq valid_irqs clear
        split: if_splits prod.splits driver_status_t.splits dest!: ser.obs_set_scan_code ser.obs_verify)
qed

text \<open>The newline that \<open>system_initialization\<close> prints last, from a state where interrupts are recorded
  as enabled.\<close>

lemma last_line:
  fixes s :: kbd_state
  assumes "printk dev [LF] [] s = Done s'" and "ser_idle s" and "IRQ_status_curr s = ENABLED"
  shows "IRQ_status_curr s' = DISABLED \<and> if_flag s'"
proof -
  let ?v = "VGA_display_str dev [LF] s"
  have "s' = snd (serial_write dev [LF] ?v)"
    using assms(1) by (auto simp: printk_def printk_chunks_def fmt_len_def MAX_STR_LEN_def printk_step_def fmt_at_def buf_len_def OUTPUT_LEN_def
        format_char_def print_clear_buff_def console_out_def Let_def LF_def simp del: serial_write.simps)
  moreover have "IRQ_status_curr ?v = ENABLED"
    using assms(3) by (simp add: VGA_display_str_def VGA_display_attr_str_def str_with_def char_with_status special_chars)
  moreover have "ser_idle ?v" using assms(2) by (simp add: ser_idle_def)
  ultimately show ?thesis using serial_write_idle [of ?v dev "[LF]"] by simp
qed

lemma boot_last_line:
  assumes boot: "system_initialization fuel dev env magic tags k = Done (0, k')"
  obtains d where "ser_idle d" "printk dev [LF] [] (IRQ_enable d) = Done (devs k')"
proof -
  obtain k1 k2 k3 k4 k5 d where p: "VGA_init dev k = (0, k1)" "SER_init dev k1 = (0, k2)"
    "MEM_init fuel env magic tags k2 = Done (0, k3)" "ISR_init dev env k3 = (0, k4)" "KB_init fuel dev k4 = Done (0, k5)"
    "splash_screen dev (splash env) (say (OS_INFO ''System initialization is complete!'' []) (devs k5)) = Done d"
    "printk dev [LF] [] (IRQ_enable d) = Done (devs k')" "desc k' = desc k5"
    by (rule boot_parts [OF boot])
  have "ser_idle (devs k2)" by (rule SER_init_idle [OF p(2)])
  then have "ser_idle (devs k5)"
    using MEM_init_idle [OF p(3)] ISR_init_idle [of dev env k3] KB_init_idle [OF p(5)] p(4) by (simp add: ser_idle_def)
  then have "ser_idle (say (OS_INFO ''System initialization is complete!'' []) (devs k5))" by (simp add: ser_idle_def)
  from splash_idle [OF p(6) this] p(7) that show ?thesis by blast
qed

lemma enable_idle [simp]: "ser_idle (IRQ_enable s) = ser_idle s"
  by (simp add: ser_idle_def IRQ_enable_def asm_cli_def)

lemma boot_ring: "system_initialization fuel dev env magic tags k = Done (0, k') \<Longrightarrow> ser_idle (devs k')"
  by (erule boot_last_line) (auto dest: printk_idle)

lemma boot_flags:
  assumes "system_initialization fuel dev env magic tags k = Done (0, k')"
  shows "IRQ_status_curr (devs k') = DISABLED \<and> if_flag (devs k')"
proof -
  obtain d where d: "ser_idle d" "printk dev [LF] [] (IRQ_enable d) = Done (devs k')" by (rule boot_last_line [OF assms])
  then show ?thesis using last_line [OF d(2)] by (simp add: IRQ_enable_def asm_cli_def ser_idle_def)
qed

text \<open>A successful system initialisation ends with the kernel's record saying that interrupts are
  disabled, although it enabled them, and with the processor's interrupt flag set: the record is
  lost in the serial output of the last message, and the instructions of enable and disable are
  exchanged.\<close>

theorem boot_ends_disabled_but_open:
  assumes boot: "system_initialization fuel dev env magic tags k = Done (0, k')"
  shows "IRQ_status_curr (devs k') = DISABLED \<and> if_flag (devs k')"
  by (rule boot_flags [OF assms])

section \<open>A machine that boots\<close>

text \<open>A keyboard controller that answers the way the driver expects, by the last command: its self
  test, and otherwise an acknowledgement followed by the scan code set. The serial port echoes
  the test byte, and the interrupt controllers return their masks.\<close>

fun kbd_reply :: "io_event list \<Rightarrow> u8" where
  "kbd_reply [] = 0"
| "kbd_reply (Out p v # tr) =
     (if p = 0x64 then (if v = 0xAA then 0x55 else 0) else if p = 0x60 then 0xFA else kbd_reply tr)"
| "kbd_reply (In p v # tr) = (if p = 0x60 then (if v = 0xFA then 0x41 else 0) else kbd_reply tr)"
| "kbd_reply (_ # tr) = kbd_reply tr"

definition boot_dev :: device where
  "boot_dev tr p = (if p = DATA_PORT_ADDR then kbd_reply tr else if p = STATUS_REGISTER_ADDR then 1
     else if p = SERIAL_PORT then 0xAE else sample_dev tr p)"

lemma boot_dev_ports [simp]:
  "boot_dev tr DATA_PORT_ADDR = kbd_reply tr" "boot_dev tr STATUS_REGISTER_ADDR = 1" "boot_dev tr SERIAL_PORT = 0xAE"
  by (simp_all add: boot_dev_def kbd_ports SERIAL_PORT_def)

lemma boot_pair: "pic_pair boot_dev 0xB8 0x8E"
  using sample_pair by (simp add: pic_pair_def boot_dev_def kbd_ports SERIAL_PORT_def pic_ports)

lemma kbd_reply_wait [simp]: "kbd_reply (replicate n (Out 0x80 0) @ tr) = kbd_reply tr"
  by (induction n) simp_all

lemma cmd_read_reply [simp]:
  "fst (command_register_cmd_read boot_dev c s) = (if c = 0xAA then 0x55 else 0)"
  by (simp add: command_register_cmd_read_def data_port_read_def command_register_cmd_def) (simp add: kbd_ports)

lemma boot_controller: "fst (kbd_controller_init boot_dev en s) = SUCCESS"
  by (simp add: kbd_controller_init_def Let_def case_prod_unfold)

lemma boot_write:
  obtains s' where "keyboard_write boot_dev (Suc n) v True s = Done s'" "kbd_reply (trace s') = 0xFA"
proof -
  let ?s = "io_wait_n IO_WAIT_LEN (data_port_write v (snd (status_register_read boot_dev (io_wait_n IO_WAIT_LEN s))))"
  have "keyboard_write boot_dev (Suc n) v True s = Done ?s"
    by (simp add: keyboard_write_def Let_def case_prod_unfold status_register_read_def INPUT_BUFF_IS_FULL_def)
  moreover have "kbd_reply (trace ?s) = 0xFA"
    by (simp add: data_port_write_def) (simp add: kbd_ports)
  ultimately show ?thesis by (rule that)
qed

lemma boot_read:
  obtains s' where "keyboard_read boot_dev (Suc n) True s = Done (kbd_reply (trace s), s')"
    "kbd_reply (trace s') = (if kbd_reply (trace s) = 0xFA then 0x41 else 0)"
proof -
  let ?s = "snd (status_register_read boot_dev (io_wait_n IO_WAIT_LEN s))"
  have r: "kbd_reply (trace ?s) = kbd_reply (trace s)"
    by (simp add: status_register_read_def) (simp add: kbd_ports)
  have "keyboard_read boot_dev (Suc n) True s = Done (data_port_read boot_dev ?s)"
    by (simp add: keyboard_read_def Let_def case_prod_unfold status_register_read_def OUTPUT_BUFF_IS_EMPTY_def)
  moreover have "data_port_read boot_dev ?s = (kbd_reply (trace s), snd (data_port_read boot_dev ?s))"
    using r by (simp add: prod_eq_iff data_port_read_def)
  moreover have "kbd_reply (trace (snd (data_port_read boot_dev ?s))) = (if kbd_reply (trace s) = 0xFA then 0x41 else 0)"
    using r by (simp add: data_port_read_def) (simp add: kbd_ports)
  ultimately show ?thesis using that by metis
qed

lemma boot_set_scan_code: "\<exists>s'. kbd_set_scan_code (Suc n) (Suc f) boot_dev s = Done (SUCCESS, KBD_ACK, s')"
proof -
  obtain s1 where s1: "keyboard_write boot_dev (Suc f) KBD_CMD_GET_SET_SCAN_CODE_SET True s = Done s1" by (rule boot_write)
  obtain s2 where s2: "keyboard_write boot_dev (Suc f) KBD_SCAN_CODE_SET_2 True s1 = Done s2" "kbd_reply (trace s2) = 0xFA"
    by (rule boot_write)
  obtain s3 where s3: "keyboard_read boot_dev (Suc f) True s2 = Done (kbd_reply (trace s2), s3)" by (rule boot_read)
  show ?thesis using s1 s2 s3 by (simp add: KBD_ACK_def KBD_RESEND_def)
qed

lemma boot_verify: "\<exists>s'. kbd_verify_scan_code (Suc f) boot_dev st s = Done (SUCCESS, s')"
proof -
  obtain s1 where s1: "keyboard_write boot_dev (Suc f) KBD_CMD_GET_SET_SCAN_CODE_SET True s = Done s1" by (rule boot_write)
  obtain s2 where s2: "keyboard_write boot_dev (Suc f) KBD_CMD_GET_SCAN_CODE_SET True s1 = Done s2" "kbd_reply (trace s2) = 0xFA"
    by (rule boot_write)
  obtain s3 where s3: "keyboard_read boot_dev (Suc f) True s2 = Done (kbd_reply (trace s2), s3)"
    "kbd_reply (trace s3) = (if kbd_reply (trace s2) = 0xFA then 0x41 else 0)" by (rule boot_read)
  obtain s4 where s4: "keyboard_read boot_dev (Suc f) True s3 = Done (kbd_reply (trace s3), s4)" by (rule boot_read)
  show ?thesis using s1 s2 s3 s4 by (simp add: kbd_verify_scan_code_def KBD_ACK_def SCAN_CODE_SET2_def)
qed

lemma boot_keyboard: "\<exists>k'. KB_init (Suc f) boot_dev k = Done (0, k')"
proof -
  obtain s1 where s1: "kbd_controller_init boot_dev True (devs k) = (SUCCESS, s1)"
    using boot_controller [of True "devs k"] by (metis prod.collapse)
  obtain s2 where s2: "kbd_set_scan_code (Suc f) (Suc f) boot_dev s1 = Done (SUCCESS, KBD_ACK, s2)"
    using boot_set_scan_code by blast
  obtain s3 where s3: "kbd_verify_scan_code (Suc f) boot_dev KBD_ACK s2 = Done (SUCCESS, s3)"
    using boot_verify by blast
  show ?thesis
    using s1 s2 s3 by (simp add: KB_init_def ps2_keyboard_driver_init_def Let_def del: kbd_set_scan_code.simps)
qed

text \<open>The boot information of BootProps with a memory map of 16 MiB; the kernel lies at 1 MiB.\<close>

definition boot_mbi :: mem where "boot_mbi = sample_mbi(0x9032 := 0, 0x9033 := 1)"

lemma boot_mbi_info: "get_multiboot2_mmap_info 3 boot_mbi 0x9000 s = Done ((0x9028, 1), s)"
  by (simp add: get_multiboot2_mmap_info_def find_multiboot2_tag_def MULTIBOOT_TAG_TYPE_MMAP_def
      MULTIBOOT_TAG_TYPE_END_def numeral_3_eq_3 tag_type_def tag_size_def tag_step_def rd32_bytes boot_mbi_def sample_mbi_def)

lemma boot_mbi_entry: "mmap_entry boot_mbi 0x9028 0 = \<lparr>mmap_addr = 0, mmap_len = 0x1000000, mmap_type = 1\<rparr>"
  by (simp add: mmap_entry_def read_mmap_entry_def rd32_bytes rd64_bytes boot_mbi_def sample_mbi_def)

definition low_range :: pf_range_entry_t where "low_range = \<lparr>start = 0, curr_frame = 0x2000, end_addr = 0x100000\<rparr>"
definition high_range :: pf_range_entry_t where "high_range = new_range 0x180000 0x1000000"

lemma boot_ranges: "ranges_of_entry 0x100000 0x180000 (mmap_entry boot_mbi 0x9028 0) = [new_range 0 0x100000, high_range]"
  by (simp add: ranges_of_entry_def boot_mbi_entry high_range_def Let_def PAGE_ALIGN_ADDR_def PAGE_SIZE_def ALIGN_def)

lemma boot_addr_map:
  "addr_map_init 3 boot_mbi 0x100000 0x180000 0x9000 sample_mmu s = Done (sample_mmu\<lparr>pmem := memset_page (pmem sample_mmu) 0x1000,
     addr_ranges := [low_range, high_range], addr_range_curr := 0, local_heap_ptr := 0x1040\<rparr>, s)"
proof -
  have "start_at_page_2 [new_range 0 0x100000, high_range] = [low_range, high_range]"
    by (simp add: start_at_page_2_def new_range_def low_range_def)
  moreover have "local_heap_ptr sample_mmu = 0x1000" by (simp add: sample_mmu_def)
  ultimately show ?thesis
    using boot_ranges by (simp add: addr_map_init_def boot_mbi_info Let_def)
      (simp add: boot_mbi_entry MULTIBOOT_MEMORY_AVAILABLE_def)
qed

lemma boot_tables:
  "\<exists>m. setup_tables (sample_mmu\<lparr>pmem := memset_page (pmem sample_mmu) 0x1000,
     addr_ranges := [low_range, high_range], addr_range_curr := 0, local_heap_ptr := 0x1040\<rparr>) = Done m"
proof -
  let ?s = "sample_mmu\<lparr>pmem := memset_page (pmem sample_mmu) 0x1000,
     addr_ranges := [low_range, high_range], addr_range_curr := 0, local_heap_ptr := 0x1040\<rparr>"
  have ok: "range_ok low_range" "range_ok high_range"
    by (simp_all add: range_ok_def low_range_def high_range_def new_range_def page_aligned_def unat_PHYS_END)
  have held: "frames_held ?s (range_frames low_range @ range_frames high_range)"
    by (rule two_ranges_held [OF ok]) (simp_all add: low_range_def high_range_def new_range_def sample_mmu_def)
  have len: "length (range_frames high_range) = 3712" "length (range_frames low_range) = 254"
    by (simp_all add: range_frames_def high_range_def low_range_def new_range_def)
  obtain x xs where x: "range_frames low_range = x # xs" using len(2) by (cases "range_frames low_range") auto
  have "frames_held ?s (x # (xs @ range_frames high_range))" using held x by simp
  moreover have "1540 \<le> length (xs @ range_frames high_range)" using len(1) by simp
  ultimately show ?thesis using setup_tables_ok by blast
qed

definition boot_env :: kernel_env where
  "boot_env = \<lparr>boot_mem = boot_mbi, kernel_start = 0x100000, kernel_end = 0x180000, gdt_address = 0x101000,
     tss_address = 0x102000, idt_address = 0x103000, ist_address = (\<lambda>i. 0x104000 + of_nat i * 0x1000),
     isr_stubs = (\<lambda>v. 0x110000 + of_nat v * 16), splash = []\<rparr>"

definition power_on :: kernel where
  "power_on = \<lparr>devs = idle_kbd\<lparr>irq_handler_table := replicate IDT_MAX_IRQ \<lparr>handler = None, handler_arg = 0\<rparr>\<rparr>,
      desc = fresh_tables, threads = boot_proc\<lparr>heap := (heap boot_proc)\<lparr>brk_state := sample_mmu\<rparr>\<rparr>\<rparr>"

lemma boot_memory:
  assumes "mem_of k = sample_mmu"
  shows "\<exists>k'. MEM_init 3 boot_env MULTIBOOT2_BOOTLOADER_MAGIC 0x9000 k = Done (0, k')"
  using assms boot_addr_map [of "devs k"] boot_tables
  by (auto simp: MEM_init_def MMU_init_def boot_env_def Let_def IRQ_set_exception_handler_def IS_EXCEPTION_def)

lemma printk_line: "\<exists>s'. printk dev [LF] [] s = Done s'"
  by (simp add: printk_def printk_chunks_def fmt_len_def MAX_STR_LEN_def printk_step_def fmt_at_def LF_def)

lemma power_on_boots: "\<exists>k'. system_initialization 3 boot_dev boot_env MULTIBOOT2_BOOTLOADER_MAGIC 0x9000 power_on = Done (0, k')"
proof -
  obtain k1 where k1: "VGA_init boot_dev power_on = (0, k1)" "threads k1 = threads power_on"
    by (rule VGA_init_ok [of boot_dev power_on "(0, 0)"])
  obtain r2 k2 where k2: "SER_init boot_dev k1 = (r2, k2)" by (cases "SER_init boot_dev k1")
  have r2: "r2 = 0"
    using k2 by (auto simp: SER_init_def serial_driver_init_def Let_def case_prod_unfold set_handler_eq valid_irqs split: if_splits)
  have "mem_of k2 = sample_mmu"
    using SER_init_tables [of boot_dev k1] k2 k1(2) by (simp add: power_on_def)
  then obtain k3 where k3: "MEM_init 3 boot_env MULTIBOOT2_BOOTLOADER_MAGIC 0x9000 k2 = Done (0, k3)" using boot_memory by blast
  obtain k4 where k4: "ISR_init boot_dev boot_env k3 = (0, k4)" by (rule ISR_init_ok [of boot_dev boot_env k3 "(0, 0)"])
  obtain k5 where k5: "KB_init 3 boot_dev k4 = Done (0, k5)" using boot_keyboard [of 2 k4] by (auto simp: numeral_3_eq_3)
  obtain d where d: "printk boot_dev [LF] [] (IRQ_enable (say (OS_INFO ''System initialization is complete!'' []) (devs k5))) = Done d"
    using printk_line by blast
  show ?thesis
    using k1(1) k2 r2 k3 k4 k5 d
    by (auto simp: system_initialization_def Let_def splash_screen_def boot_env_def)
qed

theorem boot_installs_handlers_witness:
  "\<exists>k'. system_initialization 3 boot_dev boot_env MULTIBOOT2_BOOTLOADER_MAGIC 0x9000 power_on = Done (0, k')
     \<and> irq_handler_table (devs k') ! 36 = entry serial_tx_irq_handler_fn \<and> gate_target (idt (desc k') ! 36) = 0x110240"
proof -
  obtain k' where k': "system_initialization 3 boot_dev boot_env MULTIBOOT2_BOOTLOADER_MAGIC 0x9000 power_on = Done (0, k')"
    using power_on_boots by blast
  have "length (irq_handler_table (devs power_on)) = IDT_MAX_IRQ" "length (idt (desc power_on)) = IDT_MAX_IRQ"
    by (simp_all add: power_on_def idle_kbd_def vga_state.defs fresh_tables_def irq_numbers)
  from boot_installs_handlers [OF k' this, of 36] k' show ?thesis by (simp add: irq_numbers boot_env_def)
qed

theorem boot_opens_keyboard_only_witness:
  "\<exists>k'. system_initialization 3 boot_dev boot_env MULTIBOOT2_BOOTLOADER_MAGIC 0x9000 power_on = Done (0, k')
     \<and> pic1 0xB8 (devs k') = (0, 0xFD) \<and> pic2 0x8E (devs k') = (0, 0x8E)"
proof -
  obtain k' where k': "system_initialization 3 boot_dev boot_env MULTIBOOT2_BOOTLOADER_MAGIC 0x9000 power_on = Done (0, k')"
    using power_on_boots by blast
  have "trace (devs power_on) = []"
    by (simp add: power_on_def idle_kbd_def vga_state.defs blank_screen_def serial_state.defs idle_serial_def)
  then have "pic1 0xB8 (devs power_on) = (0, 0xB8)" "pic2 0x8E (devs power_on) = (0, 0x8E)"
    by (simp_all add: pic1_def pic2_def)
  from boot_opens_keyboard_only [OF k' boot_pair this] k' show ?thesis by blast
qed

theorem boot_refuses_magic_witness:
  "\<exists>k'. system_initialization 3 boot_dev boot_env 0x2BADB002 0x9000 power_on = Done (1, k') \<and> desc k' = fresh_tables"
proof -
  have "(0x2BADB002 :: u64) \<noteq> MULTIBOOT2_BOOTLOADER_MAGIC" by (simp add: MULTIBOOT2_BOOTLOADER_MAGIC_def)
  from boot_refuses_magic [OF this, of 3 boot_dev boot_env "0x9000" power_on] show ?thesis by (auto simp: power_on_def)
qed

theorem boot_ends_disabled_but_open_witness:
  "\<exists>k'. system_initialization 3 boot_dev boot_env MULTIBOOT2_BOOTLOADER_MAGIC 0x9000 power_on = Done (0, k')
     \<and> IRQ_status_curr (devs k') = DISABLED \<and> if_flag (devs k')"
  using power_on_boots boot_ends_disabled_but_open by blast

end
