(* ===== verification/Running.thy ===== *)
theory Running imports KernelProps begin

text \<open>
  The kernel after its start-up, as a transition system: device interrupts dispatched while the
  processor accepts them, text printed, keys polled and the interrupt state changed, in any order.
  What all of these keep is stated as an interface, and interpreted for each part of the state.
\<close>

section \<open>What every driver operation keeps\<close>

text \<open>What the table holds for a line of the interrupt controllers: nothing, or a driver's handler.\<close>

definition driver_handlers :: "irq_handler_t option set" where
  "driver_handlers = {None, Some timer_isr_fn, Some serial_tx_irq_handler_fn, Some ps2_keyboard_irq_handler_fn}"

lemma pic_irq_no_exception: "IS_PIC_IRQ v \<Longrightarrow> \<not> IS_EXCEPTION v"
  by (auto simp: IS_PIC_IRQ_def IS_EXCEPTION_def irq_numbers)

locale driver_invariant =
  fixes I :: "kbd_state \<Rightarrow> bool"
  assumes inv_ports [simp]: "I s \<Longrightarrow> I (outb p v s)" "I s \<Longrightarrow> I (snd (inb dev p s))" "I s \<Longrightarrow> I (say k s)"
    and inv_irq [simp]: "I s \<Longrightarrow> I (IRQ_disable s)" "I s \<Longrightarrow> I (IRQ_enable s)" "I s \<Longrightarrow> I (IRQ_reenable s)"
    and inv_display [simp]: "I s \<Longrightarrow> I (VGA_display_str dev str s)"
    and inv_ring [simp]: "I s \<Longrightarrow> I (snd (prod_add dev d s))" "I s \<Longrightarrow> I (hw_write dev (on_tx (idle_flag_update (\<lambda>_. True)) s))"
    and inv_key [simp]: "I s \<Longrightarrow> I (snd (process_scan_code c s))"
begin

lemma inv_serial_write: "I s \<Longrightarrow> I (snd (serial_write dev bs s))"
proof (induction bs arbitrary: s)
  case (Cons b bs)
  obtain r t where r: "prod_add dev b s = (r, t)" by (cases "prod_add dev b s")
  have "I t" using inv_ring(1) [OF Cons.prems, of dev b] r by simp
  then show ?case using Cons.IH r by (auto simp: case_prod_unfold)
qed simp

lemma inv_console: "I s \<Longrightarrow> I (console_out dev c s)"
  by (simp add: console_out_def Let_def inv_serial_write)

lemma inv_printk: "printk dev fmt args s = Done s' \<Longrightarrow> I s \<Longrightarrow> I s'"
proof -
  have "I t \<Longrightarrow> I (fold (console_out dev) cs t)" for cs t
    by (induction cs arbitrary: t) (simp_all add: inv_console)
  then show "printk dev fmt args s = Done s' \<Longrightarrow> I s \<Longrightarrow> I s'" by (auto simp: printk_def)
qed

lemma inv_wait: "I s \<Longrightarrow> I (io_wait_n n s)"
  by (induction n arbitrary: s) (simp_all add: io_wait_def)

lemma inv_read:
  assumes "keyboard_read dev 1 False s = Done (v, s')" and "I s"
  shows "I s'"
proof -
  have "s' = snd (data_port_read dev (snd (status_register_read dev (io_wait_n IO_WAIT_LEN s))))"
    using assms(1) unfolding keyboard_read_once by (simp add: prod_eq_iff)
  then show ?thesis using inv_wait [OF assms(2)] by (simp add: data_port_read_def status_register_read_def)
qed

lemma inv_timer: "I s \<Longrightarrow> I (timer_isr s)"
  by (simp add: timer_isr_def PIC_send_EOI_def Let_def)

lemma inv_serial_irq:
  assumes "I s"
  shows "I (serial_tx_irq_handler dev s)"
proof -
  let ?s = "snd (inb dev (SERIAL_PORT + 2) (say (OS_INFO ''Serial TX IRQ!'' []) s))"
  have "I (hw_write dev (on_tx (idle_flag_update (\<lambda>_. True)) (snd (inb dev SERIAL_PORT ?s))))"
    using assms by (intro inv_ring(2)) simp
  then show ?thesis using assms by (simp add: serial_tx_irq_handler_def Let_def case_prod_unfold)
qed

lemma inv_keyboard:
  assumes "ps2_keyboard_irq_handler dev behind s = Done s'" and "I s"
  shows "I s'"
proof -
  obtain v t where r: "keyboard_read dev 1 False s = Done (v, t)" using keyboard_read_once [of dev s] by (metis prod.collapse)
  have "I (snd (process_scan_code (uint v) t))" using inv_read [OF r assms(2)] by simp
  then show ?thesis
    using assms(1) r by (auto simp: ps2_keyboard_irq_handler_def VGA_display_char_def case_prod_unfold Let_def split: if_splits)
qed

lemma inv_eoi: "I s \<Longrightarrow> I (PIC_send_EOI v s)"
  by (simp add: PIC_send_EOI_def Let_def)

lemma inv_dispatch:
  assumes run: "interrupt_handler (call_handler dev behind others) v e s = Done t"
    and h: "handler (irq_handler_table s ! v) \<in> driver_handlers" "IS_PIC_IRQ v" and s: "I s"
  shows "I t"
proof (cases "handler (irq_handler_table s ! v)")
  case None
  then show ?thesis
    using run s h(2) by (auto simp: interrupt_handler_def pic_irq_no_exception print_irq_def Let_def)
next
  case (Some f)
  then obtain u where u: "call_handler dev behind others f v e (handler_arg (irq_handler_table s ! v)) s = Done u"
    and t: "t = PIC_send_EOI v u"
    using run h(2) by (auto simp: interrupt_handler_def)
  have "I u"
    using u h(1) Some s inv_keyboard by (auto simp: driver_handlers_def call_handler_def inv_timer inv_serial_irq)
  then show ?thesis unfolding t by (rule inv_eoi)
qed

lemma inv_polling: "polling_keyboard_get_char fuel dev s = Done (c, s') \<Longrightarrow> I s \<Longrightarrow> I s'"
proof (induction fuel arbitrary: s)
  case (Suc fuel)
  obtain v t where r: "keyboard_read dev 1 False s = Done (v, t)" using keyboard_read_once [of dev s] by (metis prod.collapse)
  obtain key u where u: "process_scan_code (uint v) t = (key, u)" by (cases "process_scan_code (uint v) t")
  have "I u" using inv_key [OF inv_read [OF r Suc.prems(2)], of "uint v"] u by simp
  then show ?case using Suc.IH [of u] Suc.prems(1) r u by (auto split: if_splits)
qed simp

lemma inv_mask: "I s \<Longrightarrow> I (snd (PIC_set_mask dev i s))" "I s \<Longrightarrow> I (snd (PIC_clear_mask dev i s))"
  by (simp_all add: PIC_set_mask_def PIC_clear_mask_def Let_def case_prod_unfold)

text \<open>The keyboard controller's set-up.\<close>

lemma inv_cmd:
  "I s \<Longrightarrow> I (command_register_cmd c s)" "I s \<Longrightarrow> I (snd (data_port_read dev s))"
  "I s \<Longrightarrow> I (snd (command_register_cmd_read dev c s))" "I s \<Longrightarrow> I (command_register_cmd_write c b s)"
  by (simp_all add: command_register_cmd_def data_port_read_def command_register_cmd_read_def command_register_cmd_write_def
      data_port_write_def inv_wait)

lemma inv_controller: "I s \<Longrightarrow> I (snd (kbd_controller_init dev en s))"
  by (simp add: kbd_controller_init_def Let_def case_prod_unfold inv_cmd)

lemma inv_poll: "poll dev busy b n s = Done s' \<Longrightarrow> I s \<Longrightarrow> I s'"
  by (induction n arbitrary: s) (auto simp: Let_def case_prod_unfold status_register_read_def inv_wait split: if_splits)

lemma inv_kbd_read: "keyboard_read dev n b s = Done (v, s') \<Longrightarrow> I s \<Longrightarrow> I s'"
  by (auto simp: keyboard_read_def dest!: inv_poll) (metis snd_conv inv_cmd(2))

lemma inv_kbd_write: "keyboard_write dev n v b s = Done s' \<Longrightarrow> I s \<Longrightarrow> I s'"
  by (auto simp: keyboard_write_def data_port_write_def inv_wait dest!: inv_poll)

lemma inv_set_scan_code: "kbd_set_scan_code n fuel dev s = Done (r, st, s') \<Longrightarrow> I s \<Longrightarrow> I s'"
  by (induction n arbitrary: s) (auto split: if_splits dest!: inv_kbd_read inv_kbd_write)

lemma inv_verify: "kbd_verify_scan_code fuel dev st s = Done (r, s') \<Longrightarrow> I s \<Longrightarrow> I s'"
  by (auto simp: kbd_verify_scan_code_def split: if_splits dest!: inv_kbd_read inv_kbd_write)

end

section \<open>Invariants that the start-up establishes\<close>

locale boot_invariant = driver_invariant +
  assumes inv_table [simp]: "I s \<Longrightarrow> I (s\<lparr>irq_handler_table := h\<rparr>)"
    and inv_timer_flag [simp]: "I s \<Longrightarrow> I (s\<lparr>timer_enabled := b\<rparr>)"
    and inv_tx_reset [simp]: "I s \<Longrightarrow> I (on_tx serial_fifo_init s)"
begin

lemma inv_set_handler: "I s \<Longrightarrow> I (snd (IRQ_set_handler v h a s))"
  by (simp add: IRQ_set_handler_def set_table_def)

lemma inv_serial_init: "I s \<Longrightarrow> I (snd (serial_driver_init dev s))"
  by (simp add: serial_driver_init_def Let_def case_prod_unfold inv_set_handler inv_mask del: port_simps(5))

lemma inv_SER: "SER_init dev k = (0, k') \<Longrightarrow> I (devs k) \<Longrightarrow> I (devs k')"
  using inv_serial_init [of "devs k" dev]
  by (auto simp: SER_init_def serial_print_def inv_serial_write Let_def case_prod_unfold split: if_splits)

lemma inv_MEM:
  assumes "MEM_init fuel env magic tags k = Done (0, k')" and "I (devs k)"
  shows "I (devs k')"
proof -
  have info: "get_multiboot2_mmap_info fuel m a s = Done (x, s') \<Longrightarrow> I s \<Longrightarrow> I s'" for m a x s s'
    by (auto simp: get_multiboot2_mmap_info_def find_multiboot2_tag_def Let_def split: if_splits)
  show ?thesis
    using assms
    by (auto simp: MEM_init_def MMU_init_def addr_map_init_def Let_def IRQ_set_exception_handler_def set_table_def
        split: if_splits dest!: info)
qed

lemma inv_PIC_init: "I s \<Longrightarrow> I (PIC_init dev s)"
proof -
  have "I t \<Longrightarrow> I (fold (\<lambda>i s. snd (PIC_set_mask dev i s)) is t)" for "is" t
    by (induction "is" arbitrary: t) (simp_all add: inv_mask)
  moreover have "I s \<Longrightarrow> I (PIC_remap dev o1 o2 s)" for o1 o2
    by (simp add: PIC_remap_def io_wait_def Let_def case_prod_unfold)
  ultimately show "I s \<Longrightarrow> I (PIC_init dev s)" by (simp add: PIC_init_def)
qed

lemma inv_ISR: "ISR_init dev env k = (0, k') \<Longrightarrow> I (devs k) \<Longrightarrow> I (devs k')"
  using inv_PIC_init [of "IRQ_disable (devs k)" dev]
  by (auto simp: ISR_init_def IRQ_init_def timer_init_def inv_set_handler inv_mask Let_def)

lemma inv_KB:
  assumes "KB_init fuel dev k = Done (0, k')" and "I (devs k)"
  shows "I (devs k')"
proof -
  obtain s1 r1 where c: "kbd_controller_init dev True (devs k) = (r1, s1)" by (cases "kbd_controller_init dev True (devs k)")
  have "I s1" using inv_controller [OF assms(2), of dev True] c by simp
  then show ?thesis
    using assms(1) c
    by (auto simp: KB_init_def ps2_keyboard_driver_init_def Let_def inv_mask inv_set_handler inv_cmd
        split: if_splits driver_status_t.splits dest!: inv_set_scan_code inv_verify)
qed

lemma inv_splash: "splash_screen dev cs s = Done s' \<Longrightarrow> I s \<Longrightarrow> I s'"
  unfolding splash_screen_def by (rule fold_bind_inv) (auto intro: inv_printk)

lemma inv_boot:
  assumes "system_initialization fuel dev env magic tags k = Done (0, k')" and vga: "I (devs (snd (VGA_init dev k)))"
  shows "I (devs k')"
proof -
  obtain k1 k2 k3 k4 k5 d where p: "VGA_init dev k = (0, k1)" "SER_init dev k1 = (0, k2)"
    "MEM_init fuel env magic tags k2 = Done (0, k3)" "ISR_init dev env k3 = (0, k4)" "KB_init fuel dev k4 = Done (0, k5)"
    "splash_screen dev (splash env) (say (OS_INFO ''System initialization is complete!'' []) (devs k5)) = Done d"
    "printk dev [LF] [] (IRQ_enable d) = Done (devs k')"
    by (rule boot_parts [OF assms(1)])
  have "I (devs k1)" using vga p(1) by simp
  then have "I (devs k5)" by (intro inv_KB [OF p(5)] inv_ISR [OF p(4)] inv_MEM [OF p(3)] inv_SER [OF p(2)])
  then have "I d" by (intro inv_splash [OF p(6)]) simp
  then show ?thesis by (intro inv_printk [OF p(7)]) simp
qed

end

section \<open>The invariants of the kernel\<close>

text \<open>The recorded state of the shift and caps keys and the tables they select.\<close>

definition key_view :: "kbd_state \<Rightarrow> key_state_t \<times> key_state_t \<times> u8 list \<times> u8 list" where
  "key_view s = (shift_state s, caps_state s, ascii_table_LOWER s, ascii_table_UPPER s)"

lemma tracks_view: "key_view s = key_view s' \<Longrightarrow> kbd_tracks h s = kbd_tracks h s'"
  by (simp add: key_view_def kbd_tracks_def)

interpretation keys: output_observer key_view
  by unfold_locales (simp_all add: key_view_def outb_def inb_def say_def IRQ_disable_def IRQ_enable_def asm_cli_def asm_sti_def Let_def)

interpretation cur: serial_observer "\<lambda>s :: kbd_state. (cur_row s, cur_col s)"
  by unfold_locales (simp_all add: IRQ_enable_def asm_cli_def)

definition screen_keys :: "kbd_state \<Rightarrow> bool" where
  "screen_keys s \<longleftrightarrow> cursor_ok s \<and> (\<exists>h. kbd_tracks h s)"

lemma screen_keys_cong:
  "(cur_row s', cur_col s') = (cur_row s, cur_col s) \<Longrightarrow> key_view s' = key_view s \<Longrightarrow> screen_keys s \<Longrightarrow> screen_keys s'"
  using tracks_view [of s s'] by (simp add: screen_keys_def cursor_ok_def)

lemma process_tracks_some:
  assumes "kbd_tracks h s"
  shows "\<exists>h'. kbd_tracks h' (snd (process_scan_code c s))"
proof -
  have "process_scan_code c s = process_scan_code (uint (word_of_int c :: u8)) s" by (simp add: process_scan_code_def)
  then show ?thesis using process_tracks [OF assms] by metis
qed

lemma key_view_display: "key_view (VGA_display_str dev str s) = key_view s"
  by simp

text \<open>The cursor and the keys.\<close>

interpretation scr: boot_invariant screen_keys
proof
  fix s :: kbd_state and dev :: device and str :: "u8 list" and c :: int and d :: u8
  assume s: "screen_keys s"
  have "cursor_ok (VGA_display_str dev str s)"
    using s display_ok [of s dev str VGA_CHAR_DEFAULT_ATTR] by (simp add: screen_keys_def VGA_display_str_def)
  then show "screen_keys (VGA_display_str dev str s)"
    using s tracks_view [OF key_view_display] by (simp add: screen_keys_def)
  show "screen_keys (snd (prod_add dev d s))"
    by (rule screen_keys_cong [OF cur.obs_prod_add keys.obs_prod_add s])
  show "screen_keys (hw_write dev (on_tx (idle_flag_update (\<lambda>_. True)) s))"
    by (rule screen_keys_cong [OF _ _ s]) (simp_all only: cur.obs_hw_write keys.obs_hw_write cur.obs_tx keys.obs_tx)
  show "screen_keys (snd (process_scan_code c s))"
    using s process_tracks_some by (auto simp: screen_keys_def cursor_ok_def process_keeps_screen)
qed (erule screen_keys_cong [rotated 2]; simp add: key_view_def outb_def inb_def say_def IRQ_disable_def IRQ_enable_def IRQ_reenable_def asm_cli_def asm_sti_def Let_def)+

text \<open>The ring of the serial port.\<close>

interpretation ring: driver_invariant "\<lambda>s. fifo_ok (serial_tx s)"
proof
  fix s :: kbd_state and dev :: device and c :: int
  assume s: "fifo_ok (serial_tx s)"
  have "serial_tx (snd (process_scan_code c s)) = serial_tx s"
    by (simp add: process_scan_code_def key_released_def key_pressed_def Let_def if_distrib [of snd] if_distrib [of serial_tx] cong: if_cong)
  then show "fifo_ok (serial_tx (snd (process_scan_code c s)))" using s by simp
qed (simp_all add: prod_add_ok hw_write_ok IRQ_enable_def asm_cli_def)

text \<open>The table of handlers.\<close>

interpretation tab: driver_invariant "\<lambda>s. irq_handler_table s = T" for T
proof
  fix s :: kbd_state and dev :: device and d :: u8 and str :: "u8 list" and c :: int
  let ?m = "(0, 0) :: u8 \<times> u8"
  assume s: "irq_handler_table s = T"
  have t: "view ?m s' = view ?m s \<Longrightarrow> irq_handler_table s' = T" for s' :: kbd_state
    using s table_of_view by metis
  show "irq_handler_table (VGA_display_str dev str s) = T" by (rule t [OF vw.obs_display])
  show "irq_handler_table (snd (prod_add dev d s)) = T" by (rule t [OF vw.obs_prod_add])
  show "irq_handler_table (hw_write dev (on_tx (idle_flag_update (\<lambda>_. True)) s)) = T"
    by (rule t) (simp only: vw.obs_hw_write vw.obs_tx)
  show "irq_handler_table (snd (process_scan_code c s)) = T"
    using s by (simp add: process_scan_code_def key_released_def key_pressed_def Let_def if_distrib [of snd]
        if_distrib [of irq_handler_table] cong: if_cong)
qed (simp_all add: IRQ_enable_def IRQ_disable_def IRQ_reenable_def asm_cli_def asm_sti_def Let_def)

text \<open>The recorded interrupt state is the opposite of the processor's flag.\<close>

definition flag_opposite :: "'a irq_state_scheme \<Rightarrow> bool" where
  "flag_opposite s \<longleftrightarrow> (IRQ_status_curr s = ENABLED \<longleftrightarrow> \<not> if_flag s)"

lemma flag_opposite_irq [simp]:
  "flag_opposite s \<Longrightarrow> flag_opposite (IRQ_disable s)" "flag_opposite (IRQ_enable s)" "flag_opposite s \<Longrightarrow> flag_opposite (IRQ_reenable s)"
  by (auto simp: flag_opposite_def IRQ_disable_def IRQ_enable_def IRQ_reenable_def asm_cli_def asm_sti_def Let_def)

lemma flag_opposite_cong:
  "IRQ_status_curr s' = IRQ_status_curr s \<Longrightarrow> if_flag s' = if_flag s \<Longrightarrow> flag_opposite s' = flag_opposite s"
  by (simp add: flag_opposite_def)

lemma flag_opposite_str:
  assumes esc: "\<And>s. flag_opposite s \<Longrightarrow> flag_opposite (esc s)" and t: "flag_opposite t"
  shows "flag_opposite (str_with dev esc str attr t)"
proof -
  have "flag_opposite (char_with esc attr c u)" if u: "flag_opposite u" for c u
  proof -
    have "flag_opposite (next_line (put_char c attr (IRQ_disable u)))"
      using u by (subst flag_opposite_cong [of _ "IRQ_disable u"]) simp_all
    then show ?thesis using esc u by (simp add: char_with_def Let_def)
  qed
  then have "flag_opposite u \<Longrightarrow> flag_opposite (fold (char_with esc attr) str u)" for u
    by (induction str arbitrary: u) simp_all
  moreover have "flag_opposite (VGA_disable_cursor t)"
    using t by (simp add: flag_opposite_def VGA_disable_cursor_def VGA_CLEAR_CHAR_def VGA_PUTC_def Let_def)
  ultimately show ?thesis
    by (simp add: str_with_def flag_opposite_def VGA_enable_cursor_def VGA_update_cursor_def VGA_set_cursor_pos_def Let_def case_prod_unfold)
qed

lemma flag_opposite_display: "flag_opposite s \<Longrightarrow> flag_opposite (VGA_display_str dev str s)"
  unfolding VGA_display_str_def VGA_display_attr_str_def by (intro flag_opposite_str)

lemma flag_opposite_ports [simp]:
  "flag_opposite (outb p v s) = flag_opposite s" "flag_opposite (snd (inb dev p s)) = flag_opposite s"
  "flag_opposite (say k s) = flag_opposite s"
  by (simp_all add: flag_opposite_def outb_def inb_def say_def Let_def)

lemma flag_opposite_tx [simp]: "flag_opposite (s\<lparr>serial_tx := x\<rparr>) = flag_opposite s"
  by (simp add: flag_opposite_def)

lemma flag_opposite_hw_write:
  assumes "flag_opposite s"
  shows "flag_opposite (hw_write dev s)"
proof -
  let ?s = "on_tx (idle_flag_update (\<lambda>_. False)) s"
  obtain r u where u: "cons_get ?s = (r, u)" by (cases "cons_get ?s")
  have "flag_opposite (snd (cons_get ?s))"
    using assms by (simp add: cons_get_def Let_def case_prod_unfold)
  then have "flag_opposite u" using u by simp
  then show ?thesis
    using assms u by (simp add: hw_write_def Let_def case_prod_unfold split: option.split)
qed

lemma process_flags:
  fixes s :: "'a kbd_state_scheme"
  shows "IRQ_status_curr (snd (process_scan_code c s)) = IRQ_status_curr s" "if_flag (snd (process_scan_code c s)) = if_flag s"
proof -
  have "IRQ_status_curr (snd (key_released k t)) = IRQ_status_curr t" "if_flag (snd (key_released k t)) = if_flag t"
    "IRQ_status_curr (snd (key_pressed k t)) = IRQ_status_curr t" "if_flag (snd (key_pressed k t)) = if_flag t"
    for k and t :: "'a kbd_state_scheme"
    by (simp_all add: key_released_def key_pressed_def say_def Let_def if_distrib [of snd] if_distrib [of IRQ_status_curr]
        if_distrib [of if_flag] cong: if_cong)
  then show "IRQ_status_curr (snd (process_scan_code c s)) = IRQ_status_curr s" "if_flag (snd (process_scan_code c s)) = if_flag s"
    by (simp_all add: process_scan_code_def Let_def)
qed

interpretation flags: driver_invariant flag_opposite
proof
  fix s :: kbd_state and dev :: device and d :: u8 and c :: int
  assume s: "flag_opposite s"
  show "flag_opposite (hw_write dev (on_tx (idle_flag_update (\<lambda>_. True)) s))" using s by (simp add: flag_opposite_hw_write)
  show "flag_opposite (snd (prod_add dev d s))" using s by (simp add: prod_add_def Let_def flag_opposite_hw_write)
  show "flag_opposite (snd (process_scan_code c s))"
    using s by (simp add: flag_opposite_def process_flags)
qed (simp_all add: flag_opposite_display)

section \<open>The running kernel\<close>

text \<open>
  A device interrupt is taken while the processor's flag is set; the gate clears the flag and the
  return from the interrupt restores it. \<open>behind\<close> are the bytes behind the character that the
  keyboard handler displays (see Vga), unknown at every interrupt.
\<close>

inductive kernel_step for dev and others where
  interrupt: "if_flag s \<Longrightarrow> IS_PIC_IRQ v \<Longrightarrow>
     interrupt_handler (call_handler dev behind others) v 0 (s\<lparr>if_flag := False\<rparr>) = Done t \<Longrightarrow>
     kernel_step dev others s (t\<lparr>if_flag := True\<rparr>)"
| print: "printk dev fmt args s = Done t \<Longrightarrow> kernel_step dev others s t"
| poll: "polling_keyboard_get_char fuel dev s = Done (c, t) \<Longrightarrow> kernel_step dev others s t"
| enable: "kernel_step dev others s (IRQ_enable s)"
| disable: "kernel_step dev others s (IRQ_disable s)"
| reenable: "kernel_step dev others s (IRQ_reenable s)"

text \<open>The states that a kernel reaches which has started successfully from power on: no handler
  installed, no key held.\<close>

inductive kernel_reachable for dev and others where
  booted: "system_initialization fuel dev env magic tags k = Done (0, k') \<Longrightarrow>
     kbd_reset (devs k) \<Longrightarrow> irq_handler_table (devs k) = replicate IDT_MAX_IRQ \<lparr>handler = None, handler_arg = 0\<rparr> \<Longrightarrow>
     kernel_reachable dev others (devs k')"
| step: "kernel_reachable dev others s \<Longrightarrow> kernel_step dev others s t \<Longrightarrow> kernel_reachable dev others t"

inductive_cases kernel_stepE: "kernel_step dev others s t"

text \<open>Where the record says DISABLED, a handler leaves it so.\<close>

lemma disabled_display:
  fixes s :: "'a vga_state_scheme"
  assumes "IRQ_status_curr s = DISABLED"
  shows "IRQ_status_curr (VGA_display_str dev str s) = DISABLED"
proof -
  have "IRQ_status_curr (fold (\<lambda>c. VGA_display_attr_char dev c attr) str t) = DISABLED" if "IRQ_status_curr t = DISABLED" for attr and t :: "'a vga_state_scheme"
    using that by (induction str arbitrary: t) (simp_all add: vga_escape_loses_enable)
  moreover have "IRQ_status_curr (VGA_disable_cursor s) = DISABLED"
    using assms by (simp add: VGA_disable_cursor_def VGA_CLEAR_CHAR_def VGA_PUTC_def Let_def)
  ultimately show ?thesis using assms by (simp add: VGA_display_str_def display_str_chars)
qed

lemma disabled_hw_write:
  assumes "IRQ_status_curr s = DISABLED"
  shows "IRQ_status_curr (hw_write dev s) = DISABLED"
proof -
  let ?s = "on_tx (idle_flag_update (\<lambda>_. False)) s"
  obtain r u where u: "cons_get ?s = (r, u)" by (cases "cons_get ?s")
  have "IRQ_status_curr (snd (cons_get ?s)) = DISABLED"
    using assms by (simp add: cons_get_def Let_def case_prod_unfold IRQ_reenable_def)
  then have "IRQ_status_curr u = DISABLED" using u by simp
  then show ?thesis
    using assms u by (simp add: hw_write_def inb_def Let_def split: option.split)
qed

lemma disabled_keyboard:
  assumes "ps2_keyboard_irq_handler dev behind s = Done t" and "IRQ_status_curr s = DISABLED"
  shows "IRQ_status_curr t = DISABLED"
proof -
  let ?r = "data_port_read dev (snd (status_register_read dev (io_wait_n IO_WAIT_LEN s)))"
  have "IRQ_status_curr (snd ?r) = DISABLED"
    using assms(2) by (simp add: data_port_read_def status_register_read_def inb_def io_wait_n_eq Let_def)
  then show ?thesis
    using assms(1) process_flags(1) [of "uint (fst ?r)" "snd ?r"]
    by (auto simp: ps2_keyboard_irq_handler_def keyboard_read_once VGA_display_char_def case_prod_unfold Let_def
        disabled_display split: if_splits simp del: One_nat_def)
qed

lemma disabled_dispatch:
  assumes run: "interrupt_handler (call_handler dev behind others) v e s = Done t"
    and h: "handler (irq_handler_table s ! v) \<in> driver_handlers" "IS_PIC_IRQ v" and s: "IRQ_status_curr s = DISABLED"
  shows "IRQ_status_curr t = DISABLED"
proof (cases "handler (irq_handler_table s ! v)")
  case None
  then show ?thesis
    using run s h(2) by (auto simp: interrupt_handler_def pic_irq_no_exception print_irq_def say_def Let_def)
next
  case (Some f)
  then obtain u where u: "call_handler dev behind others f v e (handler_arg (irq_handler_table s ! v)) s = Done u"
    and t: "t = PIC_send_EOI v u"
    using run h(2) by (auto simp: interrupt_handler_def)
  have "IRQ_status_curr u = DISABLED"
    using u h(1) Some s disabled_keyboard
    by (auto simp: driver_handlers_def call_handler_def timer_isr_def serial_tx_irq_handler_def PIC_send_EOI_def say_def inb_def
        outb_def disabled_hw_write Let_def)
  then show ?thesis by (simp add: t PIC_send_EOI_def say_def Let_def)
qed

section \<open>Every step keeps the invariants\<close>

context driver_invariant begin

lemma inv_step:
  assumes step: "kernel_step dev others s t" and s: "I s"
    and irq: "\<And>v behind u. if_flag s \<Longrightarrow> IS_PIC_IRQ v \<Longrightarrow>
      interrupt_handler (call_handler dev behind others) v 0 (s\<lparr>if_flag := False\<rparr>) = Done u \<Longrightarrow> I (u\<lparr>if_flag := True\<rparr>)"
  shows "I t"
  using step
proof (cases rule: kernel_step.cases)
  case (print fmt args)
  then show ?thesis using s by (blast intro: inv_printk)
next
  case (poll fuel c)
  then show ?thesis using s by (blast intro: inv_polling)
qed (use s irq in auto)

text \<open>An invariant that does not look at the processor's flag is kept by interrupts too.\<close>

lemma inv_step_blind:
  assumes step: "kernel_step dev others s t" and s: "I s"
    and blind: "\<And>s b. I (s\<lparr>if_flag := b\<rparr>) = I s"
    and h: "\<And>v. IS_PIC_IRQ v \<Longrightarrow> handler (irq_handler_table s ! v) \<in> driver_handlers"
  shows "I t"
proof (rule inv_step [OF step s])
  fix v behind u
  assume v: "IS_PIC_IRQ v" and run: "interrupt_handler (call_handler dev behind others) v 0 (s\<lparr>if_flag := False\<rparr>) = Done u"
  have "I u" by (rule inv_dispatch [OF run]) (use v h s blind in auto)
  then show "I (u\<lparr>if_flag := True\<rparr>)" using blind by simp
qed

end

definition booted_table :: "irq_handler_entry_t list" where
  "booted_table = (replicate IDT_MAX_IRQ \<lparr>handler = None, handler_arg = 0\<rparr>)[36 := entry serial_tx_irq_handler_fn,
      14 := entry page_fault_irq_fn, 32 := entry timer_isr_fn, 33 := entry ps2_keyboard_irq_handler_fn]"

lemma booted_drivers:
  assumes "IS_PIC_IRQ v"
  shows "handler (booted_table ! v) \<in> driver_handlers"
proof -
  have "v < 48" "v \<noteq> 14" using assms by (simp_all add: IS_PIC_IRQ_def irq_numbers)
  then show ?thesis by (simp add: booted_table_def nth_list_update irq_numbers entry_def driver_handlers_def)
qed

definition kernel_ok :: "kbd_state \<Rightarrow> bool" where
  "kernel_ok s \<longleftrightarrow> screen_keys s \<and> fifo_ok (serial_tx s) \<and> irq_handler_table s = booted_table \<and> flag_opposite s"

lemma step_kernel_ok:
  assumes step: "kernel_step dev others s t" and ok: "kernel_ok s"
  shows "kernel_ok t"
proof -
  note s = ok [unfolded kernel_ok_def]
  have h: "IS_PIC_IRQ v \<Longrightarrow> handler (irq_handler_table s ! v) \<in> driver_handlers" for v
    using s booted_drivers by simp
  have "screen_keys t"
    by (rule scr.inv_step_blind [OF step _ _ h]) (use s in \<open>auto simp: screen_keys_def cursor_ok_def kbd_tracks_def\<close>)
  moreover have "fifo_ok (serial_tx t)" by (rule ring.inv_step_blind [OF step _ _ h]) (use s in auto)
  moreover have "irq_handler_table t = booted_table" by (rule tab.inv_step_blind [OF step _ _ h]) (use s in auto)
  moreover have "flag_opposite t"
  proof (rule flags.inv_step [OF step])
    fix v behind u
    assume "if_flag s" and v: "IS_PIC_IRQ v"
      and run: "interrupt_handler (call_handler dev behind others) v 0 (s\<lparr>if_flag := False\<rparr>) = Done u"
    then have "IRQ_status_curr (s\<lparr>if_flag := False\<rparr>) = DISABLED"
      using s by (cases "IRQ_status_curr s") (auto simp: flag_opposite_def)
    then have "IRQ_status_curr u = DISABLED" by (intro disabled_dispatch [OF run]) (use v h in auto)
    then show "flag_opposite (u\<lparr>if_flag := True\<rparr>)" by (simp add: flag_opposite_def)
  qed (use s in simp)
  ultimately show ?thesis by (simp add: kernel_ok_def)
qed

lemma boot_kernel_ok:
  assumes boot: "system_initialization fuel dev env magic tags k = Done (0, k')" and keys: "kbd_reset (devs k)"
    and tbl: "irq_handler_table (devs k) = replicate IDT_MAX_IRQ \<lparr>handler = None, handler_arg = 0\<rparr>"
  shows "kernel_ok (devs k')"
proof -
  have clear: "cursor_ok (VGA_clear s)" for s :: kbd_state by (simp add: VGA_clear_def cursor_ok_unat)
  have vga: "key_view (devs (snd (VGA_init dev k))) = key_view (devs k)" "cursor_ok (devs (snd (VGA_init dev k)))"
    using clear by (simp_all add: VGA_init_def VGA_driver_init_def Let_def cursor_ok_def)
  have "screen_keys (devs k')"
    by (rule scr.inv_boot [OF boot]) (use vga tracks_view [OF vga(1)] kbd_reset_tracks [OF keys] in \<open>auto simp: screen_keys_def\<close>)
  moreover have "fifo_ok (serial_tx (devs k'))" using boot_ring [OF boot] by (simp add: ser_idle_def)
  moreover have "irq_handler_table (devs k') = booted_table" by (simp add: boot_table(1) [OF boot] tbl booted_table_def)
  moreover have "flag_opposite (devs k')" using boot_flags [OF boot] by (simp add: flag_opposite_def)
  ultimately show ?thesis by (simp add: kernel_ok_def)
qed

lemma reachable_kernel_ok: "kernel_reachable dev others s \<Longrightarrow> kernel_ok s"
  by (induction rule: kernel_reachable.induct) (auto intro: boot_kernel_ok step_kernel_ok)

text \<open>C3: In every state that the kernel can reach after a successful start, by any sequence of device
  interrupts, printing, polling and changes of the interrupt state, the cursor is on the screen,
  the transmit ring keeps its invariant, the keyboard's tables are those its keys select, the
  handler table is the one the start-up installed, and the kernel's record of the interrupt state
  is the opposite of the processor's flag.\<close>

theorem running_kernel_safe:
  assumes "kernel_reachable dev others s"
  shows "cursor_ok s \<and> fifo_ok (serial_tx s) \<and> (\<exists>h. kbd_tracks h s) \<and> irq_handler_table s = booted_table
     \<and> (IRQ_status_curr s = ENABLED \<longleftrightarrow> \<not> if_flag s)"
  using reachable_kernel_ok [OF assms] by (simp add: kernel_ok_def screen_keys_def flag_opposite_def)

text \<open>C18: No interrupt of a device stops the kernel: in every reachable state the dispatcher returns from
  each of the sixteen vectors of the controllers, whatever the device behind the ports answers.\<close>

theorem device_interrupts_return:
  assumes "kernel_reachable dev others s" and v: "IS_PIC_IRQ v"
  shows "\<exists>t. interrupt_handler (call_handler dev behind others) v e s = Done t"
proof -
  have h: "handler (irq_handler_table s ! v) \<in> driver_handlers"
    using reachable_kernel_ok [OF assms(1)] booted_drivers [OF v] by (simp add: kernel_ok_def)
  have "\<exists>t. ps2_keyboard_irq_handler dev behind s = Done t"
    unfolding ps2_keyboard_irq_handler_def keyboard_read_once by (simp add: case_prod_unfold Let_def)
  then show ?thesis
    using h v by (auto simp: interrupt_handler_def call_handler_def driver_handlers_def pic_irq_no_exception split: option.split)
qed

section \<open>Witnesses\<close>

text \<open>The sample machine starts, and then prints a line.\<close>

lemma sample_reachable: "\<exists>s. kernel_reachable boot_dev others s"
proof -
  obtain k' where "system_initialization 3 boot_dev boot_env MULTIBOOT2_BOOTLOADER_MAGIC 0x9000 power_on = Done (0, k')"
    using power_on_boots by blast
  moreover have "kbd_reset (devs power_on)" using idle_kbd_fields(1) by (simp add: power_on_def kbd_reset_def)
  ultimately have booted: "kernel_reachable boot_dev others (devs k')"
    by (rule kernel_reachable.booted) (simp add: power_on_def)
  obtain s where "printk boot_dev [LF] [] (devs k') = Done s" using printk_line by blast
  then show ?thesis using kernel_reachable.step [OF booted kernel_step.print] by blast
qed

theorem running_kernel_safe_witness:
  "\<exists>s. kernel_reachable boot_dev (\<lambda>_ _ _ _ s. Done s) s \<and> cursor_ok s \<and> irq_handler_table s = booted_table"
  using sample_reachable running_kernel_safe by blast

theorem device_interrupts_return_witness:
  "\<exists>s t. kernel_reachable boot_dev (\<lambda>_ _ _ _ s. Done s) s
     \<and> interrupt_handler (call_handler boot_dev [0] (\<lambda>_ _ _ _ s. Done s)) 33 0 s = Done t"
proof -
  obtain s where s: "kernel_reachable boot_dev (\<lambda>_ _ _ _ s. Done s) s" using sample_reachable by blast
  have "IS_PIC_IRQ 33" by (simp add: IS_PIC_IRQ_def irq_numbers)
  from device_interrupts_return [OF s this] s show ?thesis by blast
qed

end
