(* ===== verification/Booted.thy ===== *)
theory Booted imports KernelProps VirtSpace begin

text \<open>
  From the boot loader's memory map to the running memory manager: on a well-formed map the ranges
  that \<open>addr_map_init\<close> builds are an allocator in the sense of PageFrames, so a kernel that has
  booted (\<open>system_initialization\<close> of src/boot/kernel\_main.c) starts in a state of VirtSpace, and no
  run from there hands out a frame of the kernel image.
\<close>

section \<open>Well-formed memory maps\<close>

abbreviation available :: "mb_mmap_entry_t \<Rightarrow> bool" where
  "available e \<equiv> mmap_type e = MULTIBOOT_MEMORY_AVAILABLE"

definition entry_end :: "mb_mmap_entry_t \<Rightarrow> nat" where
  "entry_end e = unat (mmap_addr e) + unat (mmap_len e)"

text \<open>The available entries are not empty and lie below 1 TiB, one behind the other; the first starts
  at 0 and holds more than its first two pages; where an entry holds the kernel it goes on behind the
  kernel's last page.\<close>

definition usable_entry :: "addr \<Rightarrow> addr \<Rightarrow> mb_mmap_entry_t \<Rightarrow> bool" where
  "usable_entry ks ke e \<longleftrightarrow> entry_ok ks ke e \<and> mmap_len e \<noteq> 0 \<and> entry_end e \<le> unat PHYS_END + 1
     \<and> (mmap_addr e \<le> ks \<and> unat ke \<le> entry_end e \<longrightarrow> unat (PAGE_ALIGN_ADDR ke) < entry_end e)"

definition memory_map_ok :: "addr \<Rightarrow> addr \<Rightarrow> mb_mmap_entry_t list \<Rightarrow> bool" where
  "memory_map_ok ks ke es \<longleftrightarrow> es \<noteq> [] \<and> available (hd es) \<and> 0x2000 < entry_end (hd es)
     \<and> list_all (usable_entry ks ke) (filter available es)
     \<and> sorted_wrt (\<lambda>a b. entry_end a \<le> unat (mmap_addr b)) (filter available es)"

section \<open>The ranges of a well-formed map\<close>

definition range_before :: "pf_range_entry_t \<Rightarrow> pf_range_entry_t \<Rightarrow> bool" where
  "range_before r q \<longleftrightarrow> end_addr r \<le> curr_frame q"

lemma ranges_held:
  assumes ok: "list_all range_ok rs" and ord: "sorted_wrt range_before rs"
    and s: "addr_ranges s = rs" "addr_range_curr s = 0" "pf_free_list_head s = NULL"
  shows "frames_held s (concat (map range_frames rs))"
proof -
  have "distinct (concat (map range_frames rs)) \<and> list_all good_frame (concat (map range_frames rs))"
    using ok ord
  proof (induction rs)
    case (Cons r rs)
    have "set (range_frames r) \<inter> set (range_frames q) = {}" if "q \<in> set rs" for q
    proof (rule ccontr)
      assume "set (range_frames r) \<inter> set (range_frames q) \<noteq> {}"
      then obtain f where "f \<in> set (range_frames r)" "f \<in> set (range_frames q)" by blast
      then have "unat f < unat (end_addr r)" "unat (curr_frame q) \<le> unat f" using in_range_frames by blast+
      moreover have "end_addr r \<le> curr_frame q" using Cons.prems(2) that by (simp add: range_before_def)
      ultimately show False by (simp add: word_le_nat_alt)
    qed
    then show ?case using Cons range_frames_good [of r] by auto
  qed simp
  then show ?thesis using ok s unfolding frames_held_def new_frames_def by (auto intro!: exI [of _ "[]"])
qed

lemma addr_map_loop_ranges:
  "addr_map_loop ks ke es rs lhp = Done (rs', lhp') \<Longrightarrow>
   rs' = rs @ concat (map (ranges_of_entry ks ke) (filter available es))"
  by (induction es arbitrary: rs lhp) (fastforce simp: Let_def split: if_splits)+

text \<open>The ranges of one entry lie in it, in order.\<close>

definition range_within :: "mb_mmap_entry_t \<Rightarrow> pf_range_entry_t \<Rightarrow> bool" where
  "range_within e r \<longleftrightarrow> page_aligned (curr_frame r) \<and> mmap_addr e \<le> curr_frame r \<and> curr_frame r < end_addr r
     \<and> unat (end_addr r) \<le> entry_end e"

lemma entry_ranges:
  assumes e: "usable_entry ks ke e" and ks: "page_aligned ks" "ks < ke" "unat ke \<le> 1099511627775"
  shows "list_all (range_within e) (ranges_of_entry ks ke e)" and "sorted_wrt range_before (ranges_of_entry ks ke e)"
proof -
  have ok: "entry_ok ks ke e" and len: "mmap_len e \<noteq> 0" using e by (auto simp: usable_entry_def)
  have u: "unat (mmap_addr e + mmap_len e) = entry_end e"
    using ok unfolding entry_end_def by (intro unat_add_nowrap) (simp add: entry_ok_def)
  have pos: "unat (mmap_addr e) < entry_end e" using len by (simp add: entry_end_def unat_gt_0)
  have ke1: "1 \<le> unat ke" using ks(2) by (simp add: word_less_nat_alt)
  note al = PAGE_ALIGN_ADDR_ok [OF ke1 ks(3)]
  have hold: "unat (PAGE_ALIGN_ADDR ke) < entry_end e" if "mmap_addr e \<le> ks" "ke \<le> mmap_addr e + mmap_len e"
    using e that u by (simp add: usable_entry_def word_le_nat_alt)
  have start: "page_aligned (mmap_addr e)" using ok by (simp add: entry_ok_def)
  show "list_all (range_within e) (ranges_of_entry ks ke e)"
    using hold al start pos ks(2) u
    by (auto simp: ranges_of_entry_def Let_def new_range_def range_within_def word_le_nat_alt word_less_nat_alt
        word_unat_eq_iff)
  show "sorted_wrt range_before (ranges_of_entry ks ke e)"
    using al(2) ks(2)
    by (auto simp: ranges_of_entry_def Let_def new_range_def range_before_def word_le_nat_alt word_less_nat_alt)
qed

lemma map_ranges:
  assumes ks: "page_aligned ks" "ks < ke" "unat ke \<le> 1099511627775"
  shows "list_all (usable_entry ks ke) es \<Longrightarrow> sorted_wrt (\<lambda>a b. entry_end a \<le> unat (mmap_addr b)) es \<Longrightarrow>
    sorted_wrt range_before (concat (map (ranges_of_entry ks ke) es))
    \<and> (\<forall>r \<in> set (concat (map (ranges_of_entry ks ke) es)). \<exists>e \<in> set es. range_within e r)"
proof (induction es)
  case (Cons e es)
  have e: "usable_entry ks ke e" using Cons.prems(1) by simp
  have within: "range_within e r" if "r \<in> set (ranges_of_entry ks ke e)" for r
    using entry_ranges(1) [OF e ks] that by (simp add: list_all_iff)
  have IH: "sorted_wrt range_before (concat (map (ranges_of_entry ks ke) es))"
    "\<forall>r \<in> set (concat (map (ranges_of_entry ks ke) es)). \<exists>e \<in> set es. range_within e r"
    using Cons by simp_all
  have "range_before r q" if r: "r \<in> set (ranges_of_entry ks ke e)" and q: "q \<in> set (concat (map (ranges_of_entry ks ke) es))" for r q
  proof -
    obtain d where d: "d \<in> set es" "range_within d q" using IH(2) q by blast
    then have "entry_end e \<le> unat (mmap_addr d)" using Cons.prems(2) by simp
    then show ?thesis using within [OF r] d(2) by (simp add: range_within_def range_before_def word_le_nat_alt)
  qed
  then have "sorted_wrt range_before (concat (map (ranges_of_entry ks ke) (e # es)))"
    using IH(1) entry_ranges(2) [OF e ks] by (simp add: sorted_wrt_append)
  then show ?case using IH(2) within by auto
qed simp

section \<open>The kernel after the set-up of its memory\<close>

text \<open>A list of ranges that starts at 0 and whose first range is cut at page 2.\<close>

lemma cut_ranges_ok:
  assumes ord: "sorted_wrt range_before (r # rs)"
    and within: "\<forall>q \<in> set (r # rs). \<exists>e. usable_entry ks ke e \<and> range_within e q"
    and r: "curr_frame r = 0" "0x2000 < end_addr r"
  shows "list_all range_ok (r\<lparr>curr_frame := 0x2000\<rparr> # rs)" and "sorted_wrt range_before (r\<lparr>curr_frame := 0x2000\<rparr> # rs)"
proof -
  have fits: "page_aligned (curr_frame q) \<and> curr_frame q < end_addr q \<and> unat (end_addr q) \<le> unat PHYS_END + 1"
    if "q \<in> set (r # rs)" for q
  proof -
    obtain e where "usable_entry ks ke e" "range_within e q" using within \<open>q \<in> set (r # rs)\<close> by blast
    then show ?thesis by (auto simp: range_within_def usable_entry_def)
  qed
  have "range_ok q" if "q \<in> set rs" for q
  proof -
    have "end_addr r \<le> curr_frame q" using ord that by (simp add: range_before_def)
    then have "curr_frame q \<noteq> NULL" using r(2) by auto
    then show ?thesis using fits [of q] that by (simp add: range_ok_def)
  qed
  moreover have "range_ok (r\<lparr>curr_frame := 0x2000\<rparr>)"
    using fits [of r] r(2) by (simp add: range_ok_def page_aligned_def)
  ultimately show "list_all range_ok (r\<lparr>curr_frame := 0x2000\<rparr> # rs)" by (simp add: list_all_iff)
  show "sorted_wrt range_before (r\<lparr>curr_frame := 0x2000\<rparr> # rs)" using ord by (simp add: range_before_def)
qed

text \<open>The first entry of the map gives the range that starts at 0.\<close>

lemma first_range:
  assumes e: "usable_entry ks ke e" "0x2000 < entry_end e" "mmap_addr e = 0" and ks: "0x2000 < ks"
  shows "\<exists>r rs. ranges_of_entry ks ke e = r # rs \<and> curr_frame r = 0 \<and> 0x2000 < end_addr r"
proof -
  have "unat (mmap_addr e + mmap_len e) = entry_end e"
    using e(1) unfolding entry_end_def by (intro unat_add_nowrap) (simp add: usable_entry_def entry_ok_def)
  moreover have "ks \<noteq> 0" using ks by auto
  ultimately show ?thesis
    using e(2,3) ks by (simp add: ranges_of_entry_def new_range_def Let_def word_less_nat_alt)
qed

text \<open>What \<open>addr_map_init\<close> leaves: an allocator that holds frames clear of the kernel image only.\<close>

lemma addr_map_init_held:
  assumes run: "addr_map_init fuel m ks ke tags s d = Done (s', d')"
    and info: "get_multiboot2_mmap_info fuel m tags d = Done ((entries, num), d')"
    and ok: "memory_map_ok ks ke (map (mmap_entry m entries) [0..<unat num])"
    and ke: "unat ke \<le> 1099511627775" and free: "pf_free_list_head s = NULL"
  shows "\<exists>xs. frames_held s' xs \<and> (\<forall>f \<in> set xs. clear_of ks ke f)"
proof -
  let ?es = "map (mmap_entry m entries) [0..<unat num]" and ?e = "mmap_entry m entries 0"
  have ks: "ks = 0x100000" "ks < ke" and num: "num \<noteq> 0" and zero: "mmap_addr ?e = 0"
    using run info by (auto simp: addr_map_init_def not_le split: if_splits)
  have pk: "page_aligned ks" by (simp add: ks page_aligned_def)
  obtain rs lhp where loop: "addr_map_loop ks ke ?es [] (local_heap_ptr s) = Done (rs, lhp)"
    and s': "addr_ranges s' = start_at_page_2 rs" "addr_range_curr s' = 0" "pf_free_list_head s' = NULL"
    using run info free by (auto simp: addr_map_init_def Let_def split: if_splits)
  obtain es where es: "?es = ?e # es"
    using num by (simp add: upt_conv_Cons unat_gt_0)
  define us where "us = filter available ?es"
  have u: "list_all (usable_entry ks ke) us" "sorted_wrt (\<lambda>a b. entry_end a \<le> unat (mmap_addr b)) us"
    using ok unfolding memory_map_ok_def us_def by blast+
  have av: "available ?e" "0x2000 < entry_end ?e"
    using ok unfolding memory_map_ok_def es list.sel by blast+
  have us: "us = ?e # filter available es" unfolding us_def es using av(1) by simp
  have rs: "rs = concat (map (ranges_of_entry ks ke) us)"
    using addr_map_loop_ranges [OF loop] by (simp only: us_def append_Nil)
  have e: "usable_entry ks ke ?e" using u(1) unfolding us by simp
  obtain r l where r0: "ranges_of_entry ks ke ?e = r # l" and r: "curr_frame r = 0" "0x2000 < end_addr r"
    using first_range [OF e av(2) zero] by (auto simp: ks(1))
  define rs' where "rs' = l @ concat (map (ranges_of_entry ks ke) (filter available es))"
  have rs2: "rs = r # rs'" unfolding rs us rs'_def by (simp add: r0)
  have "sorted_wrt range_before rs" "\<forall>q \<in> set rs. \<exists>e \<in> set us. range_within e q"
    using map_ranges [OF pk ks(2) ke u] unfolding rs by blast+
  moreover have "\<forall>e \<in> set us. usable_entry ks ke e" using u(1) by (simp add: list_all_iff)
  ultimately have "sorted_wrt range_before (r # rs')" "\<forall>q \<in> set (r # rs'). \<exists>e. usable_entry ks ke e \<and> range_within e q"
    unfolding rs2 by blast+
  note cut = cut_ranges_ok [OF this r]
  have a: "addr_ranges s' = r\<lparr>curr_frame := 0x2000\<rparr> # rs'" using s'(1) by (simp add: start_at_page_2_def rs2)
  have held: "frames_held s' (new_frames s')"
    using ranges_held [OF cut a s'(2,3)] by (simp add: new_frames_def a s'(2))
  have "entry_ok ks ke (mmap_entry m entries i)" if "i < unat num" "available (mmap_entry m entries i)" for i
    using u(1) that by (simp add: us_def list_all_iff usable_entry_def)
  then have "clear_of ks ke f" if "f \<in> set (new_frames s')" for f
    using addr_map_spares_kernel [OF run info _ av(1) ke that] by blast
  then show ?thesis using held by blast
qed

section \<open>The booted kernel\<close>

lemma mmap_info_any:
  fixes d e :: "'a machine_scheme"
  assumes "get_multiboot2_mmap_info fuel m tags d = Done (x, d')"
  shows "\<exists>e'. get_multiboot2_mmap_info fuel m tags e = Done (x, e')"
  using assms by (auto simp: get_multiboot2_mmap_info_def find_multiboot2_tag_def Let_def split: if_splits)

text \<open>Of the parts of the start-up only \<open>MEM_init\<close> touches the memory manager.\<close>

lemma boot_mem:
  assumes boot: "system_initialization fuel dev env magic tags k = Done (0, k')"
  obtains d d' :: kbd_state and s1 where "addr_map_init fuel (boot_mem env) (kernel_start env) (kernel_end env) tags (mem_of k) d = Done (s1, d')"
    and "setup_tables s1 = Done (mem_of k')"
proof -
  obtain k1 where k1: "VGA_init dev k = (0, k1)" "threads k1 = threads k"
    by (rule VGA_init_ok [of dev k "(0, 0)"])
  obtain r2 k2 where k2: "SER_init dev k1 = (r2, k2)" "threads k2 = threads k"
    using SER_init_tables [of dev k1] k1(2) by (cases "SER_init dev k1") auto
  have r2: "r2 = 0" using boot k1 k2 by (auto simp: system_initialization_def split: if_splits)
  obtain k3 where k3: "MEM_init fuel env magic tags k2 = Done (0, k3)"
    using boot k1 k2 r2 by (auto simp: system_initialization_def split: if_splits)
  obtain r4 k4 where k4: "ISR_init dev env k3 = (r4, k4)" by (cases "ISR_init dev env k3")
  have t4: "r4 = 0" "threads k4 = threads k3"
    using k4 by (auto simp: ISR_init_def IRQ_init_def Let_def)
  obtain k5 where k5: "KB_init fuel dev k4 = Done (0, k5)" and t': "threads k' = threads k5"
    using boot k1(1) k2(1) r2 k3 k4 t4(1) by (auto simp: system_initialization_def Let_def split: if_splits)
  have t5: "threads k5 = threads k4" using k5 by (auto simp: KB_init_def Let_def split: if_splits)
  obtain m d where m: "MMU_init fuel (boot_mem env) (kernel_start env) (kernel_end env) tags (mem_of k2) (devs k2) = Done (m, d)"
    "threads k3 = (threads k2)\<lparr>heap := (heap (threads k2))\<lparr>brk_state := m\<rparr>\<rparr>"
    using k3 by (auto simp: MEM_init_def with_mem_def Let_def split: if_splits)
  obtain s1 d1 where s1: "addr_map_init fuel (boot_mem env) (kernel_start env) (kernel_end env) tags (mem_of k2) (devs k2) = Done (s1, d1)"
    "setup_tables s1 = Done m"
    using m(1) by (auto simp: MMU_init_def Let_def IRQ_set_exception_handler_def IS_EXCEPTION_def)
  have "mem_of k' = m" using t' t5 t4(2) m(2) by simp
  then show ?thesis using that [OF s1(1) [unfolded k2(2)]] s1(2) by simp
qed

text \<open>C5: Once the kernel has booted on a well-formed memory map, its memory manager is in a state the
  page-isolation theorems speak of, and in no run from there, by the memory manager's operations and
  the writes of their callers in any order, does a page frame of the kernel image get handed out: the
  allocator never holds it, it is no page table, no page above the identity map is mapped to it, and
  no client has it; and the run changes no word of it.\<close>

theorem kernel_image_kept:
  assumes boot: "system_initialization fuel dev env magic tags k = Done (0, k')"
    and info: "get_multiboot2_mmap_info fuel (boot_mem env) tags (devs k) = Done ((entries, num), d)"
    and ok: "memory_map_ok (kernel_start env) (kernel_end env) (map (mmap_entry (boot_mem env) entries) [0..<unat num])"
    and ke: "kernel_end env \<le> PHYS_END" and free: "pf_free_list_head (mem_of k) = NULL"
    and run: "mem_run (mem_of k') s cs"
    and f: "good_frame f" "\<not> clear_of (kernel_start env) (kernel_end env) f"
  shows "mem_reachable s cs \<and> f \<notin> cs \<and> (\<exists>xs. frames_held s xs \<and> f \<notin> set xs)
     \<and> (\<forall>p. tpath p \<longrightarrow> tbl (pmem s) (pml4 s) p \<noteq> Some f)
     \<and> (\<forall>w. \<not> identity_page w \<longrightarrow> frame_of s w \<noteq> f)
     \<and> (\<forall>off < PAGE_SIZE. pmem s (f + off) = pmem (mem_of k') (f + off))"
proof -
  obtain d1 d' :: kbd_state and s1 where s1: "addr_map_init fuel (boot_mem env) (kernel_start env) (kernel_end env) tags (mem_of k) d1 = Done (s1, d')"
    and t: "setup_tables s1 = Done (mem_of k')"
    by (rule boot_mem [OF boot])
  have i: "get_multiboot2_mmap_info fuel (boot_mem env) tags d1 = Done ((entries, num), d')"
    using mmap_info_any [OF info, of d1] s1 by (auto simp: addr_map_init_def Let_def split: if_splits)
  have "unat (kernel_end env) \<le> 1099511627775" using ke by (simp add: word_le_nat_alt unat_PHYS_END)
  from addr_map_init_held [OF s1 i ok this free]
  obtain xs where xs: "frames_held s1 xs" "\<forall>f \<in> set xs. clear_of (kernel_start env) (kernel_end env) f" by blast
  define F where "F = {f. good_frame f \<and> f \<notin> set xs}"
  have fF: "f \<in> F" using f xs(2) by (auto simp: F_def)
  obtain ys where ys: "frames_owned (mem_of k') ys F" unfolding F_def using set_up_owned [OF xs(1) t] by blast
  have intact: "frame_unchanged (mem_of k') s f" by (rule run_unchanged [OF run ys fF])
  from run_owned [OF run ys] obtain zs where own: "frames_owned s zs (cs \<union> F)" and apart: "cs \<inter> F = {}" by blast
  have df: "data_frame s zs f" and pages: "\<forall>w. \<not> identity_page w \<longrightarrow> frame_of s w \<noteq> f"
    using own fF f(1) by (auto simp: frames_owned_def good_frame_def)
  have held: "frames_held s zs" using own by (simp add: frames_owned_def mmu_inv_def)
  have "mem_reachable s cs" using xs(1) t run unfolding mem_reachable_def by blast
  then show ?thesis using df pages held fF apart intact unfolding data_frame_def frame_unchanged_def by blast
qed

text \<open>The machine of KernelProps boots on 16 MiB, its kernel in [1 MiB, 1.5 MiB).\<close>

lemma power_on_map:
  "get_multiboot2_mmap_info 3 (boot_mem boot_env) 0x9000 (devs power_on) = Done ((0x9028, 1), devs power_on)"
  "memory_map_ok (kernel_start boot_env) (kernel_end boot_env) (map (mmap_entry (boot_mem boot_env) 0x9028) [0..<unat (1 :: u32)])"
  by (simp_all add: boot_env_def boot_mbi_info boot_mbi_entry memory_map_ok_def usable_entry_def entry_ok_def entry_end_def
      page_aligned_def unat_PHYS_END MULTIBOOT_MEMORY_AVAILABLE_def PAGE_ALIGN_ADDR_def PAGE_SIZE_def ALIGN_def
      word_le_nat_alt)

theorem kernel_image_kept_witness:
  "\<exists>k'. system_initialization 3 boot_dev boot_env MULTIBOOT2_BOOTLOADER_MAGIC 0x9000 power_on = Done (0, k')
     \<and> mem_run (mem_of k') (mem_of k') {} \<and> mem_reachable (mem_of k') {}
     \<and> (\<forall>w. \<not> identity_page w \<longrightarrow> frame_of (mem_of k') w \<noteq> 0x17F000)"
proof -
  obtain k' where k': "system_initialization 3 boot_dev boot_env MULTIBOOT2_BOOTLOADER_MAGIC 0x9000 power_on = Done (0, k')"
    using power_on_boots by blast
  have "kernel_end boot_env \<le> PHYS_END" "pf_free_list_head (mem_of power_on) = NULL" "good_frame 0x17F000"
    "\<not> clear_of (kernel_start boot_env) (kernel_end boot_env) 0x17F000"
    by (simp_all add: boot_env_def PHYS_END_def power_on_def sample_mmu_def good_frame_def page_aligned_def clear_of_def)
  from kernel_image_kept [OF k' power_on_map this(1,2) start_run this(3,4)]
  have "mem_reachable (mem_of k') {} \<and> (\<forall>w. \<not> identity_page w \<longrightarrow> frame_of (mem_of k') w \<noteq> 0x17F000)" by blast
  then show ?thesis using k' start_run by blast
qed

end
