(* ===== verification/FlatMem.thy ===== *)
theory FlatMem imports VirtSpace Memory begin

text \<open>
  What paging gives the rest of the kernel: the flat byte memory (Memory) on which the heap, the
  threads and the strings are modelled. Bytes and words written through mapped pages are read back as
  from one array of bytes, whatever the memory manager does in between, until their page is freed.
\<close>

section \<open>The bytes behind an address\<close>

text \<open>Addresses the four-level walk tells apart: the low 48 bits.\<close>

definition mapped :: "mmu \<Rightarrow> addr \<Rightarrow> bool" where
  "mapped s v \<longleftrightarrow> \<not> identity_page v \<and> pte_present (leaf s v) \<and> v < 0x1000000000000"

definition word_base :: "addr \<Rightarrow> addr" where "word_base v = v AND NOT 7"
definition byte_shift :: "addr \<Rightarrow> nat" where "byte_shift v = 8 * unat (v AND 7)"

definition vmem :: "mmu \<Rightarrow> mem" where
  "vmem s v = ucast (drop_bit (byte_shift v) (load s (word_base v)))"

text \<open>A byte written to a word, and to memory.\<close>

definition put_byte :: "nat \<Rightarrow> u8 \<Rightarrow> u64 \<Rightarrow> u64" where
  "put_byte k b x = (x AND NOT (push_bit k 0xFF)) OR push_bit k (ucast b)"

definition store8 :: "addr \<Rightarrow> u8 \<Rightarrow> mmu \<Rightarrow> mmu" where
  "store8 v b s = store (word_base v) (put_byte (byte_shift v) b (load s (word_base v))) s"

section \<open>Addresses and words\<close>

lemma bit_masks [simp]: "bit (0x1FF :: int) n \<longleftrightarrow> n < 9" "bit (0xFFF :: int) n \<longleftrightarrow> n < 12" "bit (7 :: int) n \<longleftrightarrow> n < 3"
  "bit (0xFF :: int) n \<longleftrightarrow> n < 8" "bit (- 8 :: int) n \<longleftrightarrow> 3 \<le> n"
proof -
  have m: "(0x1FF :: int) = mask 9" "(0xFFF :: int) = mask 12" "(7 :: int) = mask 3" "(0xFF :: int) = mask 8" "- 8 = NOT (mask 3 :: int)"
    by (simp_all add: mask_eq_exp_minus_1 not_int_def)
  show "bit (0x1FF :: int) n \<longleftrightarrow> n < 9" "bit (0xFFF :: int) n \<longleftrightarrow> n < 12" "bit (7 :: int) n \<longleftrightarrow> n < 3"
    "bit (0xFF :: int) n \<longleftrightarrow> n < 8" "bit (- 8 :: int) n \<longleftrightarrow> 3 \<le> n"
    unfolding m by (auto simp: bit_mask_iff bit_not_iff)
qed

lemma low_bits: "v < (0x1000000000000 :: u64) \<Longrightarrow> bit v n \<Longrightarrow> n < 48"
proof (rule ccontr)
  assume v: "v < (0x1000000000000 :: u64)" "bit v n" "\<not> n < 48"
  have "2 ^ n \<le> unat v" by (rule bit_imp_le_unat [OF v(2)])
  moreover have "unat v < 2 ^ 48" using v(1) by (simp add: word_less_nat_alt)
  moreover have "(2 :: nat) ^ 48 \<le> 2 ^ n" using v(3) by (intro power_increasing) auto
  ultimately show False by linarith
qed

text \<open>The page and the offset determine the address.\<close>

lemma same_address:
  assumes "v < 0x1000000000000" "w < 0x1000000000000" "same_page v w" "GET_PHYS_PAGE_INDEX v = GET_PHYS_PAGE_INDEX w"
  shows "v = w"
proof (rule bit_eqI)
  fix n assume "possible_bit TYPE(64 word) n"
  have idx: "drop_bit k v AND 0x1FF = drop_bit k w AND 0x1FF" if "k \<in> {12, 21, 30, 39}" for k
    using assms(3) that by (auto simp: same_page_def pt_path_def index_defs)
  have field: "bit v n = bit w n" if "k \<in> {12, 21, 30, 39}" "k \<le> n" "n < k + 9" for k
  proof -
    have "bit (drop_bit k v AND 0x1FF) (n - k) = bit (drop_bit k w AND 0x1FF) (n - k)" using idx [OF that(1)] by simp
    moreover have "n - k < 9" using that(2,3) by linarith
    ultimately show ?thesis using that(2) by (simp add: bit_and_iff bit_drop_bit_eq)
  qed
  have low: "bit v n = bit w n" if "n < 12"
  proof -
    have "bit (v AND 0xFFF) n = bit (w AND 0xFFF) n" using assms(4) by (simp add: GET_PHYS_PAGE_INDEX_def)
    then show ?thesis using that by (simp add: bit_and_iff)
  qed
  consider "n < 12" | "12 \<le> n" "n < 21" | "21 \<le> n" "n < 30" | "30 \<le> n" "n < 39" | "39 \<le> n" "n < 48" | "48 \<le> n"
    by linarith
  then show "bit v n = bit w n"
  proof cases
    case 6
    then show ?thesis using low_bits assms(1,2) by (meson not_le)
  qed (use low field [of 12] field [of 21] field [of 30] field [of 39] in auto)
qed

lemma word_base_bits: "bit (word_base v) n \<longleftrightarrow> 3 \<le> n \<and> bit v n"
  using bit_imp_le_length [of v n] by (auto simp: word_base_def bit_and_iff bit_not_iff)

lemma word_base_page: "same_page (word_base v) v"
proof -
  have "drop_bit k (word_base v) = drop_bit k v" if "12 \<le> k" for k
    by (rule bit_eqI) (use that in \<open>auto simp: bit_drop_bit_eq word_base_bits\<close>)
  then show ?thesis by (simp add: same_page_def pt_path_def index_defs)
qed

lemma word_base_le: "word_base v \<le> v"
  by (simp add: word_base_def word_and_le2)

lemma mapped_base [simp]: "mapped s (word_base v) \<longleftrightarrow> \<not> identity_page v \<and> pte_present (leaf s v) \<and> word_base v < 0x1000000000000"
  by (simp only: mapped_def identity_page_cong [OF word_base_page] leaf_cong_same_page [OF word_base_page])

lemma address_split: "word_base v = word_base w \<Longrightarrow> v AND 7 = w AND 7 \<Longrightarrow> v = w"
proof (rule bit_eqI)
  fix n assume "word_base v = word_base w" "v AND 7 = w AND 7"
  then have "bit (word_base v) n = bit (word_base w) n" "bit (v AND 7) n = bit (w AND 7) n" by simp_all
  then show "bit v n = bit w n" by (cases "n < 3") (auto simp: word_base_bits bit_and_iff)
qed

lemma byte_shift_less: "byte_shift v \<le> 56"
proof -
  have "v AND 7 \<le> 7" by (rule word_and_le1)
  then have "unat (v AND 7) \<le> 7" by (simp add: word_le_nat_alt)
  then show ?thesis by (simp add: byte_shift_def)
qed

lemma byte_shift_eq: "byte_shift v = byte_shift w \<longleftrightarrow> v AND 7 = w AND 7"
  by (simp add: byte_shift_def word_unat_eq_iff)

text \<open>Reading a byte of a word that one was put into.\<close>

lemma put_byte_same: "k \<le> 56 \<Longrightarrow> ucast (drop_bit k (put_byte k b x)) = b"
  by (rule bit_eqI)
     (auto simp: put_byte_def bit_unsigned_iff bit_drop_bit_eq bit_or_iff bit_and_iff bit_not_iff bit_push_bit_iff
        dest: bit_imp_le_length)

lemma put_byte_other:
  assumes "8 dvd k" "8 dvd j" "j \<noteq> k"
  shows "(ucast (drop_bit j (put_byte k b x)) :: u8) = ucast (drop_bit j x)"
proof (rule bit_eqI)
  fix n assume "possible_bit TYPE(8 word) n"
  then have n: "n < 8" by simp
  obtain i l where "k = 8 * i" "j = 8 * l" using assms by (auto simp: dvd_def)
  then have "\<not> (k \<le> j + n \<and> j + n < k + 8)" using n assms(3) by auto
  then show "bit (ucast (drop_bit j (put_byte k b x)) :: u8) n = bit (ucast (drop_bit j x) :: u8) n"
    using bit_imp_le_length [of x "j + n"]
    by (auto simp: put_byte_def bit_unsigned_iff bit_drop_bit_eq bit_or_iff bit_and_iff bit_not_iff bit_push_bit_iff
        dest: bit_imp_le_length)
qed

section \<open>Loads and stores of mapped pages\<close>

lemma load_store:
  assumes own: "frames_owned s xs cs" and v: "mapped s v" and w: "mapped s w"
  shows "load (store v x s) w = (if w = v then x else load s w)"
proof -
  have hv: "\<not> identity_page v" "pte_present (leaf s v)" and hw: "\<not> identity_page w" "pte_present (leaf s w)"
    using v w by (simp_all add: mapped_def)
  have l: "frame_of (store v x s) w = frame_of s w" by (simp add: frame_of_def store_leaf [OF own hv])
  have nz: "frame_of s v \<noteq> NULL" "frame_of s w \<noteq> NULL" using own hv hw by (simp_all add: frames_owned_def)
  have g: "good_frame (frame_of s v)" "good_frame (frame_of s w)"
    using own hv(1) hw(1) nz by (simp_all add: frames_owned_def data_frame_def)
  show ?thesis
  proof (cases "w = v")
    case False
    have "frame_of s w + GET_PHYS_PAGE_INDEX w \<noteq> frame_of s v + GET_PHYS_PAGE_INDEX v"
    proof
      assume eq: "frame_of s w + GET_PHYS_PAGE_INDEX w = frame_of s v + GET_PHYS_PAGE_INDEX v"
      then have f: "frame_of s w = frame_of s v"
        using frame_words_apart [OF g(2,1) page_offset_less page_offset_less] by blast
      then have "same_page w v" using own hv(1) hw(1) nz by (simp add: frames_owned_def)
      moreover have "GET_PHYS_PAGE_INDEX w = GET_PHYS_PAGE_INDEX v" using eq f by simp
      ultimately show False using same_address v w False by (auto simp: mapped_def)
    qed
    then show ?thesis using False by (simp add: load_def l) (simp add: store_def)
  next
    case True
    then show ?thesis using l by (simp add: load_def) (simp add: store_def)
  qed
qed

lemma mapped_store: "frames_owned s xs cs \<Longrightarrow> mapped s v \<Longrightarrow> mapped (store v x s) w = mapped s w"
  by (simp add: mapped_def store_leaf)

lemma mapped_word [intro]: "mapped s v \<Longrightarrow> mapped s (word_base v)"
  using le_less_trans [OF word_base_le] by (auto simp: mapped_def [of s v])

text \<open>A byte write is the update of the flat memory at its address.\<close>

lemma vmem_store8:
  assumes own: "frames_owned s xs cs" and v: "mapped s v" and w: "mapped s w"
  shows "vmem (store8 v b s) w = (if w = v then b else vmem s w)"
proof (cases "word_base w = word_base v")
  case True
  have l: "load (store8 v b s) (word_base v) = put_byte (byte_shift v) b (load s (word_base v))"
    unfolding store8_def using load_store [OF own mapped_word [OF v] mapped_word [OF v]] by simp
  show ?thesis
  proof (cases "w = v")
    case False
    then have "byte_shift w \<noteq> byte_shift v" using address_split [OF True] byte_shift_eq by blast
    then show ?thesis using False True l by (simp add: vmem_def) (simp add: put_byte_other byte_shift_def)
  qed (simp add: vmem_def l put_byte_same byte_shift_less)
next
  case False
  then have "load (store8 v b s) (word_base w) = load s (word_base w)"
    unfolding store8_def using load_store [OF own mapped_word [OF v] mapped_word [OF w]] by simp
  then show ?thesis using False by (auto simp: vmem_def)
qed

text \<open>A word at an aligned address, and its bytes.\<close>

lemma aligned_word:
  assumes "v AND 7 = 0" and "i < 8"
  shows "word_base (v + of_nat i) = v" and "byte_shift (v + of_nat i) = 8 * i"
proof -
  have hi: "3 \<le> n" if "bit v n" for n
  proof (rule ccontr)
    assume "\<not> 3 \<le> n"
    then have "bit (v AND 7) n" using that bit_imp_le_length [OF that] by (simp add: bit_and_iff)
    then show False using assms(1) by simp
  qed
  have lo: "n < 3" if "bit (of_nat i :: u64) n" for n
  proof (rule ccontr)
    assume "\<not> n < 3"
    then have "(8 :: nat) \<le> 2 ^ n" using power_increasing [of 3 n "2 :: nat"] by simp
    moreover have "2 ^ n \<le> unat (of_nat i :: u64)" by (rule bit_imp_le_unat [OF that])
    ultimately show False using assms(2) by (simp add: unat_of_nat_u64)
  qed
  have "v AND of_nat i = 0" by (rule bit_eqI) (use hi lo in \<open>fastforce simp: bit_and_iff\<close>)
  then have o: "v + of_nat i = v OR of_nat i" by (rule disjunctive_add_eq_or)
  show "word_base (v + of_nat i) = v"
    unfolding o by (rule bit_eqI) (use hi lo in \<open>fastforce simp: word_base_bits bit_or_iff\<close>)
  have "(v OR of_nat i) AND 7 = (of_nat i :: u64)"
    by (rule bit_eqI) (use hi lo in \<open>fastforce simp: bit_and_iff bit_or_iff\<close>)
  then show "byte_shift (v + of_nat i) = 8 * i" using assms(2) by (simp add: byte_shift_def o unat_of_nat_u64)
qed

lemma vmem_word: "v AND 7 = 0 \<Longrightarrow> i < 8 \<Longrightarrow> vmem s (v + of_nat i) = ucast (drop_bit (8 * i) (load s v))"
  by (simp add: vmem_def aligned_word)

lemma in_word:
  assumes "v AND 7 = 0"
  shows "in_region w v 8 \<longleftrightarrow> word_base w = v"
proof
  assume "in_region w v 8"
  then have "word_base (v + of_nat (unat (w - v))) = v" by (intro aligned_word(1) [OF assms]) (simp add: in_region_def)
  then show "word_base w = v" by simp
next
  assume b: "word_base w = v"
  have "(w AND NOT 7) AND (w AND 7) = 0" by (rule bit_eqI) (auto simp: bit_and_iff)
  then have "(w AND NOT 7) + (w AND 7) = (w AND NOT 7) OR (w AND 7)" by (rule disjunctive_add_eq_or)
  also have "\<dots> = w" by (rule bit_eqI) (auto simp: bit_and_iff bit_or_iff dest: bit_imp_le_length)
  finally have "w - v = w AND 7" using b by (simp add: word_base_def algebra_simps)
  moreover have "w AND 7 \<le> 7" by (rule word_and_le1)
  ultimately show "in_region w v 8" by (simp add: in_region_def word_le_nat_alt)
qed

lemma wr_le_inside: "i < n \<Longrightarrow> n \<le> 8 \<Longrightarrow> wr_le n m a x (a + of_nat i) = ucast (drop_bit (8 * i) x)"
proof (induction n arbitrary: m a x i)
  case (Suc n)
  show ?case
  proof (cases i)
    case 0
    then show ?thesis using wr_le_outside [of n a "a + 1"] in_region_first_not_next [of n a] Suc.prems by simp
  next
    case (Suc j)
    then have "wr_le n (m(a := ucast x)) (a + 1) (drop_bit 8 x) (a + 1 + of_nat j) = ucast (drop_bit (8 * j) (drop_bit 8 x))"
      using Suc.IH [of j] Suc.prems by simp
    then show ?thesis using Suc by (simp add: algebra_simps)
  qed
qed simp

lemma rd_le_word:
  "n \<le> 8 \<Longrightarrow> (\<And>i. i < n \<Longrightarrow> m (a + of_nat i) = ucast (drop_bit (8 * i) x)) \<Longrightarrow> rd_le n m a = take_bit (8 * n) x"
proof (induction n arbitrary: a x)
  case (Suc n)
  have "m (a + 1 + of_nat i) = ucast (drop_bit (8 * i) (drop_bit 8 x))" if "i < n" for i
    using Suc.prems(2) [of "Suc i"] that by (simp add: algebra_simps)
  then have "rd_le n m (a + 1) = take_bit (8 * n) (drop_bit 8 x)" using Suc.IH Suc.prems(1) by simp
  moreover have "m a = ucast x" using Suc.prems(2) [of 0] by simp
  ultimately show ?case using byte_join [of x "8 * n"] by (simp add: algebra_simps)
qed simp

lemma load_rd64: "v AND 7 = 0 \<Longrightarrow> load s v = rd64 (vmem s) v"
  using rd_le_word [of 8 "vmem s" v "load s v"] vmem_word by (simp add: rd64_def take_bit_word_eq_self)

lemma vmem_store:
  assumes own: "frames_owned s xs cs" and v: "mapped s v" "v AND 7 = 0" and w: "mapped s w"
  shows "vmem (store v x s) w = wr64 (vmem s) v x w"
proof (cases "in_region w v 8")
  case True
  define i where "i = unat (w - v)"
  have i: "i < 8" "w = v + of_nat i" using True by (simp_all add: i_def in_region_def)
  have "load (store v x s) v = x" using load_store [OF own v(1) v(1)] by simp
  then show ?thesis using wr_le_inside [OF i(1), of "vmem s" v x] unfolding i(2) by (simp add: vmem_word [OF v(2) i(1)] wr64_def)
next
  case False
  then have "load (store v x s) (word_base w) = load s (word_base w)"
    using load_store [OF own v(1) mapped_word [OF w]] in_word [OF v(2)] by simp
  then show ?thesis using False by (simp add: vmem_def wr64_outside)
qed

section \<open>A run over pages is a run over flat memory\<close>

text \<open>\<open>m\<close> is what a program knows of memory: the bytes it wrote. An operation of the memory manager, a
  demand fault for example, takes from it only what is no longer mapped.\<close>

inductive space_run :: "mmu \<Rightarrow> addr set \<Rightarrow> (addr \<rightharpoonup> u8) \<Rightarrow> bool" where
  begin_run: "mem_reachable s cs \<Longrightarrow> space_run s cs Map.empty"
| write_byte: "space_run s cs m \<Longrightarrow> mapped s v \<Longrightarrow> space_run (store8 v b s) cs (m(v \<mapsto> b))"
| write_word: "space_run s cs m \<Longrightarrow> mapped s v \<Longrightarrow> v AND 7 = 0 \<Longrightarrow>
     space_run (store v x s) cs (\<lambda>a. if in_region a v 8 then Some (wr64 (\<lambda>_. 0) v x a) else m a)"
| write_own_frame: "space_run s cs m \<Longrightarrow> f \<in> cs \<Longrightarrow> off < PAGE_SIZE \<Longrightarrow> space_run (s\<lparr>pmem := (pmem s)(f + off := x)\<rparr>) cs m"
| manage: "space_run s cs m \<Longrightarrow> mem_op s cs t cs' \<Longrightarrow> space_run t cs' (m |` {a. mapped t a})"

lemma wr64_inside_any: "in_region a v 8 \<Longrightarrow> wr64 m v x a = wr64 m' v x a"
  using wr_le_inside [of "unat (a - v)" 8 m v x] wr_le_inside [of "unat (a - v)" 8 m' v x]
  by (simp add: in_region_def wr64_def)

lemma op_keeps_bytes:
  assumes own: "frames_owned s xs cs" "frames_owned t ys cs'" and op: "mem_op s cs t cs'" and a: "mapped s a" "mapped t a"
  shows "vmem t a = vmem s a"
proof -
  let ?w = "word_base a"
  have w: "\<not> identity_page ?w" "pte_present (leaf s ?w)" "pte_present (leaf t ?w)"
    using mapped_word [OF a(1)] mapped_word [OF a(2)] unfolding mapped_def by blast+
  have nt: "frame_of t ?w \<noteq> NULL" using own(2) w by (simp add: frames_owned_def)
  have fv: "frame_of t ?w = frame_of s ?w" using mem_op_effect [OF op own(1)] w(2) nt by (simp add: op_effect_def)
  have dv: "data_frame s xs (frame_of s ?w)" "frame_of s ?w \<notin> cs"
    using own(1) w(1) nt fv by (auto simp: frames_owned_def)
  have "frame_of t u = frame_of s ?w" if "\<not> identity_page u" "frame_of s u = frame_of s ?w" for u
  proof -
    have "same_page ?w u" using own(1) w(1) nt fv that unfolding frames_owned_def by metis
    then show ?thesis using frame_of_cong fv by metis
  qed
  then have "frame_unchanged s t (frame_of s ?w)"
    using mem_op_effect [OF op own(1)] dv by (simp add: op_effect_def)
  then have "load t ?w = load s ?w" using page_offset_less [of ?w] by (simp add: frame_unchanged_def load_def fv)
  then show ?thesis by (simp add: vmem_def)
qed

lemma own_frame_write:
  assumes own: "frames_owned s xs cs" and f: "f \<in> cs" "off < PAGE_SIZE"
  shows "leaf (s\<lparr>pmem := (pmem s)(f + off := x)\<rparr>) = leaf s"
    and "mapped s a \<Longrightarrow> vmem (s\<lparr>pmem := (pmem s)(f + off := x)\<rparr>) a = vmem s a"
proof -
  let ?t = "s\<lparr>pmem := (pmem s)(f + off := x)\<rparr>"
  have df: "mmu_inv s xs" "data_frame s xs f" using own f(1) by (simp_all add: frames_owned_def)
  show l: "leaf ?t = leaf s" using data_write(3) [OF df, of "f + off"] f(2) by simp
  assume a: "mapped s a"
  let ?w = "word_base a"
  have "data_frame s xs (frame_of s ?w)" "frame_of s ?w \<noteq> f"
    using own f(1) mapped_word [OF a] by (auto simp: frames_owned_def mapped_def)
  then have "f + off \<noteq> frame_of s ?w + GET_PHYS_PAGE_INDEX ?w"
    using frame_words_apart [of f "frame_of s ?w", OF _ _ f(2) page_offset_less] df(2) by (auto simp: data_frame_def)
  then show "vmem ?t a = vmem s a" by (simp add: vmem_def load_def frame_of_def l)
qed

lemma mapped_region:
  assumes v: "mapped s v" "v AND 7 = 0" and a: "in_region a v 8"
  shows "mapped s a"
proof -
  have b: "word_base a = v" using a in_word [OF v(2)] by simp
  have n: "n < 48" if "bit a n" for n
  proof (cases "n < 3")
    case False
    then have "bit v n" using that b word_base_bits [of a n] by simp
    then show ?thesis using low_bits v(1) by (auto simp: mapped_def)
  qed simp
  have "a = take_bit 48 a" by (rule bit_eqI) (use n in \<open>auto simp: bit_take_bit_iff\<close>)
  then have "unat a = take_bit 48 (unat a)" by (metis unsigned_take_bit_eq)
  then have "unat a < 2 ^ 48" using take_bit_nat_less_exp [of 48 "unat a"] by simp
  then have "a < 0x1000000000000" by (simp add: word_less_nat_alt)
  then show ?thesis using v(1) identity_page_cong [OF word_base_page [of a]] leaf_cong_same_page [OF word_base_page [of a]]
    by (simp add: mapped_def b)
qed

lemma space_run_inv:
  "space_run s cs m \<Longrightarrow> (\<exists>xs. frames_owned s xs cs) \<and> (\<forall>a b. m a = Some b \<longrightarrow> mapped s a \<and> vmem s a = b)"
proof (induction rule: space_run.induct)
  case (begin_run s cs)
  then show ?case using reachable_owned by simp
next
  case (write_byte s cs m v b)
  then obtain xs where own: "frames_owned s xs cs" by blast
  have "mem_step s cs (store8 v b s) cs"
    unfolding store8_def using mapped_word [OF write_byte.hyps(2)] by (intro mem_step.write_page) (auto simp only: mapped_def)
  moreover have "mapped (store8 v b s) a = mapped s a" for a
    unfolding store8_def by (rule mapped_store [OF own mapped_word [OF write_byte.hyps(2)]])
  ultimately show ?case using step_owned own write_byte vmem_store8 [OF own write_byte.hyps(2)] by auto
next
  case (write_word s cs m v x)
  then obtain xs where own: "frames_owned s xs cs" by blast
  have st: "mem_step s cs (store v x s) cs"
    using write_word.hyps(2) by (intro mem_step.write_page) (auto simp only: mapped_def)
  have mp: "mapped (store v x s) a = mapped s a" for a by (rule mapped_store [OF own write_word.hyps(2)])
  have "mapped s a \<and> vmem (store v x s) a = b"
    if "(if in_region a v 8 then Some (wr64 (\<lambda>_. 0) v x a) else m a) = Some b" for a b
  proof (cases "in_region a v 8")
    case True
    then have "mapped s a" using mapped_region write_word.hyps(2,3) by blast
    then show ?thesis using that True vmem_store [OF own write_word.hyps(2,3)]
        wr64_inside_any [OF True, of "vmem s" x "\<lambda>_. 0"] by simp
  next
    case False
    then have "mapped s a" "vmem s a = b" using that write_word.IH by auto
    then show ?thesis using False vmem_store [OF own write_word.hyps(2,3)] by (simp add: wr64_outside)
  qed
  then show ?case using step_owned [OF st own] mp by simp
next
  case (write_own_frame s cs m f off x)
  then obtain xs where own: "frames_owned s xs cs" by blast
  show ?case
    using step_owned [OF mem_step.write_frame [OF write_own_frame.hyps(2,3)] own] write_own_frame
      own_frame_write [OF own write_own_frame.hyps(2,3)] by (simp add: mapped_def)
next
  case (manage s cs m t cs')
  then obtain xs where own: "frames_owned s xs cs" by blast
  obtain ys where own': "frames_owned t ys cs'" using step_owned [OF mem_step.operate [OF manage.hyps(2)] own] by blast
  have "vmem t a = b" if "m a = Some b" "mapped t a" for a b
    using op_keeps_bytes [OF own own' manage.hyps(2)] manage.IH that by metis
  then show ?case using own' by (auto simp: restrict_map_def split: if_splits)
qed

text \<open>C6: Paged memory is flat memory. However byte and word writes through mapped pages, writes of clients
  to their own frames, and operations of the memory manager (demand faults, allocations and releases of
  other pages and frames) follow each other: every byte written is read back until its page is unmapped,
  and an aligned word whose bytes were written reads as a little-endian read of them.\<close>

theorem paged_memory_is_flat:
  assumes "space_run s cs m"
  shows "(\<forall>a b. m a = Some b \<longrightarrow> vmem s a = b)
     \<and> (\<forall>v. v AND 7 = 0 \<longrightarrow> (\<forall>i < 8. m (v + of_nat i) \<noteq> None) \<longrightarrow> load s v = rd64 (\<lambda>a. the (m a)) v)"
proof -
  have b: "\<forall>a b. m a = Some b \<longrightarrow> vmem s a = b" using space_run_inv [OF assms] by blast
  moreover have "load s v = rd64 (\<lambda>a. the (m a)) v" if v: "v AND 7 = 0" "\<forall>i < 8. m (v + of_nat i) \<noteq> None" for v
  proof -
    have "vmem s a = the (m a)" if "in_region a v 8" for a
    proof -
      have "a = v + of_nat (unat (a - v))" "unat (a - v) < 8" using that by (simp_all add: in_region_def)
      then have "m a \<noteq> None" using v(2) by metis
      then show ?thesis using b by auto
    qed
    then have "rd64 (vmem s) v = rd64 (\<lambda>a. the (m a)) v" by (rule rd64_cong)
    then show ?thesis using load_rd64 [OF v(1)] by simp
  qed
  ultimately show ?thesis by blast
qed

text \<open>A word of a heap page and a byte of a user page, on the sample machine of VirtSpace.\<close>

theorem paged_memory_is_flat_witness:
  "\<exists>s m. space_run s {} m \<and> m 0x200000000003 = Some 9 \<and> vmem s 0x200000000003 = 9 \<and> load s 0x10000000000 = 0x1122"
proof -
  obtain s where s: "mem_reachable s {}" "pte_present (leaf s 0x10000000000)" "pte_present (leaf s 0x200000000000)"
    using sample_space by blast
  have sp: "same_page 0x200000000003 0x200000000000" by (simp add: same_page_def pt_path_def index_defs)
  have h: "mapped s 0x10000000000" "mapped s 0x200000000003"
    using s(2,3) sample_high identity_page_cong [OF sp] leaf_cong_same_page [OF sp] by (simp_all add: mapped_def)
  define m :: "addr \<rightharpoonup> u8" where "m = (\<lambda>a. if in_region a 0x10000000000 8 then Some (wr64 (\<lambda>_. 0) 0x10000000000 0x1122 a) else None)"
  let ?s = "store 0x10000000000 0x1122 s"
  have r1: "space_run ?s {} m"
    using write_word [OF begin_run [OF s(1)] h(1), of "0x1122"] by (simp add: m_def)
  obtain xs where own: "frames_owned s xs {}" using reachable_owned [OF s(1)] by blast
  have r2: "space_run (store8 0x200000000003 9 ?s) {} (m(0x200000000003 \<mapsto> 9))"
    using write_byte [OF r1, of "0x200000000003" 9] h(2) mapped_store [OF own h(1)] by simp
  let ?m = "m(0x200000000003 \<mapsto> 9)"
  have "?m (0x10000000000 + of_nat i) = Some (wr64 (\<lambda>_. 0) 0x10000000000 0x1122 (0x10000000000 + of_nat i))" if "i < 8" for i
  proof -
    have "in_region (0x10000000000 + of_nat i :: addr) 0x10000000000 8" using that by (simp add: in_region_offset)
    moreover have "(0x10000000000 + of_nat i :: addr) \<noteq> 0x200000000003"
    proof
      assume "(0x10000000000 + of_nat i :: addr) = 0x200000000003"
      then have "(of_nat i :: addr) = 0x1F0000000003" by (simp add: algebra_simps)
      then have "unat (of_nat i :: addr) = 0x1F0000000003" by simp
      then show False using that by (simp add: unat_of_nat_u64)
    qed
    ultimately show ?thesis by (simp add: m_def)
  qed
  note bytes = this
  have "rd64 (\<lambda>a. the (?m a)) 0x10000000000 = rd64 (wr64 (\<lambda>_. 0) 0x10000000000 0x1122) 0x10000000000"
  proof (rule rd64_cong)
    fix b assume "in_region b 0x10000000000 (8 :: nat)"
    then have "b = 0x10000000000 + of_nat (unat (b - 0x10000000000))" "unat (b - 0x10000000000) < 8"
      by (simp_all add: in_region_def)
    then show "the (?m b) = wr64 (\<lambda>_. 0) 0x10000000000 0x1122 b" using bytes by (metis option.sel)
  qed
  then have "load (store8 0x200000000003 9 ?s) 0x10000000000 = 0x1122"
    using paged_memory_is_flat [OF r2] bytes by simp
  moreover have "vmem (store8 0x200000000003 9 ?s) 0x200000000003 = 9" using paged_memory_is_flat [OF r2] by simp
  ultimately show ?thesis using r2 by (intro exI [of _ "store8 0x200000000003 9 ?s"] exI [of _ ?m]) simp
qed

end
