(* ===== verification/Snakes.thy ===== *)
theory Snakes imports Vga begin

text \<open>
  The snakes demonstration, test/snakes.c: the pseudo-random generator, the list of all snakes, their
  moves, and the turns of a snake's thread. Snake structures are objects of
  a store, addressed by the pointers \<open>kmalloc\<close> returned; a body is the list of its points, the head
  first. The delays, which have no effect, and \<open>rdtsc\<close>, which is not used, are left out.
\<close>

section \<open>Pseudo-random numbers\<close>

text \<open>The products are of 64 bits, but \<open>seed\<close> is an \<open>unsigned int\<close> and \<open>rand\<close> returns it as an \<open>int\<close>.\<close>

definition srand :: "u32 \<Rightarrow> u32" where
  "srand newseed = ucast (ucast newseed AND 0x7FFFFFFFFFFFFFFF :: u64)"

definition rand_next :: "u32 \<Rightarrow> u32" where
  "rand_next seed = ucast ((ucast seed * 6364136223846793005 + 1442695040888963407) AND 0x7FFFFFFFFFFFFFFF :: u64)"

text \<open>C's remainder takes the sign of the dividend.\<close>

definition rand_rem :: "u32 \<Rightarrow> int \<Rightarrow> int" where
  "rand_rem seed n = (if 0 \<le> sint seed then sint seed mod n else - ((- sint seed) mod n))"

section \<open>State\<close>

definition NUMDIRS :: u32 where "NUMDIRS = 8"
definition MAX_VISIBLE_SNAKE :: int where "MAX_VISIBLE_SNAKE = 7"
definition SN_BODY_CHAR :: u8 where "SN_BODY_CHAR = 42"
definition SN_FOOD_CHAR :: u8 where "SN_FOOD_CHAR = 3"
definition MAXSNAKES :: nat where "MAXSNAKES = 100"

record sn_point =
  sn_x :: int
  sn_y :: int

text \<open>\<open>direction\<close> is an enumeration without negative values, an unsigned integer.\<close>

record snake_st =
  dir :: u32
  color :: int
  body :: "sn_point list"
  pid :: u32

text \<open>\<open>allsnakes\<close> is the list of the snakes linked by \<open>others\<close>, from its head on.\<close>

record snakes =
  snake_at :: "addr \<rightharpoonup> snake_st"
  allsnakes :: "addr list"
  n_rows :: int
  n_cols :: int
  seed :: u32
  food :: sn_point
  endsnake :: bool
  snake_delay :: u32

definition snakes_start :: snakes where
  "snakes_start = \<lparr>snake_at = Map.empty, allsnakes = [], n_rows = 0, n_cols = 0, seed = 1, food = \<lparr>sn_x = -1, sn_y = -1\<rparr>,
     endsnake = False, snake_delay = 10\<rparr>"

definition deltaX :: "int list" where "deltaX = [-1, 0, 1, -1, 1, -1, 0, 1]"
definition deltaY :: "int list" where "deltaY = [-1, -1, -1, 0, 0, 1, 1, 1]"

text \<open>The characters of the heads and the colours, by direction and by \<open>color\<close>.\<close>

definition head_chars :: "u8 list" where "head_chars = [60, 94, 62, 60, 62, 60, 118, 62]"
definition colors :: "u8 list" where "colors = [0, 1, 4, 2, 0xC, 3, 0xE, 0xF, 0]"

definition NW :: u32 where "NW = 0"
definition N :: u32 where "N = 1"
definition NE :: u32 where "NE = 2"
definition W :: u32 where "W = 3"
definition E :: u32 where "E = 4"
definition SW :: u32 where "SW = 5"
definition S :: u32 where "S = 6"
definition SE :: u32 where "SE = 7"

definition ahead :: "sn_point \<Rightarrow> u32 \<Rightarrow> sn_point" where
  "ahead p d = \<lparr>sn_x = sn_x p + deltaX ! unat d, sn_y = sn_y p + deltaY ! unat d\<rparr>"

text \<open>A pointer that is not a live snake, an empty body and a direction beyond the tables are undefined
  behaviour of C.\<close>

definition deref :: "addr \<Rightarrow> snakes \<Rightarrow> snake_st res" where
  "deref p st = (case snake_at st p of None \<Rightarrow> Halt ''undefined behaviour: no snake here'' | Some s \<Rightarrow>
     if body s = [] \<or> dir s \<ge> NUMDIRS then Halt ''undefined behaviour: out of bounds'' else Done s)"

definition put_snake :: "addr \<Rightarrow> snake_st \<Rightarrow> snakes \<Rightarrow> snakes" where
  "put_snake p s st = st\<lparr>snake_at := (snake_at st)(p \<mapsto> s)\<rparr>"

section \<open>Snakes come and go\<close>

definition limit :: "int \<Rightarrow> int \<Rightarrow> int \<Rightarrow> int" where
  "limit x lo hi = (if x < lo then lo else if x > hi then hi else x)"

text \<open>The loop of \<open>new_snake\<close> over the points from the head backwards.\<close>

primrec coil :: "nat \<Rightarrow> int \<Rightarrow> int \<Rightarrow> u32 \<Rightarrow> snakes \<Rightarrow> sn_point list" where
  "coil 0 y x d st = []"
| "coil (Suc len) y x d st = \<lparr>sn_x = x, sn_y = y\<rparr> #
     coil len (limit (y - deltaY ! unat d) 0 (n_rows st - 1)) (limit (x - deltaX ! unat d) 0 (n_cols st - 1)) d st"

text \<open>\<open>p\<close> and \<open>b\<close> are what the two calls of \<open>kmalloc\<close> return; \<open>pid\<close> is not initialised (0 here).\<close>

definition new_snake :: "int \<Rightarrow> int \<Rightarrow> nat \<Rightarrow> u32 \<Rightarrow> int \<Rightarrow> addr \<Rightarrow> addr \<Rightarrow> snakes \<Rightarrow> addr \<times> snakes" where
  "new_snake y x len d c p b st =
     (let y = limit y 0 (n_rows st - 1); x = limit x 0 (n_cols st - 1) in
      if p = NULL then (NULL, st)
      else if b = NULL then (NULL, st)
      else (p, put_snake p \<lparr>dir = d, color = c, body = coil len y x d st, pid = 0\<rparr>
              (st\<lparr>allsnakes := p # allsnakes st\<rparr>)))"

text \<open>The search for the predecessor runs off the end of the list where the snake is not in it.\<close>

primrec unlink :: "addr \<Rightarrow> addr list \<Rightarrow> addr list res" where
  "unlink s [] = Halt ''undefined behaviour: NULL->others''"
| "unlink s (a # as) = (if s = a then Done as else res_bind (unlink s as) (\<lambda>as. Done (a # as)))"

text \<open>The two calls of \<open>kfree\<close> end the life of the object: any later access through the pointer is undefined
  behaviour. Which bytes they free is the matter of the heap's model.\<close>

definition free_snake :: "addr \<Rightarrow> snakes \<Rightarrow> snakes res" where
  "free_snake s st = res_bind (unlink s (allsnakes st)) (\<lambda>as.
     Done (st\<lparr>allsnakes := as, snake_at := (snake_at st)(s := None)\<rparr>))"

section \<open>Moves\<close>

text \<open>A wall, or a point of a snake in the list.\<close>

definition obstructed :: "sn_point \<Rightarrow> snakes \<Rightarrow> bool" where
  "obstructed p st \<longleftrightarrow> sn_x p \<ge> n_cols st \<or> sn_x p < 0 \<or> sn_y p \<ge> n_rows st \<or> sn_y p < 0
     \<or> list_ex (\<lambda>s. case snake_at st s of None \<Rightarrow> False
          | Some s \<Rightarrow> list_ex (\<lambda>q. sn_x p = sn_x q \<and> sn_y p = sn_y q) (body s)) (allsnakes st)"

text \<open>\<open>rand() % NUMDIRS\<close> stored in the unsigned \<open>dir\<close>, and cut to the last direction.\<close>

definition rand_dir :: "u32 \<Rightarrow> u32" where
  "rand_dir r = (let d = of_int (rand_rem r 8) in if d \<ge> NUMDIRS then NUMDIRS - 1 else d)"

text \<open>The search for a way out: the seed, the direction, the dead ends seen and \<open>alldead\<close>; \<open>ob\<close> tells
  whether the point in a direction is obstructed.\<close>

primrec turn_loop :: "nat \<Rightarrow> (u32 \<Rightarrow> bool) \<Rightarrow> u32 \<Rightarrow> u32 \<Rightarrow> bool list \<Rightarrow> bool \<Rightarrow> (u32 \<times> u32 \<times> bool) res" where
  "turn_loop 0 ob sd d deadends alldead = NoFuel"
| "turn_loop (Suc fuel) ob sd d deadends alldead =
     (if ob d \<and> \<not> alldead
      then let deadends = deadends[unat d := True]; sd = rand_next sd; d = rand_dir sd
           in turn_loop fuel ob sd d deadends (list_all (\<lambda>b. b) deadends)
      else Done (sd, d, alldead))"

text \<open>\<open>for (i = len - 1; i; i--) body[i] = body[i - 1]\<close>.\<close>

primrec shift_loop :: "nat \<Rightarrow> 'a list \<Rightarrow> 'a list" where
  "shift_loop 0 b = b"
| "shift_loop (Suc i) b = shift_loop i (b[Suc i := b ! i])"

text \<open>What \<open>move_snake\<close> and \<open>move_hungry_snake\<close> share, from the first direction on.\<close>

definition move_from :: "nat \<Rightarrow> addr \<Rightarrow> u32 \<Rightarrow> snake_st \<Rightarrow> snakes \<Rightarrow> snakes res" where
  "move_from fuel p d s st =
     res_bind (turn_loop fuel (\<lambda>d. obstructed (ahead (hd (body s)) d) st) (seed st) d (replicate 8 False) False)
       (\<lambda>(sd, d, alldead).
       let newhead = (if alldead then hd (body s) else ahead (hd (body s)) d);
           b = (shift_loop (length (body s) - 1) (body s))[0 := newhead]
       in Done (put_snake p (s\<lparr>dir := d, body := b\<rparr>) (st\<lparr>seed := sd\<rparr>)))"

definition move_snake :: "nat \<Rightarrow> addr \<Rightarrow> snakes \<Rightarrow> snakes res" where
  "move_snake fuel p st = res_bind (deref p st) (\<lambda>s. move_from fuel p (dir s) s st)"

definition delta2dir :: "u32 list list" where "delta2dir = [[NW, N, NE], [W, N, E], [SW, S, SE]]"

definition food_direction :: "int \<Rightarrow> int \<Rightarrow> snakes \<Rightarrow> u32" where
  "food_direction x y st =
     (let dx = (if sn_x (food st) > x then 1 else if sn_x (food st) < x then -1 else 0 :: int);
          dy = (if sn_y (food st) > y then 1 else if sn_y (food st) < y then -1 else 0 :: int)
      in delta2dir ! nat (dy + 1) ! nat (dx + 1))"

definition move_hungry_snake :: "nat \<Rightarrow> addr \<Rightarrow> snakes \<Rightarrow> snakes res" where
  "move_hungry_snake fuel p st = res_bind (deref p st) (\<lambda>s.
     move_from fuel p (food_direction (sn_x (hd (body s))) (sn_y (hd (body s))) st) s st)"

section \<open>Food\<close>

primrec place_food :: "nat \<Rightarrow> snakes \<Rightarrow> snakes res" where
  "place_food 0 st = NoFuel"
| "place_food (Suc fuel) st =
     (let sd1 = rand_next (seed st); sd2 = rand_next sd1;
          f = \<lparr>sn_x = rand_rem sd1 (n_cols st), sn_y = rand_rem sd2 (n_rows st)\<rparr>;
          st = st\<lparr>seed := sd2, food := f\<rparr>
      in if obstructed f st then place_food fuel st else Done st)"

definition onfood :: "snake_st \<Rightarrow> snakes \<Rightarrow> bool" where
  "onfood s st \<longleftrightarrow> sn_x (hd (body s)) = sn_x (food st) \<and> sn_y (hd (body s)) = sn_y (food st)"

section \<open>Drawing\<close>

text \<open>Coordinates are passed as bytes.\<close>

definition at_pos :: "device \<Rightarrow> sn_point \<Rightarrow> u8 \<Rightarrow> u8 \<Rightarrow> 'a vga_state_scheme \<Rightarrow> 'a vga_state_scheme" where
  "at_pos dev p c fg v = VGA_display_attr_char_pos dev (of_int (sn_x p)) (of_int (sn_y p)) c fg 0 v"

definition draw_snake :: "device \<Rightarrow> snake_st \<Rightarrow> 'a vga_state_scheme \<Rightarrow> 'a vga_state_scheme" where
  "draw_snake dev s v =
     fold (\<lambda>p. at_pos dev p SN_BODY_CHAR (colors ! nat (color s))) (tl (body s))
       (at_pos dev (hd (body s)) (head_chars ! unat (dir s)) (colors ! nat (color s)) v)"

definition erase_snake :: "device \<Rightarrow> snake_st \<Rightarrow> 'a vga_state_scheme \<Rightarrow> 'a vga_state_scheme" where
  "erase_snake dev s v = fold (\<lambda>p. at_pos dev p 32 0) (body s) v"

definition draw_food :: "device \<Rightarrow> snakes \<Rightarrow> 'a vga_state_scheme \<Rightarrow> 'a vga_state_scheme" where
  "draw_food dev st v = at_pos dev (food st) SN_FOOD_CHAR 0xF v"

definition draw_all_snakes :: "device \<Rightarrow> snakes \<Rightarrow> 'a vga_state_scheme \<Rightarrow> 'a vga_state_scheme" where
  "draw_all_snakes dev st v = fold (\<lambda>p v. case snake_at st p of None \<Rightarrow> v | Some s \<Rightarrow> draw_snake dev s v) (allsnakes st) v"

section \<open>The turn of a snake's thread\<close>

text \<open>One round of the loops of \<open>run_snake\<close> and \<open>run_hungry_snake\<close>, up to \<open>yield\<close>. \<open>kexit\<close> (lib/kproc.c) frees
  the thread and selects the next one, but switches to none: it returns, and the round goes on with the
  pointer to the snake that has just been freed. What \<open>kexit\<close> and \<open>yield\<close> do to the threads is not part of this state.\<close>

definition check_endsnake ::
    "device \<Rightarrow> addr \<Rightarrow> snakes \<Rightarrow> 'a vga_state_scheme \<Rightarrow> (snakes \<times> 'a vga_state_scheme) res" where
  "check_endsnake dev p st v =
     (if endsnake st
      then let st = st\<lparr>endsnake := False\<rparr> in
        res_bind (deref p st) (\<lambda>s.
        res_bind (free_snake p st) (\<lambda>st. Done (st, erase_snake dev s v)))
      else Done (st, v))"

definition run_snake ::
    "nat \<Rightarrow> device \<Rightarrow> addr \<Rightarrow> snakes \<Rightarrow> 'a vga_state_scheme \<Rightarrow> (snakes \<times> 'a vga_state_scheme) res" where
  "run_snake fuel dev p st v =
     res_bind (deref p st) (\<lambda>s.
     let v = erase_snake dev s v in
     res_bind (move_snake fuel p st) (\<lambda>st.
     res_bind (deref p st) (\<lambda>s.
     check_endsnake dev p st (draw_snake dev s v))))"

definition place_first_food :: "nat \<Rightarrow> device \<Rightarrow> snakes \<Rightarrow> 'a vga_state_scheme \<Rightarrow> (snakes \<times> 'a vga_state_scheme) res" where
  "place_first_food fuel dev st v =
     (if sn_x (food st) = -1 \<or> sn_y (food st) = -1
      then res_bind (place_food fuel st) (\<lambda>st. Done (st, draw_food dev st v)) else Done (st, v))"

text \<open>The snake \<open>s\<close> at \<open>p\<close> is on the food: the food is replaced and the snake gets brighter; a snake that is
  full is freed, and drawn nevertheless.\<close>

definition eat_food ::
    "nat \<Rightarrow> device \<Rightarrow> addr \<Rightarrow> snake_st \<Rightarrow> snakes \<Rightarrow> 'a vga_state_scheme \<Rightarrow> (snakes \<times> 'a vga_state_scheme) res" where
  "eat_food fuel dev p s st v =
     res_bind (place_food fuel st) (\<lambda>st.
       let v = draw_food dev st v; s = s\<lparr>color := color s + 1\<rparr>; st = put_snake p s st; v = erase_snake dev s v in
       res_bind (if color s > MAX_VISIBLE_SNAKE then free_snake p st else Done st) (\<lambda>st.
       res_bind (deref p st) (\<lambda>s.
       check_endsnake dev p st (draw_snake dev s v))))"

definition run_hungry_snake ::
    "nat \<Rightarrow> device \<Rightarrow> addr \<Rightarrow> snakes \<Rightarrow> 'a vga_state_scheme \<Rightarrow> (snakes \<times> 'a vga_state_scheme) res" where
  "run_hungry_snake fuel dev p st v =
     res_bind (deref p st) (\<lambda>s.
     let v = erase_snake dev s v in
     res_bind (move_hungry_snake fuel p st) (\<lambda>st.
     res_bind (deref p st) (\<lambda>s.
     let v = draw_snake dev s v in
     if onfood s st then eat_food fuel dev p s st v else check_endsnake dev p st v)))"

definition kill_snake :: "snakes \<Rightarrow> snakes" where "kill_snake st = st\<lparr>endsnake := True\<rparr>"

definition get_snake_delay :: "snakes \<Rightarrow> u32" where "get_snake_delay st = snake_delay st"

definition set_snake_delay :: "u32 \<Rightarrow> snakes \<Rightarrow> snakes" where "set_snake_delay msec st = st\<lparr>snake_delay := msec\<rparr>"

text \<open>The snake of the running thread, whose identifier is \<open>me\<close>; the parameter is ignored.\<close>

definition snakeFromLWpid :: "u32 \<Rightarrow> u32 \<Rightarrow> snakes \<Rightarrow> addr" where
  "snakeFromLWpid lw_pid me st =
     (case find (\<lambda>p. case snake_at st p of None \<Rightarrow> False | Some s \<Rightarrow> pid s = me) (allsnakes st) of
        None \<Rightarrow> NULL | Some p \<Rightarrow> p)"

section \<open>Setting up\<close>

text \<open>Row, column, direction and colour of the snakes, all of length 10.\<close>

definition first_snakes :: "(int \<times> int \<times> u32 \<times> int) list" where
  "first_snakes = [(8, 30, E, 1), (10, 30, E, 2), (12, 30, E, 3), (8, 50, W, 4), (10, 50, W, 5), (12, 50, W, 6), (4, 40, S, 7)]"

definition add_snake :: "(int \<times> int \<times> u32 \<times> int) \<times> addr \<times> addr \<Rightarrow> snakes \<Rightarrow> snakes" where
  "add_snake = (\<lambda>((y, x, d, c), (p, b)) st. snd (new_snake y x 10 d c p b st))"

text \<open>The second loop: the snakes made, and for each the identifier of the thread \<open>PROC_create_kthread\<close>
  made for it, if any.\<close>

primrec give_pids :: "(addr \<times> u32 option) list \<Rightarrow> snakes \<Rightarrow> snakes res" where
  "give_pids [] st = Done st"
| "give_pids (pt # pts) st =
     (case snd pt of None \<Rightarrow> give_pids pts st
      | Some n \<Rightarrow> (case snake_at st (fst pt) of None \<Rightarrow> Halt ''undefined behaviour: no snake here''
          | Some s \<Rightarrow> give_pids pts (put_snake (fst pt) (s\<lparr>pid := n\<rparr>) st)))"

text \<open>\<open>me\<close> is the identifier of the running thread, \<open>ps\<close> the pointers the calls of \<open>kmalloc\<close> return.\<close>

definition setup_snakes ::
    "device \<Rightarrow> u32 \<Rightarrow> (addr \<times> addr) list \<Rightarrow> u32 option list \<Rightarrow> snakes \<Rightarrow> 'a vga_state_scheme \<Rightarrow> (snakes \<times> 'a vga_state_scheme) res" where
  "setup_snakes dev me ps tids st v =
     (let st = fold add_snake (zip first_snakes ps)
            (st\<lparr>seed := srand me, n_rows := int VGA_NUM_ROWS, n_cols := int VGA_NUM_COLS\<rparr>);
          v = draw_all_snakes dev st (VGA_clear v)
      in res_bind (give_pids (zip (map (\<lambda>(p, b). if b = NULL then NULL else p) ps) tids) st) (\<lambda>st. Done (st, v)))"

end
