(* ===== verification/SnakesMoves.thy ===== *)
theory SnakesMoves imports Snakes begin

text \<open>
  The moves of the snakes: the pseudo-random generator has full period, so the search of a snake for a way
  out, which draws directions until one is free or all eight are seen to be blocked, always ends.
\<close>

section \<open>The period of the generator\<close>

definition lcg :: "int \<Rightarrow> int" where "lcg x = 6364136223846793005 * x + 1442695040888963407"

text \<open>Linear congruential generators modulo powers of two, as functions on the integers.\<close>

lemma dvd_power_mono: "(2 :: int) ^ k dvd x \<Longrightarrow> j \<le> k \<Longrightarrow> 2 ^ j dvd x"
  using le_imp_power_dvd dvd_trans by blast

lemma lcg_power:
  "\<exists>A C. (\<forall>x. (lcg ^^ (2 ^ k)) x = A * x + C) \<and> 2 ^ (k + 2) dvd A - 1 \<and> (\<exists>c. C = 2 ^ k * (2 * c + 1))"
proof (induction k)
  case 0
  have "(lcg ^^ 1) x = 6364136223846793005 * x + 1442695040888963407" for x by (simp add: lcg_def)
  moreover have "(2 :: int) ^ 2 dvd 6364136223846793005 - 1" by simp
  moreover have "(1442695040888963407 :: int) = 2 ^ 0 * (2 * 721347520444481703 + 1)" by simp
  ultimately show ?case by (metis add.left_neutral power_0)
next
  case (Suc k)
  then obtain A C c where f: "\<forall>x. (lcg ^^ (2 ^ k)) x = A * x + C" and A: "2 ^ (k + 2) dvd A - 1" and C: "C = 2 ^ k * (2 * c + 1)"
    by blast
  obtain a where a: "A = 2 ^ (k + 2) * a + 1" using A by (metis diff_add_cancel dvdE)
  have "(lcg ^^ (2 ^ Suc k)) x = A * A * x + (A * C + C)" for x
  proof -
    have "lcg ^^ (2 ^ Suc k) = (lcg ^^ (2 ^ k)) \<circ> (lcg ^^ (2 ^ k))" by (simp add: funpow_add [symmetric] mult_2)
    then show ?thesis using f by (simp add: algebra_simps)
  qed
  moreover have "2 ^ (Suc k + 2) dvd A * A - 1"
  proof -
    have "A * A - 1 = 2 ^ (Suc k + 2) * (2 ^ (k + 1) * a * a + a)" by (simp add: a algebra_simps power_add)
    then show ?thesis by simp
  qed
  moreover have "A * C + C = 2 ^ Suc k * (2 * (2 ^ k * a * (2 * c + 1) + c) + 1)"
    by (simp add: a C algebra_simps power_add)
  ultimately show ?case by blast
qed

text \<open>Every residue is reached from every other.\<close>

lemma lcg_reaches: "\<exists>n < 2 ^ k. 2 ^ k dvd (lcg ^^ n) x - y"
proof (induction k)
  case 0
  then show ?case by simp
next
  case (Suc k)
  then obtain n where n: "n < 2 ^ k" "2 ^ k dvd (lcg ^^ n) x - y" by blast
  obtain A C c where f: "\<forall>x. (lcg ^^ (2 ^ k)) x = A * x + C" and A: "2 ^ (k + 2) dvd A - 1" and C: "C = 2 ^ k * (2 * c + 1)"
    using lcg_power by blast
  obtain d where d: "(lcg ^^ n) x = y + 2 ^ k * d" using n(2) by (metis diff_add_cancel dvdE add.commute)
  show ?case
  proof (cases "even d")
    case True
    then have "2 ^ Suc k dvd (lcg ^^ n) x - y" by (auto simp: d elim!: evenE)
    then show ?thesis using n(1) by (intro exI [of _ n]) simp
  next
    case False
    then obtain e where e: "d = 2 * e + 1" by (auto elim: oddE)
    obtain a where a: "A = 2 ^ (k + 2) * a + 1" using A by (metis diff_add_cancel dvdE)
    have "(lcg ^^ (2 ^ k + n)) x = A * (y + 2 ^ k * d) + C" using f d by (simp add: funpow_add)
    then have "(lcg ^^ (2 ^ k + n)) x - y = 2 ^ Suc k * (2 * a * (y + 2 ^ k * d) + e + c + 1)"
      by (simp add: a C e algebra_simps power_add)
    then have "2 ^ Suc k dvd (lcg ^^ (2 ^ k + n)) x - y" by simp
    then show ?thesis using n(1) by (intro exI [of _ "2 ^ k + n"]) simp
  qed
qed

lemma uint_rand_next: "uint (rand_next s) = lcg (uint s) mod 4294967296"
proof -
  let ?x = "ucast s * 6364136223846793005 + 1442695040888963407 :: u64"
  have m: "(0x7FFFFFFFFFFFFFFF :: u64) = mask 63" by (simp add: mask_eq_exp_minus_1)
  have "rand_next s = ucast ?x"
    unfolding rand_next_def m by (rule bit_eqI) (auto simp: bit_unsigned_iff bit_and_iff bit_mask_iff)
  moreover have "uint (ucast ?x :: u32) = uint ?x mod 4294967296" by (simp add: unsigned_ucast_eq take_bit_eq_mod)
  moreover have "uint ?x mod 4294967296 = lcg (uint s) mod 4294967296"
  proof -
    have "uint ?x = (uint s * 6364136223846793005 + 1442695040888963407) mod 2 ^ 64"
      by (simp add: uint_word_arith_bintrs take_bit_eq_mod unsigned_ucast_eq mod_simps)
    moreover have "(z mod 2 ^ 64) mod 4294967296 = z mod 4294967296" for z :: int by (rule mod_mod_cancel) simp
    ultimately show ?thesis by (simp add: lcg_def mult.commute)
  qed
  ultimately show ?thesis by simp
qed

lemma lcg_mod: "lcg (x mod 4294967296) mod 4294967296 = lcg x mod 4294967296"
proof -
  have "lcg (x mod 4294967296) - lcg x = 4294967296 * (- 6364136223846793005 * (x div 4294967296))"
    unfolding lcg_def minus_mult_div_eq_mod [symmetric] by (simp add: algebra_simps)
  then have "4294967296 dvd lcg (x mod 4294967296) - lcg x" by simp
  then show ?thesis by (simp add: mod_eq_dvd_iff)
qed

lemma uint_rand_iter: "uint ((rand_next ^^ n) s) = (lcg ^^ n) (uint s) mod 4294967296"
proof (induction n)
  case 0
  have "uint s < 4294967296" using uint_lt2p [of s] by simp
  then show ?case by simp
next
  case (Suc n)
  then show ?case using uint_rand_next [of "(rand_next ^^ n) s"] lcg_mod by simp
qed

text \<open>The generator takes every value, each direction among them.\<close>

lemma rand_reaches: "\<exists>n < 4294967296. (rand_next ^^ n) s = t"
proof -
  obtain n where n: "n < 2 ^ 32" "2 ^ 32 dvd (lcg ^^ n) (uint s) - uint t" using lcg_reaches [of 32 "uint s" "uint t"] by blast
  have "(lcg ^^ n) (uint s) mod 4294967296 = uint t mod 4294967296" using n(2) by (simp add: mod_eq_dvd_iff)
  moreover have "uint t < 4294967296" using uint_lt2p [of t] by simp
  ultimately have "uint ((rand_next ^^ n) s) = uint t" by (simp add: uint_rand_iter)
  then show ?thesis using n(1) by (intro exI [of _ n]) (simp add: word_uint_eq_iff)
qed

lemma rand_dir_small:
  assumes "i < 8"
  shows "rand_dir (of_nat i) = of_nat i"
proof -
  have "i = 0 \<or> i = 1 \<or> i = 2 \<or> i = 3 \<or> i = 4 \<or> i = 5 \<or> i = 6 \<or> i = 7" using assms by linarith
  then show ?thesis by (elim disjE) (simp_all add: rand_dir_def rand_rem_def NUMDIRS_def word_le_nat_alt)
qed

lemma rand_dir_less: "rand_dir r < 8"
proof -
  have "rand_dir r \<le> 7" by (auto simp: rand_dir_def Let_def NUMDIRS_def word_le_nat_alt word_less_nat_alt)
  then show ?thesis by (simp add: word_le_nat_alt word_less_nat_alt)
qed

section \<open>The search for a way out\<close>

text \<open>The directions a search tries.\<close>

definition tried :: "u32 \<Rightarrow> u32 \<Rightarrow> nat \<Rightarrow> u32" where
  "tried sd d j = (if j = 0 then d else rand_dir ((rand_next ^^ j) sd))"

lemma tried_Suc: "tried (rand_next sd) (rand_dir (rand_next sd)) j = tried sd d (Suc j)"
  by (cases j) (simp_all add: tried_def funpow_swap1)

lemma turn_loop_no_fuel:
  "turn_loop (Suc m) ob sd d deads al = NoFuel \<Longrightarrow> length deads = 8 \<Longrightarrow> d < 8 \<Longrightarrow>
   if m = 0 then \<not> al else \<exists>i < 8. \<not> deads ! i \<and> (\<forall>j < m. unat (tried sd d j) \<noteq> i)"
proof (induction m arbitrary: sd d deads al)
  case 0
  then show ?case by (auto split: if_splits)
next
  case (Suc m)
  let ?sd = "rand_next sd" and ?deads = "deads[unat d := True]"
  let ?d = "rand_dir ?sd"
  have d: "unat d < 8" using Suc.prems(3) by (simp add: word_less_nat_alt)
  have "turn_loop (Suc m) ob ?sd ?d ?deads (list_all (\<lambda>b. b) ?deads) = NoFuel"
    using Suc.prems(1) by (simp only: turn_loop.simps(2) [of "Suc m"] Let_def) (simp split: if_splits)
  from Suc.IH [OF this] have IH: "if m = 0 then \<not> list_all (\<lambda>b. b) ?deads
      else \<exists>i < 8. \<not> ?deads ! i \<and> (\<forall>j < m. unat (tried ?sd ?d j) \<noteq> i)"
    using Suc.prems(2) rand_dir_less by simp
  then obtain i where i: "i < 8" "\<not> ?deads ! i" "\<forall>j < m. unat (tried sd d (Suc j)) \<noteq> i"
  proof (cases "m = 0")
    case True
    then obtain i where "i < length ?deads" "\<not> ?deads ! i" using IH by (auto simp: list_all_length)
    then show ?thesis using that [of i] True Suc.prems(2) by simp
  next
    case False
    then show ?thesis using IH that tried_Suc [of sd _ d] by auto
  qed
  have "\<not> deads ! i \<and> unat d \<noteq> i" using i(1,2) Suc.prems(2) d by (auto simp: nth_list_update split: if_splits)
  moreover have "\<forall>j < Suc m. unat (tried sd d j) \<noteq> i"
    using i(3) calculation by (auto simp: less_Suc_eq_0_disj) (simp add: tried_def)
  ultimately show ?case using i(1) by auto
qed

lemma turn_loop_done:
  "turn_loop fuel ob sd d deads al = Done (sd', d', al') \<Longrightarrow> d < 8 \<Longrightarrow> length deads = 8 \<Longrightarrow>
   \<forall>i < 8. deads ! i \<longrightarrow> ob (of_nat i) \<Longrightarrow> al \<longrightarrow> (\<forall>i < 8. ob (of_nat i)) \<Longrightarrow>
   d' < 8 \<and> (al' \<longrightarrow> (\<forall>i < 8. ob (of_nat i))) \<and> (\<not> al' \<longrightarrow> \<not> ob d')"
proof (induction fuel arbitrary: sd d deads al)
  case (Suc fuel)
  show ?case
  proof (cases "ob d \<and> \<not> al")
    case True
    let ?deads = "deads[unat d := True]"
    have "unat d < 8" using Suc.prems(2) by (simp add: word_less_nat_alt)
    then have deads: "\<forall>i < 8. ?deads ! i \<longrightarrow> ob (of_nat i)"
      using Suc.prems(3,4) True by (auto simp: nth_list_update)
    then have "list_all (\<lambda>b. b) ?deads \<longrightarrow> (\<forall>i < 8. ob (of_nat i))"
      using Suc.prems(3) by (auto simp: list_all_length)
    then show ?thesis
      using Suc.IH [of "rand_next sd" "rand_dir (rand_next sd)" ?deads "list_all (\<lambda>b. b) ?deads"] Suc.prems(1,3) True deads rand_dir_less
      by (simp add: Let_def)
  next
    case False
    then have "turn_loop (Suc fuel) ob sd d deads al = Done (sd, d, al)" by auto
    then show ?thesis using Suc.prems(1,2,5) False by auto
  qed
qed simp

lemma turn_loop_not_halt: "turn_loop fuel ob sd d deads al \<noteq> Halt e"
  by (induction fuel arbitrary: sd d deads al) (simp_all add: Let_def)

text \<open>The search ends: the generator draws each direction within its period.\<close>

lemma turn_loop_ends:
  assumes "4294967298 \<le> fuel" and "d < 8"
  shows "\<exists>sd' d' al. turn_loop fuel ob sd d (replicate 8 False) False = Done (sd', d', al) \<and> d' < 8
     \<and> (al \<longrightarrow> (\<forall>i < 8. ob (of_nat i))) \<and> (\<not> al \<longrightarrow> \<not> ob d')"
proof -
  obtain m where m: "fuel = Suc m" "4294967297 \<le> m" using assms(1) by (cases fuel) auto
  have "turn_loop fuel ob sd d (replicate 8 False) False \<noteq> NoFuel"
  proof
    assume "turn_loop fuel ob sd d (replicate 8 False) False = NoFuel"
    then obtain i where i: "i < 8" "\<forall>j < m. unat (tried sd d j) \<noteq> i"
      using turn_loop_no_fuel [of m ob sd d "replicate 8 False" False] m assms(2) by (auto split: if_splits)
    obtain n where n: "n < 4294967296" "(rand_next ^^ n) (rand_next sd) = of_nat i"
      using rand_reaches [of "rand_next sd" "of_nat i"] by blast
    have "tried sd d (Suc n) = of_nat i"
      using n(2) rand_dir_small [OF i(1)] by (simp add: tried_def funpow_swap1)
    moreover have "Suc n < m" using n(1) m(2) by linarith
    moreover have "unat (of_nat i :: u32) = i" using i(1) by (simp add: unat_of_nat)
    ultimately show False using i(2) by metis
  qed
  then obtain r where r: "turn_loop fuel ob sd d (replicate 8 False) False = Done r"
    using turn_loop_not_halt by (cases "turn_loop fuel ob sd d (replicate 8 False) False") auto
  obtain sd' d' al where "r = (sd', d', al)" by (cases r)
  moreover from this show ?thesis
    using r turn_loop_done [of fuel ob sd d "replicate 8 False" False sd' d' al] assms(2) by (intro exI) auto
qed

lemma shift_loop_eq: "i < length b \<Longrightarrow> shift_loop i b = hd b # take i b @ drop (Suc i) b"
proof (induction i arbitrary: b)
  case 0
  then show ?case by (cases b) auto
next
  case (Suc i)
  let ?b = "b[Suc i := b ! i]"
  have "shift_loop (Suc i) b = hd ?b # take i ?b @ drop (Suc i) ?b" using Suc.IH [of ?b] Suc.prems by simp
  moreover have "hd ?b = hd b" using Suc.prems by (cases b) auto
  moreover have "take i ?b = take i b" by simp
  moreover have "drop (Suc i) ?b = b ! i # drop (Suc (Suc i)) b"
    using Suc.prems Cons_nth_drop_Suc [of "Suc i" ?b] by simp
  moreover have "take (Suc i) b = take i b @ [b ! i]" using Suc.prems by (simp add: take_Suc_conv_app_nth)
  ultimately show ?case by simp
qed

lemma shift_body: "b \<noteq> [] \<Longrightarrow> (shift_loop (length b - 1) b)[0 := p] = p # butlast b"
  by (simp add: shift_loop_eq butlast_conv_take)

section \<open>Moves\<close>

text \<open>A neighbouring point, in one of the eight directions; the points a snake can move to.\<close>

definition way_out :: "snake_st \<Rightarrow> snakes \<Rightarrow> u32 \<Rightarrow> bool" where
  "way_out s st d \<longleftrightarrow> d < 8 \<and> \<not> obstructed (ahead (hd (body s)) d) st"

lemma u32_index: "(d :: u32) < 8 \<Longrightarrow> \<exists>i < 8. d = of_nat i"
  by (intro exI [of _ "unat d"]) (simp add: word_less_nat_alt)

text \<open>Where a move leads: to a free neighbour if there is one.\<close>

definition moved :: "snake_st \<Rightarrow> snakes \<Rightarrow> sn_point \<Rightarrow> u32 \<Rightarrow> bool" where
  "moved s st h d \<longleftrightarrow> d < 8 \<and> (if \<exists>d. way_out s st d then way_out s st d \<and> h = ahead (hd (body s)) d else h = hd (body s))"

lemma move_from_result:
  assumes run: "turn_loop fuel (\<lambda>d. obstructed (ahead (hd (body s)) d) st) (seed st) d (replicate 8 False) False = Done (sd', d', al)"
    and d: "d' < 8" "al \<longrightarrow> (\<forall>i < 8. obstructed (ahead (hd (body s)) (of_nat i)) st)"
      "\<not> al \<longrightarrow> \<not> obstructed (ahead (hd (body s)) d') st" and b: "body s \<noteq> []"
  shows "\<exists>h. move_from fuel p d s st = Done (put_snake p (s\<lparr>dir := d', body := h # butlast (body s)\<rparr>) (st\<lparr>seed := sd'\<rparr>))
     \<and> moved s st h d'"
proof -
  define h where "h = (if al then hd (body s) else ahead (hd (body s)) d')"
  have "\<not> way_out s st e" if al for e using d(2) that u32_index [of e] by (auto simp: way_out_def)
  then have "moved s st h d'" using d by (auto simp: moved_def way_out_def h_def)
  moreover have "move_from fuel p d s st = Done (put_snake p (s\<lparr>dir := d', body := h # butlast (body s)\<rparr>) (st\<lparr>seed := sd'\<rparr>))"
    using run shift_body [OF b] by (simp add: move_from_def h_def)
  ultimately show ?thesis by blast
qed

lemma move_from_ends:
  assumes "4294967298 \<le> fuel" "d < 8" "body s \<noteq> []"
  shows "\<exists>sd' d' h. move_from fuel p d s st = Done (put_snake p (s\<lparr>dir := d', body := h # butlast (body s)\<rparr>) (st\<lparr>seed := sd'\<rparr>))
     \<and> moved s st h d'"
  using turn_loop_ends [OF assms(1,2), of "\<lambda>d. obstructed (ahead (hd (body s)) d) st" "seed st"]
    move_from_result [of fuel s st d _ _ _ p] assms(3) by (elim exE conjE) blast

lemma move_from_done:
  assumes run: "move_from fuel p d s st = Done st'" and "d < 8" "body s \<noteq> []"
  shows "\<exists>sd' d' h. st' = put_snake p (s\<lparr>dir := d', body := h # butlast (body s)\<rparr>) (st\<lparr>seed := sd'\<rparr>) \<and> moved s st h d'"
proof -
  obtain sd' d' al where t: "turn_loop fuel (\<lambda>d. obstructed (ahead (hd (body s)) d) st) (seed st) d (replicate 8 False) False = Done (sd', d', al)"
    using run by (auto simp: move_from_def)
  from turn_loop_done [OF t assms(2)] have "d' < 8 \<and> (al \<longrightarrow> (\<forall>i < 8. obstructed (ahead (hd (body s)) (of_nat i)) st))
      \<and> (\<not> al \<longrightarrow> \<not> obstructed (ahead (hd (body s)) d') st)"
    by simp
  then show ?thesis using move_from_result [OF t _ _ _ assms(3), of p] run by auto
qed

lemma food_direction_less: "food_direction x y st < 8"
proof -
  have "food_direction x y st \<in> set (concat delta2dir)" by (auto simp: food_direction_def delta2dir_def Let_def)
  then show ?thesis by (auto simp: delta2dir_def NW_def N_def NE_def W_def E_def SW_def S_def SE_def word_less_nat_alt)
qed

lemma derefD: "deref p st = Done s \<Longrightarrow> snake_at st p = Some s \<and> body s \<noteq> [] \<and> dir s < 8"
  by (auto simp: deref_def NUMDIRS_def split: option.splits if_splits)

text \<open>C38: A snake's move always ends: whatever the seed, the search for a way out finds a free neighbour of
  the head if there is one, and otherwise sees all eight dead ends, within the period of the generator.
  The head goes to the free neighbour, or stays, and the body follows it.\<close>

theorem move_snake_returns:
  assumes "deref p st = Done s" and "2 ^ 32 + 2 \<le> fuel"
  shows "\<exists>sd' d' h. move_snake fuel p st = Done (put_snake p (s\<lparr>dir := d', body := h # butlast (body s)\<rparr>) (st\<lparr>seed := sd'\<rparr>))
     \<and> (if \<exists>d. way_out s st d then way_out s st d' \<and> h = ahead (hd (body s)) d' else h = hd (body s))"
proof -
  have s: "body s \<noteq> []" "dir s < 8" and fuel: "4294967298 \<le> fuel" using derefD [OF assms(1)] assms(2) by simp_all
  from move_from_ends [OF fuel s(2,1), of p st] obtain sd' d' h
    where "move_from fuel p (dir s) s st = Done (put_snake p (s\<lparr>dir := d', body := h # butlast (body s)\<rparr>) (st\<lparr>seed := sd'\<rparr>))"
      and "moved s st h d'"
    by blast
  then show ?thesis unfolding moved_def using assms(1) by (intro exI [of _ sd'] exI [of _ d'] exI [of _ h]) (simp add: move_snake_def)
qed

section \<open>The theorem on a concrete input\<close>

definition corner_snake :: snake_st where
  "corner_snake = \<lparr>dir = NW, color = 1, body = [\<lparr>sn_x = 0, sn_y = 0\<rparr>, \<lparr>sn_x = 1, sn_y = 0\<rparr>], pid = 0\<rparr>"

definition corner :: snakes where
  "corner = snakes_start\<lparr>snake_at := [4096 \<mapsto> corner_snake], allsnakes := [4096], n_rows := 25, n_cols := 80\<rparr>"

theorem move_snake_returns_witness:
  "\<exists>sd d h. move_snake (2 ^ 32 + 2) 4096 corner = Done (put_snake 4096 (corner_snake\<lparr>dir := d, body := [h, \<lparr>sn_x = 0, sn_y = 0\<rparr>]\<rparr>)
     (corner\<lparr>seed := sd\<rparr>))"
  (is "\<exists>sd d h. ?P sd d h")
proof -
  have "deref 4096 corner = Done corner_snake" by (simp add: deref_def corner_def corner_snake_def NUMDIRS_def NW_def)
  from move_snake_returns [OF this order_refl] obtain sd d h where "?P sd d h" by (auto simp: corner_snake_def)
  then show ?thesis by blast
qed

end
