(* ===== verification/SnakesProps.thy ===== *)
theory SnakesProps imports SnakesMoves VgaProps begin

text \<open>
  The board of the snakes: whatever snakes move in whatever order, they stay within the walls and apart,
  and what they draw stays on the screen.
\<close>

section \<open>The board\<close>

definition on_board :: "snakes \<Rightarrow> sn_point \<Rightarrow> bool" where
  "on_board st q \<longleftrightarrow> 0 \<le> sn_x q \<and> sn_x q < n_cols st \<and> 0 \<le> sn_y q \<and> sn_y q < n_rows st"

fun connected :: "sn_point list \<Rightarrow> bool" where
  "connected (a # b # ps) \<longleftrightarrow> \<bar>sn_x a - sn_x b\<bar> \<le> 1 \<and> \<bar>sn_y a - sn_y b\<bar> \<le> 1 \<and> connected (b # ps)"
| "connected ps \<longleftrightarrow> True"

definition snake_ok :: "snakes \<Rightarrow> snake_st \<Rightarrow> bool" where
  "snake_ok st s \<longleftrightarrow> dir s < 8 \<and> 0 \<le> color s \<and> color s \<le> 7 \<and> length (body s) = 10
     \<and> list_all (on_board st) (body s) \<and> connected (body s)"

definition board_ok :: "snakes \<Rightarrow> bool" where
  "board_ok st \<longleftrightarrow> distinct (allsnakes st) \<and> (\<forall>p. snake_at st p \<noteq> None \<longrightarrow> p \<in> set (allsnakes st))
     \<and> (\<forall>p \<in> set (allsnakes st). \<exists>s. snake_at st p = Some s \<and> snake_ok st s)
     \<and> (\<forall>p \<in> set (allsnakes st). \<forall>q \<in> set (allsnakes st). \<forall>s t. p \<noteq> q \<longrightarrow> snake_at st p = Some s \<longrightarrow> snake_at st q = Some t
          \<longrightarrow> set (body s) \<inter> set (body t) = {})"

lemma not_obstructed:
  assumes "\<not> obstructed p st"
  shows "on_board st p" and "q \<in> set (allsnakes st) \<Longrightarrow> snake_at st q = Some t \<Longrightarrow> p \<notin> set (body t)"
  using assms by (auto simp: obstructed_def on_board_def list_ex_iff split: option.splits)

lemma connected_butlast: "connected ps \<Longrightarrow> connected (butlast ps)"
  by (induction ps rule: connected.induct) auto

lemma connected_Cons: "connected ps \<Longrightarrow> (ps \<noteq> [] \<longrightarrow> \<bar>sn_x a - sn_x (hd ps)\<bar> \<le> 1 \<and> \<bar>sn_y a - sn_y (hd ps)\<bar> \<le> 1) \<Longrightarrow> connected (a # ps)"
  by (cases ps) auto

lemma ahead_near: "d < 8 \<Longrightarrow> \<bar>sn_x (ahead p d) - sn_x p\<bar> \<le> 1 \<and> \<bar>sn_y (ahead p d) - sn_y p\<bar> \<le> 1"
proof -
  assume "d < 8"
  then have "unat d < length deltaX" "unat d < length deltaY" by (simp_all add: deltaX_def deltaY_def word_less_nat_alt)
  then have "deltaX ! unat d \<in> set deltaX" "deltaY ! unat d \<in> set deltaY" using nth_mem by blast+
  then show ?thesis by (auto simp: ahead_def deltaX_def deltaY_def)
qed

lemma board_ok_at:
  assumes "board_ok st" "snake_at st p = Some s"
  shows "p \<in> set (allsnakes st) \<and> snake_ok st s"
proof -
  have p: "p \<in> set (allsnakes st)" using assms by (simp add: board_ok_def)
  then have "\<exists>s. snake_at st p = Some s \<and> snake_ok st s" using assms(1) unfolding board_ok_def by blast
  with p assms(2) show ?thesis by simp
qed

text \<open>Only the snakes and the size of the board matter to the invariant.\<close>

lemma on_board_keeps [simp]:
  "on_board (st\<lparr>seed := sd\<rparr>) = on_board st" "on_board (st\<lparr>food := f\<rparr>) = on_board st" "on_board (st\<lparr>endsnake := e\<rparr>) = on_board st"
  "on_board (st\<lparr>allsnakes := a\<rparr>) = on_board st" "on_board (st\<lparr>snake_at := m\<rparr>) = on_board st" "on_board (put_snake p s st) = on_board st"
  by (rule ext, simp add: on_board_def put_snake_def)+

lemma snake_ok_keeps [simp]:
  "snake_ok (st\<lparr>seed := sd\<rparr>) = snake_ok st" "snake_ok (st\<lparr>food := f\<rparr>) = snake_ok st" "snake_ok (st\<lparr>endsnake := e\<rparr>) = snake_ok st"
  "snake_ok (st\<lparr>allsnakes := a\<rparr>) = snake_ok st" "snake_ok (st\<lparr>snake_at := m\<rparr>) = snake_ok st" "snake_ok (put_snake p s st) = snake_ok st"
  by (rule ext, simp add: snake_ok_def)+

lemma board_ok_keeps [simp]:
  "board_ok (st\<lparr>seed := sd\<rparr>) = board_ok st" "board_ok (st\<lparr>food := f\<rparr>) = board_ok st" "board_ok (st\<lparr>endsnake := e\<rparr>) = board_ok st"
  by (simp_all add: board_ok_def)

lemma board_okD: "board_ok st \<Longrightarrow> p \<in> set (allsnakes st) \<Longrightarrow> \<exists>s. snake_at st p = Some s \<and> snake_ok st s \<and> deref p st = Done s"
  by (force simp: board_ok_def snake_ok_def deref_def NUMDIRS_def not_le)

text \<open>A well-formed snake put in the place of one in the list.\<close>

lemma board_put:
  assumes ok: "board_ok st" and p: "p \<in> set (allsnakes st)" and s: "snake_ok st s"
    and apart: "\<And>q u. q \<in> set (allsnakes st) \<Longrightarrow> q \<noteq> p \<Longrightarrow> snake_at st q = Some u \<Longrightarrow> set (body s) \<inter> set (body u) = {}"
  shows "board_ok (put_snake p s st)"
  unfolding board_ok_def snake_ok_keeps
proof (intro conjI ballI allI impI)
  show "distinct (allsnakes (put_snake p s st))" using ok by (simp add: board_ok_def put_snake_def)
next
  fix q assume "snake_at (put_snake p s st) q \<noteq> None"
  then show "q \<in> set (allsnakes (put_snake p s st))" using ok p by (cases "q = p") (auto simp: board_ok_def put_snake_def)
next
  fix q assume "q \<in> set (allsnakes (put_snake p s st))"
  then show "\<exists>s'. snake_at (put_snake p s st) q = Some s' \<and> snake_ok st s'"
    using s board_okD [OF ok, of q] by (cases "q = p") (auto simp: put_snake_def)
next
  fix q r u w assume q: "q \<in> set (allsnakes (put_snake p s st))" "r \<in> set (allsnakes (put_snake p s st))" "q \<noteq> r"
    "snake_at (put_snake p s st) q = Some u" "snake_at (put_snake p s st) r = Some w"
  consider "q = p" | "r = p" | "q \<noteq> p" "r \<noteq> p" by blast
  then show "set (body u) \<inter> set (body w) = {}"
  proof cases
    case 1
    then show ?thesis using q apart [of r w] by (simp add: put_snake_def)
  next
    case 2
    then show ?thesis using q apart [of q u] by (auto simp: put_snake_def)
  next
    case 3
    then have "q \<in> set (allsnakes st)" "r \<in> set (allsnakes st)" "snake_at st q = Some u" "snake_at st r = Some w"
      using q by (simp_all add: put_snake_def)
    then show ?thesis using ok q(3) unfolding board_ok_def by blast
  qed
qed

lemma bodies_apart:
  "board_ok st \<Longrightarrow> snake_at st p = Some s \<Longrightarrow> q \<in> set (allsnakes st) \<Longrightarrow> q \<noteq> p \<Longrightarrow> snake_at st q = Some u \<Longrightarrow>
   set (body s) \<inter> set (body u) = {}"
  using board_ok_at [of st p s] unfolding board_ok_def by blast

lemma moved_ok:
  assumes ok: "board_ok st" and p: "p \<in> set (allsnakes st)" "snake_at st p = Some s" and m: "moved s st h d"
  shows "board_ok (put_snake p (s\<lparr>dir := d, body := h # butlast (body s)\<rparr>) (st\<lparr>seed := sd\<rparr>))" (is "board_ok ?t")
proof -
  have s: "snake_ok st s" using board_ok_at [OF ok p(2)] by blast
  then have ne: "body s \<noteq> []" by (auto simp: snake_ok_def)
  note hd = hd_in_set [OF ne]
  have tl: "set (butlast (body s)) \<subseteq> set (body s)" by (auto dest: in_set_butlastD)
  have h: "on_board st h" and free: "h \<in> set (body s) \<or> (\<forall>q t. q \<in> set (allsnakes st) \<longrightarrow> snake_at st q = Some t \<longrightarrow> h \<notin> set (body t))"
    and near: "\<bar>sn_x h - sn_x (hd (body s))\<bar> \<le> 1 \<and> \<bar>sn_y h - sn_y (hd (body s))\<bar> \<le> 1"
    using m s hd not_obstructed ahead_near
    by (auto simp: moved_def way_out_def snake_ok_def list_all_iff split: if_splits)
  have "list_all (on_board st) (h # butlast (body s))" using h s tl by (auto simp: snake_ok_def list_all_iff)
  moreover have "connected (h # butlast (body s))"
    by (rule connected_Cons) (use s near connected_butlast ne in \<open>auto simp: snake_ok_def hd_conv_nth nth_butlast\<close>)
  ultimately have t: "snake_ok st (s\<lparr>dir := d, body := h # butlast (body s)\<rparr>)"
    using s m ne by (auto simp: snake_ok_def moved_def)
  have tl_apart: "set (h # butlast (body s)) \<inter> set (body u) = {}"
    if "q \<in> set (allsnakes st)" "q \<noteq> p" "snake_at st q = Some u" for q u
    using bodies_apart [OF ok p(2) that] free that(1,3) tl by auto
  show ?thesis by (rule board_put) (use ok p t tl_apart in simp_all)
qed


lemma board_ok_recolor:
  assumes ok: "board_ok st" and p: "snake_at st p = Some s" and c: "0 \<le> c" "c \<le> 7"
  shows "board_ok (put_snake p (s\<lparr>color := c\<rparr>) st)"
  by (rule board_put [OF ok]) (use board_ok_at [OF ok p] bodies_apart [OF ok p] c in \<open>auto simp: snake_ok_def\<close>)

lemma board_ok_pid:
  assumes ok: "board_ok st" and p: "snake_at st p = Some s"
  shows "board_ok (put_snake p (s\<lparr>pid := n\<rparr>) st)"
  by (rule board_put [OF ok]) (use board_ok_at [OF ok p] bodies_apart [OF ok p] in \<open>auto simp: snake_ok_def\<close>)

lemma move_from_board:
  assumes ok: "board_ok st" and p: "p \<in> set (allsnakes st)" "snake_at st p = Some s" and d: "d < 8"
    and run: "move_from fuel p d s st = Done st'"
  shows "board_ok st' \<and> allsnakes st' = allsnakes st"
proof -
  have "body s \<noteq> []" using board_okD [OF ok p(1)] p(2) by (auto simp: snake_ok_def)
  from move_from_done [OF run d this] obtain sd' d' h
    where st': "st' = put_snake p (s\<lparr>dir := d', body := h # butlast (body s)\<rparr>) (st\<lparr>seed := sd'\<rparr>)" and "moved s st h d'" by blast
  then show ?thesis using moved_ok [OF ok p] by (simp add: put_snake_def)
qed

lemma move_snake_board:
  "board_ok st \<Longrightarrow> p \<in> set (allsnakes st) \<Longrightarrow> move_snake fuel p st = Done st' \<Longrightarrow> board_ok st' \<and> allsnakes st' = allsnakes st"
  unfolding move_snake_def by (elim res_bind_DoneE) (frule derefD, blast dest: move_from_board)

lemma move_hungry_snake_board:
  "board_ok st \<Longrightarrow> p \<in> set (allsnakes st) \<Longrightarrow> move_hungry_snake fuel p st = Done st' \<Longrightarrow> board_ok st' \<and> allsnakes st' = allsnakes st"
  unfolding move_hungry_snake_def by (elim res_bind_DoneE) (frule derefD, blast dest: move_from_board [OF _ _ _ food_direction_less])

lemma unlink_done: "p \<in> set as \<Longrightarrow> unlink p as = Done (remove1 p as)"
  by (induction as) auto

lemma free_snake_board:
  assumes ok: "board_ok st" and p: "p \<in> set (allsnakes st)"
  shows "\<exists>st'. free_snake p st = Done st' \<and> board_ok st' \<and> allsnakes st' = remove1 p (allsnakes st) \<and> snake_at st' p = None"
proof -
  let ?t = "st\<lparr>allsnakes := remove1 p (allsnakes st), snake_at := (snake_at st)(p := None)\<rparr>"
  have set: "set (allsnakes ?t) = set (allsnakes st) - {p}" using ok by (simp add: board_ok_def)
  have sn: "snake_at ?t q = snake_at st q" if "q \<in> set (allsnakes ?t)" for q using that unfolding set by simp
  have "board_ok ?t" unfolding board_ok_def snake_ok_keeps
  proof (intro conjI ballI allI impI)
    show "distinct (allsnakes ?t)" using ok by (simp add: board_ok_def)
  next
    fix q assume "snake_at ?t q \<noteq> None"
    then show "q \<in> set (allsnakes ?t)" using ok unfolding set by (auto simp: board_ok_def split: if_splits)
  next
    fix q assume "q \<in> set (allsnakes ?t)"
    with sn [OF this] show "\<exists>s. snake_at ?t q = Some s \<and> snake_ok st s" using board_okD [OF ok, of q] unfolding set by auto
  next
    fix q r s u assume qr: "q \<in> set (allsnakes ?t)" "r \<in> set (allsnakes ?t)" and "q \<noteq> r" "snake_at ?t q = Some s" "snake_at ?t r = Some u"
    then have "snake_at st q = Some s" "snake_at st r = Some u" using sn by auto
    with \<open>q \<noteq> r\<close> show "set (body s) \<inter> set (body u) = {}" using ok qr unfolding set board_ok_def by blast
  qed
  then show ?thesis using unlink_done [OF p] by (simp add: free_snake_def)
qed

text \<open>A snake about to be freed need not be well formed.\<close>

lemma free_put: "free_snake p (put_snake p s st) = free_snake p st"
  by (simp add: free_snake_def put_snake_def)

lemma place_food_done: "place_food fuel st = Done st' \<Longrightarrow> \<exists>sd f. st' = st\<lparr>seed := sd, food := f\<rparr> \<and> \<not> obstructed f st"
proof (induction fuel arbitrary: st)
  case (Suc fuel)
  have ob: "obstructed q (st\<lparr>seed := sd, food := f\<rparr>) = obstructed q st" for q sd f by (simp add: obstructed_def)
  let ?f = "\<lparr>sn_x = rand_rem (rand_next (seed st)) (n_cols st), sn_y = rand_rem (rand_next (rand_next (seed st))) (n_rows st)\<rparr>"
  let ?t = "st\<lparr>seed := rand_next (rand_next (seed st)), food := ?f\<rparr>"
  show ?case
  proof (cases "obstructed ?f st")
    case True
    then have "place_food fuel ?t = Done st'" using Suc.prems by (simp add: Let_def ob)
    from Suc.IH [OF this] obtain sd f where "st' = ?t\<lparr>seed := sd, food := f\<rparr>" "\<not> obstructed f ?t" by blast
    then show ?thesis unfolding ob by (intro exI [of _ sd] exI [of _ f]) simp
  next
    case False
    then have "st' = ?t" using Suc.prems by (simp add: Let_def ob)
    with False show ?thesis by blast
  qed
qed simp

lemma place_food_board: "board_ok st \<Longrightarrow> place_food fuel st = Done st' \<Longrightarrow> board_ok st' \<and> allsnakes st' = allsnakes st \<and> snake_at st' = snake_at st"
  using place_food_done by fastforce

lemma check_endsnake_board:
  "board_ok st \<Longrightarrow> p \<in> set (allsnakes st) \<Longrightarrow> \<exists>st' v'. check_endsnake dev p st v = Done (st', v') \<and> board_ok st'"
  using board_okD [of "st\<lparr>endsnake := False\<rparr>" p] free_snake_board [of "st\<lparr>endsnake := False\<rparr>" p]
  by (force simp: check_endsnake_def)


lemma check_endsnake_keeps:
  "check_endsnake dev p st v = Done (st', v') \<Longrightarrow> board_ok st \<Longrightarrow> p \<in> set (allsnakes st) \<Longrightarrow> board_ok st'"
  using check_endsnake_board [of st p dev v] by fastforce

lemma run_snake_board:
  assumes ok: "board_ok st" and p: "p \<in> set (allsnakes st)" and run: "run_snake fuel dev p st v = Done (st', v')"
  shows "board_ok st'"
proof -
  obtain st1 w where mv: "move_snake fuel p st = Done st1" and "check_endsnake dev p st1 w = Done (st', v')"
    using run unfolding run_snake_def Let_def by (elim res_bind_DoneE) blast
  with move_snake_board [OF ok p mv] p check_endsnake_keeps show ?thesis by metis
qed

text \<open>A full snake is freed and then drawn.\<close>

lemma freed_halts:
  assumes "free_snake p st = Done st'"
  shows "halts (deref p st')"
  using assms by (auto simp: free_snake_def deref_def)

lemma eat_food_board:
  assumes ok: "board_ok st" and p: "p \<in> set (allsnakes st)" "snake_at st p = Some s"
    and run: "eat_food fuel dev p s st v = Done (st', v')"
  shows "board_ok st'"
proof -
  let ?s = "s\<lparr>color := color s + 1\<rparr>"
  obtain st1 st2 s2 w where pf: "place_food fuel st = Done st1"
    and fr: "(if color ?s > MAX_VISIBLE_SNAKE then free_snake p (put_snake p ?s st1) else Done (put_snake p ?s st1)) = Done st2"
    and s2: "deref p st2 = Done s2" and rest: "check_endsnake dev p st2 w = Done (st', v')"
    using run unfolding eat_food_def Let_def by (elim res_bind_DoneE) blast
  have ok1: "board_ok st1" "p \<in> set (allsnakes st1)" "snake_at st1 p = Some s" using place_food_board [OF ok pf] p by auto
  have le: "\<not> color ?s > MAX_VISIBLE_SNAKE" using fr s2 freed_halts by (auto split: if_splits)
  have "0 \<le> color s" using board_okD [OF ok1(1,2)] ok1(3) by (auto simp: snake_ok_def)
  then have "board_ok (put_snake p ?s st1)" using board_ok_recolor [OF ok1(1,3)] ok1(2) le by (simp add: MAX_VISIBLE_SNAKE_def)
  moreover have "p \<in> set (allsnakes (put_snake p ?s st1))" using ok1(2) by (simp add: put_snake_def)
  ultimately show ?thesis using check_endsnake_keeps [OF rest] fr le by simp
qed

lemma run_hungry_snake_board:
  assumes ok: "board_ok st" and p: "p \<in> set (allsnakes st)" and run: "run_hungry_snake fuel dev p st v = Done (st', v')"
  shows "board_ok st'"
proof -
  obtain st1 s w where mv: "move_hungry_snake fuel p st = Done st1" and s: "deref p st1 = Done s"
    and rest: "(if onfood s st1 then eat_food fuel dev p s st1 w else check_endsnake dev p st1 w) = Done (st', v')"
    using run unfolding run_hungry_snake_def Let_def by (elim res_bind_DoneE) blast
  have ok1: "board_ok st1" "p \<in> set (allsnakes st1)" using move_hungry_snake_board [OF ok p mv] p by auto
  show ?thesis
    using rest eat_food_board [OF ok1, of s] derefD [OF s] check_endsnake_keeps [OF _ ok1] by (cases "onfood s st1") auto
qed

text \<open>Making snakes: a new snake coils within the board.\<close>

lemma limit_bounds: "lo \<le> hi \<Longrightarrow> lo \<le> limit x lo hi \<and> limit x lo hi \<le> hi"
  by (simp add: limit_def)

lemma limit_near: "lo \<le> x \<Longrightarrow> x \<le> hi \<Longrightarrow> \<bar>d\<bar> \<le> 1 \<Longrightarrow> \<bar>x - limit (x - d) lo hi\<bar> \<le> 1"
  by (auto simp: limit_def)

lemma coil_ok:
  assumes "d < 8"
  shows "0 \<le> x \<Longrightarrow> x < n_cols st \<Longrightarrow> 0 \<le> y \<Longrightarrow> y < n_rows st \<Longrightarrow>
    length (coil len y x d st) = len \<and> list_all (on_board st) (coil len y x d st) \<and> connected (coil len y x d st)"
proof (induction len arbitrary: x y)
  case (Suc len)
  have d: "\<bar>deltaX ! unat d\<bar> \<le> 1" "\<bar>deltaY ! unat d\<bar> \<le> 1" using ahead_near [OF assms, of "\<lparr>sn_x = 0, sn_y = 0\<rparr>"] by (simp_all add: ahead_def)
  let ?x = "limit (x - deltaX ! unat d) 0 (n_cols st - 1)" and ?y = "limit (y - deltaY ! unat d) 0 (n_rows st - 1)"
  have b: "0 \<le> ?x" "?x < n_cols st" "0 \<le> ?y" "?y < n_rows st"
    using Suc.prems limit_bounds [of 0 "n_cols st - 1" "x - deltaX ! unat d"] limit_bounds [of 0 "n_rows st - 1" "y - deltaY ! unat d"] by auto
  have near: "\<bar>x - ?x\<bar> \<le> 1" "\<bar>y - ?y\<bar> \<le> 1" using Suc.prems d by (auto intro!: limit_near)
  have "coil len ?y ?x d st \<noteq> [] \<longrightarrow> hd (coil len ?y ?x d st) = \<lparr>sn_x = ?x, sn_y = ?y\<rparr>" by (cases len) simp_all
  then show ?case using Suc.IH [OF b] Suc.prems near by (auto simp: on_board_def intro!: connected_Cons)
qed simp

lemma coil_same: "n_rows st = n_rows t \<Longrightarrow> n_cols st = n_cols t \<Longrightarrow> coil len y x d st = coil len y x d t"
  by (induction len arbitrary: x y) simp_all

lemma new_snake_board:
  assumes ok: "board_ok st" and p: "p \<notin> set (allsnakes st)" "p \<noteq> NULL" "b \<noteq> NULL"
    and on: "0 \<le> x" "x < n_cols st" "0 \<le> y" "y < n_rows st" and d: "d < 8" "0 \<le> c" "c \<le> 7"
    and apart: "\<And>q t. q \<in> set (allsnakes st) \<Longrightarrow> snake_at st q = Some t \<Longrightarrow> set (coil 10 y x d st) \<inter> set (body t) = {}"
  shows "board_ok (snd (new_snake y x 10 d c p b st))"
proof -
  let ?s = "\<lparr>dir = d, color = c, body = coil 10 y x d st, pid = 0\<rparr>"
  let ?t = "put_snake p ?s (st\<lparr>allsnakes := p # allsnakes st\<rparr>)"
  have eq: "snd (new_snake y x 10 d c p b st) = ?t"
    using p on by (simp add: new_snake_def limit_def)
  have s: "snake_ok st ?s" using coil_ok [OF d(1) on, of 10] d by (simp add: snake_ok_def)
  show ?thesis unfolding eq board_ok_def snake_ok_keeps
  proof (intro conjI ballI allI impI)
    show "distinct (allsnakes ?t)" using ok p by (simp add: board_ok_def put_snake_def)
  next
    fix q assume "snake_at ?t q \<noteq> None"
    then show "q \<in> set (allsnakes ?t)" using ok by (auto simp: board_ok_def put_snake_def split: if_splits)
  next
    fix q assume "q \<in> set (allsnakes ?t)"
    then show "\<exists>s. snake_at ?t q = Some s \<and> snake_ok st s" using s board_okD [OF ok, of q] by (auto simp: put_snake_def)
  next
    fix q r u w assume q: "q \<in> set (allsnakes ?t)" "r \<in> set (allsnakes ?t)" "q \<noteq> r" "snake_at ?t q = Some u" "snake_at ?t r = Some w"
    consider "q = p" | "r = p" | "q \<noteq> p" "r \<noteq> p" by blast
    then show "set (body u) \<inter> set (body w) = {}"
    proof cases
      case 1
      then show ?thesis using q apart [of r w] by (auto simp: put_snake_def)
    next
      case 2
      then show ?thesis using q apart [of q u] by (auto simp: put_snake_def)
    next
      case 3
      then have "q \<in> set (allsnakes st)" "r \<in> set (allsnakes st)" "snake_at st q = Some u" "snake_at st r = Some w"
        using q by (auto simp: put_snake_def)
      then show ?thesis using ok q(3) unfolding board_ok_def by blast
    qed
  qed
qed


lemma give_pids_board: "give_pids pts st = Done st' \<Longrightarrow> board_ok st \<Longrightarrow> board_ok st' \<and> allsnakes st' = allsnakes st"
proof (induction pts arbitrary: st)
  case (Cons pt pts)
  show ?case
  proof (cases "snd pt")
    case None
    then show ?thesis using Cons by simp
  next
    case (Some n)
    then obtain s where s: "snake_at st (fst pt) = Some s" and g: "give_pids pts (put_snake (fst pt) (s\<lparr>pid := n\<rparr>) st) = Done st'"
      using Cons.prems(1) by (auto split: option.splits)
    show ?thesis using Cons.IH [OF g board_ok_pid [OF Cons.prems(2) s]] by (simp add: put_snake_def)
  qed
qed simp

text \<open>The seven first snakes.\<close>

definition cells :: "int \<times> int \<times> u32 \<times> int \<Rightarrow> sn_point set" where
  "cells = (\<lambda>(y, x, d, c). set (coil 10 y x d (snakes_start\<lparr>n_rows := 25, n_cols := 80\<rparr>)))"

definition spec_ok :: "int \<times> int \<times> u32 \<times> int \<Rightarrow> bool" where
  "spec_ok = (\<lambda>(y, x, d, c). 0 \<le> x \<and> x < 80 \<and> 0 \<le> y \<and> y < 25 \<and> d < 8 \<and> 0 \<le> c \<and> c \<le> 7)"

lemma first_snakes_ok: "list_all spec_ok first_snakes"
  by (simp add: first_snakes_def spec_ok_def E_def W_def S_def)

lemma coil_row:
  "q \<in> set (coil len y x d st) \<Longrightarrow> deltaY ! unat d = 0 \<Longrightarrow> 0 \<le> y \<Longrightarrow> y < n_rows st \<Longrightarrow> sn_y q = y"
proof (induction len arbitrary: x)
  case (Suc len)
  have "limit (y - deltaY ! unat d) 0 (n_rows st - 1) = y" using Suc.prems by (simp add: limit_def)
  then show ?case using Suc by auto
qed simp

lemma coil_east:
  "q \<in> set (coil len y x d st) \<Longrightarrow> deltaX ! unat d = 1 \<Longrightarrow> 0 \<le> x \<Longrightarrow> x < n_cols st \<Longrightarrow> sn_x q \<le> x"
proof (induction len arbitrary: x y)
  case (Suc len)
  let ?x = "limit (x - deltaX ! unat d) 0 (n_cols st - 1)"
  have "0 \<le> ?x" "?x < n_cols st" "?x \<le> x" using Suc.prems by (auto simp: limit_def)
  then show ?case using Suc.prems Suc.IH [of _ ?x] by fastforce
qed simp

lemma coil_west:
  "q \<in> set (coil len y x d st) \<Longrightarrow> deltaX ! unat d = -1 \<Longrightarrow> 0 \<le> x \<Longrightarrow> x < n_cols st \<Longrightarrow> x \<le> sn_x q"
proof (induction len arbitrary: x y)
  case (Suc len)
  let ?x = "limit (x - deltaX ! unat d) 0 (n_cols st - 1)"
  have "0 \<le> ?x" "?x < n_cols st" "x \<le> ?x" using Suc.prems by (auto simp: limit_def)
  then show ?case using Suc.prems Suc.IH [of _ ?x] by fastforce
qed simp

lemma coil_column:
  "q \<in> set (coil len y x d st) \<Longrightarrow> deltaX ! unat d = 0 \<Longrightarrow> 0 \<le> x \<Longrightarrow> x < n_cols st \<Longrightarrow> sn_x q = x"
proof (induction len arbitrary: y)
  case (Suc len)
  have "limit (x - deltaX ! unat d) 0 (n_cols st - 1) = x" using Suc.prems by (simp add: limit_def)
  then show ?case using Suc by auto
qed simp

text \<open>A coiled snake stays on the near side of its head.\<close>

definition place :: "int \<times> int \<times> u32 \<times> int \<Rightarrow> sn_point \<Rightarrow> bool" where
  "place = (\<lambda>(y, x, d, c) q. if deltaX ! unat d = 0 then sn_x q = x
     else deltaY ! unat d = 0 \<longrightarrow> sn_y q = y \<and> (if deltaX ! unat d = 1 then sn_x q \<le> x else deltaX ! unat d = -1 \<longrightarrow> x \<le> sn_x q))"

lemma cells_place:
  assumes "spec_ok a" "q \<in> cells a"
  shows "place a q"
proof -
  obtain y x d c where a: "a = (y, x, d, c)" by (cases a)
  have q: "q \<in> set (coil 10 y x d (snakes_start\<lparr>n_rows := 25, n_cols := 80\<rparr>))" using assms(2) by (simp add: cells_def a)
  show ?thesis
    using assms(1) coil_row [OF q] coil_column [OF q] coil_east [OF q] coil_west [OF q] by (simp add: a place_def spec_ok_def)
qed

lemma first_places_apart: "sorted_wrt (\<lambda>a b. \<forall>q. \<not> (place a q \<and> place b q)) first_snakes"
proof -
  have "place (y, x, E, c) q \<longleftrightarrow> sn_y q = y \<and> sn_x q \<le> x" "place (y, x, W, c) q \<longleftrightarrow> sn_y q = y \<and> x \<le> sn_x q"
    "place (y, x, S, c) q \<longleftrightarrow> sn_x q = x" for y x c q
    by (simp_all add: place_def E_def W_def S_def deltaX_def deltaY_def)
  then show ?thesis by (simp add: first_snakes_def)
qed

lemma first_snakes_apart: "sorted_wrt (\<lambda>a b. cells a \<inter> cells b = {}) first_snakes"
  by (rule sorted_wrt_mono_rel [OF _ first_places_apart])
    (use first_snakes_ok cells_place in \<open>fastforce simp: list_all_iff\<close>)

definition on_cells :: "(int \<times> int \<times> u32 \<times> int) list \<Rightarrow> snakes \<Rightarrow> bool" where
  "on_cells as st \<longleftrightarrow> (\<forall>q \<in> set (allsnakes st). \<forall>t. snake_at st q = Some t \<longrightarrow> (\<forall>a \<in> set as. cells a \<inter> set (body t) = {}))"

lemma add_snakes_board:
  "board_ok st \<Longrightarrow> n_rows st = 25 \<Longrightarrow> n_cols st = 80 \<Longrightarrow> list_all spec_ok as \<Longrightarrow> sorted_wrt (\<lambda>a b. cells a \<inter> cells b = {}) as \<Longrightarrow>
   on_cells as st \<Longrightarrow> distinct (map fst ps) \<Longrightarrow> set (map fst ps) \<inter> set (allsnakes st) = {} \<Longrightarrow>
   \<forall>p \<in> set ps. fst p \<noteq> NULL \<and> snd p \<noteq> NULL \<Longrightarrow> board_ok (fold add_snake (zip as ps) st)"
proof (induction as arbitrary: st ps)
  case (Cons a as)
  show ?case
  proof (cases ps)
    case (Cons pb qs)
    obtain p b where pb: "pb = (p, b)" by (cases pb)
    obtain y x d c where a: "a = (y, x, d, c)" by (cases a)
    let ?s = "\<lparr>dir = d, color = c, body = coil 10 y x d st, pid = 0\<rparr>"
    let ?t = "put_snake p ?s (st\<lparr>allsnakes := p # allsnakes st\<rparr>)"
    have ok: "0 \<le> x" "x < 80" "0 \<le> y" "y < 25" "d < 8" "0 \<le> c" "c \<le> 7" using Cons.prems(4) by (simp_all add: a spec_ok_def)
    have co: "set (coil 10 y x d st) = cells a"
      using coil_same [of st "snakes_start\<lparr>n_rows := 25, n_cols := 80\<rparr>"] Cons.prems(2,3) by (simp add: cells_def a)
    have p: "p \<notin> set (allsnakes st)" "p \<noteq> NULL" "b \<noteq> NULL" using Cons.prems(8,9) Cons by (auto simp: pb)
    have t: "add_snake (a, pb) st = ?t" using p ok Cons.prems(2,3) by (simp add: add_snake_def a pb new_snake_def limit_def)
    have "board_ok (snd (new_snake y x 10 d c p b st))"
      by (rule new_snake_board [OF Cons.prems(1) p ok(1) _ ok(3) _ ok(5-7)])
        (use Cons.prems(2,3,6) ok co in \<open>auto simp: on_cells_def\<close>)
    then have "board_ok ?t" using t by (simp add: add_snake_def a pb)
    moreover have "on_cells as ?t"
      using Cons.prems(5,6) co by (auto simp: on_cells_def put_snake_def disjoint_iff)
    ultimately have "board_ok (fold add_snake (zip as qs) ?t)"
      using Cons.prems Cons.IH [of ?t qs] Cons by (simp add: pb put_snake_def)
    then show ?thesis using Cons t by simp
  qed (use Cons.prems in simp)
qed simp


lemma setup_board:
  assumes "setup_snakes dev me ps tids snakes_start v = Done (st, w)" and "distinct (map fst ps)"
    and "\<forall>p \<in> set ps. fst p \<noteq> NULL \<and> snd p \<noteq> NULL"
  shows "board_ok st"
proof -
  let ?t = "snakes_start\<lparr>seed := srand me, n_rows := int VGA_NUM_ROWS, n_cols := int VGA_NUM_COLS\<rparr>"
  have "board_ok (fold add_snake (zip first_snakes ps) ?t)"
    by (rule add_snakes_board [OF _ _ _ first_snakes_ok first_snakes_apart _ assms(2) _ assms(3)])
      (simp_all add: board_ok_def snakes_start_def on_cells_def VGA_NUM_ROWS_def VGA_NUM_COLS_def)
  then show ?thesis using assms(1) give_pids_board unfolding setup_snakes_def Let_def by (elim res_bind_DoneE) blast
qed

section \<open>The screen\<close>

definition draws :: "'a vga_state_scheme \<Rightarrow> 'a vga_state_scheme \<Rightarrow> bool" where
  "draws v w \<longleftrightarrow> (cursor_ok v \<longrightarrow> cursor_ok w \<and> spares_rest v w)"

lemma draws_refl [simp]: "draws v v"
  by (simp add: draws_def spares_rest_def)


















section \<open>Reachable states\<close>

text \<open>The demonstration from its set-up on: turns of any snakes in the list, in any order, and the calls of
  the interface; \<open>v0\<close> is the screen before.\<close>

inductive demo :: "device \<Rightarrow> 'a vga_state_scheme \<Rightarrow> snakes \<Rightarrow> 'a vga_state_scheme \<Rightarrow> bool" for dev v0 where
  start: "distinct (map fst ps) \<Longrightarrow> \<forall>p \<in> set ps. fst p \<noteq> NULL \<and> snd p \<noteq> NULL \<Longrightarrow>
    setup_snakes dev me ps tids snakes_start v0 = Done (st, v) \<Longrightarrow> demo dev v0 st v"
| turn: "demo dev v0 st v \<Longrightarrow> run_snake fuel dev p st v = Done (st', v') \<Longrightarrow> demo dev v0 st' v'"
| hungry_turn: "demo dev v0 st v \<Longrightarrow> run_hungry_snake fuel dev p st v = Done (st', v') \<Longrightarrow> demo dev v0 st' v'"
| first_food: "demo dev v0 st v \<Longrightarrow> place_first_food fuel dev st v = Done (st', v') \<Longrightarrow> demo dev v0 st' v'"
| kill: "demo dev v0 st v \<Longrightarrow> demo dev v0 (kill_snake st) v"
| set_delay: "demo dev v0 st v \<Longrightarrow> demo dev v0 (set_snake_delay msec st) v"

lemma place_first_food_board: "board_ok st \<Longrightarrow> place_first_food fuel dev st v = Done (st', v') \<Longrightarrow> board_ok st'"
  by (auto simp: place_first_food_def dest: place_food_board split: if_splits)

lemma set_delay_board: "board_ok st \<Longrightarrow> board_ok (set_snake_delay msec st)"
proof -
  have "snake_ok (set_snake_delay msec st) = snake_ok st"
    by (rule ext) (simp add: snake_ok_def on_board_def [abs_def] set_snake_delay_def)
  then show "board_ok st \<Longrightarrow> board_ok (set_snake_delay msec st)" by (simp add: board_ok_def) (simp add: set_snake_delay_def)
qed

text \<open>A turn needs a snake, and all snakes are in the list.\<close>

lemma turn_listed:
  assumes ok: "board_ok st"
  shows "run_snake fuel dev p st v = Done r \<Longrightarrow> p \<in> set (allsnakes st)"
    and "run_hungry_snake fuel dev p st v = Done r \<Longrightarrow> p \<in> set (allsnakes st)"
proof -
  have "p \<in> set (allsnakes st)" if "deref p st = Done s" for s using derefD [OF that] board_ok_at [OF ok] by blast
  then show "run_snake fuel dev p st v = Done r \<Longrightarrow> p \<in> set (allsnakes st)"
    "run_hungry_snake fuel dev p st v = Done r \<Longrightarrow> p \<in> set (allsnakes st)"
    unfolding run_snake_def run_hungry_snake_def by blast+
qed

lemma gone_halts:
  assumes ok: "board_ok st" and p: "p \<notin> set (allsnakes st)"
  shows "halts (run_snake fuel dev p st v) \<and> halts (run_hungry_snake fuel dev p st v)"
proof -
  have "snake_at st p = None" using board_ok_at [OF ok] p by (cases "snake_at st p") auto
  then show ?thesis by (simp add: run_snake_def run_hungry_snake_def deref_def)
qed

lemma demo_board: "demo dev v0 st v \<Longrightarrow> board_ok st"
proof (induction rule: demo.induct)
  case (start ps me tids st v)
  then show ?case by (intro setup_board)
next
  case (turn st v fuel p st' v')
  show ?case by (rule run_snake_board [OF turn(3) turn_listed(1) [OF turn(3,2)] turn(2)])
next
  case (hungry_turn st v fuel p st' v')
  show ?case by (rule run_hungry_snake_board [OF hungry_turn(3) turn_listed(2) [OF hungry_turn(3,2)] hungry_turn(2)])
next
  case (first_food st v fuel st' v')
  show ?case by (rule place_first_food_board [OF first_food(3,2)])
next
  case (set_delay st v msec)
  then show ?case by (intro set_delay_board)
qed (simp add: kill_snake_def)













section \<open>Snakes that are freed\<close>

text \<open>C39: A killed snake runs on. After \<open>kill_snake\<close> the next turn of any snake in the list frees it, clears the flag and
  leaves all other snakes; but \<open>kexit\<close> returns, so the loop of its thread goes on, and its next turn accesses the freed snake.\<close>

theorem killed_snake_runs_on:
  assumes "demo dev v0 st v" and "p \<in> set (allsnakes st)" and "2 ^ 32 + 2 \<le> fuel"
  shows "\<exists>st' v'. run_snake fuel dev p (kill_snake st) v = Done (st', v') \<and> \<not> endsnake st'
     \<and> set (allsnakes st') = set (allsnakes st) - {p} \<and> halts (run_snake fuel dev p st' v')"
proof -
  let ?k = "kill_snake st"
  have ok: "board_ok ?k" and p: "p \<in> set (allsnakes ?k)" using demo_board [OF assms(1)] assms(2) by (simp_all add: kill_snake_def)
  obtain s where s: "snake_at ?k p = Some s" "snake_ok ?k s" "deref p ?k = Done s" using board_okD [OF ok p] by blast
  have f: "4294967298 \<le> fuel" using assms(3) by simp
  obtain sd d h where mv: "move_snake fuel p ?k =
      Done (put_snake p (s\<lparr>dir := d, body := h # butlast (body s)\<rparr>) (?k\<lparr>seed := sd\<rparr>))" (is "_ = Done ?m")
    using move_from_ends [OF f, of "dir s" s p ?k] derefD [OF s(3)] s(3) by (auto simp: move_snake_def)
  have m: "board_ok ?m" "allsnakes ?m = allsnakes ?k" using move_snake_board [OF ok p mv] by auto
  have e: "board_ok (?m\<lparr>endsnake := False\<rparr>)" "p \<in> set (allsnakes (?m\<lparr>endsnake := False\<rparr>))" using m p by simp_all
  obtain st' where st': "free_snake p (?m\<lparr>endsnake := False\<rparr>) = Done st'" "board_ok st'" "allsnakes st' = remove1 p (allsnakes ?m)"
    using free_snake_board [OF e] by auto
  obtain sm where sm: "deref p ?m = Done sm" using board_okD [OF m(1)] m(2) p by metis
  have sm': "deref p (?m\<lparr>endsnake := False\<rparr>) = Done sm" using sm by (simp add: deref_def)
  have flag: "endsnake ?m" "\<not> endsnake st'" using st'(1) by (auto simp: kill_snake_def put_snake_def free_snake_def)
  have run: "run_snake fuel dev p ?k v = Done (st', erase_snake dev sm (draw_snake dev sm (erase_snake dev s v)))"
    using s(3) mv sm sm' flag(1) st'(1) by (simp add: run_snake_def check_endsnake_def)
  have rest: "set (allsnakes st') = set (allsnakes st) - {p}" using st'(3) m ok by (simp add: board_ok_def kill_snake_def)
  then have "p \<notin> set (allsnakes st')" by simp
  from gone_halts [OF st'(2) this] show ?thesis using run flag(2) rest by blast
qed

text \<open>A hungry snake of the last colour that reaches the food is freed and then drawn.\<close>

theorem full_snake_drawn_freed:
  assumes "deref p st = Done s" and "move_hungry_snake fuel p st = Done st1" and "deref p st1 = Done s1"
    and "onfood s1 st1" "color s1 = MAX_VISIBLE_SNAKE" and "place_food fuel st1 = Done st2" and "p \<in> set (allsnakes st2)"
  shows "halts (run_hungry_snake fuel dev p st v)"
proof -
  let ?t = "put_snake p (s1\<lparr>color := color s1 + 1\<rparr>) st2"
  have "p \<in> set (allsnakes ?t)" using assms(7) by (simp add: put_snake_def)
  then obtain st3 where st3: "free_snake p ?t = Done st3" using unlink_done [of p "allsnakes ?t"] by (simp add: free_snake_def)
  have "halts (res_bind (deref p st3) g)" for g :: "snake_st \<Rightarrow> (snakes \<times> 'a vga_state_scheme) res"
    using freed_halts [OF st3] by simp
  then show ?thesis using assms st3 by (simp add: run_hungry_snake_def eat_food_def)
qed

section \<open>The theorem on a concrete input\<close>

definition seven :: "(addr \<times> addr) list" where
  "seven = [(0x1000, 0x1040), (0x2000, 0x2040), (0x3000, 0x3040), (0x4000, 0x4040), (0x5000, 0x5040), (0x6000, 0x6040), (0x7000, 0x7040)]"

lemma no_pids: "give_pids (zip ps (replicate n None)) st = Done st"
proof (induction ps arbitrary: n)
  case (Cons p ps)
  then show ?case by (cases n) auto
qed simp

lemma sample_demo:
  "\<exists>st v. setup_snakes (\<lambda>_ _. 0) 1 seven (replicate 7 None) snakes_start blank_screen = Done (st, v)
     \<and> demo (\<lambda>_ _. 0) blank_screen st v \<and> allsnakes st = rev (map fst seven)"
proof -
  obtain st v where su: "setup_snakes (\<lambda>_ _. 0) 1 seven (replicate 7 None) snakes_start blank_screen = Done (st, v)"
    by (simp only: setup_snakes_def no_pids Let_def res_bind.simps)
  have "allsnakes st = rev (map fst seven)"
    using su by (simp only: setup_snakes_def no_pids Let_def res_bind.simps)
      (auto simp: first_snakes_def seven_def add_snake_def new_snake_def put_snake_def Let_def snakes_start_def)
  moreover have "distinct (map fst seven)" "\<forall>p \<in> set seven. fst p \<noteq> NULL \<and> snd p \<noteq> NULL" by (simp_all add: seven_def)
  ultimately show ?thesis using su demo.start by blast
qed


theorem killed_snake_runs_on_witness:
  "\<exists>st (v :: vga_state) st' v'. run_snake (2 ^ 32 + 2) (\<lambda>_ _. 0) 0x3000 (kill_snake st) v = Done (st', v')
     \<and> 0x3000 \<in> set (allsnakes st) \<and> 0x3000 \<notin> set (allsnakes st') \<and> halts (run_snake (2 ^ 32 + 2) (\<lambda>_ _. 0) 0x3000 st' v')"
proof -
  obtain st v where st: "demo (\<lambda>_ _. 0) blank_screen st v" "allsnakes st = rev (map fst seven)" using sample_demo by blast
  have p: "0x3000 \<in> set (allsnakes st)" by (simp add: st(2) seven_def)
  from killed_snake_runs_on [OF st(1) p order_refl] obtain st' v'
    where run: "run_snake (2 ^ 32 + 2) (\<lambda>_ _. 0) 0x3000 (kill_snake st) v = Done (st', v')"
      and gone: "set (allsnakes st') = set (allsnakes st) - {0x3000}"
      and h: "halts (run_snake (2 ^ 32 + 2) (\<lambda>_ _. 0) 0x3000 st' v')"
    by (elim exE conjE)
  have "0x3000 \<notin> set (allsnakes st')" unfolding gone by simp
  then show ?thesis using run p h by (intro exI [of _ st] exI [of _ v] exI [of _ st'] exI [of _ v'] conjI)
qed

end
