(* ===== verification/Spec2Isabelle.thy ===== *)
theory Spec2Isabelle
  imports HeapRun ProcProps MemTests IrqProps CString SerialProps VgaProps PrintkProps
    KeyboardProps DescriptorProps Running Booted FlatMem SnakesProps
begin

text \<open>
  \<^bold>\<open>BricOS\<close> (src/Bric\_OS) is a 64-bit x86 kernel in C: a memory manager with demand paging, a heap,
  cooperative threads with a round-robin scheduler, interrupt dispatch over two 8259 controllers, and
  drivers for the text screen, the serial port and the PS/2 keyboard, with a small C library below
  them and a demonstration, the snakes, above them. This development models those parts as executable functions on explicit state, one theory per
  part of the source, and proves what makes each of them correct. Definitions keep the names of the C
  functions, macros and types.

  \<^bold>\<open>Conventions.\<close> Machine integers are words (\<open>u8\<close> to \<open>u64\<close>, \<open>addr\<close>), so they wrap as in C. Memory is
  a function from addresses to bytes; fields wider than a byte are read and written little endian
  (Memory). An operation that may stop the machine returns \<open>res\<close> (Prelude): \<open>Done x\<close>, \<open>Halt msg\<close> for
  \<open>OS_ERROR_HALT\<close>, \<open>HLT\<close> and undefined behaviour of C, or \<open>NoFuel\<close>. (One overflow that C leaves undefined wraps instead, the negation
  of the most negative number in \<open>format_ll_base_n\<close>.) Fuel is used only for loops that
  the C code does not bound: lists threaded through memory, the tags of the boot information, polling
  loops of the keyboard and the running-off of \<open>strchr\<close>. The properties say how much is enough: the
  length of the list, the number of tags, the poll at which the device answers, the period of the
  snakes' random generator (\<open>2 ^ 32 + 2\<close> rounds of their search); and
  \<open>find_tag_zero_size_never_ends\<close> shows a loop for which no amount is.
  A device is a function that gives the byte read from a port after a history of port accesses; the
  history is the \<open>trace\<close> of the machine. Messages printed through \<open>OS_INFO\<close>, \<open>OS_WARN\<close> and
  \<open>OS_ERROR\<close> are recorded in \<open>klog\<close> with their arguments instead of being formatted and displayed; the
  direct calls of \<open>printk\<close> (the splash screen and the last line of the start-up) are run in full.
  The states of the drivers extend one another as records: machine, irq\_state, timer\_state,
  serial\_state, vga\_state, kbd\_state.

  \<^bold>\<open>Theories and source files.\<close>
  \<^item> Prelude, Memory: result type, words, byte memory (no code of their own).
  \<^item> PageFrames, PageTables, VirtMem, MmuInit, with MmuProps, BootProps, VirtSpace and FlatMem:
    src/drivers/mmu\_driver.c. The range list and the free list of page frames
    (\<open>alloc_new_pf\<close>, \<open>MMU_pf_alloc\<close>, \<open>MMU_pf_free\<close>); the four-level tables (\<open>get_pt_entry\<close>, \<open>map_page\<close>,
    \<open>virt_to_phys\<close>); demand pages (\<open>MMU_alloc_page\<close>, \<open>page_fault_irq\<close>, \<open>MMU_free_page\<close>), \<open>kbrk\<close>; and
    the set-up (\<open>addr_map_init\<close>, \<open>MMU_init\<close>). VirtSpace puts them together as a transition system
    (\<open>mem_step\<close>) from the state the set-up leaves; FlatMem is the byte memory behind the pages.
  \<^item> MemTests: the memory tests of src/boot/kernel\_main.c, which access their pages through the
    page-fault handler.
  \<^item> Multiboot: src/boot/multiboot2.c, the tag list of the boot loader.
  \<^item> Kmalloc, HeapList, HeapOps, HeapBrk, KmallocProps, HeapRun: lib/kmalloc.c. The heap is the doubly linked
    list of headers in memory; \<open>kbrk\<close> is an argument, instantiated with the memory manager's.
    HeapRun is the heap in use (\<open>heap_step\<close>), over a record of what the callers wrote.
  \<^item> Sched, Proc, ProcProps: lib/ksched.c and lib/kproc.c. Thread structures are bytes of the heap; the
    active scheduler is a record of operations as in \<open>struct scheduler\<close>, and schedulers other than the
    default are a parameter (\<open>others\<close>).
  \<^item> PortIO: lib/common.c, ports, delays, atomics and the binary semaphore of lib/common.h.
  \<^item> Irq, IrqProps: src/ISR/pic.c, src/ISR/irq\_handler.c, src/drivers/timer\_driver.c. Function pointers
    in the handler table are a datatype of the kernel's handlers; what a call through one runs is an
    argument of the dispatcher, and \<open>call_handler\<close> (Keyboard) for the drivers' handlers.
  \<^item> Descriptors, DescriptorProps: src/ISR/gdt.c and src/ISR/idt.c.
  \<^item> CString: lib/string.c, on byte memory.
  \<^item> Serial, SerialProps: src/drivers/serial\_io\_driver.c. The pointers into the ring are indices.
  \<^item> Vga, VgaProps: src/drivers/vga\_driver.c. The screen is 4000 bytes of a memory of its own.
  \<^item> Printk, PrintkProps: lib/printk.c. The buffer is a list; its size is a theorem.
  \<^item> Keyboard, KeyboardProps: src/drivers/ps2\_keyboard\_driver.c.
  \<^item> Observers: interfaces for what the drivers' output leaves alone (no code of its own).
  \<^item> KernelMain, KernelProps, Running, Booted: src/boot/kernel\_main.c, \<open>IRQ_init\<close>, and src/boot/splash.h: the order of
    the start-up and the first run of the scheduler, over the state of all parts;
    Running is the kernel after it (\<open>kernel_step\<close>), Booted its memory manager after it.
  \<^item> Snakes, SnakesMoves, SnakesProps: test/snakes.c. Snakes are objects of a store, addressed by the
    pointers \<open>kmalloc\<close> returned; the list \<open>allsnakes\<close> is a list of pointers, and a body a list of points. A turn is one
    round of a snake's thread, up to the call of \<open>yield\<close>; \<open>kexit\<close> returns, so a round goes on after it. Drawing goes
    through the VGA driver; \<open>kfree\<close> ends the life of a snake's object, whose later use is undefined behaviour.

  \<^bold>\<open>What is proved.\<close>
  \<^item> Memory manager: allocated frames are distinct and held by nobody else; \<open>map_page\<close> refines the update
    of an abstract page table and \<open>virt_to_phys\<close> computes its translation; the life cycle of a demand
    page through allocation, fault, translation and release; the set-up maps the first 513 pages to
    themselves and hands out no frame of the kernel image; and which calls halt.
  \<^item> Memory manager in use: in every state reached by its operations and by writes of their callers,
    in any order and with any number of frames left, each frame has one owner, pages do not alias, and
    memory in use changes only by writes to it (VirtSpace). A kernel that booted on a well-formed memory
    map is in such a state, and no run hands out or changes a frame of its image (Booted). Through the
    pages, memory is one array of bytes, the byte memory on which the heap, the threads and the strings
    are modelled (FlatMem). The lemmas that end in \<open>_cases\<close> say that an operation either halts with few frames
    left or succeeds; the total forms (\<open>_ok\<close>) follow. The memory tests are run on the same model (MemTests), in which, as
    everywhere in the model of the memory manager, each frame is accessible at its physical address; the kernel maps
    only the first 2 MiB (\<open>frames_above_2MiB_unreachable\<close>).
  \<^item> Heap, between extensions: the list of headers represents a list of blocks that is well formed and coalesced; \<open>kmalloc\<close>,
    \<open>kfree\<close>, \<open>krealloc\<close> and \<open>kcalloc\<close> are operations on it that keep the payload of every other block,
    and \<open>kfree\<close> undoes \<open>kmalloc\<close>; growing goes through the interface \<open>brk_provider\<close>.
    In any sequence of requests, releases and writes the live blocks keep their contents (HeapRun), as
    long as the list can serve the requests: the second extension overlaps the first
    (\<open>extend_twice\<close>), so no such result holds beyond it.
  \<^item> Threads: the round-robin scheduler refines a queue (interface \<open>scheduler\<close>), so no thread starves;
    what the tasking system does with it, including the faults that follow from \<open>sizeof\<close> of a pointer
    and from admitting a thread twice.
  \<^item> Interrupts: the mask functions against the data sheet of the controllers, what dispatch runs and
    acknowledges, and the relation between the kernel's record and the processor's flag.
  \<^item> Descriptor tables: what the processor decodes from them is what the code encoded.
  \<^item> Drivers: the serial ring is a bounded FIFO (interface \<open>bounded_fifo\<close>); the cursor stays on the
    screen and writes stay in it; the keyboard follows a reference layout, by the last events of the shift and caps keys, after any history of scan
    codes; \<open>printk\<close> agrees with a reference formatter on string arguments below 32 bytes, keeps its buffer bound, and its numbers read back.
  \<^item> Start-up: which handlers are installed, which lines are open and what the interrupt state is when
    the initialisation succeeds, and that it does succeed on a concrete machine (\<open>power_on_boots\<close>).
    A part of the state that the port accesses leave alone is left alone by all output
    (\<open>port_observer\<close>, \<open>console_observer\<close>, \<open>serial_observer\<close>, \<open>output_observer\<close>).
  \<^item> Running kernel: what every driver operation keeps, the dispatcher and all output keep
    (\<open>driver_invariant\<close>), and the start-up establishes it (\<open>boot_invariant\<close>); instantiated with the
    cursor and the keys, the transmit ring, the handler table, and the interrupt record, this gives
    the invariant of all reachable states, and that no device interrupt stops the kernel.
  \<^item> Strings: the functions of the C library on strings in memory; \<open>strcmp\<close> decides the lexicographic order.
  \<^item> Snakes: the search for a way out ends, because the generator has full period and so draws every direction; and
    in every state the demonstration reaches the snakes are on the board, in one piece and apart, and only the screen
    is written (\<open>demo\<close>). Its faults: a killed or full snake is used after it was freed
    (\<open>killed_snake_runs_on\<close>, \<open>full_snake_drawn_freed\<close>).

  \<^bold>\<open>Not modelled.\<close> The assembly files (entry to long mode, interrupt stubs, the context switch that
  would load a thread's registers); the TLB, so that \<open>invlpg\<close> and the load of CR3 have no effect (an access through
  a page goes to the frame in its last-level entry); the tests test/tests.c and
  test/kmalloc\_tests.c; of the snakes, the creation of their threads and the empty delay loop; block\_dev.c and fs.c, all of whose
  code is commented out; lib/errno.h beyond the two numbers the heap uses; the text of the splash
  screen, which is an argument. Interrupts do not occur inside the modelled operations: a handler runs as a step between them. Because messages are
  recorded rather than printed, the writes of \<open>OS_INFO\<close> to a ring that is not yet initialised, early in
  the start-up, are not represented.
\<close>

end
